(* ===== verification/Kern_Prelude.thy ===== *)
theory Kern_Prelude
  imports Main "HOL-Library.Word"
begin

text \<open>
  Shared vocabulary of the development: the widths of the C types of an i386
  kernel, the error numbers of \<^verbatim>\<open>include/lib/errno.h\<close>, the collections of
  simplification facts that the component theories extend, and generic facts
  on lists, function updates and bit operations.

  Conventions.  A pointer is a \<^typ>\<open>nat\<close> below \<open>2 ^ 32\<close> and \<open>0\<close> is
  \<^verbatim>\<open>NULL\<close>.  An \<^verbatim>\<open>int\<close> result that carries an error as a negative number is an
  \<^typ>\<open>int\<close>.  A C character is a \<^typ>\<open>char\<close> (a byte).
\<close>

unbundle bit_operations_syntax

type_synonym u8 = "8 word"
type_synonym u16 = "16 word"
type_synonym u32 = "32 word"
type_synonym addr = nat

abbreviation NULL :: addr where "NULL \<equiv> 0"

named_theorems store_simps "reads and writes of the explicit stores"
named_theorems abs_intros "preservation of the abstraction predicates"

section \<open>Error numbers\<close>

definition EPERM :: int where "EPERM = 1"
definition ENOENT :: int where "ENOENT = 2"
definition EBADF :: int where "EBADF = 9"
definition EAGAIN :: int where "EAGAIN = 11"
definition EFAULT :: int where "EFAULT = 14"
definition ENOTDIR :: int where "ENOTDIR = 20"
definition EISDIR :: int where "EISDIR = 21"
definition EINVAL :: int where "EINVAL = 22"
definition ENFILE :: int where "ENFILE = 23"
definition ENOTTY :: int where "ENOTTY = 25"
definition ENOSYS :: int where "ENOSYS = 38"

lemmas errno_defs = EPERM_def ENOENT_def EBADF_def EAGAIN_def EFAULT_def ENOTDIR_def
  EISDIR_def EINVAL_def ENFILE_def ENOTTY_def ENOSYS_def

section \<open>Lists\<close>

lemma find_append: "find P (xs @ ys) = (case find P xs of Some x \<Rightarrow> Some x | None \<Rightarrow> find P ys)"
  by (induction xs) auto

lemma set_list_update_eq:
  "i < length xs \<Longrightarrow> set (xs[i := v]) = insert v (set (take i xs) \<union> set (drop (Suc i) xs))"
  by (simp add: upd_conv_take_nth_drop)

lemma takeWhile_drop_append:
  "takeWhile P xs @ dropWhile P xs = xs"
  by (fact takeWhile_dropWhile_id)

lemma find_SomeD: "find P xs = Some x \<Longrightarrow> x \<in> set xs \<and> P x"
  by (auto simp: find_Some_iff)

end
