(* ===== verification/Lib_List.thy ===== *)
theory Lib_List
  imports Kern_Prelude
begin

text \<open>
  The intrusive lists of \<^verbatim>\<open>src/kern/lib/list.c\<close>: circular doubly linked lists
  (\<^verbatim>\<open>struct list_head\<close>) and hash-bucket lists (\<^verbatim>\<open>struct hlist_head\<close>,
  \<^verbatim>\<open>struct hlist_node\<close> with its pointer-to-pointer \<^verbatim>\<open>pprev\<close>).  Both work on an
  explicit store, so aliasing is part of the model: each definition performs the
  field writes of its C function, in the C function's order.
\<close>

section \<open>Circular doubly linked lists\<close>

record lstore =
  nxt :: "addr \<Rightarrow> addr"
  prv :: "addr \<Rightarrow> addr"

definition set_nxt :: "addr \<Rightarrow> addr \<Rightarrow> lstore \<Rightarrow> lstore" where
  "set_nxt a v s = s\<lparr>nxt := (nxt s)(a := v)\<rparr>"

definition set_prv :: "addr \<Rightarrow> addr \<Rightarrow> lstore \<Rightarrow> lstore" where
  "set_prv a v s = s\<lparr>prv := (prv s)(a := v)\<rparr>"

lemma nxt_set_nxt [simp, store_simps]: "nxt (set_nxt a v s) = (nxt s)(a := v)"
  and nxt_set_prv [simp, store_simps]: "nxt (set_prv a v s) = nxt s"
  and prv_set_prv [simp, store_simps]: "prv (set_prv a v s) = (prv s)(a := v)"
  and prv_set_nxt [simp, store_simps]: "prv (set_nxt a v s) = prv s"
  by (simp_all add: set_nxt_def set_prv_def)

definition init_list :: "addr \<Rightarrow> lstore \<Rightarrow> lstore" where
  "init_list head s = set_prv head head (set_nxt head head s)"

definition list_add :: "addr \<Rightarrow> addr \<Rightarrow> lstore \<Rightarrow> lstore" where
  "list_add new head s0 =
     (let s1 = set_nxt new (nxt s0 head) s0;
          s2 = set_prv new head s1;
          s3 = set_prv (nxt s2 head) new s2;
          s4 = set_nxt head new s3
      in s4)"

definition list_add_tail :: "addr \<Rightarrow> addr \<Rightarrow> lstore \<Rightarrow> lstore" where
  "list_add_tail new head s0 =
     (let s1 = set_nxt new head s0;
          s2 = set_prv new (prv s1 head) s1;
          s3 = set_nxt (prv s2 head) new s2;
          s4 = set_prv head new s3
      in s4)"

definition list_del :: "addr \<Rightarrow> lstore \<Rightarrow> lstore" where
  "list_del ent s0 =
     (let s1 = set_nxt (prv s0 ent) (nxt s0 ent) s0;
          s2 = set_prv (nxt s1 ent) (prv s1 ent) s1;
          s3 = set_nxt ent ent s2;
          s4 = set_prv ent ent s3
      in s4)"

definition list_move_front :: "addr \<Rightarrow> addr \<Rightarrow> lstore \<Rightarrow> lstore" where
  "list_move_front thing head s = list_add thing head (list_del thing s)"

lemmas list_ops_defs = init_list_def list_add_def list_add_tail_def list_del_def
  list_move_front_def

subsection \<open>Abstraction to HOL lists\<close>

fun dseg :: "lstore \<Rightarrow> addr \<Rightarrow> addr list \<Rightarrow> addr \<Rightarrow> bool" where
  "dseg s a [] b = (nxt s a = b \<and> prv s b = a)"
| "dseg s a (x # xs) b = (nxt s a = x \<and> prv s x = a \<and> dseg s x xs b)"

definition dlist :: "lstore \<Rightarrow> addr \<Rightarrow> addr list \<Rightarrow> bool" where
  "dlist s h xs \<longleftrightarrow> distinct (h # xs) \<and> dseg s h xs h"

lemma dseg_append:
  "dseg s a (xs @ x # ys) b \<longleftrightarrow> dseg s a xs x \<and> dseg s x ys b"
  by (induction xs arbitrary: a) auto

lemma dseg_cong:
  assumes "\<And>z. z \<in> insert a (set xs) \<Longrightarrow> nxt s' z = nxt s z"
    and "\<And>z. z \<in> insert b (set xs) \<Longrightarrow> prv s' z = prv s z"
  shows "dseg s' a xs b = dseg s a xs b"
  using assms by (induction xs arbitrary: a) auto

lemma dseg_first: "dseg s a xs b \<Longrightarrow> nxt s a = hd (xs @ [b])"
  by (cases xs) auto

lemma dseg_last: "dseg s a xs b \<Longrightarrow> prv s b = last (a # xs)"
  by (induction xs arbitrary: a) auto

lemma dlist_first: "dlist s h xs \<Longrightarrow> nxt s h = hd (xs @ [h])"
  by (simp add: dlist_def dseg_first)

lemma dlist_empty_iff: "dlist s h xs \<Longrightarrow> nxt s h = h \<longleftrightarrow> xs = []"
  by (cases xs) (auto simp: dlist_def)

lemma dlist_unique:
  assumes "dlist s h xs" and "dlist s h ys"
  shows "xs = ys"
proof -
  have "dseg s a xs h \<Longrightarrow> dseg s a ys h \<Longrightarrow> h \<notin> set xs \<Longrightarrow> h \<notin> set ys \<Longrightarrow> xs = ys" for a
  proof (induction xs arbitrary: a ys)
    case Nil
    then show ?case by (cases ys) auto
  next
    case (Cons x xs)
    then show ?case by (cases ys) auto
  qed
  with assms show ?thesis by (auto simp: dlist_def)
qed

lemma dlist_init [abs_intros]: "dlist (init_list h s) h []"
  by (simp add: dlist_def init_list_def)

text \<open>Writes outside a list do not change it.\<close>

lemma dlist_frame:
  assumes "dlist s h xs"
    and "\<And>z. z \<in> set (h # xs) \<Longrightarrow> nxt s' z = nxt s z \<and> prv s' z = prv s z"
  shows "dlist s' h xs"
proof -
  from assms(2) have "dseg s' h xs h = dseg s h xs h"
    by (intro dseg_cong) auto
  with assms(1) show ?thesis by (simp add: dlist_def)
qed

lemma dlist_list_add [abs_intros]:
  assumes "dlist s h xs" and "new \<notin> set (h # xs)"
  shows "dlist (list_add new h s) h (new # xs)"
proof (cases xs)
  case Nil
  with assms show ?thesis by (auto simp: dlist_def list_add_def Let_def)
next
  case (Cons y ys)
  have *: "dseg (list_add new h s) y ys h = dseg s y ys h"
    using assms Cons by (intro dseg_cong) (auto simp: dlist_def list_add_def Let_def)
  with assms Cons show ?thesis
    by (auto simp: dlist_def list_add_def Let_def)
qed

lemma dlist_list_add_tail [abs_intros]:
  assumes "dlist s h xs" and "new \<notin> set (h # xs)"
  shows "dlist (list_add_tail new h s) h (xs @ [new])"
proof (cases xs rule: rev_cases)
  case Nil
  with assms show ?thesis by (auto simp: dlist_def list_add_tail_def Let_def)
next
  case (snoc ys y)
  have *: "dseg (list_add_tail new h s) h ys y = dseg s h ys y"
    using assms snoc
    by (intro dseg_cong) (auto simp: dlist_def list_add_tail_def Let_def dseg_append)
  with assms snoc show ?thesis
    by (auto simp: dlist_def list_add_tail_def Let_def dseg_append)
qed

lemma list_del_nodes:
  assumes "dlist s h (xs @ e # ys)"
  shows "nxt (list_del e s) = (nxt s)(last (h # xs) := hd (ys @ [h]), e := e)"
    and "prv (list_del e s) = (prv s)(hd (ys @ [h]) := last (h # xs), e := e)"
proof -
  from assms have "dseg s h xs e" "dseg s e ys h" "distinct (h # xs @ e # ys)"
    by (auto simp: dlist_def dseg_append)
  moreover from this have "prv s e = last (h # xs)" "nxt s e = hd (ys @ [h])"
    by (auto dest: dseg_last dseg_first)
  moreover have "last (h # xs) \<noteq> e"
    using \<open>distinct (h # xs @ e # ys)\<close> last_in_set [of "h # xs"] by auto
  ultimately show "nxt (list_del e s) = (nxt s)(last (h # xs) := hd (ys @ [h]), e := e)"
    and "prv (list_del e s) = (prv s)(hd (ys @ [h]) := last (h # xs), e := e)"
    by (simp_all add: list_del_def Let_def)
qed

lemma dseg_join:
  assumes "dseg s a xs m" "dseg s e ys b" "distinct (a # xs)" "distinct ys" "b \<notin> set ys"
    and "set (a # xs) \<inter> set ys = {}" "b \<notin> set xs"
    and "nxt s' = (nxt s)(last (a # xs) := hd (ys @ [b]), e := e)"
    and "prv s' = (prv s)(hd (ys @ [b]) := last (a # xs), e := e)"
    and "e \<notin> set (a # xs)" "e \<notin> set ys" "e \<noteq> b"
  shows "dseg s' a (xs @ ys) b"
  using assms
proof (induction xs arbitrary: a)
  case Nil
  then show ?case
  proof (cases ys)
    case (Cons y zs)
    have "dseg s' y zs b = dseg s y zs b"
      using Nil.prems Cons by (intro dseg_cong) auto
    with Nil.prems Cons show ?thesis by auto
  qed auto
next
  case (Cons x xs)
  have "dseg s' x (xs @ ys) b"
    by (rule Cons.IH) (use Cons.prems in auto)
  moreover have "nxt s' a = x" "prv s' x = a"
    using Cons.prems by (auto split: list.splits simp: hd_append)
  ultimately show ?case by simp
qed

lemma dlist_list_del [abs_intros]:
  assumes "dlist s h (xs @ e # ys)"
  shows "dlist (list_del e s) h (xs @ ys)"
    and "dlist (list_del e s) e []"
proof -
  from assms have d: "dseg s h xs e" "dseg s e ys h" "distinct (h # xs @ e # ys)"
    by (auto simp: dlist_def dseg_append)
  have "dseg (list_del e s) h (xs @ ys) h"
    by (rule dseg_join [OF d(1,2) _ _ _ _ _ list_del_nodes [OF assms]]) (use d(3) in auto)
  with d(3) show "dlist (list_del e s) h (xs @ ys)" by (auto simp: dlist_def)
  show "dlist (list_del e s) e []"
    by (simp add: dlist_def list_del_def Let_def)
qed

lemma dlist_list_move_front [abs_intros]:
  assumes "dlist s h (xs @ e # ys)"
  shows "dlist (list_move_front e h s) h (e # xs @ ys)"
  using assms dlist_list_add [OF dlist_list_del(1) [OF assms], of e]
  by (auto simp: list_move_front_def dlist_def)

text \<open>Deleting a node that is only linked to itself changes nothing.\<close>

lemma list_del_self: "dlist s e [] \<Longrightarrow> list_del e s = s"
  by (cases s) (auto simp: dlist_def list_del_def Let_def set_nxt_def set_prv_def)

lemma dlist_list_add_frame:
  assumes "dlist s h xs" "dlist s g zs" "set (h # n # xs) \<inter> set (g # zs) = {}"
  shows "dlist (list_add n h s) g zs"
proof (rule dlist_frame [OF assms(2)])
  fix z assume z: "z \<in> set (g # zs)"
  have "nxt s h \<in> set (h # xs)"
    using dlist_first [OF assms(1)] by (cases xs) auto
  with z assms(3) show "nxt (list_add n h s) z = nxt s z \<and> prv (list_add n h s) z = prv s z"
    by (auto simp: list_add_def Let_def)
qed

lemma dlist_list_del_frame:
  assumes "dlist s h (xs @ e # ys)" "dlist s g zs" "set (h # xs @ e # ys) \<inter> set (g # zs) = {}"
  shows "dlist (list_del e s) g zs"
proof (rule dlist_frame [OF assms(2)])
  fix z assume z: "z \<in> set (g # zs)"
  have "last (h # xs) \<in> set (h # xs)" "hd (ys @ [h]) \<in> set (h # ys)"
    by (simp, cases ys) auto
  with z assms(3) show "nxt (list_del e s) z = nxt s z \<and> prv (list_del e s) z = prv s z"
    by (auto simp: list_del_nodes [OF assms(1)] simp del: last.simps)
qed

section \<open>Hash-bucket lists\<close>

text \<open>
  A \<^verbatim>\<open>struct hlist_node **\<close> points at the \<^verbatim>\<open>first\<close> field of a bucket head or at the
  \<^verbatim>\<open>next\<close> field of a node; \<open>LNull\<close> is the null pointer-to-pointer.
\<close>

datatype hloc = LNull | LFirst addr | LNext addr

record hstore =
  hfirst :: "addr \<Rightarrow> addr"
  hnext :: "addr \<Rightarrow> addr"
  hpprev :: "addr \<Rightarrow> hloc"

definition set_hnext :: "addr \<Rightarrow> addr \<Rightarrow> hstore \<Rightarrow> hstore" where
  "set_hnext a v s = s\<lparr>hnext := (hnext s)(a := v)\<rparr>"

definition set_hpprev :: "addr \<Rightarrow> hloc \<Rightarrow> hstore \<Rightarrow> hstore" where
  "set_hpprev a v s = s\<lparr>hpprev := (hpprev s)(a := v)\<rparr>"

definition set_hfirst :: "addr \<Rightarrow> addr \<Rightarrow> hstore \<Rightarrow> hstore" where
  "set_hfirst a v s = s\<lparr>hfirst := (hfirst s)(a := v)\<rparr>"

text \<open>The assignment \<^verbatim>\<open>*pprev = v\<close>; writing through the null pointer faults.\<close>

fun store_at :: "hloc \<Rightarrow> addr \<Rightarrow> hstore \<Rightarrow> hstore option" where
  "store_at LNull v s = None"
| "store_at (LFirst h) v s = Some (set_hfirst h v s)"
| "store_at (LNext a) v s = Some (set_hnext a v s)"

lemma hstore_simps [simp, store_simps]:
  "hnext (set_hnext a v s) = (hnext s)(a := v)"
  "hnext (set_hpprev a l s) = hnext s" "hnext (set_hfirst a v s) = hnext s"
  "hpprev (set_hpprev a l s) = (hpprev s)(a := l)"
  "hpprev (set_hnext a v s) = hpprev s" "hpprev (set_hfirst a v s) = hpprev s"
  "hfirst (set_hfirst a v s) = (hfirst s)(a := v)"
  "hfirst (set_hnext a v s) = hfirst s" "hfirst (set_hpprev a l s) = hfirst s"
  by (simp_all add: set_hnext_def set_hpprev_def set_hfirst_def)

definition hlist_add_head :: "addr \<Rightarrow> addr \<Rightarrow> hstore \<Rightarrow> hstore" where
  "hlist_add_head new head s0 =
     (let s1 = set_hnext new (hfirst s0 head) s0;
          s2 = set_hpprev new (LFirst head) s1;
          s3 = (if hnext s2 new \<noteq> NULL then set_hpprev (hnext s2 new) (LNext new) s2 else s2);
          s4 = set_hfirst head new s3
      in s4)"

text \<open>\<^verbatim>\<open>while(cur->next) cur = cur->next;\<close> reads through \<^verbatim>\<open>cur\<close>, so a null \<^verbatim>\<open>cur\<close>
  faults; on a cyclic chain the loop does not return.\<close>

partial_function (option) hlist_last :: "hstore \<Rightarrow> addr \<Rightarrow> addr option" where
  "hlist_last s cur =
     (if cur = NULL then None
      else if hnext s cur \<noteq> NULL then hlist_last s (hnext s cur)
      else Some cur)"

definition hlist_add_tail :: "addr \<Rightarrow> addr \<Rightarrow> hstore \<Rightarrow> hstore option" where
  "hlist_add_tail new head s0 =
     (let s1 = set_hnext new NULL s0;
          s2 = set_hpprev new LNull s1
      in case hlist_last s2 (hfirst s2 head) of
           None \<Rightarrow> None
         | Some cur \<Rightarrow> Some (set_hpprev new (LNext cur) (set_hnext cur new s2)))"

definition hlist_del :: "addr \<Rightarrow> hstore \<Rightarrow> hstore option" where
  "hlist_del node s0 =
     (let s1 = (if hnext s0 node \<noteq> NULL
                then set_hpprev (hnext s0 node) (hpprev s0 node) s0 else s0)
      in store_at (hpprev s1 node) (hnext s1 node) s1)"

subsection \<open>Abstraction to HOL lists\<close>

fun hseg :: "hstore \<Rightarrow> hloc \<Rightarrow> addr \<Rightarrow> addr list \<Rightarrow> bool" where
  "hseg s l p [] = (p = NULL)"
| "hseg s l p (x # xs) =
     (p = x \<and> x \<noteq> NULL \<and> hpprev s x = l \<and> hseg s (LNext x) (hnext s x) xs)"

definition hlist :: "hstore \<Rightarrow> addr \<Rightarrow> addr list \<Rightarrow> bool" where
  "hlist s h xs \<longleftrightarrow> distinct xs \<and> hseg s (LFirst h) (hfirst s h) xs"

lemma hseg_cong:
  assumes "\<And>z. z \<in> set xs \<Longrightarrow> hnext s' z = hnext s z \<and> hpprev s' z = hpprev s z"
  shows "hseg s' l p xs = hseg s l p xs"
  using assms by (induction xs arbitrary: l p) auto

lemma hseg_nonnull: "hseg s l p xs \<Longrightarrow> NULL \<notin> set xs"
  by (induction xs arbitrary: l p) auto

lemma hlist_nonnull: "hlist s h xs \<Longrightarrow> NULL \<notin> set xs"
  by (auto simp: hlist_def dest: hseg_nonnull)

lemma hlist_add_head_wf [abs_intros]:
  assumes "hlist s h xs" "new \<notin> set xs" "new \<noteq> NULL"
  shows "hlist (hlist_add_head new h s) h (new # xs)"
proof (cases xs)
  case Nil
  with assms show ?thesis by (auto simp: hlist_def hlist_add_head_def Let_def)
next
  case (Cons y ys)
  have "hseg (hlist_add_head new h s) (LNext y) p ys = hseg s (LNext y) p ys" for p
    using assms Cons by (intro hseg_cong) (auto simp: hlist_def hlist_add_head_def Let_def)
  with assms Cons show ?thesis
    by (auto simp: hlist_def hlist_add_head_def Let_def)
qed

lemma hlist_last_hseg:
  "hseg s l p (xs @ [x]) \<Longrightarrow> hlist_last s p = Some x"
proof (induction xs arbitrary: l p)
  case Nil
  then show ?case by (subst hlist_last.simps) auto
next
  case (Cons y ys)
  then have "p = y" "y \<noteq> NULL" and rest: "hseg s (LNext y) (hnext s y) (ys @ [x])" by auto
  moreover have "hnext s y \<noteq> NULL" using rest by (cases ys) auto
  ultimately show ?case using Cons.IH [OF rest] by (subst hlist_last.simps) auto
qed

lemma hseg_snoc_extend:
  assumes "hseg s l p (xs @ [x])" "distinct (xs @ [x])" "new \<notin> set (xs @ [x])" "new \<noteq> NULL"
    and "hnext s' = (hnext s)(new := NULL, x := new)"
    and "hpprev s' = (hpprev s)(new := LNext x)"
  shows "hseg s' l p (xs @ [x, new])"
  using assms by (induction xs arbitrary: l p) auto

lemma hlist_add_tail_wf [abs_intros]:
  assumes "hlist s h (xs @ [x])" "new \<notin> set (xs @ [x])" "new \<noteq> NULL"
  shows "\<exists>s'. hlist_add_tail new h s = Some s' \<and> hlist s' h (xs @ [x, new])"
proof -
  let ?s2 = "set_hpprev new LNull (set_hnext new NULL s)"
  from assms have seg: "hseg s (LFirst h) (hfirst s h) (xs @ [x])" and d: "distinct (xs @ [x])"
    by (auto simp: hlist_def)
  have "hseg ?s2 (LFirst h) (hfirst s h) (xs @ [x]) = hseg s (LFirst h) (hfirst s h) (xs @ [x])"
    using assms(2) by (intro hseg_cong) auto
  with seg have "hlist_last ?s2 (hfirst s h) = Some x" by (auto intro: hlist_last_hseg)
  then have eq: "hlist_add_tail new h s = Some (set_hpprev new (LNext x) (set_hnext x new ?s2))"
    by (simp add: hlist_add_tail_def Let_def)
  have "hseg (set_hpprev new (LNext x) (set_hnext x new ?s2)) (LFirst h) (hfirst s h) (xs @ [x, new])"
    by (rule hseg_snoc_extend [OF seg d assms(2,3)]) auto
  with eq d assms(2) show ?thesis by (auto simp: hlist_def)
qed

text \<open>On an empty bucket \<^verbatim>\<open>hlist_add_tail\<close> reads through the null \<^verbatim>\<open>first\<close>.\<close>

lemma hlist_add_tail_empty: "hlist s h [] \<Longrightarrow> hlist_add_tail new h s = None"
  by (subst hlist_add_tail_def) (simp add: hlist_def hlist_last.simps)

lemma hseg_pprev:
  "hseg s l p (xs @ e # ys) \<Longrightarrow> xs \<noteq> [] \<Longrightarrow> hpprev s e = LNext (last xs)"
  by (induction xs arbitrary: l p) (auto split: if_splits)

lemma hseg_del_first:
  assumes "hseg s l p (e # ys)" "distinct (e # ys)"
    and "\<And>z. z \<in> set ys \<Longrightarrow> hnext s' z = hnext s z"
    and "\<And>z. z \<in> set ys \<Longrightarrow> hpprev s' z = (if z = hnext s e then l else hpprev s z)"
  shows "hseg s' l (hnext s e) ys"
proof (cases ys)
  case (Cons y zs)
  have "hseg s' (LNext y) (hnext s y) zs = hseg s (LNext y) (hnext s y) zs"
    using assms Cons by (intro hseg_cong) auto
  with assms Cons show ?thesis by auto
qed (use assms in auto)

lemma hseg_del_inner:
  assumes "hseg s l p (xs @ e # ys)" "distinct (xs @ e # ys)" "xs \<noteq> []"
    and "\<And>z. z \<in> set (xs @ ys) \<Longrightarrow> hnext s' z = (if z = last xs then hnext s e else hnext s z)"
    and "\<And>z. z \<in> set (xs @ ys) \<Longrightarrow> hpprev s' z =
           (if z \<in> set ys \<and> z = hnext s e then LNext (last xs) else hpprev s z)"
  shows "hseg s' l p (xs @ ys)"
  using assms
proof (induction xs arbitrary: l p)
  case (Cons x xs)
  show ?case
  proof (cases "xs = []")
    case True
    have "hseg s' (LNext x) (hnext s e) ys"
      by (rule hseg_del_first [where p = e]) (use Cons.prems True in auto)
    with Cons.prems True show ?thesis by auto
  next
    case False
    have "hseg s' (LNext x) (hnext s x) (xs @ ys)"
      by (rule Cons.IH) (use Cons.prems False in auto)
    with Cons.prems False show ?thesis by auto
  qed
qed simp

lemma hseg_suffix: "hseg s l p (xs @ e # ys) \<Longrightarrow> hseg s (LNext e) (hnext s e) ys"
  by (induction xs arbitrary: l p) auto

lemma hseg_start: "hseg s l p xs \<Longrightarrow> p = (case xs of [] \<Rightarrow> NULL | x # _ \<Rightarrow> x)"
  by (cases xs) auto

lemma hlist_hnext:
  "hlist s h (xs @ e # ys) \<Longrightarrow> hnext s e = (case ys of [] \<Rightarrow> NULL | y # _ \<Rightarrow> y)"
  unfolding hlist_def by (blast dest: hseg_suffix hseg_start)

lemma hlist_hpprev:
  "hlist s h (xs @ e # ys) \<Longrightarrow> hpprev s e = (if xs = [] then LFirst h else LNext (last xs))"
  by (auto simp: hlist_def dest: hseg_pprev)

definition after_del :: "addr \<Rightarrow> addr list \<Rightarrow> addr \<Rightarrow> hstore \<Rightarrow> hstore" where
  "after_del h xs e s =
     (let s1 = (if hnext s e \<noteq> NULL then set_hpprev (hnext s e) (hpprev s e) s else s)
      in if xs = [] then set_hfirst h (hnext s e) s1 else set_hnext (last xs) (hnext s e) s1)"

lemma hlist_del_eq:
  assumes "hlist s h (xs @ e # ys)"
  shows "hlist_del e s = Some (after_del h xs e s)"
proof -
  have "hnext s e \<noteq> e"
    using hlist_hnext [OF assms] assms hlist_nonnull [OF assms]
    by (auto simp: hlist_def split: list.splits)
  then show ?thesis
    using hlist_hpprev [OF assms] by (simp add: hlist_del_def after_del_def Let_def)
qed

lemma hlist_after_del:
  assumes "hlist s h (xs @ e # ys)"
  shows "hlist (after_del h xs e s) h (xs @ ys)"
proof -
  from assms have seg: "hseg s (LFirst h) (hfirst s h) (xs @ e # ys)"
    and d: "distinct (xs @ e # ys)" by (auto simp: hlist_def)
  note nx = hlist_hnext [OF assms] and pp = hlist_hpprev [OF assms]
    and nn = hlist_nonnull [OF assms]
  show ?thesis
  proof (cases "xs = []")
    case True
    have "hseg (after_del h xs e s) (LFirst h) (hnext s e) ys"
      by (rule hseg_del_first [where p = e])
        (use seg d True nn pp nx in \<open>auto simp: after_del_def Let_def\<close>)
    with True d show ?thesis by (auto simp: hlist_def after_del_def Let_def)
  next
    case False
    then have "last xs \<in> set xs" by simp
    have "hseg (after_del h xs e s) (LFirst h) (hfirst s h) (xs @ ys)"
      by (rule hseg_del_inner [OF seg d False])
        (use False nn pp nx d \<open>last xs \<in> set xs\<close> in
          \<open>auto simp: after_del_def Let_def split: list.splits if_splits\<close>)
    with False d show ?thesis by (auto simp: hlist_def after_del_def Let_def)
  qed
qed

lemma hlist_frame:
  assumes "hlist s g zs" and "hfirst s' g = hfirst s g"
    and "\<And>z. z \<in> set zs \<Longrightarrow> hnext s' z = hnext s z \<and> hpprev s' z = hpprev s z"
  shows "hlist s' g zs"
  using assms hseg_cong [of zs s' s "LFirst g" "hfirst s g"] by (auto simp: hlist_def)

lemma hlist_add_head_frame:
  assumes "hlist s h xs" "hlist s g zs" "g \<noteq> h" "insert n (set xs) \<inter> set zs = {}"
  shows "hlist (hlist_add_head n h s) g zs"
proof (rule hlist_frame [OF assms(2)])
  fix z assume z: "z \<in> set zs"
  have "hfirst s h = NULL \<or> hfirst s h \<in> set xs"
    using assms(1) by (cases xs) (auto simp: hlist_def)
  with z assms(4) hlist_nonnull [OF assms(2)] have "z \<noteq> n" "z \<noteq> hfirst s h"
    by (metis disjoint_iff insertCI)+
  then show "hnext (hlist_add_head n h s) z = hnext s z \<and>
      hpprev (hlist_add_head n h s) z = hpprev s z"
    by (simp add: hlist_add_head_def Let_def)
qed (use assms(3) in \<open>simp add: hlist_add_head_def Let_def\<close>)

lemma hlist_after_del_frame:
  assumes "hlist s h (xs @ e # ys)" "hlist s g zs" "g \<noteq> h" "set (xs @ e # ys) \<inter> set zs = {}"
  shows "hlist (after_del h xs e s) g zs"
proof (rule hlist_frame [OF assms(2)])
  fix z assume z: "z \<in> set zs"
  have "hnext s e = NULL \<or> hnext s e \<in> set ys"
    by (subst (1 2) hlist_hnext [OF assms(1)]) (simp split: list.split)
  with z assms(4) hlist_nonnull [OF assms(2)] have "z \<noteq> hnext s e" by auto
  moreover have "xs = [] \<or> z \<noteq> last xs" using z assms(4)
    by (metis Un_iff disjoint_iff last_in_set set_append)
  ultimately show "hnext (after_del h xs e s) z = hnext s z \<and>
      hpprev (after_del h xs e s) z = hpprev s z"
    by (auto simp: after_del_def Let_def)
qed (use assms(3) in \<open>simp add: after_del_def Let_def\<close>)

section \<open>The interface of an intrusive list\<close>

text \<open>
  What the clients (the inode cache, the run and wait queues) rely on: a
  well-formedness relation between the store, a head and the list of nodes, the
  cells a list occupies, insertion at the front and removal of a member, each
  leaving the other lists of the store alone.
\<close>

locale intrusive_list =
  fixes wf :: "'s \<Rightarrow> addr \<Rightarrow> addr list \<Rightarrow> bool"
    and cells :: "addr \<Rightarrow> addr list \<Rightarrow> addr set"
    and add :: "addr \<Rightarrow> addr \<Rightarrow> 's \<Rightarrow> 's"
    and del :: "addr \<Rightarrow> 's \<Rightarrow> 's"
  assumes wf_distinct: "wf s h xs \<Longrightarrow> distinct xs"
    and cells_set: "set xs \<subseteq> cells h xs"
    and cells_mono: "set xs \<subseteq> set ys \<Longrightarrow> cells h xs \<subseteq> cells h ys"
    and cells_Cons: "cells h (n # xs) = insert n (cells h xs)"
    and add_wf: "wf s h xs \<Longrightarrow> n \<noteq> NULL \<Longrightarrow> n \<notin> cells h xs \<Longrightarrow> wf (add n h s) h (n # xs)"
    and del_wf: "wf s h (xs @ n # ys) \<Longrightarrow> wf (del n s) h (xs @ ys)"
    and add_frame: "wf s h xs \<Longrightarrow> wf s g zs \<Longrightarrow> g \<noteq> h \<Longrightarrow> cells h (n # xs) \<inter> cells g zs = {} \<Longrightarrow>
          wf (add n h s) g zs"
    and del_frame: "wf s h (xs @ n # ys) \<Longrightarrow> wf s g zs \<Longrightarrow> g \<noteq> h \<Longrightarrow>
          cells h (xs @ n # ys) \<inter> cells g zs = {} \<Longrightarrow> wf (del n s) g zs"
begin

lemma del_member: "wf s h xs \<Longrightarrow> n \<in> set xs \<Longrightarrow> wf (del n s) h (remove1 n xs)"
proof -
  assume wf: "wf s h xs" and "n \<in> set xs"
  then obtain ys zs where xs: "xs = ys @ n # zs" "n \<notin> set ys"
    by (auto dest: split_list_first)
  with wf show ?thesis by (auto simp: remove1_append intro: del_wf)
qed

lemma add_del: "wf s h xs \<Longrightarrow> n \<noteq> NULL \<Longrightarrow> n \<notin> cells h xs \<Longrightarrow> wf (del n (add n h s)) h xs"
  using add_wf [of s h xs n] del_wf [of "add n h s" h "[]" n xs] by simp

lemma add_all:
  "wf s h xs \<Longrightarrow> distinct ns \<Longrightarrow> NULL \<notin> set ns \<Longrightarrow> set ns \<inter> cells h xs = {} \<Longrightarrow>
     wf (fold (\<lambda>n. add n h) ns s) h (rev ns @ xs)"
proof (induction ns arbitrary: s xs)
  case (Cons n ns)
  from Cons.prems have "wf (add n h s) h (n # xs)" by (intro add_wf) auto
  moreover have "set ns \<inter> cells h (n # xs) = {}"
    using Cons.prems by (auto simp: cells_Cons)
  ultimately show ?case using Cons.IH [of "add n h s" "n # xs"] Cons.prems by simp
qed simp

lemma del_all: "wf s h (ns @ xs) \<Longrightarrow> wf (fold del ns s) h xs"
proof (induction ns arbitrary: s)
  case (Cons n ns)
  from Cons.prems have "wf (del n s) h (ns @ xs)" using del_wf [of s h "[]" n "ns @ xs"] by simp
  then show ?case using Cons.IH by simp
qed simp

text \<open>Moving a member of one list to the front of another.\<close>

lemma move:
  assumes "wf s h xs" "n \<in> set xs" "n \<noteq> NULL" "wf s g zs" "g \<noteq> h" "cells h xs \<inter> cells g zs = {}"
    and "n \<notin> cells h (remove1 n xs)"
  shows "wf (add n g (del n s)) h (remove1 n xs)" and "wf (add n g (del n s)) g (n # zs)"
proof -
  obtain ys ws where xs: "xs = ys @ n # ws" using assms(2) by (auto dest: split_list)
  have g: "wf (del n s) g zs"
    using del_frame [of s h ys n ws g zs] assms xs by auto
  have h: "wf (del n s) h (remove1 n xs)" using assms by (intro del_member)
  have n: "n \<notin> cells g zs" using assms(2,6) cells_set by fast
  show "wf (add n g (del n s)) g (n # zs)" using g n assms(3) by (intro add_wf)
  have "cells h (remove1 n xs) \<subseteq> cells h xs"
    by (intro cells_mono set_remove1_subset)
  with assms(6,7) have "cells g (n # zs) \<inter> cells h (remove1 n xs) = {}"
    by (auto simp: cells_Cons)
  then show "wf (add n g (del n s)) h (remove1 n xs)"
    using add_frame [OF g h] assms(5) by auto
qed

end

definition dcells :: "addr \<Rightarrow> addr list \<Rightarrow> addr set" where
  "dcells h xs = insert h (set xs)"

definition hcells :: "addr \<Rightarrow> addr list \<Rightarrow> addr set" where
  "hcells h xs = set xs"

definition hlist_del_total :: "addr \<Rightarrow> hstore \<Rightarrow> hstore" where
  "hlist_del_total n s = (case hlist_del n s of Some s' \<Rightarrow> s' | None \<Rightarrow> s)"

interpretation dl: intrusive_list dlist dcells list_add list_del
proof unfold_locales
  show "dlist s h xs \<Longrightarrow> distinct xs" for s h xs by (simp add: dlist_def)
  show "dlist (list_add n h s) g zs"
    if "dlist s h xs" "dlist s g zs" "g \<noteq> h" "dcells h (n # xs) \<inter> dcells g zs = {}"
    for s h xs g zs n
    using that by (intro dlist_list_add_frame) (auto simp: dcells_def)
  show "dlist (list_del n s) g zs"
    if "dlist s h (xs @ n # ys)" "dlist s g zs" "g \<noteq> h" "dcells h (xs @ n # ys) \<inter> dcells g zs = {}"
    for s h xs n ys g zs
    using that by (intro dlist_list_del_frame) (auto simp: dcells_def)
qed (auto simp: dcells_def intro: dlist_list_add dlist_list_del(1))

interpretation hl: intrusive_list hlist hcells hlist_add_head hlist_del_total
proof unfold_locales
  show "hlist s h xs \<Longrightarrow> distinct xs" for s h xs by (simp add: hlist_def)
  show "hlist (hlist_del_total n s) h (xs @ ys)" if "hlist s h (xs @ n # ys)" for s h xs n ys
    using that by (simp add: hlist_del_total_def hlist_del_eq hlist_after_del)
  show "hlist (hlist_del_total n s) g zs"
    if "hlist s h (xs @ n # ys)" "hlist s g zs" "g \<noteq> h" "hcells h (xs @ n # ys) \<inter> hcells g zs = {}"
    for s h xs n ys g zs
    using that by (simp add: hlist_del_total_def hlist_del_eq hlist_after_del_frame hcells_def)
qed (auto simp: hcells_def intro: hlist_add_head_wf hlist_add_head_frame)

section \<open>Properties\<close>

definition zero_ls :: lstore where
  "zero_ls = \<lparr>nxt = (\<lambda>_. 0), prv = (\<lambda>_. 0)\<rparr>"

definition zero_hs :: hstore where
  "zero_hs = \<lparr>hfirst = (\<lambda>_. 0), hnext = (\<lambda>_. 0), hpprev = (\<lambda>_. LNull)\<rparr>"

lemma hlist_zero: "hlist zero_hs h []"
  by (simp add: hlist_def zero_hs_def)

text \<open>Inserting a node that is not on a circular list refines consing it
  (\<^verbatim>\<open>list_add\<close>) or appending it (\<^verbatim>\<open>list_add_tail\<close>), and every other list of the
  store whose nodes are disjoint keeps its contents.\<close>

theorem list_insert_refines:
  assumes "dlist s h xs" and "n \<notin> set (h # xs)"
  shows "dlist (list_add n h s) h (n # xs) \<and> dlist (list_add_tail n h s) h (xs @ [n]) \<and>
    (\<forall>g zs. dlist s g zs \<longrightarrow> set (h # n # xs) \<inter> set (g # zs) = {} \<longrightarrow>
       dlist (list_add n h s) g zs)"
  using assms dlist_list_add_frame by (blast intro: dlist_list_add dlist_list_add_tail)

theorem list_insert_refines_witness:
  "dlist (init_list 1 zero_ls) 1 [] \<and> dlist (list_add 2 1 (init_list 1 zero_ls)) 1 [2] \<and>
   dlist (list_add_tail 2 1 (init_list 1 zero_ls)) 1 [2]"
  using list_insert_refines [OF dlist_init, of 2 1 zero_ls] dlist_init [of 1 zero_ls] by simp

text \<open>Deleting a member of a circular list removes exactly that member, leaves it
  linked to itself (so a second \<^verbatim>\<open>list_del\<close> changes nothing) and keeps every disjoint
  list; \<^verbatim>\<open>list_move_front\<close> rotates the member to the front.\<close>

theorem list_delete_refines:
  assumes "dlist s h xs" and "e \<in> set xs"
  shows "dlist (list_del e s) h (remove1 e xs) \<and> list_del e (list_del e s) = list_del e s \<and>
    dlist (list_move_front e h s) h (e # remove1 e xs) \<and>
    (\<forall>g zs. dlist s g zs \<longrightarrow> set (h # xs) \<inter> set (g # zs) = {} \<longrightarrow> dlist (list_del e s) g zs)"
proof -
  from assms obtain ys zs where xs: "xs = ys @ e # zs" and "e \<notin> set ys"
    by (auto dest: split_list_first)
  then have r: "remove1 e (ys @ e # zs) = ys @ zs" by (simp add: remove1_append)
  have d: "dlist s h (ys @ e # zs)" using assms xs by simp
  show ?thesis
    using dlist_list_del [OF d] dlist_list_move_front [OF d] dlist_list_del_frame [OF d]
    unfolding xs r by (blast intro: list_del_self)
qed

theorem list_delete_refines_witness:
  "dlist (list_del 2 (list_add 2 1 (init_list 1 zero_ls))) 1 []"
proof -
  have "dlist (list_add 2 1 (init_list 1 zero_ls)) 1 [2]"
    by (rule dlist_list_add) (simp_all add: dlist_init)
  from list_delete_refines [OF this, of 2] show ?thesis by simp
qed



end
