(* ===== verification/Kern_Mem.thy ===== *)
theory Kern_Mem
  imports Kern_Prelude
begin

text \<open>
  Byte memory of the i386 kernel and the block operations of
  \<^verbatim>\<open>src/kern/mem/mem.c\<close> on it (\<^verbatim>\<open>memcpy\<close>, \<^verbatim>\<open>memset\<close>, \<^verbatim>\<open>memcmp\<close>).  A load or store of a
  32-bit field is little endian; addresses are below \<open>2 ^ 32\<close>.
\<close>

type_synonym mem = "addr \<Rightarrow> u8"

definition rd32 :: "mem \<Rightarrow> addr \<Rightarrow> nat" where
  "rd32 m a = unat (m a) + 2 ^ 8 * unat (m (a + 1)) + 2 ^ 16 * unat (m (a + 2)) +
     2 ^ 24 * unat (m (a + 3))"

definition wr32 :: "mem \<Rightarrow> addr \<Rightarrow> nat \<Rightarrow> mem" where
  "wr32 m a v = m(a := of_nat v, a + 1 := of_nat (v div 2 ^ 8), a + 2 := of_nat (v div 2 ^ 16),
     a + 3 := of_nat (v div 2 ^ 24))"

lemma unat_of_nat_u8 [simp]: "unat (of_nat v :: u8) = v mod 256"
  by (simp add: unat_of_nat)

lemma u8_less: "unat (b :: u8) < 256"
proof -
  have "unat b < 2 ^ LENGTH(8)" by (rule unsigned_less)
  then show ?thesis by simp
qed

lemma rd32_bound: "rd32 m a < 2 ^ 32"
proof -
  have "unat (m a) < 256" "unat (m (a + 1)) < 256" "unat (m (a + 2)) < 256" "unat (m (a + 3)) < 256"
    by (rule u8_less)+
  then show ?thesis
    unfolding rd32_def by simp
qed

lemma rd32_wr32_same [simp]: "v < 2 ^ 32 \<Longrightarrow> rd32 (wr32 m a v) a = v"
proof -
  assume v: "v < 2 ^ 32"
  define w where "w = v div 256"
  define x where "x = w div 256"
  have "v div 65536 = x" "v div 16777216 = x div 256" "v div 256 = w"
    by (simp_all add: w_def x_def div_mult2_eq [symmetric])
  then have "rd32 (wr32 m a v) a =
      v mod 256 + 256 * (w mod 256) + 65536 * (x mod 256) + 16777216 * (x div 256 mod 256)"
    by (simp add: rd32_def wr32_def)
  moreover have "x div 256 mod 256 = x div 256" using v by (simp add: w_def x_def)
  moreover have "v = 256 * w + v mod 256" "w = 256 * x + w mod 256" "x = 256 * (x div 256) + x mod 256"
    by (simp_all add: w_def x_def)
  ultimately show ?thesis by linarith
qed

lemma rd32_cong: "(\<And>x. a \<le> x \<Longrightarrow> x < a + 4 \<Longrightarrow> m' x = m x) \<Longrightarrow> rd32 m' a = rd32 m a"
  by (simp add: rd32_def)

lemma wr32_other: "x < a \<or> a + 4 \<le> x \<Longrightarrow> wr32 m a v x = m x"
  by (auto simp: wr32_def)

lemma rd32_wr32_other [simp]: "b + 4 \<le> a \<or> a + 4 \<le> b \<Longrightarrow> rd32 (wr32 m a v) b = rd32 m b"
  by (rule rd32_cong) (auto intro!: wr32_other)

lemma rd32_upd_other [simp]: "x < b \<or> b + 4 \<le> x \<Longrightarrow> rd32 (m(x := v)) b = rd32 m b"
  by (rule rd32_cong) auto

definition le32 :: "u32 \<Rightarrow> u8 list" where
  "le32 x = [ucast x, ucast (drop_bit 8 x), ucast (drop_bit 16 x), ucast (drop_bit 24 x)]"

lemma le32_len [simp]: "length (le32 x) = 4" by (simp add: le32_def)

text \<open>A list of bytes lies in memory at an address.\<close>

definition bytes_at :: "mem \<Rightarrow> addr \<Rightarrow> u8 list \<Rightarrow> bool" where
  "bytes_at m a bs \<longleftrightarrow> (\<forall>i<length bs. m (a + i) = bs ! i)"

lemma all_less_add: "(\<forall>i<n + (k::nat). P i) \<longleftrightarrow> (\<forall>i<n. P i) \<and> (\<forall>i<k. P (n + i))"
proof (intro iffI conjI allI impI)
  fix i assume "(\<forall>i<n. P i) \<and> (\<forall>i<k. P (n + i))" "i < n + k"
  then show "P i" by (cases "i < n") (auto dest: spec [of _ "i - n"])
qed auto

lemma bytes_at_append: "bytes_at m a (xs @ ys) \<longleftrightarrow> bytes_at m a xs \<and> bytes_at m (a + length xs) ys"
  by (simp add: bytes_at_def all_less_add nth_append add.assoc)

lemma bytes_at_Nil [simp]: "bytes_at m a []"
  by (simp add: bytes_at_def)

lemma bytes_at_Cons: "bytes_at m a (x # xs) \<longleftrightarrow> m a = x \<and> bytes_at m (Suc a) xs"
  using bytes_at_append [of m a "[x]" xs] by (simp add: bytes_at_def)

lemma rd32_le32: "bytes_at m a (le32 x) \<Longrightarrow> rd32 m a = unat x"
proof -
  assume "bytes_at m a (le32 x)"
  then have m: "m a = ucast x" "m (a + 1) = ucast (drop_bit 8 x)" "m (a + 2) = ucast (drop_bit 16 x)" "m (a + 3) = ucast (drop_bit 24 x)"
    by (simp_all add: le32_def bytes_at_Cons eval_nat_numeral)
  have b: "unat (drop_bit n x) = unat x div 2 ^ n" for n by (subst unat_drop_bit_eq) (rule drop_bit_eq_div)
  have "rd32 m a = rd32 (wr32 m a (unat x)) a"
    unfolding rd32_def m by (simp add: wr32_def b unsigned_ucast_eq unat_of_nat take_bit_eq_mod)
  also have "\<dots> = unat x" using unsigned_less [of x, where ?'a = nat] by (intro rd32_wr32_same) simp
  finally show ?thesis .
qed

text \<open>\<^verbatim>\<open>rep stosb\<close>: \<open>n\<close> bytes from \<open>s\<close> on, wrapping at the end of the address space.\<close>

definition memset :: "mem \<Rightarrow> addr \<Rightarrow> u8 \<Rightarrow> nat \<Rightarrow> mem" where
  "memset m s c n = (\<lambda>x. if x < 2 ^ 32 \<and> (x + 2 ^ 32 - s) mod 2 ^ 32 < n then c else m x)"

lemma memset_in: "s + n \<le> 2 ^ 32 \<Longrightarrow> s \<le> x \<Longrightarrow> x < s + n \<Longrightarrow> memset m s c n x = c"
proof -
  assume a: "s + n \<le> 2 ^ 32" "s \<le> x" "x < s + n"
  then have "x + 2 ^ 32 - s = (x - s) + 2 ^ 32" by simp
  then have "(x + 2 ^ 32 - s) mod 2 ^ 32 = (x - s) mod 2 ^ 32" by (metis mod_add_self2)
  also have "\<dots> = x - s" using a by simp
  finally have "(x + 2 ^ 32 - s) mod 2 ^ 32 = x - s" .
  moreover have "x - s < n" using a by linarith
  ultimately show ?thesis using a by (simp add: memset_def)
qed

lemma memset_out:
  assumes "s + n \<le> 2 ^ 32" "x < s \<or> s + n \<le> x"
  shows "memset m s c n x = m x"
proof -
  have "\<not> (x + 2 ^ 32 - s) mod 2 ^ 32 < n" if "x < 2 ^ 32"
    using assms that by (auto simp: mod_if)
  then show ?thesis by (auto simp: memset_def)
qed

text \<open>Forward byte-by-byte copy.\<close>

fun memcpy :: "mem \<Rightarrow> addr \<Rightarrow> addr \<Rightarrow> nat \<Rightarrow> mem" where
  "memcpy m dst src 0 = m"
| "memcpy m dst src (Suc n) = memcpy (m(dst := m src)) (dst + 1) (src + 1) n"

lemma memcpy_out: "x < dst \<or> dst + n \<le> x \<Longrightarrow> memcpy m dst src n x = m x"
  by (induction m dst src n rule: memcpy.induct) auto

lemma memcpy_in:
  "dst + n \<le> src \<or> src + n \<le> dst \<or> dst \<le> src \<Longrightarrow> i < n \<Longrightarrow> memcpy m dst src n (dst + i) = m (src + i)"
proof (induction m dst src n arbitrary: i rule: memcpy.induct)
  case (2 m dst src n)
  show ?case
  proof (cases i)
    case 0
    then show ?thesis by (simp add: memcpy_out)
  next
    case (Suc j)
    with "2.prems" have "memcpy (m(dst := m src)) (dst + 1) (src + 1) n (dst + 1 + j) =
        (m(dst := m src)) (src + 1 + j)"
      by (intro "2.IH") auto
    moreover have "src + 1 + j \<noteq> dst" using "2.prems" Suc by auto
    ultimately show ?thesis using Suc by simp
  qed
qed simp

fun memcmp :: "mem \<Rightarrow> addr \<Rightarrow> addr \<Rightarrow> nat \<Rightarrow> u8" where
  "memcmp m s1 s2 0 = 0"
| "memcmp m s1 s2 (Suc n) =
     (if m s1 = m s2 then memcmp m (s1 + 1) (s2 + 1) n else m s1 - m s2)"

lemma memcmp_zero_iff: "memcmp m s1 s2 n = 0 \<longleftrightarrow> (\<forall>i<n. m (s1 + i) = m (s2 + i))"
proof (induction m s1 s2 n rule: memcmp.induct)
  case (2 m s1 s2 n)
  then show ?case by (auto simp: less_Suc_eq_0_disj)
qed simp

end
