(* ===== verification/Buddy_Part.thy ===== *)
theory Buddy_Part
  imports Kern_Prelude
begin

text \<open>
  The arithmetic of a buddy arena, used by \<^verbatim>\<open>Mem_Alloc\<close>: a block is an offset and
  an order, the order-\<open>i\<close> block at offset \<open>o\<close> covers \<open>{o ..< o + 2 ^ i}\<close>, and the
  blocks of an arena partition it.  Splitting a block and merging two buddies keep the
  partition; a partition with no two free buddies and nothing allocated is one block.
\<close>

type_synonym block = "nat \<times> nat"

definition blk :: "block \<Rightarrow> nat set" where
  "blk b = {fst b ..< fst b + 2 ^ snd b}"

definition aligned :: "block \<Rightarrow> bool" where
  "aligned b \<longleftrightarrow> 2 ^ snd b dvd fst b"

definition buddy :: "nat \<Rightarrow> nat \<Rightarrow> nat" where
  "buddy off i = off XOR 2 ^ i"

lemma blk_simps [simp]: "blk (p, i) = {p ..< p + 2 ^ i}"
  by (simp add: blk_def)

lemma aligned_simps [simp]: "aligned (p, i) \<longleftrightarrow> 2 ^ i dvd p"
  by (simp add: aligned_def)

lemma blk_nonempty [simp]: "fst b \<in> blk b"
  by (simp add: blk_def)

section \<open>Buddies\<close>

lemma buddy_even: "2 * 2 ^ i dvd off \<Longrightarrow> buddy off i = off + 2 ^ i"
proof -
  assume "2 * 2 ^ i dvd off"
  then obtain q where off: "off = push_bit (Suc i) q"
    by (auto simp: dvd_def mult_ac push_bit_eq_mult)
  have "off AND 2 ^ i = 0"
    by (rule bit_eqI) (auto simp: off bit_and_iff bit_push_bit_iff bit_exp_iff
        simp del: push_bit_Suc)
  then show ?thesis unfolding buddy_def
    by (simp add: disjunctive_xor_eq_or disjunctive_add_eq_or)
qed

lemma buddy_involutive: "buddy (buddy off i) i = off"
  by (simp add: buddy_def xor.assoc)

lemma buddy_odd: "2 ^ i dvd off \<Longrightarrow> \<not> 2 * 2 ^ i dvd off \<Longrightarrow> 2 ^ i \<le> off \<and> buddy off i = off - 2 ^ i \<and>
    2 * 2 ^ i dvd off - 2 ^ i"
proof -
  assume a: "2 ^ i dvd off" "\<not> 2 * 2 ^ i dvd off"
  then obtain q where off: "off = q * 2 ^ i" by (auto simp: dvd_def mult_ac)
  with a(2) have "odd q" by auto
  then obtain r where q: "q = 2 * r + 1" by (auto elim: oddE)
  then have off': "off = 2 * r * 2 ^ i + 2 ^ i" by (simp add: off algebra_simps)
  then have "off = buddy (2 * r * 2 ^ i) i" by (subst buddy_even) auto
  then have "buddy off i = 2 * r * 2 ^ i" by (simp add: buddy_involutive)
  with off' show ?thesis by auto
qed

lemma buddy_ne: "buddy p i \<noteq> p"
proof
  assume "buddy p i = p"
  then have "p XOR (p XOR 2 ^ i) = p XOR p" by (simp add: buddy_def)
  then have "(2::nat) ^ i = 0" by (simp add: xor.assoc [symmetric] del: xor.assoc)
  then show False by simp
qed

lemma buddy_min:
  assumes "2 ^ i dvd p"
  shows "2 * 2 ^ i dvd min p (buddy p i)" and "{p, buddy p i} = {min p (buddy p i), min p (buddy p i) + 2 ^ i}"
  using buddy_even [of i p] buddy_odd [of i p] assms by (cases "2 * 2 ^ i dvd p"; force)+

section \<open>Partitions\<close>

definition part :: "nat \<Rightarrow> block set \<Rightarrow> bool" where
  "part n B \<longleftrightarrow> (\<forall>b\<in>B. aligned b) \<and>
     (\<forall>b\<in>B. \<forall>c\<in>B. b \<noteq> c \<longrightarrow> blk b \<inter> blk c = {}) \<and> (\<Union>b\<in>B. blk b) = {..<n}"

lemma part_aligned: "part n B \<Longrightarrow> b \<in> B \<Longrightarrow> aligned b"
  and part_disjoint: "part n B \<Longrightarrow> b \<in> B \<Longrightarrow> c \<in> B \<Longrightarrow> b \<noteq> c \<Longrightarrow> blk b \<inter> blk c = {}"
  and part_cover: "part n B \<Longrightarrow> (\<Union>b\<in>B. blk b) = {..<n}"
  by (auto simp: part_def)

lemma part_bound: "part n B \<Longrightarrow> (p, i) \<in> B \<Longrightarrow> p + 2 ^ i \<le> n"
proof -
  assume "part n B" "(p, i) \<in> B"
  then have "blk (p, i) \<subseteq> {..<n}" using part_cover [of n B] by blast
  then show ?thesis by (simp add: ivl_subset lessThan_atLeast0)
qed

lemma part_same_offset: "part n B \<Longrightarrow> (p, i) \<in> B \<Longrightarrow> (p, j) \<in> B \<Longrightarrow> i = j"
  using part_disjoint [of n B "(p, i)" "(p, j)"] by (force simp: disjoint_iff)

text \<open>Replacing blocks by blocks that cover the same cells keeps the partition.\<close>

lemma part_replace:
  assumes "part n B" "X \<subseteq> B" "\<forall>y\<in>Y. aligned y"
    and "\<forall>b\<in>Y. \<forall>c\<in>Y. b \<noteq> c \<longrightarrow> blk b \<inter> blk c = {}" and "(\<Union>b\<in>Y. blk b) = (\<Union>b\<in>X. blk b)"
  shows "part n ((B - X) \<union> Y)"
proof -
  have *: "blk b \<inter> blk c = {}" if "b \<in> B - X" "c \<in> Y" for b c
  proof -
    have "blk b \<inter> blk x = {}" if "x \<in> X" for x
      using that \<open>b \<in> B - X\<close> assms(2) by (intro part_disjoint [OF assms(1)]) auto
    then have "blk b \<inter> (\<Union>x\<in>X. blk x) = {}" by blast
    with assms(5) that show ?thesis by blast
  qed
  moreover have "(\<Union>b\<in>(B - X) \<union> Y. blk b) = {..<n}"
  proof -
    have "(\<Union>b\<in>(B - X) \<union> Y. blk b) = (\<Union>b\<in>B - X. blk b) \<union> (\<Union>b\<in>X. blk b)"
      using assms(5) by auto
    also have "\<dots> = (\<Union>b\<in>B. blk b)" using assms(2) by auto
    finally show ?thesis using assms(1) by (simp add: part_def)
  qed
  moreover have "blk b \<inter> blk c = {}" if "b \<in> (B - X) \<union> Y" "c \<in> (B - X) \<union> Y" "b \<noteq> c" for b c
    using that * [of b c] * [of c b] part_disjoint [OF assms(1), of b c] assms(4) by blast
  moreover have "aligned b" if "b \<in> (B - X) \<union> Y" for b
    using that assms(1,3) by (auto simp: part_def)
  ultimately show ?thesis unfolding part_def by blast
qed

lemma part_split:
  assumes "part n B" "(p, Suc i) \<in> B"
  shows "part n ((B - {(p, Suc i)}) \<union> {(p, i), (p + 2 ^ i, i)})"
proof (rule part_replace [OF assms(1)])
  have "2 ^ Suc i dvd p" using part_aligned [OF assms] by simp
  then have "(2::nat) ^ i dvd p" by (auto dest: dvd_mult_right)
  then show "\<forall>y\<in>{(p, i), (p + 2 ^ i, i)}. aligned y" by simp
qed (use assms in auto)

lemma part_merge:
  assumes "part n B" "(p, i) \<in> B" "(p + 2 ^ i, i) \<in> B" "2 * 2 ^ i dvd p"
  shows "part n ((B - {(p, i), (p + 2 ^ i, i)}) \<union> {(p, Suc i)})"
  by (rule part_replace [OF assms(1)]) (use assms in auto)

text \<open>Aligned blocks are nested or disjoint.\<close>

lemma aligned_nested:
  assumes "aligned (p, i)" "aligned (q, j)" "i \<le> j" "blk (p, i) \<inter> blk (q, j) \<noteq> {}"
  shows "blk (p, i) \<subseteq> blk (q, j)"
proof -
  have "(2::nat) ^ i dvd 2 ^ j" using assms(3) by (rule le_imp_power_dvd)
  then obtain a b where p: "p = 2 ^ i * a" and q: "q = 2 ^ i * b" and "2 ^ i dvd q + 2 ^ j"
    using assms(1,2) by (meson aligned_simps dvd_add dvd_def dvd_trans)
  then obtain c where c: "q + 2 ^ j = 2 ^ i * c" by (auto simp: dvd_def)
  from assms(4) have 1: "p < q + 2 ^ j" and 2: "q < p + 2 ^ i" by auto
  have "a < c" using 1 p c by simp
  moreover have "2 ^ i * b < 2 ^ i * (a + 1)" using 2 p q by (simp add: algebra_simps)
  then have "b < a + 1" by (metis mult_less_cancel1)
  ultimately have "b \<le> a" "a + 1 \<le> c" by auto
  then have "q \<le> p" "p + 2 ^ i \<le> q + 2 ^ j"
    unfolding p q c [unfolded q] by (simp_all, metis add.commute mult_Suc_right mult_le_mono2 Suc_eq_plus1)
  then show ?thesis by auto
qed

section \<open>Coalesced arenas\<close>

definition coalesced :: "nat \<Rightarrow> block set \<Rightarrow> bool" where
  "coalesced m F \<longleftrightarrow> (\<forall>(p, i)\<in>F. i < m \<longrightarrow> (buddy p i, i) \<notin> F)"

text \<open>If every block is free, none is larger than the arena and no two buddies are
  free, the arena is a single block.\<close>

lemma coalesced_single:
  assumes "part (2 ^ m) F" "coalesced m F" "\<forall>(p, i)\<in>F. i \<le> m"
  shows "F = {(0, m)}"
proof -
  have "(0::nat) \<in> (\<Union>b\<in>F. blk b)" using part_cover [OF assms(1)] by simp
  then have ne: "F \<noteq> {}" by auto
  define k where "k = (LEAST i. \<exists>p. (p, i) \<in> F)"
  from ne have "\<exists>i p. (p, i) \<in> F" by auto
  then obtain p where p: "(p, k) \<in> F" unfolding k_def using LeastI_ex [of "\<lambda>i. \<exists>p. (p, i) \<in> F"] by auto
  have least: "k \<le> i" if "(q, i) \<in> F" for q i
    using that unfolding k_def by (auto intro: Least_le)
  have "k = m"
  proof (rule ccontr)
    assume "k \<noteq> m"
    with assms(3) p have km: "k < m" by force
    have al: "2 ^ k dvd p" using part_aligned [OF assms(1) p] by simp
    let ?b = "buddy p k" and ?q = "min p (buddy p k)"
    have bq: "2 * 2 ^ k dvd ?q" "{p, ?b} = {?q, ?q + 2 ^ k}"
      using buddy_min [OF al] by auto
    have "?q + 2 ^ Suc k \<le> 2 ^ m"
    proof -
      have "p < p + 2 ^ k" by simp
      then have "?q < 2 ^ m" using part_bound [OF assms(1) p] by linarith
      moreover have "(2::nat) ^ Suc k dvd 2 ^ m" using km by (intro le_imp_power_dvd) simp
      ultimately show ?thesis
        using bq(1) by (auto simp: dvd_def) (metis Suc_leI mult_Suc_right mult_le_mono2 add.commute
            mult_less_cancel1 power_Suc mult.assoc)
    qed
    moreover have "(0::nat) < 2 ^ k" by simp
    moreover have "?b \<le> ?q + 2 ^ k" using bq(2) by (auto simp: doubleton_eq_iff)
    ultimately have "?b < 2 ^ m" by (simp only: power_Suc)
    then have "?b \<in> {..<2 ^ m}" by simp
    then obtain c where "c \<in> F" "?b \<in> blk c" using part_cover [OF assms(1)] by blast
    then obtain r j where r: "(r, j) \<in> F" "?b \<in> blk (r, j)" by (cases c) blast
    have "k \<le> j" using least r by blast
    have "j \<noteq> k"
    proof
      assume "j = k"
      moreover have "aligned (?b, k)" using bq al
        by (auto simp: doubleton_eq_iff dvd_mult_right)
      ultimately have "blk (?b, k) \<subseteq> blk (r, k)"
        using part_aligned [OF assms(1) r(1)] r(2) by (intro aligned_nested) auto
      then have "r = ?b" using r(2) by simp
      with r \<open>j = k\<close> assms(2) p km show False by (auto simp: coalesced_def)
    qed
    with \<open>k \<le> j\<close> have kj: "Suc k \<le> j" by simp
    have "(0::nat) < 2 ^ k" "?q \<le> p" "?q \<le> ?b" by simp_all
    moreover have "p \<le> ?q + 2 ^ k" "?b \<le> ?q + 2 ^ k" using bq(2) by (auto simp: doubleton_eq_iff)
    ultimately have "?b \<in> blk (?q, Suc k)" "p \<in> blk (?q, Suc k)"
      unfolding blk_simps atLeastLessThan_iff power_Suc by linarith+
    then have "blk (?q, Suc k) \<subseteq> blk (r, j)"
      using r bq(1) kj part_aligned [OF assms(1) r(1)] by (intro aligned_nested) auto
    then have "p \<in> blk (r, j)" using \<open>p \<in> blk (?q, Suc k)\<close> by blast
    then have "(r, j) = (p, k)"
      using part_disjoint [OF assms(1) p r(1)] by (auto simp: disjoint_iff)
    with kj show False by simp
  qed
  have "p + 2 ^ k \<le> 2 ^ m" using part_bound [OF assms(1) p] .
  then have p0: "p = 0" using \<open>k = m\<close> by simp
  have "(q, i) = (0, m)" if qi: "(q, i) \<in> F" for q i
  proof -
    have "i = m" using least [OF qi] assms(3) qi \<open>k = m\<close> by force
    moreover from this part_bound [OF assms(1) qi] have "q = 0" by simp
    ultimately show ?thesis by simp
  qed
  moreover have "(0, m) \<in> F" using p \<open>k = m\<close> p0 by simp
  ultimately show ?thesis by (metis (no_types, opaque_lifting) empty_iff insertI1 insert_iff
        prod.exhaust subsetI subset_antisym singletonD)
qed

end
