(* ===== verification/Mem_Alloc.thy ===== *)
theory Mem_Alloc
  imports Kern_Mem Buddy_Part
begin

text \<open>
  The kernel heap of \<^verbatim>\<open>src/kern/mem/mem.c\<close>: a buddy allocator whose free lists live in
  the free blocks themselves (\<^verbatim>\<open>struct block\<close>), whose allocated blocks start with a
  10-byte header (\<^verbatim>\<open>struct alloc_hdr\<close>), and the \<^verbatim>\<open>malloc\<close>/\<^verbatim>\<open>free\<close>/\<^verbatim>\<open>realloc\<close> layer on
  top.  The model keeps the byte memory, so a free-list link and a header really share
  the first bytes of a block.  A \<^verbatim>\<open>struct block **\<close> is a \<open>bloc\<close>: a slot of the
  \<^verbatim>\<open>free\<close> array or the \<^verbatim>\<open>next\<close> field of a block.  The loops that chase links are
  \<^verbatim>\<open>option\<close>-valued partial functions: \<^const>\<open>None\<close> is "does not return".
\<close>

section \<open>Data and constants\<close>

definition MAX_ORD :: nat where "MAX_ORD = 20"
definition MIN_ORD :: nat where "MIN_ORD = 5"
definition HDR_MAGIC :: nat where "HDR_MAGIC = 0x8b6a96a2"
definition HDR_SIZ :: nat where "HDR_SIZ = 10"  \<comment> \<open>\<^verbatim>\<open>sizeof(struct alloc_hdr)\<close>, packed\<close>
definition EXT_MEM_BASE :: nat where "EXT_MEM_BASE = 0x00200000"
definition EXT_MEM_SIZ :: nat where "EXT_MEM_SIZ = 2 ^ 20"

record alloc =
  mem :: mem            \<comment> \<open>the memory the allocator lives in\<close>
  base :: addr
  siz :: nat
  free :: "addr list"   \<comment> \<open>\<^verbatim>\<open>struct block *free[MAX_ORD + 1]\<close>\<close>
  used_mem :: nat       \<comment> \<open>the three statistics counters, 32 bit\<close>
  used_truly :: nat
  used_max :: nat

datatype bloc = Head nat | Next addr

fun rd_loc :: "alloc \<Rightarrow> bloc \<Rightarrow> addr" where
  "rd_loc a (Head i) = free a ! i"
| "rd_loc a (Next b) = rd32 (mem a) b"

fun wr_loc :: "alloc \<Rightarrow> bloc \<Rightarrow> addr \<Rightarrow> alloc" where
  "wr_loc a (Head i) v = a\<lparr>free := (free a)[i := v]\<rparr>"
| "wr_loc a (Next b) v = a\<lparr>mem := wr32 (mem a) b v\<rparr>"

text \<open>The header fields: \<^verbatim>\<open>size\<close> at offset 0, \<^verbatim>\<open>magic\<close> at 4, \<^verbatim>\<open>ord\<close> at 8.\<close>

definition hdr_size :: "alloc \<Rightarrow> addr \<Rightarrow> nat" where
  "hdr_size a h = rd32 (mem a) h"

definition hdr_magic :: "alloc \<Rightarrow> addr \<Rightarrow> nat" where
  "hdr_magic a h = rd32 (mem a) (h + 4)"

definition hdr_ord :: "alloc \<Rightarrow> addr \<Rightarrow> nat" where
  "hdr_ord a h = unat (mem a (h + 8))"

section \<open>Orders\<close>

definition align_up :: "nat \<Rightarrow> nat \<Rightarrow> nat" where
  "align_up x a = (x + a - 1) mod 2 ^ 32 div a * a"
  \<comment> \<open>\<^verbatim>\<open>ALIGN_UP\<close> for a power of two \<open>a\<close>, in 32-bit arithmetic\<close>

definition ord_siz :: "nat \<Rightarrow> nat" where
  "ord_siz ord = 2 ^ ord"

partial_function (option) size2ord_loop :: "nat \<Rightarrow> nat \<Rightarrow> nat \<Rightarrow> nat option" where
  "size2ord_loop n s ord =
     (if s < n then size2ord_loop n (s * 2 mod 2 ^ 32) (Suc ord) else Some ord)"

definition size2ord :: "nat \<Rightarrow> nat option" where
  "size2ord n = size2ord_loop n (2 ^ MIN_ORD) MIN_ORD"

definition ptr2off :: "alloc \<Rightarrow> addr \<Rightarrow> nat" where
  "ptr2off a p = (p + 2 ^ 32 - base a) mod 2 ^ 32"

definition off2ptr :: "alloc \<Rightarrow> nat \<Rightarrow> addr" where
  "off2ptr a off = (base a + off) mod 2 ^ 32"

section \<open>Free lists\<close>

partial_function (option) remove_block :: "alloc \<Rightarrow> bloc \<Rightarrow> addr \<Rightarrow> (bool \<times> alloc) option" where
  "remove_block a cur target =
     (if rd_loc a cur = NULL then Some (False, a)
      else if rd_loc a cur = target then Some (True, wr_loc a cur (rd32 (mem a) target))
      else remove_block a (Next (rd_loc a cur)) target)"

partial_function (option) insert_block :: "alloc \<Rightarrow> bloc \<Rightarrow> addr \<Rightarrow> alloc option" where
  "insert_block a cur b =
     (if rd_loc a cur \<noteq> NULL \<and> rd_loc a cur < b then insert_block a (Next (rd_loc a cur)) b
      else Some (wr_loc (a\<lparr>mem := wr32 (mem a) b (rd_loc a cur)\<rparr>) cur b))"

section \<open>Initialisation\<close>

text \<open>\<^verbatim>\<open>while (((size_t)1 << max_ord) > siz) max_ord--;\<close>: \<^const>\<open>None\<close> when the shift
  count would become negative.\<close>

fun fit_ord :: "nat \<Rightarrow> nat \<Rightarrow> nat option" where
  "fit_ord 0 n = (if (1::nat) > n then None else Some 0)"
| "fit_ord (Suc i) n = (if 2 ^ Suc i > n then fit_ord i n else Some (Suc i))"

definition km_init :: "alloc \<Rightarrow> addr \<Rightarrow> nat \<Rightarrow> alloc option" where
  "km_init a m n =
     (case fit_ord MAX_ORD n of
        None \<Rightarrow> None
      | Some max_ord \<Rightarrow>
          let a1 = a\<lparr>free := replicate (MAX_ORD + 1) NULL\<rparr>;
              max_block = 2 ^ max_ord;
              algn = align_up m max_block;
              adjust = (algn + 2 ^ 32 - m) mod 2 ^ 32
          in if adjust \<ge> n then Some (a1\<lparr>base := NULL, siz := 0\<rparr>)
             else let n' = (n - adjust) div max_block * max_block;
                      a2 = a1\<lparr>base := algn, siz := n'\<rparr>;
                      a3 = a2\<lparr>mem := wr32 (mem a2) algn NULL\<rparr>
                  in Some (a3\<lparr>free := (free a3)[max_ord := algn]\<rparr>))"

definition kmalloc_init :: "alloc \<Rightarrow> alloc option" where
  "kmalloc_init a = km_init a EXT_MEM_BASE EXT_MEM_SIZ"

section \<open>Allocation\<close>

text \<open>\<^verbatim>\<open>while (cur <= MAX_ORD && a->free[cur] == NULL) cur++;\<close>\<close>

function find_cur :: "addr list \<Rightarrow> nat \<Rightarrow> nat" where
  "find_cur fr cur = (if cur \<le> MAX_ORD \<and> fr ! cur = NULL then find_cur fr (Suc cur) else cur)"
  by pat_completeness auto
termination
  by (relation "measure (\<lambda>(fr, cur). Suc MAX_ORD - cur)") auto

declare find_cur.simps [simp del]

text \<open>\<^verbatim>\<open>while (cur > ord) { cur--; insert_block(&a->free[cur], bl + ord_siz(cur)); }\<close>\<close>

fun split_down :: "alloc \<Rightarrow> addr \<Rightarrow> nat \<Rightarrow> nat \<Rightarrow> alloc option" where
  "split_down a bl ord 0 = Some a"
| "split_down a bl ord (Suc c) =
     (if Suc c > ord then
        (case insert_block a (Head c) (bl + ord_siz c) of
           None \<Rightarrow> None
         | Some a' \<Rightarrow> split_down a' bl ord c)
      else Some a)"

definition account_alloc :: "nat \<Rightarrow> nat \<Rightarrow> alloc \<Rightarrow> alloc" where
  "account_alloc ord n a =
     (let a1 = a\<lparr>used_mem := (used_mem a + ord_siz ord) mod 2 ^ 32,
                 used_truly := (used_truly a + n) mod 2 ^ 32\<rparr>
      in if used_mem a1 > used_max a1 then a1\<lparr>used_max := used_mem a1\<rparr> else a1)"

definition write_hdr :: "addr \<Rightarrow> nat \<Rightarrow> nat \<Rightarrow> alloc \<Rightarrow> alloc" where
  "write_hdr h ord n a =
     (let m1 = (mem a)(h + 8 := of_nat ord);
          m2 = wr32 m1 (h + 4) HDR_MAGIC;
          m3 = wr32 m2 h n
      in a\<lparr>mem := m3\<rparr>)"

definition km_alloc :: "alloc \<Rightarrow> nat \<Rightarrow> (addr \<times> alloc) option" where
  "km_alloc a n0 =
     (let n = align_up n0 4;
          total = (n + HDR_SIZ) mod 2 ^ 32
      in case size2ord total of
           None \<Rightarrow> None
         | Some ord \<Rightarrow>
             let a1 = account_alloc ord n a in
             if ord > MAX_ORD then Some (NULL, a1)
             else let cur = find_cur (free a1) ord in
               if cur > MAX_ORD then Some (NULL, a1)
               else let bl = free a1 ! cur;
                        a2 = a1\<lparr>free := (free a1)[cur := rd32 (mem a1) bl]\<rparr>
                    in case split_down a2 bl ord cur of
                         None \<Rightarrow> None
                       | Some a3 \<Rightarrow> Some (bl + HDR_SIZ, write_hdr bl ord n a3))"

section \<open>Release\<close>

text \<open>The coalescing loop: \<^verbatim>\<open>while (ord < MAX_ORD) ...\<close>, with its two \<^verbatim>\<open>break\<close>s.\<close>

function merge_up :: "alloc \<Rightarrow> nat \<Rightarrow> nat \<Rightarrow> (alloc \<times> nat \<times> nat) option" where
  "merge_up a off ord =
     (if ord < MAX_ORD then
        let boff = off XOR ord_siz ord in
        if boff \<ge> siz a then Some (a, off, ord)
        else (case remove_block a (Head ord) (off2ptr a boff) of
                None \<Rightarrow> None
              | Some (found, a') \<Rightarrow>
                  if \<not> found then Some (a', off, ord)
                  else merge_up a' (if boff < off then boff else off) (Suc ord))
      else Some (a, off, ord))"
  by pat_completeness auto
termination
  by (relation "measure (\<lambda>(a, off, ord). MAX_ORD - ord)") auto

declare merge_up.simps [simp del]

definition account_free :: "nat \<Rightarrow> nat \<Rightarrow> alloc \<Rightarrow> alloc" where
  "account_free ord n a =
     a\<lparr>used_mem := (used_mem a + 2 ^ 32 - ord_siz ord mod 2 ^ 32) mod 2 ^ 32,
       used_truly := (used_truly a + 2 ^ 32 - n) mod 2 ^ 32\<rparr>"

definition km_free :: "alloc \<Rightarrow> addr \<Rightarrow> alloc option" where
  "km_free a ptr =
     (if ptr = NULL then Some a
      else let h = (ptr + 2 ^ 32 - HDR_SIZ) mod 2 ^ 32 in
        if hdr_magic a h \<noteq> HDR_MAGIC then Some a
        else let ord = hdr_ord a h;
                 a1 = account_free ord (hdr_size a h) a
             in case merge_up a1 (ptr2off a1 h) ord of
                  None \<Rightarrow> None
                | Some (a2, off, ord') \<Rightarrow>
                    let bl = off2ptr a2 off;
                        a3 = a2\<lparr>mem := wr32 (mem a2) (h + 4) 0\<rparr>
                    in insert_block a3 (Head ord') bl)"

section \<open>The malloc layer\<close>

definition malloc :: "alloc \<Rightarrow> nat \<Rightarrow> (addr \<times> alloc) option" where
  "malloc a n = (case km_alloc a n of
     None \<Rightarrow> None
   | Some (p, a') \<Rightarrow> Some (p, a'\<lparr>mem := memset (mem a') p 0 n\<rparr>))"

definition kfree :: "alloc \<Rightarrow> addr \<Rightarrow> alloc option" where
  "kfree a p = km_free a p"

definition realloc :: "alloc \<Rightarrow> addr \<Rightarrow> nat \<Rightarrow> (addr \<times> alloc) option" where
  "realloc a p n =
     (if p = NULL then malloc a n
      else if n = 0 then map_option (\<lambda>a'. (NULL, a')) (kfree a p)
      else case malloc a n of
             None \<Rightarrow> None
           | Some (q, a1) \<Rightarrow>
               let a2 = a1\<lparr>mem := memcpy (mem a1) q p n\<rparr>
               in map_option (\<lambda>a3. (q, a3)) (kfree a2 p))"

definition malloc_align :: "alloc \<Rightarrow> nat \<Rightarrow> nat \<Rightarrow> (addr \<times> alloc) option" where
  "malloc_align a n al =
     (if al AND (al - 1) \<noteq> 0 then Some (NULL, a)
      else case malloc a ((n + al + 3) mod 2 ^ 32) of
             None \<Rightarrow> None
           | Some (raw, a1) \<Rightarrow>
               if raw = NULL then Some (NULL, a1)
               else let a_addr = (raw + 4 + al - 1) mod 2 ^ 32 div al * al;
                        slot = (a_addr + 2 ^ 32 - 4) mod 2 ^ 32
                    in Some (a_addr, a1\<lparr>mem := wr32 (mem a1) slot raw\<rparr>))"

definition free_align :: "alloc \<Rightarrow> addr \<Rightarrow> alloc option" where
  "free_align a p = kfree a (rd32 (mem a) (p - 4))"

definition getused :: "alloc \<Rightarrow> nat" where "getused a = used_mem a"
definition getmaxused :: "alloc \<Rightarrow> nat" where "getmaxused a = used_max a"
definition gettrueused :: "alloc \<Rightarrow> nat" where "gettrueused a = used_truly a"

section \<open>Chains of free blocks\<close>

lemmas alloc_consts = MAX_ORD_def MIN_ORD_def HDR_SIZ_def EXT_MEM_BASE_def EXT_MEM_SIZ_def ord_siz_def

fun fchain :: "mem \<Rightarrow> addr \<Rightarrow> addr list \<Rightarrow> bool" where
  "fchain m p [] = (p = NULL)"
| "fchain m p (x # xs) = (p = x \<and> x \<noteq> NULL \<and> fchain m (rd32 m x) xs)"

definition sep4 :: "addr \<Rightarrow> addr \<Rightarrow> bool" where
  "sep4 x y \<longleftrightarrow> x + 4 \<le> y \<or> y + 4 \<le> x"

lemma sep4_sym: "sep4 x y \<Longrightarrow> sep4 y x" by (auto simp: sep4_def)

fun loc_cells :: "bloc \<Rightarrow> addr set" where
  "loc_cells (Head i) = {}"
| "loc_cells (Next c) = {c}"

text \<open>Nothing but the 4-byte cells \<open>S\<close> and the slots of the free array changed.\<close>

definition touches :: "addr set \<Rightarrow> alloc \<Rightarrow> alloc \<Rightarrow> bool" where
  "touches S a a' \<longleftrightarrow> (\<forall>x. (\<forall>y\<in>S. x < y \<or> y + 4 \<le> x) \<longrightarrow> mem a' x = mem a x) \<and>
     base a' = base a \<and> siz a' = siz a \<and> length (free a') = length (free a) \<and>
     used_mem a' = used_mem a \<and> used_truly a' = used_truly a \<and> used_max a' = used_max a"

lemma touches_rd32: "touches S a a' \<Longrightarrow> (\<And>y. y \<in> S \<Longrightarrow> sep4 y c) \<Longrightarrow> rd32 (mem a') c = rd32 (mem a) c"
  unfolding touches_def sep4_def by (intro rd32_cong) (metis add_le_mono1 leD le_trans linorder_not_le order_less_le_trans)

lemma fchain_cong: "(\<And>x. x \<in> set xs \<Longrightarrow> rd32 m' x = rd32 m x) \<Longrightarrow> fchain m' p xs = fchain m p xs"
  by (induction xs arbitrary: p) auto

lemma remove_block_chain:
  assumes "fchain (mem a) (rd_loc a cur) xs" "distinct xs"
    and "\<And>x y. x \<in> set xs \<union> loc_cells cur \<Longrightarrow> y \<in> set xs \<union> loc_cells cur \<Longrightarrow> x \<noteq> y \<Longrightarrow> sep4 x y"
    and "loc_cells cur \<inter> set xs = {}"
    and "\<And>i. cur = Head i \<Longrightarrow> i < length (free a)"
  shows "\<exists>a'. remove_block a cur t = Some (t \<in> set xs, a') \<and>
    fchain (mem a') (rd_loc a' cur) (remove1 t xs) \<and> touches (set xs \<union> loc_cells cur) a a' \<and>
    (\<forall>j. cur \<noteq> Head j \<longrightarrow> free a' ! j = free a ! j) \<and> (t \<notin> set xs \<longrightarrow> a' = a)"
  using assms
proof (induction xs arbitrary: cur)
  case Nil
  then show ?case by (subst remove_block.simps) (simp add: touches_def)
next
  case (Cons x xs)
  have cur: "rd_loc a cur = x" "x \<noteq> NULL" and rest: "fchain (mem a) (rd32 (mem a) x) xs"
    using Cons.prems(1) by auto
  show ?case
  proof (cases "x = t")
    case True
    let ?v = "rd32 (mem a) t" and ?a = "wr_loc a cur (rd32 (mem a) t)"
    have "remove_block a cur t = Some (True, ?a)"
      using cur True by (subst remove_block.simps) simp
    moreover have "fchain (mem ?a) (rd_loc ?a cur) xs \<and> touches (set (x # xs) \<union> loc_cells cur) a ?a \<and>
        (\<forall>j. cur \<noteq> Head j \<longrightarrow> free ?a ! j = free a ! j)"
    proof (cases cur)
      case (Head i)
      then show ?thesis using rest True Cons.prems(5) by (auto simp: touches_def)
    next
      case (Next c)
      have "fchain (wr32 (mem a) c ?v) ?v xs = fchain (mem a) ?v xs"
        using Next Cons.prems(3) [of c] Cons.prems(4)
        by (intro fchain_cong rd32_wr32_other) (auto simp: sep4_def)
      then show ?thesis using rest True Next rd32_bound [of "mem a" t]
        by (auto simp: touches_def intro: wr32_other)
    qed
    ultimately show ?thesis using True by auto
  next
    case False
    have "\<exists>a'. remove_block a (Next x) t = Some (t \<in> set xs, a') \<and>
        fchain (mem a') (rd_loc a' (Next x)) (remove1 t xs) \<and> touches (set xs \<union> loc_cells (Next x)) a a' \<and>
        (\<forall>j. Next x \<noteq> Head j \<longrightarrow> free a' ! j = free a ! j) \<and> (t \<notin> set xs \<longrightarrow> a' = a)"
      by (rule Cons.IH) (use rest Cons.prems in auto)
    then obtain a' where a': "remove_block a (Next x) t = Some (t \<in> set xs, a')"
      "fchain (mem a') (rd32 (mem a') x) (remove1 t xs)" "touches (insert x (set xs)) a a'"
      "\<And>j. free a' ! j = free a ! j" "t \<notin> set xs \<longrightarrow> a' = a" by auto
    have "remove_block a cur t = Some (t \<in> set xs, a')"
      using cur False a'(1) by (subst remove_block.simps) simp
    moreover have "rd_loc a' cur = x"
    proof (cases cur)
      case (Head i)
      then show ?thesis using cur a'(4) by simp
    next
      case (Next c)
      have "rd32 (mem a') c = rd32 (mem a) c"
        by (rule touches_rd32 [OF a'(3)]) (use Next Cons.prems(3,4) in auto)
      then show ?thesis using cur Next by simp
    qed
    moreover have "touches (set (x # xs) \<union> loc_cells cur) a a'"
      using a'(3) by (auto simp: touches_def)
    ultimately show ?thesis using a' cur False by auto
  qed
qed

fun sinsert :: "addr \<Rightarrow> addr list \<Rightarrow> addr list" where
  "sinsert b [] = [b]"
| "sinsert b (x # xs) = (if x < b then x # sinsert b xs else b # x # xs)"

lemma set_sinsert [simp]: "set (sinsert b xs) = insert b (set xs)"
  by (induction xs) auto

lemma sorted_sinsert: "sorted_wrt (<) xs \<Longrightarrow> b \<notin> set xs \<Longrightarrow> sorted_wrt (<) (sinsert b xs)"
  by (induction xs) (auto simp: not_less_iff_gr_or_eq)

lemma insert_block_chain:
  assumes "fchain (mem a) (rd_loc a cur) xs" "distinct xs" "b \<notin> set xs" "b \<notin> loc_cells cur"
    and "\<And>x y. x \<in> insert b (set xs) \<union> loc_cells cur \<Longrightarrow> y \<in> insert b (set xs) \<union> loc_cells cur \<Longrightarrow>
      x \<noteq> y \<Longrightarrow> sep4 x y"
    and "loc_cells cur \<inter> set xs = {}" "b \<noteq> NULL" "b < 2 ^ 32" "\<And>x. x \<in> set xs \<Longrightarrow> x < 2 ^ 32"
    and "\<And>i. cur = Head i \<Longrightarrow> i < length (free a)"
  shows "\<exists>a'. insert_block a cur b = Some a' \<and> fchain (mem a') (rd_loc a' cur) (sinsert b xs) \<and>
    touches (insert b (set xs) \<union> loc_cells cur) a a' \<and>
    (\<forall>j. cur \<noteq> Head j \<longrightarrow> free a' ! j = free a ! j)"
  using assms
proof (induction xs arbitrary: cur)
  case Nil
  then have p: "rd_loc a cur = NULL" by simp
  let ?a = "wr_loc (a\<lparr>mem := wr32 (mem a) b NULL\<rparr>) cur b"
  have "insert_block a cur b = Some ?a" using p by (subst insert_block.simps) simp
  moreover have "fchain (mem ?a) (rd_loc ?a cur) [b] \<and> touches ({b} \<union> loc_cells cur) a ?a \<and>
      (\<forall>j. cur \<noteq> Head j \<longrightarrow> free ?a ! j = free a ! j)"
    using Nil.prems by (cases cur) (auto simp: touches_def sep4_def wr32_other)
  ultimately show ?case by auto
next
  case (Cons x xs)
  have cur: "rd_loc a cur = x" "x \<noteq> NULL" and rest: "fchain (mem a) (rd32 (mem a) x) xs"
    using Cons.prems(1) by auto
  show ?case
  proof (cases "x < b")
    case True
    have "\<exists>a'. insert_block a (Next x) b = Some a' \<and> fchain (mem a') (rd_loc a' (Next x)) (sinsert b xs) \<and>
      touches (insert b (set xs) \<union> loc_cells (Next x)) a a' \<and>
      (\<forall>j. Next x \<noteq> Head j \<longrightarrow> free a' ! j = free a ! j)"
      by (rule Cons.IH) (use rest Cons.prems in auto)
    then obtain a' where a': "insert_block a (Next x) b = Some a'"
      "fchain (mem a') (rd32 (mem a') x) (sinsert b xs)" "touches (insert b (insert x (set xs))) a a'"
      "\<And>j. free a' ! j = free a ! j" by (auto simp: insert_commute)
    have "insert_block a cur b = Some a'"
      using cur True a'(1) by (subst insert_block.simps) simp
    moreover have "rd_loc a' cur = x"
    proof (cases cur)
      case (Head i)
      then show ?thesis using cur a'(4) by simp
    next
      case (Next c)
      have "rd32 (mem a') c = rd32 (mem a) c"
        by (rule touches_rd32 [OF a'(3)]) (use Next Cons.prems(4,5,6) in auto)
      then show ?thesis using cur Next by simp
    qed
    moreover have "touches (insert b (set (x # xs)) \<union> loc_cells cur) a a'"
      using a'(3) by (auto simp: touches_def)
    ultimately show ?thesis using a' cur True by auto
  next
    case False
    let ?m = "wr32 (mem a) b x" and ?a = "wr_loc (a\<lparr>mem := wr32 (mem a) b x\<rparr>) cur b"
    have "insert_block a cur b = Some ?a" using cur False by (subst insert_block.simps) simp
    moreover have "fchain (mem ?a) (rd_loc ?a cur) (b # x # xs) \<and>
        touches (insert b (set (x # xs)) \<union> loc_cells cur) a ?a \<and>
        (\<forall>j. cur \<noteq> Head j \<longrightarrow> free ?a ! j = free a ! j)"
    proof -
      have x: "x < 2 ^ 32" using Cons.prems(9) by simp
      have m: "fchain ?m x (x # xs) = fchain (mem a) x (x # xs)"
        using Cons.prems(3) Cons.prems(5) [of b] by (intro fchain_cong rd32_wr32_other) (auto simp: sep4_def)
      show ?thesis
      proof (cases cur)
        case (Head i)
        then show ?thesis using rest cur m x Cons.prems by (auto simp: touches_def intro: wr32_other)
      next
        case (Next c)
        have "fchain (wr32 ?m c b) x (x # xs) = fchain ?m x (x # xs)"
          using Next Cons.prems(5) [of c] Cons.prems(6)
          by (intro fchain_cong rd32_wr32_other) (auto simp: sep4_def)
        moreover have "sep4 b c" using Next Cons.prems(4,5) by auto
        ultimately show ?thesis using Next rest cur m x Cons.prems(7,8)
          by (auto simp: touches_def sep4_def wr32_other simp del: fchain.simps(2))
            (simp_all)
      qed
    qed
    ultimately show ?thesis using False by auto
  qed
qed

end
