(* ===== verification/Mem_Heap.thy ===== *)
theory Mem_Heap
  imports Mem_Alloc
begin

text \<open>
  Correctness of the buddy allocator of \<^verbatim>\<open>src/kern/mem/mem.c\<close>.  \<open>heap_ok a L A\<close> says
  that the free lists in memory are the sorted address lists \<open>L\<close>, that the free blocks
  and the allocated blocks \<open>A\<close> (offset, order) partition the arena, and that no two
  buddies are both free; \<open>hdrs_ok a A\<close> says that every allocated block carries its header.
  Each step of \<^const>\<open>km_alloc\<close> and \<^const>\<open>km_free\<close> keeps them and leaves the bytes of
  the allocated blocks alone.
\<close>

section \<open>The invariant\<close>

definition frees :: "addr \<Rightarrow> (nat \<Rightarrow> addr list) \<Rightarrow> block set" where
  "frees b L = {(p, i). b + p \<in> set (L i)}"

definition lists :: "alloc \<Rightarrow> (nat \<Rightarrow> addr list) \<Rightarrow> bool" where
  "lists a L \<longleftrightarrow> length (free a) = MAX_ORD + 1 \<and>
     (\<forall>i \<le> MAX_ORD. fchain (mem a) (free a ! i) (L i)) \<and> (\<forall>i > MAX_ORD. L i = [])"

definition heap_ok :: "alloc \<Rightarrow> (nat \<Rightarrow> addr list) \<Rightarrow> block set \<Rightarrow> bool" where
  "heap_ok a L A \<longleftrightarrow> lists a L \<and> (\<forall>i. sorted_wrt (<) (L i)) \<and>
     (\<forall>i. \<forall>x\<in>set (L i). base a \<le> x) \<and> 0 < base a \<and> base a + siz a \<le> 2 ^ 32 \<and>
     part (siz a) (frees (base a) L \<union> A) \<and> frees (base a) L \<inter> A = {} \<and>
     (\<forall>(p, i)\<in>frees (base a) L \<union> A. MIN_ORD \<le> i \<and> i \<le> MAX_ORD) \<and>
     coalesced MAX_ORD (frees (base a) L)"

definition hdrs_ok :: "alloc \<Rightarrow> block set \<Rightarrow> bool" where
  "hdrs_ok a A \<longleftrightarrow> (\<forall>(p, i)\<in>A. hdr_magic a (base a + p) = HDR_MAGIC \<and> hdr_ord a (base a + p) = i)"

text \<open>The bytes of the blocks \<open>A\<close> are the same in both states.\<close>

definition keeps :: "block set \<Rightarrow> alloc \<Rightarrow> alloc \<Rightarrow> bool" where
  "keeps A a a' \<longleftrightarrow> base a' = base a \<and> siz a' = siz a \<and>
     (\<forall>b\<in>A. \<forall>x\<in>blk b. mem a' (base a + x) = mem a (base a + x))"

lemma keeps_refl [simp]: "keeps A a a"
  by (simp add: keeps_def)

lemma keeps_trans: "keeps A a b \<Longrightarrow> keeps A b c \<Longrightarrow> keeps A a c"
  by (auto simp: keeps_def)

lemma keeps_mono: "keeps B a b \<Longrightarrow> A \<subseteq> B \<Longrightarrow> keeps A a b"
  by (auto simp: keeps_def)

lemma heap_okD:
  assumes "heap_ok a L A"
  shows heap_lists: "lists a L" and heap_sorted: "sorted_wrt (<) (L i)"
    and heap_ge: "x \<in> set (L i) \<Longrightarrow> base a \<le> x"
    and heap_part: "part (siz a) (frees (base a) L \<union> A)"
    and heap_disj: "frees (base a) L \<inter> A = {}"
    and heap_coal: "coalesced MAX_ORD (frees (base a) L)"
    and heap_base: "0 < base a" and heap_top: "base a + siz a \<le> 2 ^ 32"
  using assms by (auto simp: heap_ok_def)

lemma heap_ord:
  "heap_ok a L A \<Longrightarrow> (p, i) \<in> frees (base a) L \<union> A \<Longrightarrow> MIN_ORD \<le> i \<and> i \<le> MAX_ORD"
  unfolding heap_ok_def by fast

lemma pow_ge_32: "5 \<le> i \<Longrightarrow> (32::nat) \<le> 2 ^ i"
proof -
  assume "5 \<le> i"
  then have "(2::nat) ^ 5 \<le> 2 ^ i" by (rule power_increasing) simp
  then show ?thesis by simp
qed

text \<open>Two different blocks are at least 32 bytes apart.\<close>

lemma heap_apart:
  assumes "heap_ok a L A" "(p, i) \<in> frees (base a) L \<union> A" "(q, j) \<in> frees (base a) L \<union> A"
    and "(p, i) \<noteq> (q, j)"
  shows "p + 32 \<le> q \<or> q + 32 \<le> p"
proof -
  have d: "{p..<p + 2 ^ i} \<inter> {q..<q + 2 ^ j} = {}"
    using part_disjoint [OF heap_part [OF assms(1)] assms(2,3,4)] by simp
  have "(32::nat) \<le> 2 ^ i" "(32::nat) \<le> 2 ^ j"
    using heap_ord [OF assms(1,2)] heap_ord [OF assms(1,3)] pow_ge_32 by (auto simp: MIN_ORD_def)
  then show ?thesis using d by (auto simp: disjoint_iff not_less)
qed

lemma frees_mem: "heap_ok a L A \<Longrightarrow> x \<in> set (L i) \<Longrightarrow> (x - base a, i) \<in> frees (base a) L"
  using heap_ge [of a L A x i] by (simp add: frees_def)

lemma heap_mem_bound:
  assumes "heap_ok a L A" "(p, i) \<in> frees (base a) L \<union> A"
  shows "base a + p + 2 ^ i \<le> 2 ^ 32"
  using part_bound [OF heap_part [OF assms(1)] assms(2)] heap_top [OF assms(1)] by simp

lemma heap_addr_bound:
  assumes "heap_ok a L A" "x \<in> set (L i)"
  shows "x < 2 ^ 32" and "x \<noteq> NULL"
proof -
  have "base a + (x - base a) + 2 ^ i \<le> 2 ^ 32"
    using heap_mem_bound [OF assms(1), of "x - base a" i] frees_mem [OF assms] by blast
  moreover have "base a \<le> x" using heap_ge [OF assms] .
  moreover have "(0::nat) < 2 ^ i" by simp
  ultimately show "x < 2 ^ 32" by linarith
  show "x \<noteq> NULL" using \<open>base a \<le> x\<close> heap_base [OF assms(1)] by simp
qed

lemma heap_sep:
  assumes "heap_ok a L A" "x \<in> set (L i)" "y \<in> set (L j)" "(x, i) \<noteq> (y, j)"
  shows "sep4 x y"
proof -
  have "(x - base a, i) \<noteq> (y - base a, j)"
    using assms(4) heap_ge [OF assms(1,2)] heap_ge [OF assms(1,3)] by auto
  then have "x - base a + 32 \<le> y - base a \<or> y - base a + 32 \<le> x - base a"
    using frees_mem [OF assms(1,2)] frees_mem [OF assms(1,3)] by (intro heap_apart [OF assms(1)]) auto
  then show ?thesis using heap_ge [OF assms(1,2)] heap_ge [OF assms(1,3)] by (auto simp: sep4_def)
qed

lemma heap_one_list:
  assumes "heap_ok a L A" "x \<in> set (L i)" "x \<in> set (L j)"
  shows "i = j"
  using heap_sep [OF assms] by (auto simp: sep4_def)

lemma heap_distinct: "heap_ok a L A \<Longrightarrow> distinct (L i)"
  using heap_sorted [of a L A i] by (simp add: strict_sorted_iff)

text \<open>Changing only the first four bytes of free blocks keeps the allocated bytes.\<close>

lemma touches_keeps:
  assumes "touches S a a'" "\<And>y b x. y \<in> S \<Longrightarrow> b \<in> A \<Longrightarrow> x \<in> blk b \<Longrightarrow> base a + x < y \<or> y + 4 \<le> base a + x"
  shows "keeps A a a'"
  using assms by (auto simp: touches_def keeps_def)

lemma free_cell_off_alloc:
  assumes "heap_ok a L A" "(p, i) \<in> frees (base a) L \<union> A" "b \<in> A" "(p, i) \<noteq> b" "x \<in> blk b"
  shows "base a + x < base a + p \<or> base a + p + 4 \<le> base a + x"
proof -
  have "blk (p, i) \<inter> blk b = {}"
    using assms by (intro part_disjoint [OF heap_part [OF assms(1)]]) auto
  moreover have "(32::nat) \<le> 2 ^ i"
    using heap_ord [OF assms(1,2)] pow_ge_32 by (auto simp: MIN_ORD_def)
  ultimately have "\<not> (p \<le> x \<and> x < p + 2 ^ i)" "p + 32 \<le> p + 2 ^ i"
    using assms(5) by (auto simp: disjoint_iff)
  then show ?thesis by linarith
qed

lemma frees_upd:
  "frees b (L(c := xs)) = {(p, i) \<in> frees b L. i \<noteq> c} \<union> {(p, c) |p. b + p \<in> set xs}"
  by (auto simp: frees_def)

section \<open>The steps\<close>

subsection \<open>Unlinking the head of a list\<close>

lemma frees_pop:
  assumes "heap_ok a L A" "L c = x # xs"
  shows "frees (base a) L = insert (x - base a, c) (frees (base a) (L(c := xs)))"
    and "(x - base a, c) \<notin> frees (base a) (L(c := xs))"
proof -
  have "base a \<le> x" using heap_ge [OF assms(1), of x c] assms(2) by simp
  then show "frees (base a) L = insert (x - base a, c) (frees (base a) (L(c := xs)))"
    using assms(2) by (auto simp: frees_def split: if_splits)
  show "(x - base a, c) \<notin> frees (base a) (L(c := xs))"
    using heap_distinct [OF assms(1), of c] assms(2) \<open>base a \<le> x\<close> by (auto simp: frees_def)
qed

lemma coalesced_subset: "coalesced m F \<Longrightarrow> G \<subseteq> F \<Longrightarrow> coalesced m G"
  unfolding coalesced_def by fast

lemma heap_pop:
  assumes "heap_ok a L A" "L c = x # xs"
  shows "heap_ok (a\<lparr>free := (free a)[c := rd32 (mem a) x]\<rparr>) (L(c := xs)) (insert (x - base a, c) A)"
proof -
  note fr = frees_pop [OF assms]
  have c: "c \<le> MAX_ORD" using heap_lists [OF assms(1)] assms(2)
    by (metis list.distinct(1) lists_def not_less)
  have "lists (a\<lparr>free := (free a)[c := rd32 (mem a) x]\<rparr>) (L(c := xs))"
    using heap_lists [OF assms(1)] assms(2) c by (auto simp: lists_def nth_list_update)
  moreover have "\<forall>i. sorted_wrt (<) ((L(c := xs)) i)"
    using heap_sorted [OF assms(1)] assms(2) by (metis fun_upd_apply sorted_wrt.simps(2))
  moreover have "\<forall>i. \<forall>y\<in>set ((L(c := xs)) i). base a \<le> y"
    using heap_ge [OF assms(1)] assms(2) by (metis fun_upd_apply list.set_intros(2))
  moreover have un: "frees (base a) (L(c := xs)) \<union> insert (x - base a, c) A = frees (base a) L \<union> A"
    using fr by auto
  moreover have "coalesced MAX_ORD (frees (base a) (L(c := xs)))"
    by (rule coalesced_subset [OF heap_coal [OF assms(1)]]) (use fr in auto)
  ultimately show ?thesis
    using assms(1) fr unfolding heap_ok_def by (simp add: Int_insert_right)
qed

subsection \<open>Removing a given block\<close>

lemma heap_lists_upd:
  assumes ok: "heap_ok a L A" and c: "c \<le> MAX_ORD" and t: "touches S a a'"
    and S: "\<And>y i x. y \<in> S \<Longrightarrow> i \<noteq> c \<Longrightarrow> x \<in> set (L i) \<Longrightarrow> sep4 y x"
    and ch: "fchain (mem a') (free a' ! c) ys" and fr: "\<And>j. j \<noteq> c \<Longrightarrow> free a' ! j = free a ! j"
  shows "lists a' (L(c := ys))"
proof -
  have "fchain (mem a') (free a' ! i) (L i)" if "i \<noteq> c" "i \<le> MAX_ORD" for i
  proof -
    have "fchain (mem a') (free a ! i) (L i) = fchain (mem a) (free a ! i) (L i)"
      by (intro fchain_cong touches_rd32 [OF t] S) (use that in auto)
    then show ?thesis using heap_lists [OF ok] that fr by (simp add: lists_def)
  qed
  then show ?thesis
    using heap_lists [OF ok] c ch t by (auto simp: lists_def touches_def)
qed

lemma heap_remove_block:
  assumes ok: "heap_ok a L A" and c: "c \<le> MAX_ORD"
  shows "\<exists>a'. remove_block a (Head c) t = Some (t \<in> set (L c), a') \<and>
    (t \<notin> set (L c) \<longrightarrow> a' = a) \<and>
    (t \<in> set (L c) \<longrightarrow> heap_ok a' (L(c := remove1 t (L c))) (insert (t - base a, c) A)) \<and> keeps A a a'"
proof -
  have "\<exists>a'. remove_block a (Head c) t = Some (t \<in> set (L c), a') \<and>
    fchain (mem a') (rd_loc a' (Head c)) (remove1 t (L c)) \<and> touches (set (L c) \<union> loc_cells (Head c)) a a' \<and>
    (\<forall>j. Head c \<noteq> Head j \<longrightarrow> free a' ! j = free a ! j) \<and> (t \<notin> set (L c) \<longrightarrow> a' = a)"
    by (rule remove_block_chain)
      (use heap_lists [OF ok] c heap_distinct [OF ok] heap_sep [OF ok, of _ c _ c] in \<open>auto simp: lists_def\<close>)
  then obtain a' where a': "remove_block a (Head c) t = Some (t \<in> set (L c), a')"
    "fchain (mem a') (free a' ! c) (remove1 t (L c))" "touches (set (L c)) a a'"
    "\<And>j. j \<noteq> c \<Longrightarrow> free a' ! j = free a ! j" "t \<notin> set (L c) \<longrightarrow> a' = a" by auto
  have base: "base a' = base a" "siz a' = siz a" using a'(3) by (auto simp: touches_def)
  have "lists a' (L(c := remove1 t (L c)))"
    by (rule heap_lists_upd [OF ok c a'(3) _ a'(2,4)]) (use heap_sep [OF ok] in auto)
  moreover have "heap_ok a' (L(c := remove1 t (L c))) (insert (t - base a, c) A)"
    if t: "t \<in> set (L c)" and l: "lists a' (L(c := remove1 t (L c)))"
  proof -
    let ?L = "L(c := remove1 t (L c))"
    have bt: "base a \<le> t" using heap_ge [OF ok t] .
    have fr: "frees (base a) L = insert (t - base a, c) (frees (base a) ?L)"
      "(t - base a, c) \<notin> frees (base a) ?L"
      using heap_distinct [OF ok, of c] t bt by (auto simp: frees_def split: if_splits)
    have "frees (base a) ?L \<union> insert (t - base a, c) A = frees (base a) L \<union> A" using fr by auto
    moreover have "coalesced MAX_ORD (frees (base a) ?L)"
      by (rule coalesced_subset [OF heap_coal [OF ok]]) (use fr in auto)
    moreover have "\<forall>i. sorted_wrt (<) (?L i)" using heap_sorted [OF ok]
      by (auto simp: strict_sorted_iff sorted_remove1)
    moreover have "\<forall>i. \<forall>x\<in>set (?L i). base a \<le> x"
      using heap_ge [OF ok] by (metis fun_upd_apply notin_set_remove1)
    ultimately show ?thesis
      using ok fr l base unfolding heap_ok_def by (simp add: Int_insert_right)
  qed
  moreover have "keeps A a a'"
  proof (rule touches_keeps [OF a'(3)])
    fix y b x assume "y \<in> set (L c)" "b \<in> A" "x \<in> blk b"
    then show "base a + x < y \<or> y + 4 \<le> base a + x"
      using free_cell_off_alloc [OF ok, of "y - base a" c b x] frees_mem [OF ok, of y c]
        heap_disj [OF ok] heap_ge [OF ok, of y c] by auto
  qed
  ultimately show ?thesis using a' by blast
qed

subsection \<open>Inserting a block\<close>

lemma heap_insert_block:
  assumes ok: "heap_ok a L (insert (p, c) A)" and new: "(p, c) \<notin> A"
    and buddy: "c < MAX_ORD \<Longrightarrow> (buddy p c, c) \<notin> frees (base a) L"
  shows "\<exists>a'. insert_block a (Head c) (base a + p) = Some a' \<and>
    heap_ok a' (L(c := sinsert (base a + p) (L c))) A \<and> keeps A a a'"
proof -
  let ?b = "base a + p" and ?L = "L(c := sinsert (base a + p) (L c))"
  have c: "c \<le> MAX_ORD" using heap_ord [OF ok, of p c] by simp
  have notin: "?b \<notin> set (L i)" for i
  proof
    assume "?b \<in> set (L i)"
    then have "(p, i) \<in> frees (base a) L" by (simp add: frees_def)
    moreover from this have "i = c" using part_same_offset [OF heap_part [OF ok]] by blast
    ultimately show False using heap_disj [OF ok] by auto
  qed
  have sepb: "sep4 ?b y" if "y \<in> set (L i)" for y i
  proof -
    have "(y - base a, i) \<noteq> (p, c)" using notin that heap_ge [OF ok that] by auto
    then have "p + 32 \<le> y - base a \<or> y - base a + 32 \<le> p"
      using frees_mem [OF ok that] by (intro heap_apart [OF ok]) auto
    then show ?thesis using heap_ge [OF ok that] by (auto simp: sep4_def)
  qed
  have b32: "?b < 2 ^ 32" "?b \<noteq> NULL"
  proof -
    have "base a + p + 2 ^ c \<le> 2 ^ 32" "(0::nat) < 2 ^ c" using heap_mem_bound [OF ok, of p c] by auto
    then show "?b < 2 ^ 32" by linarith
    show "?b \<noteq> NULL" using heap_base [OF ok] by simp
  qed
  have "\<exists>a'. insert_block a (Head c) ?b = Some a' \<and> fchain (mem a') (rd_loc a' (Head c)) (sinsert ?b (L c)) \<and>
    touches (insert ?b (set (L c)) \<union> loc_cells (Head c)) a a' \<and>
    (\<forall>j. Head c \<noteq> Head j \<longrightarrow> free a' ! j = free a ! j)"
  proof (rule insert_block_chain)
    show "sep4 x y" if "x \<in> insert ?b (set (L c)) \<union> loc_cells (Head c)"
      "y \<in> insert ?b (set (L c)) \<union> loc_cells (Head c)" "x \<noteq> y" for x y
      using that sepb sep4_sym heap_sep [OF ok, of _ c _ c] by auto
  qed (use heap_lists [OF ok] c heap_distinct [OF ok] notin b32 heap_addr_bound [OF ok] in
      \<open>auto simp: lists_def\<close>)
  then obtain a' where a': "insert_block a (Head c) ?b = Some a'"
    "fchain (mem a') (free a' ! c) (sinsert ?b (L c))" "touches (insert ?b (set (L c))) a a'"
    "\<And>j. j \<noteq> c \<Longrightarrow> free a' ! j = free a ! j" by auto
  have base: "base a' = base a" "siz a' = siz a" using a'(3) by (auto simp: touches_def)
  have l: "lists a' ?L"
    by (rule heap_lists_upd [OF ok c a'(3) _ a'(2,4)]) (use heap_sep [OF ok] sepb in auto)
  have fr: "frees (base a) ?L = insert (p, c) (frees (base a) L)" by (auto simp: frees_def)
  have "coalesced MAX_ORD (insert (p, c) (frees (base a) L))"
    using heap_coal [OF ok] buddy buddy_involutive
    unfolding coalesced_def by (auto simp: buddy_ne)
  moreover have "\<forall>i. sorted_wrt (<) (?L i)"
    using heap_sorted [OF ok] notin by (simp add: sorted_sinsert)
  moreover have "\<forall>i. \<forall>x\<in>set (?L i). base a \<le> x" using heap_ge [OF ok] by auto
  moreover have "(p, c) \<notin> frees (base a) L" using heap_disj [OF ok] by auto
  ultimately have "heap_ok a' ?L A"
    using ok fr l base new unfolding heap_ok_def by (simp add: Int_insert_right)
  moreover have "keeps A a a'"
  proof (rule touches_keeps [OF a'(3)])
    fix y b x assume y: "y \<in> insert ?b (set (L c))" and b: "b \<in> A" "x \<in> blk b"
    show "base a + x < y \<or> y + 4 \<le> base a + x"
    proof (cases "y = ?b")
      case True
      then show ?thesis using free_cell_off_alloc [OF ok, of p c b x] b new by auto
    next
      case False
      with y have "y \<in> set (L c)" by simp
      then show ?thesis using free_cell_off_alloc [OF ok, of "y - base a" c b x] b
          frees_mem [OF ok, of y c] heap_disj [OF ok] heap_ge [OF ok, of y c] by auto
    qed
  qed
  ultimately show ?thesis using a'(1) by blast
qed

subsection \<open>Splitting and merging in the partition\<close>

lemma heap_fresh:
  assumes "heap_ok a L (insert (p, c) A)" "(p, c) \<notin> A"
  shows "(p, j) \<notin> A" and "(p, j) \<notin> frees (base a) L"
  using part_same_offset [OF heap_part [OF assms(1)], of p c j] assms heap_disj [OF assms(1)] by auto

lemma heap_split_ghost:
  assumes ok: "heap_ok a L (insert (p, Suc c) A)" and new: "(p, Suc c) \<notin> A" and c: "MIN_ORD \<le> c"
  shows "heap_ok a L (insert (p + 2 ^ c, c) (insert (p, c) A))"
    and "(p + 2 ^ c, c) \<notin> insert (p, c) A"
proof -
  let ?F = "frees (base a) L" and ?q = "p + 2 ^ c"
  have q: "(?q, c) \<notin> ?F \<union> A"
  proof
    assume "(?q, c) \<in> ?F \<union> A"
    moreover from this have "(?q, c) \<noteq> (p, Suc c)" by auto
    ultimately have "blk (?q, c) \<inter> blk (p, Suc c) = {}"
      by (intro part_disjoint [OF heap_part [OF ok]]) auto
    moreover have "?q \<in> blk (?q, c)" "?q \<in> blk (p, Suc c)" by simp_all
    ultimately show False by blast
  qed
  have "part (siz a) ((?F \<union> insert (p, Suc c) A) - {(p, Suc c)} \<union> {(p, c), (?q, c)})"
    by (rule part_split [OF heap_part [OF ok]]) simp
  moreover have "(?F \<union> insert (p, Suc c) A) - {(p, Suc c)} \<union> {(p, c), (?q, c)} =
      ?F \<union> insert (?q, c) (insert (p, c) A)"
    using new heap_disj [OF ok] by auto
  ultimately have part: "part (siz a) (?F \<union> insert (?q, c) (insert (p, c) A))" by simp
  have "Suc c \<le> MAX_ORD" using heap_ord [OF ok, of p "Suc c"] by simp
  then show "heap_ok a L (insert (?q, c) (insert (p, c) A))"
    using ok part q heap_fresh [OF ok new] c unfolding heap_ok_def by auto
  show "(?q, c) \<notin> insert (p, c) A" using q by auto
qed

lemma heap_merge_ghost:
  assumes ok: "heap_ok a L (insert (p, c) (insert (buddy p c, c) A))"
    and new: "(p, c) \<notin> A" "(buddy p c, c) \<notin> A" and c: "c < MAX_ORD"
  shows "heap_ok a L (insert (min p (buddy p c), Suc c) A)" and "(min p (buddy p c), Suc c) \<notin> A"
proof -
  let ?F = "frees (base a) L" and ?q = "min p (buddy p c)"
  have al: "2 ^ c dvd p" using part_aligned [OF heap_part [OF ok], of "(p, c)"] by simp
  have bq: "2 * 2 ^ c dvd ?q" "{(p, c), (buddy p c, c)} = {(?q, c), (?q + 2 ^ c, c)}"
    using buddy_min [OF al] by auto
  have "part (siz a) ((?F \<union> insert (p, c) (insert (buddy p c, c) A)) - {(?q, c), (?q + 2 ^ c, c)} \<union> {(?q, Suc c)})"
    by (rule part_merge [OF heap_part [OF ok]]) (use bq in auto)
  moreover have "(?F \<union> insert (p, c) (insert (buddy p c, c) A)) - {(?q, c), (?q + 2 ^ c, c)} \<union> {(?q, Suc c)}
      = ?F \<union> insert (?q, Suc c) A"
    unfolding bq(2) [symmetric] using new heap_disj [OF ok] by auto
  ultimately have part: "part (siz a) (?F \<union> insert (?q, Suc c) A)" by simp
  have "(?q, c) \<in> ?F \<union> insert (p, c) (insert (buddy p c, c) A)" by (simp add: min_def)
  then have q: "(?q, Suc c) \<notin> ?F \<union> A"
    using part_same_offset [OF heap_part [OF ok], of ?q c "Suc c"] by auto
  have "MIN_ORD \<le> c" using heap_ord [OF ok, of p c] by simp
  then show "heap_ok a L (insert (?q, Suc c) A)"
    using ok part q c unfolding heap_ok_def by auto
  show "(?q, Suc c) \<notin> A" using q by simp
qed

section \<open>Splitting down and merging up\<close>

lemma touches_used:
  "insert_block a cur b = Some a' \<Longrightarrow>
     used_mem a' = used_mem a \<and> used_truly a' = used_truly a \<and> used_max a' = used_max a"
  by (rule insert_block.raw_induct [where P = "\<lambda>a cur b a'. used_mem a' = used_mem a \<and>
        used_truly a' = used_truly a \<and> used_max a' = used_max a"])
    (auto split: if_splits bloc.splits, (case_tac cura; auto)+)

lemma split_down_ok:
  assumes "heap_ok a L (insert (p, cur) A)" "(p, cur) \<notin> A" "MIN_ORD \<le> ord" "ord \<le> cur"
  shows "\<exists>a' L'. split_down a (base a + p) ord cur = Some a' \<and> heap_ok a' L' (insert (p, ord) A) \<and>
    (p, ord) \<notin> A \<and> keeps A a a'"
  using assms
proof (induction cur arbitrary: a L)
  case 0
  then show ?case by auto
next
  case (Suc c)
  show ?case
  proof (cases "ord = Suc c")
    case True
    then show ?thesis using Suc.prems by auto
  next
    case False
    with Suc.prems have c: "MIN_ORD \<le> c" "ord \<le> c" by auto
    note g = heap_split_ghost [OF Suc.prems(1,2) c(1)]
    have al: "2 * 2 ^ c dvd p"
      using part_aligned [OF heap_part [OF Suc.prems(1)], of "(p, Suc c)"] by simp
    then have "buddy (p + 2 ^ c) c = p" using buddy_even buddy_involutive by metis
    moreover have "(p, c) \<notin> frees (base a) L" using heap_fresh [OF Suc.prems(1,2)] by blast
    ultimately obtain a1 where a1: "insert_block a (Head c) (base a + (p + 2 ^ c)) = Some a1"
      "heap_ok a1 (L(c := sinsert (base a + (p + 2 ^ c)) (L c))) (insert (p, c) A)"
      "keeps (insert (p, c) A) a a1"
      using heap_insert_block [OF g] by auto
    have "(p, c) \<notin> A" using heap_fresh [OF Suc.prems(1,2)] by blast
    from Suc.IH [OF a1(2) this Suc.prems(3) c(2)] obtain a' L' where
      a': "split_down a1 (base a1 + p) ord c = Some a'" "heap_ok a' L' (insert (p, ord) A)"
      "(p, ord) \<notin> A" "keeps A a1 a'" by blast
    have "base a1 = base a" using a1(3) by (simp add: keeps_def)
    then have "split_down a (base a + p) ord (Suc c) = Some a'"
      using a1(1) a'(1) c by (simp add: ord_siz_def add.assoc)
    moreover have "keeps A a a'"
      using a1(3) a'(4) by (blast intro: keeps_trans keeps_mono)
    ultimately show ?thesis using a' by blast
  qed
qed

lemma merge_up_ok:
  assumes "heap_ok a L (insert (p, ord) A)" "(p, ord) \<notin> A"
  shows "\<exists>a' L' q k. merge_up a p ord = Some (a', q, k) \<and> heap_ok a' L' (insert (q, k) A) \<and>
    (q, k) \<notin> A \<and> (k < MAX_ORD \<longrightarrow> (buddy q k, k) \<notin> frees (base a) L') \<and> keeps A a a' \<and>
    blk (p, ord) \<subseteq> blk (q, k)"
  using assms
proof (induction "MAX_ORD - ord" arbitrary: a p ord L rule: less_induct)
  case (less ord a p L)
  show ?case
  proof (cases "ord < MAX_ORD \<and> buddy p ord < siz a")
    case False
    have "(buddy p ord, ord) \<notin> frees (base a) L" if "ord < MAX_ORD"
    proof
      assume "(buddy p ord, ord) \<in> frees (base a) L"
      then have "buddy p ord + 2 ^ ord \<le> siz a" "(0::nat) < 2 ^ ord"
        using part_bound [OF heap_part [OF less.prems(1)], of "buddy p ord" ord] by auto
      with False that show False by linarith
    qed
    then show ?thesis using less.prems False
      by (subst merge_up.simps) (auto simp: ord_siz_def buddy_def Let_def intro!: exI [of _ L])
  next
    case True
    let ?b = "buddy p ord"
    have t: "off2ptr a ?b = base a + ?b"
      using True heap_top [OF less.prems(1)] by (simp add: off2ptr_def)
    from True obtain a1 where a1: "remove_block a (Head ord) (base a + ?b) = Some (base a + ?b \<in> set (L ord), a1)"
      "base a + ?b \<notin> set (L ord) \<Longrightarrow> a1 = a"
      "base a + ?b \<in> set (L ord) \<Longrightarrow> heap_ok a1 (L(ord := remove1 (base a + ?b) (L ord)))
         (insert (?b, ord) (insert (p, ord) A))" "keeps (insert (p, ord) A) a a1"
      using heap_remove_block [OF less.prems(1), of ord "base a + ?b"] by auto
    have mu: "merge_up a p ord = (if base a + ?b \<in> set (L ord)
        then merge_up a1 (if ?b < p then ?b else p) (Suc ord) else Some (a1, p, ord))"
      using True a1(1) t by (subst merge_up.simps) (simp add: Let_def ord_siz_def buddy_def)
    show ?thesis
    proof (cases "base a + ?b \<in> set (L ord)")
      case False
      then show ?thesis using mu a1(2) less.prems
        by (auto simp: frees_def intro!: exI [of _ L])
    next
      case found: True
      have "(?b, ord) \<in> frees (base a) L" using found by (simp add: frees_def)
      then have b: "(?b, ord) \<notin> A" using heap_disj [OF less.prems(1)] by auto
      have ok: "heap_ok a1 (L(ord := remove1 (base a + ?b) (L ord))) (insert (p, ord) (insert (?b, ord) A))"
        using a1(3) found by (simp add: insert_commute)
      note g = heap_merge_ghost [OF ok less.prems(2) b]
      have q: "(if ?b < p then ?b else p) = min p ?b" by auto
      have "\<exists>a' L' q k. merge_up a1 (min p ?b) (Suc ord) = Some (a', q, k) \<and>
          heap_ok a' L' (insert (q, k) A) \<and> (q, k) \<notin> A \<and>
          (k < MAX_ORD \<longrightarrow> (buddy q k, k) \<notin> frees (base a1) L') \<and> keeps A a1 a' \<and>
          blk (min p ?b, Suc ord) \<subseteq> blk (q, k)"
        by (rule less.hyps [OF _ g]) (use True in auto)
      then obtain a' L' q' k where a': "merge_up a1 (min p ?b) (Suc ord) = Some (a', q', k)"
          "heap_ok a' L' (insert (q', k) A)" "(q', k) \<notin> A"
          "k < MAX_ORD \<longrightarrow> (buddy q' k, k) \<notin> frees (base a1) L'" "keeps A a1 a'"
          "blk (min p ?b, Suc ord) \<subseteq> blk (q', k)" by blast
      have "base a1 = base a" using a1(4) by (simp add: keeps_def)
      moreover have "keeps A a a'"
        using a1(4) a'(5) by (blast intro: keeps_trans keeps_mono)
      moreover have "merge_up a p ord = Some (a', q', k)" using mu found q a'(1) by simp
      moreover have "blk (p, ord) \<subseteq> blk (q', k)"
      proof -
        have "2 ^ ord dvd p" using part_aligned [OF heap_part [OF less.prems(1)], of "(p, ord)"] by simp
        from buddy_min(2) [OF this] have "p = min p ?b \<or> p = min p ?b + 2 ^ ord" by blast
        then have "blk (p, ord) \<subseteq> blk (min p ?b, Suc ord)" by auto
        then show ?thesis using a'(6) by blast
      qed
      ultimately show ?thesis using a' by metis
    qed
  qed
qed

end
