(* ===== verification/Mem_Correct.thy ===== *)
theory Mem_Correct
  imports Mem_Heap
begin

text \<open>
  The contracts of \<^verbatim>\<open>kmalloc_init\<close>, \<^verbatim>\<open>km_alloc\<close>, \<^verbatim>\<open>km_free\<close>, \<^verbatim>\<open>malloc\<close> and
  \<^verbatim>\<open>realloc\<close> (\<^verbatim>\<open>src/kern/mem/mem.c\<close>), over the invariant of \<^verbatim>\<open>Mem_Heap\<close>.
\<close>

section \<open>The order of a request\<close>

lemma size2ord_loop_least:
  assumes "n \<le> 2 ^ 31" "o1 \<le> 31"
  shows "\<exists>ord. size2ord_loop n (2 ^ o1) o1 = Some ord \<and> o1 \<le> ord \<and> ord \<le> 31 \<and> n \<le> 2 ^ ord \<and>
    (o1 < ord \<longrightarrow> 2 ^ (ord - 1) < n)"
  using assms
proof (induction "31 - o1" arbitrary: o1)
  case 0
  then have "o1 = 31" by simp
  then show ?case using 0 by (subst size2ord_loop.simps) simp
next
  case (Suc k)
  show ?case
  proof (cases "2 ^ o1 < n")
    case False
    then show ?thesis using Suc by (subst size2ord_loop.simps) (auto simp: not_less)
  next
    case True
    from Suc have "k = 31 - Suc o1" "Suc o1 \<le> 31" by auto
    then obtain ord where ord: "size2ord_loop n (2 ^ Suc o1) (Suc o1) = Some ord" "Suc o1 \<le> ord" "ord \<le> 31"
      "n \<le> 2 ^ ord" "Suc o1 < ord \<longrightarrow> 2 ^ (ord - 1) < n"
      using Suc.hyps(1) Suc.prems by blast
    have "(2::nat) ^ Suc o1 \<le> 2 ^ 31" by (rule power_increasing) (use \<open>Suc o1 \<le> 31\<close> in auto)
    then have w: "2 ^ o1 * 2 mod 2 ^ 32 = (2::nat) ^ Suc o1" by simp
    have "2 ^ (ord - 1) < n"
    proof (cases "Suc o1 < ord")
      case False
      with ord(2) have "ord - 1 = o1" by simp
      then show ?thesis using True by simp
    qed (use ord in simp)
    then show ?thesis using ord True w by (subst size2ord_loop.simps) (auto intro!: exI [of _ ord])
  qed
qed

lemma size2ord_least:
  assumes "n \<le> 2 ^ 31"
  shows "\<exists>ord. size2ord n = Some ord \<and> MIN_ORD \<le> ord \<and> ord \<le> 31 \<and> n \<le> 2 ^ ord \<and>
    (MIN_ORD < ord \<longrightarrow> 2 ^ (ord - 1) < n)"
  using size2ord_loop_least [OF assms, of MIN_ORD] by (simp add: size2ord_def MIN_ORD_def)

lemma size2ord_loop_diverges:
  assumes "size2ord_loop n s ord = Some r"
  shows "\<not> (n > 2 ^ 31 \<and> (s = 0 \<or> (\<exists>k \<le> 31. s = 2 ^ k)))"
proof (rule size2ord_loop.raw_induct [OF _ assms,
    where P = "\<lambda>n s ord r. \<not> (n > 2 ^ 31 \<and> (s = 0 \<or> (\<exists>k \<le> 31. s = 2 ^ k)))"])
  fix f :: "nat \<Rightarrow> nat \<Rightarrow> nat \<Rightarrow> nat option" and n s ord r
  assume IH: "\<And>n s ord r. f n s ord = Some r \<Longrightarrow> \<not> (2 ^ 31 < n \<and> (s = 0 \<or> (\<exists>k\<le>31. s = 2 ^ k)))"
    and eq: "(if s < n then f n (s * 2 mod 2 ^ 32) (Suc ord) else Some ord) = Some r"
  show "\<not> (2 ^ 31 < n \<and> (s = 0 \<or> (\<exists>k\<le>31. s = 2 ^ k)))"
  proof
    assume n: "2 ^ 31 < n \<and> (s = 0 \<or> (\<exists>k\<le>31. s = 2 ^ k))"
    have "s < n"
    proof (cases "s = 0")
      case False
      then obtain k where "k \<le> 31" "s = 2 ^ k" using n by auto
      moreover from this have "(2::nat) ^ k \<le> 2 ^ 31" by (intro power_increasing) auto
      ultimately show ?thesis using n by linarith
    qed (use n in simp)
    then have fs: "f n (s * 2 mod 2 ^ 32) (Suc ord) = Some r" using eq by simp
    have sk: "s * 2 mod 2 ^ 32 = 0 \<or> (\<exists>k\<le>31. s * 2 mod 2 ^ 32 = 2 ^ k)"
    proof (cases "s = 0")
      case False
      then obtain k where k: "k \<le> 31" "s = 2 ^ k" using n by auto
      show ?thesis
      proof (cases "k = 31")
        case False
        then have "Suc k \<le> 31" using k by simp
        moreover from this have "(2::nat) ^ Suc k \<le> 2 ^ 31" by (rule power_increasing) simp
        then have "s * 2 mod 2 ^ 32 = 2 ^ Suc k" using k by simp
        ultimately show ?thesis by blast
      qed (use k in simp)
    qed simp
    show False by (rule notE [OF IH [OF fs]]) (rule conjI [OF conjunct1 [OF n] sk])
  qed
qed

section \<open>Writes inside an allocated block\<close>

lemma heap_write_own:
  assumes ok: "heap_ok a L A" and b: "b \<in> A"
    and m: "\<And>x. x < base a \<or> x - base a \<notin> blk b \<Longrightarrow> m x = mem a x"
  shows "heap_ok (a\<lparr>mem := m\<rparr>) L A" and "keeps (A - {b}) a (a\<lparr>mem := m\<rparr>)"
proof -
  obtain p i where pi: "b = (p, i)" by (cases b)
  have outside: "m (base a + x) = mem a (base a + x)" if "c \<in> frees (base a) L \<union> A" "c \<noteq> b" "x \<in> blk c" for c x
  proof -
    have "blk c \<inter> blk b = {}" using part_disjoint [OF heap_part [OF ok], of c b] that b by auto
    then show ?thesis using that by (intro m) auto
  qed
  have "rd32 m y = rd32 (mem a) y" if y: "y \<in> set (L j)" for y j
  proof (rule rd32_cong)
    fix x assume x: "y \<le> x" "x < y + 4"
    have f: "(y - base a, j) \<in> frees (base a) L" using frees_mem [OF ok y] .
    have "(32::nat) \<le> 2 ^ j" using heap_ord [OF ok, of "y - base a" j] f pow_ge_32 by (auto simp: MIN_ORD_def)
    then have "x - base a \<in> blk (y - base a, j)" using x heap_ge [OF ok y] by auto
    moreover have "(y - base a, j) \<noteq> b" using f b heap_disj [OF ok] by auto
    ultimately have "m (base a + (x - base a)) = mem a (base a + (x - base a))"
      using outside f by blast
    then show "m x = mem a x" using x heap_ge [OF ok y] by simp
  qed
  then have "fchain m q (L j) = fchain (mem a) q (L j)" for q j by (intro fchain_cong)
  then show "heap_ok (a\<lparr>mem := m\<rparr>) L A" using ok by (simp add: heap_ok_def lists_def)
  show "keeps (A - {b}) a (a\<lparr>mem := m\<rparr>)" using outside by (auto simp: keeps_def)
qed

lemma keeps_hdrs:
  assumes ok: "heap_ok a L A" and h: "hdrs_ok a A" and k: "keeps B a a'" and "B \<subseteq> A"
  shows "hdrs_ok a' B"
proof -
  have "hdr_magic a' (base a' + p) = HDR_MAGIC \<and> hdr_ord a' (base a' + p) = i" if b: "(p, i) \<in> B" for p i
  proof -
    have A: "(p, i) \<in> A" using b assms(4) by auto
    have "(32::nat) \<le> 2 ^ i" using heap_ord [OF ok, of p i] A pow_ge_32 by (auto simp: MIN_ORD_def)
    then have same: "mem a' (base a + p + x) = mem a (base a + p + x)" if "x < 32" for x
      using k b that by (auto simp: keeps_def add.assoc)
    have "rd32 (mem a') (base a + p + 4) = rd32 (mem a) (base a + p + 4)"
    proof (rule rd32_cong)
      fix x assume "base a + p + 4 \<le> x" "x < base a + p + 4 + 4"
      then show "mem a' x = mem a x" using same [of "x - (base a + p)"] by simp
    qed
    then show ?thesis using h A same [of 8] k
      by (auto simp: hdrs_ok_def hdr_magic_def hdr_ord_def keeps_def)
  qed
  then show ?thesis by (auto simp: hdrs_ok_def)
qed

section \<open>Allocation\<close>

lemma find_cur_spec:
  "ord \<le> find_cur fr ord \<and> (\<forall>j. ord \<le> j \<and> j < find_cur fr ord \<and> j \<le> MAX_ORD \<longrightarrow> fr ! j = NULL) \<and>
   (find_cur fr ord \<le> MAX_ORD \<longrightarrow> fr ! find_cur fr ord \<noteq> NULL)"
proof (induction fr ord rule: find_cur.induct)
  case (1 fr cur)
  show ?case
  proof (cases "cur \<le> MAX_ORD \<and> fr ! cur = NULL")
    case True
    then have "find_cur fr cur = find_cur fr (Suc cur)" by (subst find_cur.simps) simp
    then show ?thesis using 1 [OF True] True by (metis Suc_leD Suc_leI le_neq_implies_less)
  next
    case False
    then have "find_cur fr cur = cur" by (subst find_cur.simps) auto
    then show ?thesis using False by auto
  qed
qed

lemma heap_counters [simp]:
  "heap_ok (account_alloc ord n a) L A = heap_ok a L A" "keeps A b (account_alloc ord n a) = keeps A b a"
  "heap_ok (account_free ord n a) L A = heap_ok a L A" "keeps A b (account_free ord n a) = keeps A b a"
  "mem (account_alloc ord n a) = mem a" "base (account_alloc ord n a) = base a"
  "free (account_alloc ord n a) = free a" "siz (account_alloc ord n a) = siz a"
  "mem (account_free ord n a) = mem a" "base (account_free ord n a) = base a"
  "hdrs_ok (account_free ord n a) A = hdrs_ok a A" "siz (account_free ord n a) = siz a"
  "keeps A (account_free ord n a) b = keeps A a b"
  by (auto simp: account_alloc_def account_free_def heap_ok_def lists_def keeps_def hdrs_ok_def
      hdr_magic_def hdr_ord_def Let_def)

lemma write_hdr_mem:
  assumes "n < 2 ^ 32" "ord < 256"
  shows "x < h \<or> h + 10 \<le> x \<Longrightarrow> mem (write_hdr h ord n a) x = mem a x"
    and "hdr_size (write_hdr h ord n a) h = n" and "hdr_magic (write_hdr h ord n a) h = HDR_MAGIC"
    and "hdr_ord (write_hdr h ord n a) h = ord"
  using assms by (auto simp: write_hdr_def Let_def wr32_other hdr_size_def hdr_magic_def hdr_ord_def HDR_MAGIC_def)

lemma heap_head:
  assumes "heap_ok a L A" "c \<le> MAX_ORD"
  shows "free a ! c = (if L c = [] then NULL else hd (L c))" and "free a ! c = NULL \<longleftrightarrow> L c = []"
proof -
  have "fchain (mem a) (free a ! c) (L c)" using assms heap_lists [OF assms(1)] by (simp add: lists_def)
  then show "free a ! c = (if L c = [] then NULL else hd (L c))" "free a ! c = NULL \<longleftrightarrow> L c = []"
    by (cases "L c"; auto)+
qed

lemma heap_take:
  assumes ok: "heap_ok a L A" and cur: "cur \<le> MAX_ORD" "free a ! cur \<noteq> NULL" and ord: "MIN_ORD \<le> ord" "ord \<le> cur"
  shows "\<exists>a' L' off. free a ! cur = base a + off \<and>
    split_down (a\<lparr>free := (free a)[cur := rd32 (mem a) (free a ! cur)]\<rparr>) (free a ! cur) ord cur = Some a' \<and>
    heap_ok a' L' (insert (off, ord) A) \<and> (off, ord) \<notin> A \<and> keeps A a a'"
proof -
  obtain x xs where x: "L cur = x # xs" "free a ! cur = x"
    using heap_head [OF ok cur(1)] cur(2) by (cases "L cur") auto
  let ?a = "a\<lparr>free := (free a)[cur := rd32 (mem a) x]\<rparr>"
  have bx: "base a \<le> x" using heap_ge [OF ok, of x cur] x by simp
  have "(x - base a, cur) \<in> frees (base a) L" using frees_mem [OF ok, of x cur] x by simp
  then have "(x - base a, cur) \<notin> A" using heap_disj [OF ok] by auto
  from split_down_ok [OF heap_pop [OF ok x(1)] this ord] obtain a' L' where
    a': "split_down ?a (base ?a + (x - base a)) ord cur = Some a'" "heap_ok a' L' (insert (x - base a, ord) A)"
    "(x - base a, ord) \<notin> A" "keeps A ?a a'" by blast
  have "keeps A a a'" using a'(4) by (simp add: keeps_def)
  then show ?thesis using a' bx x by (intro exI [of _ a'] exI [of _ L'] exI [of _ "x - base a"]) auto
qed

lemma km_alloc_cases:
  assumes ok: "heap_ok a L A" and hd: "hdrs_ok a A" and n: "n = align_up n0 4" "n + 10 \<le> 2 ^ 31"
  shows "\<exists>ord. size2ord (n + 10) = Some ord \<and>
    (km_alloc a n0 = Some (NULL, account_alloc ord n a) \<and> (\<forall>(q, i)\<in>frees (base a) L. 2 ^ i < n + 10) \<or>
     (\<exists>off a' L'. km_alloc a n0 = Some (base a + off + 10, a') \<and> n + 10 \<le> 2 ^ ord \<and> (off, ord) \<notin> A \<and>
        heap_ok a' L' (insert (off, ord) A) \<and> hdrs_ok a' (insert (off, ord) A) \<and>
        hdr_size a' (base a + off) = n \<and> keeps A a a'))"
proof -
  obtain ord where ord: "size2ord (n + 10) = Some ord" "MIN_ORD \<le> ord" "ord \<le> 31" "n + 10 \<le> 2 ^ ord"
    "MIN_ORD < ord \<longrightarrow> 2 ^ (ord - 1) < n + 10"
    using size2ord_least [OF n(2)] by blast
  let ?a = "account_alloc ord n a" and ?cur = "find_cur (free a) ord"
  note cur = find_cur_spec [of ord "free a"]
  have tot: "(n + HDR_SIZ) mod 2 ^ 32 = n + 10" using n(2) by (simp add: HDR_SIZ_def)
  show ?thesis
  proof (cases "?cur > MAX_ORD")
    case True
    have "km_alloc a n0 = Some (NULL, ?a)"
      using tot ord(1) True n(1) by (simp add: km_alloc_def Let_def)
    moreover have "2 ^ i < n + 10" if f: "(q, i) \<in> frees (base a) L" for q i
    proof -
      have i: "MIN_ORD \<le> i" "i \<le> MAX_ORD" using heap_ord [OF ok, of q i] f by auto
      have "L i \<noteq> []" using f by (auto simp: frees_def)
      then have "free a ! i \<noteq> NULL" using heap_head(2) [OF ok i(2)] by simp
      then have lt: "i < ord" using cur i(2) True by (metis le_less_trans not_le)
      then have "(2::nat) ^ i \<le> 2 ^ (ord - 1)" by (intro power_increasing) auto
      moreover have "2 ^ (ord - 1) < n + 10" using ord(5) lt i(1) by linarith
      ultimately show ?thesis by linarith
    qed
    ultimately show ?thesis using ord(1) by auto
  next
    case False
    then have c: "?cur \<le> MAX_ORD" "free ?a ! ?cur \<noteq> NULL" "ord \<le> ?cur" using cur by auto
    have ok': "heap_ok ?a L A" using ok by simp
    from heap_take [OF ok' c(1,2) ord(2) c(3)] obtain a' L' off where
      a': "free a ! ?cur = base a + off"
      "split_down (?a\<lparr>free := (free a)[?cur := rd32 (mem a) (free a ! ?cur)]\<rparr>) (free a ! ?cur) ord ?cur = Some a'"
      "heap_ok a' L' (insert (off, ord) A)" "(off, ord) \<notin> A" "keeps A a a'" by (auto simp: keeps_def)
    let ?w = "write_hdr (base a + off) ord n a'"
    have base: "base a' = base a" using a'(5) by (simp add: keeps_def)
    have small: "n < 2 ^ 32" "ord < 256" using n(2) ord(3) by auto
    have "(32::nat) \<le> 2 ^ ord" using pow_ge_32 ord(2) by (simp add: MIN_ORD_def)
    then have m: "mem ?w x = mem a' x" if "x < base a' \<or> x - base a' \<notin> blk (off, ord)" for x
      using that base by (intro write_hdr_mem(1) [OF small]) auto
    have w: "?w = a'\<lparr>mem := mem ?w\<rparr>" by (simp add: write_hdr_def Let_def)
    note own = heap_write_own [OF a'(3) insertI1, of "mem ?w", OF m, folded w]
    have kw: "keeps A a' ?w" using own(2) a'(4) by (simp add: Diff_insert_absorb)
    have "hdrs_ok ?w A" by (rule keeps_hdrs [OF ok hd keeps_trans [OF a'(5) kw]]) simp
    then have "hdrs_ok ?w (insert (off, ord) A)"
      using write_hdr_mem(3,4) [OF small, of "base a + off" a'] own(1) kw base
      by (auto simp: hdrs_ok_def keeps_def)
    moreover have "km_alloc a n0 = Some (base a + off + 10, ?w)"
      using tot ord(1) c a'(1,2) n(1) by (simp add: km_alloc_def Let_def HDR_SIZ_def)
    ultimately show ?thesis
      using ord(1,4) a'(4) own(1) keeps_trans [OF a'(5) kw] write_hdr_mem(2) [OF small, of "base a + off" a']
      by blast
  qed
qed

section \<open>Release\<close>

lemma km_free_ok:
  assumes ok: "heap_ok a L A" and hd: "hdrs_ok a A" and b: "(p, i) \<in> A"
  shows "\<exists>a' L'. km_free a (base a + p + 10) = Some a' \<and> heap_ok a' L' (A - {(p, i)}) \<and>
    hdrs_ok a' (A - {(p, i)}) \<and> keeps (A - {(p, i)}) a a'"
proof -
  let ?A = "A - {(p, i)}" and ?h = "base a + p" and ?ptr = "base a + p + 10"
  have ins: "insert (p, i) ?A = A" using b by auto
  let ?a1 = "account_free (hdr_ord a ?h) (hdr_size a ?h) a"
  have hdr: "hdr_magic a ?h = HDR_MAGIC" "hdr_ord a ?h = i" using hd b by (auto simp: hdrs_ok_def)
  have bound: "?h + 2 ^ i \<le> 2 ^ 32" using heap_mem_bound [OF ok, of p i] b by simp
  have i32: "(32::nat) \<le> 2 ^ i" using heap_ord [OF ok, of p i] b pow_ge_32 by (auto simp: MIN_ORD_def)
  have h: "(?ptr + 2 ^ 32 - HDR_SIZ) mod 2 ^ 32 = ?h" using bound i32 by (simp add: HDR_SIZ_def)
  have off: "ptr2off ?a1 ?h = p" using bound i32 by (simp add: ptr2off_def)
  have "heap_ok ?a1 L (insert (p, i) ?A)" using ok ins by simp
  from merge_up_ok [OF this] obtain a2 L2 q k where m: "merge_up ?a1 p i = Some (a2, q, k)"
    "heap_ok a2 L2 (insert (q, k) ?A)" "(q, k) \<notin> ?A" "k < MAX_ORD \<longrightarrow> (buddy q k, k) \<notin> frees (base a) L2"
    "keeps ?A a a2" "blk (p, i) \<subseteq> blk (q, k)" by (simp only: heap_counters) auto
  have base: "base a2 = base a" using m(5) by (simp add: keeps_def)
  let ?m = "wr32 (mem a2) (?h + 4) 0" and ?a3 = "a2\<lparr>mem := wr32 (mem a2) (?h + 4) 0\<rparr>"
  have own: "heap_ok ?a3 L2 (insert (q, k) ?A)" "keeps ?A a2 ?a3"
  proof -
    have "?m x = mem a2 x" if "x < base a2 \<or> x - base a2 \<notin> blk (q, k)" for x
    proof (rule wr32_other)
      have "\<not> (base a \<le> x \<and> p \<le> x - base a \<and> x - base a < p + 2 ^ i)"
        using that m(6) base by (auto simp: subset_iff)
      then show "x < ?h + 4 \<or> ?h + 4 + 4 \<le> x" using i32 by linarith
    qed
    note own = heap_write_own [OF m(2) insertI1 this]
    show "heap_ok ?a3 L2 (insert (q, k) ?A)" "keeps ?A a2 ?a3" using own m(3) by simp_all
  qed
  have "k < MAX_ORD \<Longrightarrow> (buddy q k, k) \<notin> frees (base ?a3) L2" using m(4) base by simp
  from heap_insert_block [OF own(1) m(3) this] obtain a' where a':
    "insert_block ?a3 (Head k) (base a + q) = Some a'"
    "heap_ok a' (L2(k := sinsert (base a + q) (L2 k))) ?A" "keeps ?A ?a3 a'" using base by auto
  have "base a2 + q + 2 ^ k \<le> 2 ^ 32" "(0::nat) < 2 ^ k" using heap_mem_bound [OF m(2), of q k] by auto
  then have "base a2 + q < 2 ^ 32" by linarith
  then have ptr: "off2ptr a2 q = base a + q" using base by (simp add: off2ptr_def)
  have "km_free a ?ptr = Some a'"
    using heap_base [OF ok] h hdr off m(1) a'(1) ptr by (simp add: km_free_def Let_def)
  moreover have k: "keeps ?A a a'" using keeps_trans [OF keeps_trans [OF m(5) own(2)] a'(3)] .
  moreover have "hdrs_ok a' ?A" by (rule keeps_hdrs [OF ok hd k]) auto
  ultimately show ?thesis using a'(2) by blast
qed

section \<open>Initialisation\<close>

lemma kmalloc_init_eq:
  "kmalloc_init a = Some (a\<lparr>free := (replicate (MAX_ORD + 1) NULL)[MAX_ORD := EXT_MEM_BASE],
     base := EXT_MEM_BASE, siz := EXT_MEM_SIZ, mem := wr32 (mem a) EXT_MEM_BASE NULL\<rparr>)"
proof -
  have "fit_ord MAX_ORD EXT_MEM_SIZ = Some 20" 
    using fit_ord.simps(2) [of 19 "2 ^ 20"] by (simp add: MAX_ORD_def EXT_MEM_SIZ_def)
  then show ?thesis by (simp add: kmalloc_init_def km_init_def alloc_consts align_up_def Let_def)
qed

lemma frees_single: "frees b (\<lambda>i. if i = m then [b] else []) = {(0, m)}"
  by (auto simp: frees_def split: if_splits)

lemma kmalloc_init_heap:
  "\<exists>a'. kmalloc_init a = Some a' \<and> heap_ok a' (\<lambda>i. if i = MAX_ORD then [EXT_MEM_BASE] else []) {} \<and>
     base a' = EXT_MEM_BASE \<and> siz a' = 2 ^ MAX_ORD"
proof -
  let ?L = "\<lambda>i. if i = MAX_ORD then [EXT_MEM_BASE] else []"
  let ?a = "a\<lparr>free := (replicate (MAX_ORD + 1) NULL)[MAX_ORD := EXT_MEM_BASE],
     base := EXT_MEM_BASE, siz := EXT_MEM_SIZ, mem := wr32 (mem a) EXT_MEM_BASE NULL\<rparr>"
  have "lists ?a ?L" by (auto simp: lists_def nth_list_update EXT_MEM_BASE_def simp del: replicate.simps)
  moreover have "part (2 ^ MAX_ORD) {(0, MAX_ORD)}" by (auto simp: part_def)
  ultimately have "heap_ok ?a ?L {}"
    by (simp add: heap_ok_def frees_single coalesced_def) (simp add: alloc_consts)
  then show ?thesis using kmalloc_init_eq [of a] by (auto simp: alloc_consts)
qed

section \<open>The malloc layer\<close>

lemma memcpy_fwd:
  "i < n \<Longrightarrow> dst \<le> src \<or> src + i < dst \<Longrightarrow> memcpy m dst src n (dst + i) = m (src + i)"
proof (induction n arbitrary: m dst src i)
  case (Suc n)
  show ?case
  proof (cases i)
    case 0
    then show ?thesis by (simp add: memcpy_out)
  next
    case (Suc j)
    then show ?thesis using Suc.prems Suc.IH [of j "Suc dst" "Suc src"] by auto
  qed
qed simp

text \<open>A live block with its payload: what a successful allocation hands out.\<close>

definition allocated :: "alloc \<Rightarrow> block set \<Rightarrow> nat \<Rightarrow> alloc \<Rightarrow> addr \<Rightarrow> block \<Rightarrow> bool" where
  "allocated a A n a' p b \<longleftrightarrow> p = base a + fst b + 10 \<and> n + 10 \<le> 2 ^ snd b \<and> b \<notin> A \<and>
     (\<exists>L'. heap_ok a' L' (insert b A)) \<and> hdrs_ok a' (insert b A) \<and>
     hdr_size a' (base a + fst b) = align_up n 4 \<and> keeps A a a'"

lemma align_up_4: "n \<le> 2 ^ 31 \<Longrightarrow> n \<le> align_up n 4 \<and> align_up n 4 < n + 4 \<and> 4 dvd align_up n 4"
proof -
  assume "n \<le> 2 ^ 31"
  then have "align_up n 4 = (n + 3) div 4 * 4" by (simp add: align_up_def)
  then show ?thesis by (simp add: dvd_def) presburger
qed

lemma km_alloc_allocated:
  assumes ok: "heap_ok a L A" and hd: "hdrs_ok a A" and n: "n0 \<le> 2 ^ 31 - 14"
  shows "\<exists>p a'. km_alloc a n0 = Some (p, a') \<and>
    (p = NULL \<and> heap_ok a' L A \<and> hdrs_ok a' A \<and> mem a' = mem a \<and> base a' = base a \<and>
       (\<forall>(q, i)\<in>frees (base a) L. 2 ^ i < n0 + 14) \<or>
     (\<exists>b. allocated a A n0 a' p b))"
proof -
  have n': "n0 \<le> align_up n0 4" "align_up n0 4 < n0 + 4" "align_up n0 4 + 10 \<le> 2 ^ 31"
    using align_up_4 [of n0] n by auto
  from km_alloc_cases [OF ok hd refl n'(3)] consider
      ord where "km_alloc a n0 = Some (NULL, account_alloc ord (align_up n0 4) a)"
        "\<forall>(q, i)\<in>frees (base a) L. 2 ^ i < align_up n0 4 + 10"
    | ord off a' L' where "km_alloc a n0 = Some (base a + off + 10, a')" "align_up n0 4 + 10 \<le> 2 ^ ord"
        "(off, ord) \<notin> A" "heap_ok a' L' (insert (off, ord) A)" "hdrs_ok a' (insert (off, ord) A)"
        "hdr_size a' (base a + off) = align_up n0 4" "keeps A a a'" by blast
  then show ?thesis
  proof cases
    case (1 ord)
    have "hdrs_ok (account_alloc ord (align_up n0 4) a) A"
      using hd by (simp add: hdrs_ok_def hdr_magic_def hdr_ord_def)
    moreover have "\<forall>(q, i)\<in>frees (base a) L. 2 ^ i < n0 + 14" using 1(2) n'(2) by fastforce
    ultimately show ?thesis using 1 ok by simp
  next
    case (2 ord off a' L')
    then have "allocated a A n0 a' (base a + off + 10) (off, ord)" using n'(1) by (auto simp: allocated_def)
    then show ?thesis using 2(1) by blast
  qed
qed

lemma allocated_payload:
  assumes al: "allocated a A n a' p b" and m: "\<And>x. x < p \<or> p + n \<le> x \<Longrightarrow> m x = mem a' x"
  shows "allocated a A n (a'\<lparr>mem := m\<rparr>) p b"
proof -
  obtain o1 i where b: "b = (o1, i)" by (cases b)
  from al obtain L' where L': "heap_ok a' L' (insert b A)" by (auto simp: allocated_def)
  have base: "base a' = base a" and p: "p = base a + o1 + 10" "n + 10 \<le> 2 ^ i"
    using al b by (auto simp: allocated_def keeps_def)
  have m': "m x = mem a' x" if "x < base a' \<or> x - base a' \<notin> blk b" for x
    using that b base p by (intro m) auto
  note own = heap_write_own [OF L' insertI1 m']
  have k: "keeps A a (a'\<lparr>mem := m\<rparr>)"
    using own(2) al keeps_trans by (auto simp: allocated_def)
  have hdr: "m x = mem a' x" if "x < p" for x using m that by blast
  have "hdr_size (a'\<lparr>mem := m\<rparr>) (base a + o1) = hdr_size a' (base a + o1)"
    "hdr_magic (a'\<lparr>mem := m\<rparr>) (base a + o1) = hdr_magic a' (base a + o1)"
    "hdr_ord (a'\<lparr>mem := m\<rparr>) (base a + o1) = hdr_ord a' (base a + o1)"
    unfolding hdr_size_def hdr_magic_def hdr_ord_def using p hdr by (auto intro!: rd32_cong)
  moreover have "hdrs_ok (a'\<lparr>mem := m\<rparr>) A"
    by (rule keeps_hdrs [OF L' _ , of A]) (use al own(2) in \<open>auto simp: allocated_def\<close>)
  ultimately show ?thesis
    using al own(1) k b base by (auto simp: allocated_def hdrs_ok_def)
qed

lemma allocated_zeroed:
  assumes "allocated a A n a' p b"
  shows "allocated a A n (a'\<lparr>mem := memset (mem a') p 0 n\<rparr>) p b" and "p + n \<le> 2 ^ 32" and "NULL < p"
proof -
  from assms obtain L' where L': "heap_ok a' L' (insert b A)" by (auto simp: allocated_def)
  then have "base a' + fst b + 2 ^ snd b \<le> 2 ^ 32" "0 < base a'"
    using heap_mem_bound [OF L', of "fst b" "snd b"] heap_base [OF L'] by auto
  then show top: "p + n \<le> 2 ^ 32" and "NULL < p" using assms by (auto simp: allocated_def keeps_def)
  show "allocated a A n (a'\<lparr>mem := memset (mem a') p 0 n\<rparr>) p b"
    by (rule allocated_payload [OF assms]) (rule memset_out [OF top])
qed

section \<open>Clients of a heap\<close>

text \<open>A client's requests: get a block of some size, or give back the \<open>k\<close>-th live block.\<close>

datatype req = Get nat | Put nat

fun run_reqs :: "('s \<Rightarrow> nat \<Rightarrow> ('b option \<times> 's) option) \<Rightarrow> ('s \<Rightarrow> 'b \<Rightarrow> 's option) \<Rightarrow>
    's \<Rightarrow> 'b list \<Rightarrow> req list \<Rightarrow> ('s \<times> 'b list) option" where
  "run_reqs get put s bs [] = Some (s, bs)"
| "run_reqs get put s bs (Get n # rs) =
     (case get s n of
        None \<Rightarrow> None
      | Some (None, s') \<Rightarrow> run_reqs get put s' bs rs
      | Some (Some b, s') \<Rightarrow> run_reqs get put s' (b # bs) rs)"
| "run_reqs get put s bs (Put k # rs) =
     (if k < length bs then
        (case put s (bs ! k) of
           None \<Rightarrow> None
         | Some s' \<Rightarrow> run_reqs get put s' (take k bs @ drop (Suc k) bs) rs)
      else run_reqs get put s bs rs)"

fun req_ok :: "nat \<Rightarrow> req \<Rightarrow> bool" where
  "req_ok m (Get n) = (n \<le> m)"
| "req_ok m (Put k) = True"

text \<open>What the rest of the kernel relies on: a request is answered, a fresh block is not
  one of the live ones, and no operation changes the contents of a live block.\<close>

locale heap_provider =
  fixes inv :: "'s \<Rightarrow> 'b set \<Rightarrow> bool"
    and get :: "'s \<Rightarrow> nat \<Rightarrow> ('b option \<times> 's) option"
    and put :: "'s \<Rightarrow> 'b \<Rightarrow> 's option"
    and bytes :: "'s \<Rightarrow> 'b \<Rightarrow> 'v"
    and limit :: nat
  assumes get_ok: "inv s A \<Longrightarrow> n \<le> limit \<Longrightarrow> \<exists>r s'. get s n = Some (r, s') \<and>
      (\<forall>c\<in>A. bytes s' c = bytes s c) \<and>
      (case r of None \<Rightarrow> inv s' A | Some b \<Rightarrow> b \<notin> A \<and> inv s' (insert b A))"
    and put_ok: "inv s A \<Longrightarrow> b \<in> A \<Longrightarrow> \<exists>s'. put s b = Some s' \<and> inv s' (A - {b}) \<and>
      (\<forall>c\<in>A - {b}. bytes s' c = bytes s c)"
begin

lemma run_safe:
  assumes "inv s (set bs)" "distinct bs" "list_all (req_ok limit) rs"
  shows "\<exists>s' bs'. run_reqs get put s bs rs = Some (s', bs') \<and> inv s' (set bs') \<and> distinct bs'"
  using assms
proof (induction rs arbitrary: s bs)
  case (Cons r rs)
  show ?case
  proof (cases r)
    case (Get n)
    from Cons.prems Get obtain q s' where "get s n = Some (q, s')"
      "case q of None \<Rightarrow> inv s' (set bs) | Some b \<Rightarrow> b \<notin> set bs \<and> inv s' (insert b (set bs))"
      using get_ok [of s "set bs" n] by auto
    then show ?thesis using Cons.IH [of s' bs] Cons.IH [of s' "the q # bs"] Cons.prems Get
      by (auto split: option.splits)
  next
    case (Put k)
    show ?thesis
    proof (cases "k < length bs")
      case True
      let ?bs = "take k bs @ drop (Suc k) bs"
      have split: "bs = take k bs @ bs ! k # drop (Suc k) bs" using True by (rule id_take_nth_drop)
      have "distinct (take k bs @ bs ! k # drop (Suc k) bs)" using Cons.prems(2) split by simp
      then have d: "distinct ?bs" "bs ! k \<notin> set ?bs" by auto
      have "set bs = insert (bs ! k) (set ?bs)" by (subst split) auto
      then have "set ?bs = set bs - {bs ! k}" using d(2) by auto
      moreover obtain s' where "put s (bs ! k) = Some s'" "inv s' (set bs - {bs ! k})"
        using put_ok [OF Cons.prems(1), of "bs ! k"] True by auto
      ultimately show ?thesis using Cons.IH [of s' ?bs] Cons.prems d True Put by auto
    qed (use Cons Put in auto)
  qed
qed auto

lemma run_frame:
  assumes "inv s (set bs)" "distinct bs" "list_all (req_ok limit) rs" "c \<in> set bs"
    and "\<forall>k. Put k \<notin> set rs"
    and "run_reqs get put s bs rs = Some (s', bs')"
  shows "c \<in> set bs' \<and> bytes s' c = bytes s c"
  using assms
proof (induction rs arbitrary: s bs)
  case (Cons r rs)
  then obtain n where n: "r = Get n" by (cases r) auto
  obtain q t where t: "get s n = Some (q, t)" "\<forall>c\<in>set bs. bytes t c = bytes s c"
    "case q of None \<Rightarrow> inv t (set bs) | Some b \<Rightarrow> b \<notin> set bs \<and> inv t (insert b (set bs))"
    using get_ok [of s "set bs" n] Cons.prems n by auto
  show ?case
  proof (cases q)
    case None
    then show ?thesis using Cons.IH [of t bs] Cons.prems t n by auto
  next
    case (Some b)
    then show ?thesis using Cons.IH [of t "b # bs"] Cons.prems t n by auto
  qed
qed auto

end

definition heap_get :: "alloc \<Rightarrow> nat \<Rightarrow> (block option \<times> alloc) option" where
  "heap_get a n = map_option (\<lambda>(p, a').
     (if p = NULL then None else Some (p - HDR_SIZ - base a, hdr_ord a' (p - HDR_SIZ)), a')) (km_alloc a n)"

definition heap_put :: "alloc \<Rightarrow> block \<Rightarrow> alloc option" where
  "heap_put a b = km_free a (base a + fst b + HDR_SIZ)"

definition heap_inv :: "alloc \<Rightarrow> block set \<Rightarrow> bool" where
  "heap_inv a A \<longleftrightarrow> hdrs_ok a A \<and> (\<exists>L. heap_ok a L A)"

definition block_bytes :: "alloc \<Rightarrow> block \<Rightarrow> u8 list" where
  "block_bytes a b = map (mem a) [base a + fst b ..< base a + fst b + 2 ^ snd b]"

lemma keeps_bytes: "keeps A a a' \<Longrightarrow> c \<in> A \<Longrightarrow> block_bytes a' c = block_bytes a c"
proof -
  assume k: "keeps A a a'" "c \<in> A"
  have "mem a' x = mem a x" if "base a + fst c \<le> x" "x < base a + fst c + 2 ^ snd c" for x
  proof -
    have "x - base a \<in> blk c" using that by (cases c) auto
    then have "mem a' (base a + (x - base a)) = mem a (base a + (x - base a))"
      using k by (auto simp: keeps_def)
    then show ?thesis using that by simp
  qed
  then show ?thesis using k by (auto simp: block_bytes_def keeps_def)
qed

interpretation km: heap_provider heap_inv heap_get heap_put block_bytes "2 ^ 31 - 14"
proof unfold_locales
  fix a A and n :: nat assume inv: "heap_inv a A" and n: "n \<le> 2 ^ 31 - 14"
  then obtain L where ok: "heap_ok a L A" and hd: "hdrs_ok a A" by (auto simp: heap_inv_def)
  from km_alloc_allocated [OF ok hd n] obtain p a' where al: "km_alloc a n = Some (p, a')"
    and c: "p = NULL \<and> heap_ok a' L A \<and> hdrs_ok a' A \<and> mem a' = mem a \<and> base a' = base a \<or>
      (\<exists>b. allocated a A n a' p b)" by blast
  from c show "\<exists>r a'. heap_get a n = Some (r, a') \<and> (\<forall>c\<in>A. block_bytes a' c = block_bytes a c) \<and>
      (case r of None \<Rightarrow> heap_inv a' A | Some b \<Rightarrow> b \<notin> A \<and> heap_inv a' (insert b A))"
  proof
    assume "p = NULL \<and> heap_ok a' L A \<and> hdrs_ok a' A \<and> mem a' = mem a \<and> base a' = base a"
    then show ?thesis using al by (auto simp: heap_get_def heap_inv_def block_bytes_def)
  next
    assume "\<exists>b. allocated a A n a' p b"
    then obtain o1 i where b: "allocated a A n a' p (o1, i)" by auto
    then have "hdr_ord a' (base a + o1) = i" by (auto simp: allocated_def hdrs_ok_def keeps_def)
    then have "heap_get a n = Some (Some (o1, i), a')"
      using al b allocated_zeroed(3) [OF b] by (auto simp: heap_get_def allocated_def HDR_SIZ_def)
    then show ?thesis using b keeps_bytes by (auto simp: allocated_def heap_inv_def)
  qed
next
  fix a A b assume "heap_inv a A" and b: "b \<in> A"
  then obtain L where "heap_ok a L A" "hdrs_ok a A" by (auto simp: heap_inv_def)
  from km_free_ok [OF this, of "fst b" "snd b"] b
  show "\<exists>a'. heap_put a b = Some a' \<and> heap_inv a' (A - {b}) \<and>
      (\<forall>c\<in>A - {b}. block_bytes a' c = block_bytes a c)"
    using keeps_bytes by (fastforce simp: heap_put_def heap_inv_def HDR_SIZ_def)
qed

lemma malloc_allocated:
  assumes "heap_ok a L A" "hdrs_ok a A" "n \<le> 2 ^ 31 - 14"
  shows "\<exists>p a'. malloc a n = Some (p, a') \<and>
    (p = NULL \<and> mem a' = memset (mem a) NULL 0 n \<and> (\<forall>(q, i)\<in>frees (base a) L. 2 ^ i < n + 14) \<or>
     (\<exists>b. allocated a A n a' p b \<and> (\<forall>c\<in>A. blk b \<inter> blk c = {}) \<and> (\<forall>i<n. mem a' (p + i) = 0)))"
proof -
  from km_alloc_allocated [OF assms] obtain p a' where al: "km_alloc a n = Some (p, a')"
    and c: "p = NULL \<and> mem a' = mem a \<and> (\<forall>(q, i)\<in>frees (base a) L. 2 ^ i < n + 14) \<or>
      (\<exists>b. allocated a A n a' p b)" by blast
  let ?a = "a'\<lparr>mem := memset (mem a') p 0 n\<rparr>"
  have m: "malloc a n = Some (p, ?a)" using al by (simp add: malloc_def)
  from c show ?thesis
  proof
    assume "\<exists>b. allocated a A n a' p b"
    then obtain b where b: "allocated a A n a' p b" by blast
    then obtain L' where L': "heap_ok a' L' (insert b A)" "b \<notin> A" by (auto simp: allocated_def)
    have "\<forall>c\<in>A. blk b \<inter> blk c = {}"
      using part_disjoint [OF heap_part [OF L'(1)], of b] L'(2) by auto
    moreover have "\<forall>i<n. mem ?a (p + i) = 0" using allocated_zeroed(2) [OF b] by (simp add: memset_in)
    ultimately show ?thesis using m allocated_zeroed(1) [OF b] by blast
  qed (use m in auto)
qed

lemma realloc_moves:
  assumes ok: "heap_ok a L A" and hd: "hdrs_ok a A" and b: "(p, i) \<in> A" and n: "0 < n" "n \<le> 2 ^ 31 - 14"
    and q: "malloc a n = Some (q, a1)" "q \<noteq> NULL"
  shows "\<exists>a' b' L'. realloc a (base a + p + 10) n = Some (q, a') \<and> q = base a + fst b' + 10 \<and>
    n + 10 \<le> 2 ^ snd b' \<and> heap_ok a' L' (insert b' (A - {(p, i)})) \<and> hdrs_ok a' (insert b' (A - {(p, i)})) \<and>
    keeps (A - {(p, i)}) a a' \<and>
    (\<forall>j. j < n \<and> j + 10 < 2 ^ i \<longrightarrow> mem a' (q + j) = mem a (base a + p + 10 + j))"
proof -
  let ?src = "base a + p + 10" and ?A = "A - {(p, i)}"
  obtain c where c: "allocated a A n a1 q c" "\<forall>d\<in>A. blk c \<inter> blk d = {}"
    using malloc_allocated [OF ok hd n(2)] q by auto
  let ?a2 = "a1\<lparr>mem := memcpy (mem a1) q ?src n\<rparr>"
  have c2: "allocated a A n ?a2 q c" by (rule allocated_payload [OF c(1)]) (rule memcpy_out)
  then obtain L2 where L2: "heap_ok ?a2 L2 (insert c A)" "hdrs_ok ?a2 (insert c A)" "c \<notin> A" "base a1 = base a"
    "q = base a + fst c + 10" "n + 10 \<le> 2 ^ snd c"
    by (auto simp: allocated_def keeps_def)
  from km_free_ok [OF L2(1,2), of p i] b obtain a' L' where a': "km_free ?a2 ?src = Some a'"
    "heap_ok a' L' (insert c A - {(p, i)})" "hdrs_ok a' (insert c A - {(p, i)})"
    "keeps (insert c A - {(p, i)}) ?a2 a'" using L2(4) by auto
  have ins: "insert c A - {(p, i)} = insert c ?A" using b L2(3) by auto
  have "keeps A a ?a2" using c2 unfolding allocated_def by blast
  then have k: "keeps ?A a a'" using a'(4) ins by (auto intro: keeps_trans keeps_mono)
  have "mem a' (q + j) = mem a (?src + j)" if j: "j < n" "j + 10 < 2 ^ i" for j
  proof -
    have in_c: "fst c + 10 + j \<in> blk c" and in_p: "p + 10 + j \<in> blk (p, i)" "fst c \<in> blk c"
      using j L2(6) by (cases c; simp)+
    have "mem a' (base a + (fst c + 10 + j)) = mem ?a2 (base a + (fst c + 10 + j))"
      using a'(4) ins in_c L2(4) by (auto simp: keeps_def)
    then have 1: "mem a' (q + j) = mem ?a2 (q + j)" using L2(5) by (simp add: ac_simps)
    have disj: "blk c \<inter> blk (p, i) = {}" using c(2) b by blast
    have "q \<le> ?src \<or> ?src + j < q"
    proof (rule ccontr)
      assume "\<not> ?thesis"
      then have "p < fst c" "fst c \<le> p + j" using L2(5) by auto
      then have "fst c \<in> blk (p, i)" using j by auto
      then show False using disj in_p(2) by blast
    qed
    then have 2: "mem ?a2 (q + j) = mem a1 (?src + j)" using memcpy_fwd [OF j(1)] by simp
    have "mem a1 (base a + (p + 10 + j)) = mem a (base a + (p + 10 + j))"
      using c(1) b in_p(1) by (fastforce simp: allocated_def keeps_def)
    then show ?thesis using 1 2 by (simp add: ac_simps)
  qed
  moreover have "realloc a ?src n = Some (q, a')"
    using n(1) q(1) a'(1) by (simp add: realloc_def kfree_def Let_def)
  ultimately show ?thesis using a' ins k L2 by (intro exI [of _ a'] exI [of _ c] exI [of _ L']) auto
qed

section \<open>Properties\<close>

text \<open>The heap right after boot, and a state on which to instantiate the theorems.\<close>

definition zero_alloc :: alloc where
  "zero_alloc = \<lparr>mem = \<lambda>_. 0, base = 0, siz = 0, free = [], used_mem = 0, used_truly = 0, used_max = 0\<rparr>"

definition boot_heap :: alloc where
  "boot_heap = the (kmalloc_init zero_alloc)"

definition boot_lists :: "nat \<Rightarrow> addr list" where
  "boot_lists = (\<lambda>i. if i = MAX_ORD then [EXT_MEM_BASE] else [])"

lemma boot_heap_ok: "heap_ok boot_heap boot_lists {}" "hdrs_ok boot_heap {}" "base boot_heap = EXT_MEM_BASE"
  "siz boot_heap = 2 ^ MAX_ORD"
  using kmalloc_init_heap [of zero_alloc] by (auto simp: boot_heap_def boot_lists_def hdrs_ok_def)

lemma distinct_singleton: "set xs = {x} \<Longrightarrow> distinct xs \<Longrightarrow> xs = [x]"
  by (cases xs) (auto simp: subset_singleton_iff)

text \<open>\<^verbatim>\<open>size2ord\<close> computes the least order from \<open>MIN_ORD\<close> on whose block holds the
  request, for every request of at most \<open>2 ^ 31\<close> bytes; for a larger one the doubled size
  wraps to 0 and the loop never returns.\<close>

theorem size2ord_spec:
  "(n \<le> 2 ^ 31 \<longrightarrow> (\<exists>ord. size2ord n = Some ord \<and> MIN_ORD \<le> ord \<and> n \<le> 2 ^ ord \<and>
      (\<forall>k. MIN_ORD \<le> k \<and> n \<le> 2 ^ k \<longrightarrow> ord \<le> k))) \<and> (n > 2 ^ 31 \<longrightarrow> size2ord n = None)"
proof (intro conjI impI)
  assume "n \<le> 2 ^ 31"
  then obtain ord where ord: "size2ord n = Some ord" "MIN_ORD \<le> ord" "n \<le> 2 ^ ord"
    "MIN_ORD < ord \<longrightarrow> 2 ^ (ord - 1) < n" using size2ord_least by blast
  have "ord \<le> k" if k: "MIN_ORD \<le> k" "n \<le> 2 ^ k" for k
  proof (rule ccontr)
    assume "\<not> ord \<le> k"
    then have "MIN_ORD < ord" "k \<le> ord - 1" using k by auto
    then have "(2::nat) ^ k \<le> 2 ^ (ord - 1)" by (intro power_increasing) auto
    then show False using ord(4) k(2) \<open>MIN_ORD < ord\<close> by linarith
  qed
  then show "\<exists>ord. size2ord n = Some ord \<and> MIN_ORD \<le> ord \<and> n \<le> 2 ^ ord \<and>
      (\<forall>k. MIN_ORD \<le> k \<and> n \<le> 2 ^ k \<longrightarrow> ord \<le> k)" using ord by blast
next
  assume n: "n > 2 ^ 31"
  have "(2::nat) ^ MIN_ORD = 0 \<or> (\<exists>k\<le>31. (2::nat) ^ MIN_ORD = 2 ^ k)"
    by (intro disjI2 exI [of _ MIN_ORD]) (simp add: MIN_ORD_def)
  then show "size2ord n = None"
    using size2ord_loop_diverges [of n "2 ^ MIN_ORD" MIN_ORD] n
    unfolding size2ord_def by (metis not_None_eq)
qed

theorem size2ord_spec_witness:
  "(\<exists>ord. size2ord 100 = Some ord \<and> MIN_ORD \<le> ord \<and> 100 \<le> (2::nat) ^ ord) \<and> size2ord (2 ^ 31 + 1) = None"
  using size2ord_spec [of 100] size2ord_spec [of "2 ^ 31 + 1"] by auto

text \<open>Boot: \<^verbatim>\<open>kmalloc_init\<close> always returns and hands the whole megabyte at
  \<open>0x200000\<close> to the allocator as one free block of order 20, with the invariant
  established and nothing allocated.\<close>

theorem kmalloc_init_correct:
  "\<exists>a'. kmalloc_init a = Some a' \<and> heap_ok a' boot_lists {} \<and> hdrs_ok a' {} \<and>
     frees (base a') boot_lists = {(0, MAX_ORD)} \<and> base a' = 0x200000 \<and> siz a' = 0x100000"
proof -
  obtain a' where "kmalloc_init a = Some a'" "heap_ok a' boot_lists {}" "base a' = EXT_MEM_BASE"
    "siz a' = 2 ^ MAX_ORD"
    using kmalloc_init_heap [of a] unfolding boot_lists_def by blast
  then show ?thesis
    by (intro exI [of _ a']) (simp add: hdrs_ok_def boot_lists_def frees_single, simp add: alloc_consts)
qed



text \<open>C2. \<^verbatim>\<open>km_free\<close> of a live block returns, keeps the invariant with exactly that
  block removed, and changes no byte of the other live blocks; of a null pointer, or of a
  pointer whose header has no magic number (a double free), it changes nothing.\<close>

theorem km_free_correct:
  "(heap_ok a L A \<and> hdrs_ok a A \<and> (p, i) \<in> A \<longrightarrow>
     (\<exists>a' L'. km_free a (base a + p + 10) = Some a' \<and> heap_ok a' L' (A - {(p, i)}) \<and>
        hdrs_ok a' (A - {(p, i)}) \<and> keeps (A - {(p, i)}) a a')) \<and>
   (ptr = NULL \<or> hdr_magic a ((ptr + 2 ^ 32 - 10) mod 2 ^ 32) \<noteq> HDR_MAGIC \<longrightarrow> km_free a ptr = Some a)"
  using km_free_ok [of a L A p i] by (auto simp: km_free_def Let_def HDR_SIZ_def)

theorem km_free_correct_witness:
  "\<exists>a b a' L'. km_alloc boot_heap 100 = Some (base boot_heap + fst b + 10, a) \<and>
     km_free a (base a + fst b + 10) = Some a' \<and> heap_ok a' L' {} \<and> km_free a NULL = Some a"
proof -
  have "(0, MAX_ORD) \<in> frees (base boot_heap) boot_lists"
    by (simp add: boot_heap_ok(3) boot_lists_def frees_def)
  then obtain a b where a: "km_alloc boot_heap 100 = Some (base boot_heap + fst b + 10, a)"
    "allocated boot_heap {} 100 a (base boot_heap + fst b + 10) b"
    using km_alloc_allocated [OF boot_heap_ok(1,2), of 100] by (fastforce simp: alloc_consts allocated_def)
  then obtain L where "heap_ok a L {b}" "hdrs_ok a {b}" by (auto simp: allocated_def)
  then show ?thesis using a(1) km_free_correct [of a L "{b}" "fst b" "snd b" NULL]
    by (intro exI [of _ a] exI [of _ b]) auto
qed

text \<open>\<^verbatim>\<open>realloc\<close> of a live block to a positive size, when the new block can be had,
  returns the new block with the old contents (as many bytes as both blocks hold), releases
  the old block, keeps the heap invariant, and changes no other live block.\<close>

theorem realloc_correct:
  assumes "heap_ok a L A" "hdrs_ok a A" "(p, i) \<in> A" "0 < n" "n \<le> 2 ^ 31 - 14"
    and "malloc a n = Some (q, a1)" "q \<noteq> NULL"
  shows "\<exists>a' b' L'. realloc a (base a + p + 10) n = Some (q, a') \<and> q = base a + fst b' + 10 \<and>
    n + 10 \<le> 2 ^ snd b' \<and> heap_ok a' L' (insert b' (A - {(p, i)})) \<and> hdrs_ok a' (insert b' (A - {(p, i)})) \<and>
    keeps (A - {(p, i)}) a a' \<and>
    (\<forall>j. j < n \<and> j + 10 < 2 ^ i \<longrightarrow> mem a' (q + j) = mem a (base a + p + 10 + j))"
  by (rule realloc_moves [OF assms])

text \<open>A 64-byte heap with one live and one free block of order 5.\<close>

definition mini_heap :: alloc where
  "mini_heap = \<lparr>mem = (wr32 (\<lambda>_. 0) 68 HDR_MAGIC)(72 := 5), base = 64, siz = 64,
     free = (replicate 21 0)[5 := 96], used_mem = 0, used_truly = 0, used_max = 0\<rparr>"

definition mini_lists :: "nat \<Rightarrow> addr list" where
  "mini_lists = (\<lambda>i. if i = 5 then [96] else [])"

lemma mini_heap_ok: "heap_ok mini_heap mini_lists {(0, 5)}" "hdrs_ok mini_heap {(0, 5)}"
proof -
  have fr: "frees 64 mini_lists = {(32, 5)}" by (auto simp: frees_def mini_lists_def split: if_splits)
  have "part 64 {(0, 5), (32, 5)}" by (auto simp: part_def)
  moreover have "coalesced MAX_ORD {(32, 5)}" by (auto simp: coalesced_def buddy_ne)
  moreover have "lists mini_heap mini_lists"
    by (auto simp: lists_def mini_heap_def mini_lists_def MAX_ORD_def nth_list_update rd32_def wr32_def
        simp del: replicate.simps)
  ultimately show "heap_ok mini_heap mini_lists {(0, 5)}"
    using fr by (simp add: heap_ok_def mini_heap_def alloc_consts) (simp add: mini_lists_def)
  show "hdrs_ok mini_heap {(0, 5)}"
    by (simp add: hdrs_ok_def mini_heap_def hdr_magic_def hdr_ord_def HDR_MAGIC_def)
qed

lemma mini_malloc: "\<exists>a'. malloc mini_heap 20 = Some (106, a')"
proof -
  have "size2ord 30 = Some 5"
    unfolding size2ord_def by (subst size2ord_loop.simps) (simp add: MIN_ORD_def)
  moreover have "find_cur (free (account_alloc 5 20 mini_heap)) 5 = 5"
    by (subst find_cur.simps) (simp add: mini_heap_def)
  moreover have "split_down x bl 5 5 = Some x" for x bl using split_down.simps(2) [of x bl 5 4] by simp
  ultimately show ?thesis
    by (simp add: malloc_def km_alloc_def align_up_def alloc_consts Let_def) (simp add: mini_heap_def)
qed

theorem realloc_correct_witness:
  "\<exists>a' b' L'. realloc mini_heap 74 20 = Some (106, a') \<and> heap_ok a' L' {b'} \<and>
    (\<forall>j<20. mem a' (106 + j) = mem mini_heap (74 + j))"
proof -
  obtain a1 where "malloc mini_heap 20 = Some (106, a1)" using mini_malloc by blast
  from realloc_correct [OF mini_heap_ok _ _ _ this, of 0 5] show ?thesis
    by (fastforce simp: mini_heap_def)
qed

text \<open>When every block has been given back, the heap of a power-of-two arena is
  one free block again: coalescing leaves no fragmentation behind.\<close>

theorem heap_coalesces:
  assumes "heap_ok a L {}" "siz a = 2 ^ MAX_ORD"
  shows "frees (base a) L = {(0, MAX_ORD)} \<and> L MAX_ORD = [base a]"
proof -
  have f: "frees (base a) L = {(0, MAX_ORD)}"
  proof (rule coalesced_single)
    show "part (2 ^ MAX_ORD) (frees (base a) L)" using heap_part [OF assms(1)] assms(2) by simp
    show "coalesced MAX_ORD (frees (base a) L)" by (rule heap_coal [OF assms(1)])
    show "\<forall>(p, i)\<in>frees (base a) L. i \<le> MAX_ORD" using heap_ord [OF assms(1)] by auto
  qed
  have "set (L MAX_ORD) = {base a}"
  proof
    show "set (L MAX_ORD) \<subseteq> {base a}"
    proof
      fix x assume x: "x \<in> set (L MAX_ORD)"
      then have "(x - base a, MAX_ORD) \<in> frees (base a) L" by (rule frees_mem [OF assms(1)])
      then show "x \<in> {base a}" using f heap_ge [OF assms(1) x] by simp
    qed
    have "(0, MAX_ORD) \<in> frees (base a) L" using f by simp
    then show "{base a} \<subseteq> set (L MAX_ORD)" by (simp add: frees_def)
  qed
  then have "L MAX_ORD = [base a]"
    using heap_distinct [OF assms(1), of MAX_ORD] by (intro distinct_singleton)
  with f show ?thesis by simp
qed

theorem heap_coalesces_witness: "frees (base boot_heap) boot_lists = {(0, MAX_ORD)} \<and> boot_lists MAX_ORD = [base boot_heap]"
  by (rule heap_coalesces [OF boot_heap_ok(1,4)])



end
