(* ===== verification/Lib_String.thy ===== *)
theory Lib_String
  imports Mem_Correct
begin

text \<open>
  The string library of \<^verbatim>\<open>src/kern/mem/mem.c\<close> and the character classes of
  \<^verbatim>\<open>src/kern/lib/ctype.c\<close>, on the byte memory of \<^verbatim>\<open>Kern_Mem\<close>.  A loop that scans for
  the terminating NUL is a partial function: \<^const>\<open>None\<close> means that there is none.
  \<open>cstr m p s\<close> says that the NUL-terminated string at \<open>p\<close> is \<open>s\<close>; the lemmas relate
  every routine to the list function it implements.
\<close>

section \<open>Character classes\<close>

definition CT_U :: nat where "CT_U = 0x01"
definition CT_L :: nat where "CT_L = 0x02"
definition CT_D :: nat where "CT_D = 0x04"
definition CT_C :: nat where "CT_C = 0x08"
definition CT_P :: nat where "CT_P = 0x10"
definition CT_S :: nat where "CT_S = 0x20"
definition CT_X :: nat where "CT_X = 0x40"
definition CT_SP :: nat where "CT_SP = 0x80"

lemmas class_defs = CT_U_def CT_L_def CT_D_def CT_C_def CT_P_def CT_S_def CT_X_def CT_SP_def

definition ctype :: "nat list" where
  "ctype = [0] @
     replicate 9 CT_C @ replicate 5 (CT_C OR CT_S) @ replicate 18 CT_C @
     [CT_S OR CT_SP] @ replicate 15 CT_P @ replicate 10 CT_D @ replicate 7 CT_P @
     replicate 6 (CT_U OR CT_X) @ replicate 20 CT_U @ replicate 6 CT_P @
     replicate 6 (CT_L OR CT_X) @ replicate 20 CT_L @ replicate 4 CT_P @ [CT_C] @ replicate 128 0"

definition class_of :: "u8 \<Rightarrow> nat" where
  "class_of c = ctype ! (1 + unat c)"

definition isalnum :: "u8 \<Rightarrow> bool" where "isalnum c \<longleftrightarrow> class_of c AND (CT_U OR CT_L OR CT_D) \<noteq> 0"
definition isalpha :: "u8 \<Rightarrow> bool" where "isalpha c \<longleftrightarrow> class_of c AND (CT_U OR CT_L) \<noteq> 0"
definition iscntrl :: "u8 \<Rightarrow> bool" where "iscntrl c \<longleftrightarrow> class_of c AND CT_C \<noteq> 0"
definition isdigit :: "u8 \<Rightarrow> bool" where "isdigit c \<longleftrightarrow> class_of c AND CT_D \<noteq> 0"
definition isgraph :: "u8 \<Rightarrow> bool" where "isgraph c \<longleftrightarrow> class_of c AND (CT_P OR CT_U OR CT_L OR CT_D) \<noteq> 0"
definition islower :: "u8 \<Rightarrow> bool" where "islower c \<longleftrightarrow> class_of c AND CT_L \<noteq> 0"
definition isprint :: "u8 \<Rightarrow> bool" where "isprint c \<longleftrightarrow> class_of c AND (CT_P OR CT_U OR CT_L OR CT_D OR CT_SP) \<noteq> 0"
definition ispunct :: "u8 \<Rightarrow> bool" where "ispunct c \<longleftrightarrow> class_of c AND CT_P \<noteq> 0"
definition isspace :: "u8 \<Rightarrow> bool" where "isspace c \<longleftrightarrow> class_of c AND CT_S \<noteq> 0"
definition isupper :: "u8 \<Rightarrow> bool" where "isupper c \<longleftrightarrow> class_of c AND CT_U \<noteq> 0"
definition isxdigit :: "u8 \<Rightarrow> bool" where "isxdigit c \<longleftrightarrow> class_of c AND (CT_D OR CT_X) \<noteq> 0"

definition tolower :: "u8 \<Rightarrow> u8" where "tolower c = (if isupper c then c + 32 else c)"
definition toupper :: "u8 \<Rightarrow> u8" where "toupper c = (if islower c then c - 32 else c)"

section \<open>Strings in memory\<close>

fun cstr :: "mem \<Rightarrow> addr \<Rightarrow> u8 list \<Rightarrow> bool" where
  "cstr m p [] = (m p = 0)"
| "cstr m p (c # cs) = (m p = c \<and> c \<noteq> 0 \<and> cstr m (Suc p) cs)"

partial_function (option) dlim :: "mem \<Rightarrow> u8 \<Rightarrow> addr \<Rightarrow> bool option" where
  "dlim m c delim =
     (if m delim \<noteq> 0 then if c = m delim then Some True else dlim m c (Suc delim) else Some False)"

partial_function (option) strtok_skip :: "mem \<Rightarrow> addr \<Rightarrow> addr \<Rightarrow> addr option" where
  "strtok_skip m delim p =
     (if m p \<noteq> 0 then Option.bind (dlim m (m p) delim)
        (\<lambda>b. if b then strtok_skip m delim (Suc p) else Some p)
      else Some p)"

partial_function (option) strtok_scan :: "mem \<Rightarrow> addr \<Rightarrow> addr \<Rightarrow> addr option" where
  "strtok_scan m delim p =
     (if m p \<noteq> 0 then Option.bind (dlim m (m p) delim)
        (\<lambda>b. if \<not> b then strtok_scan m delim (Suc p) else Some p)
      else Some p)"

text \<open>The result, the memory and the new value of \<^verbatim>\<open>*saveptr\<close>.\<close>

definition strtok_r :: "mem \<Rightarrow> addr \<Rightarrow> addr \<Rightarrow> addr \<Rightarrow> (addr \<times> mem \<times> addr) option" where
  "strtok_r m str delim next =
     (let next = (if str \<noteq> NULL then str else next) in
      if next = NULL then Some (NULL, m, next)
      else Option.bind (strtok_skip m delim next) (\<lambda>start.
        if m start = 0 then Some (NULL, m, NULL)
        else Option.bind (strtok_scan m delim start) (\<lambda>e.
          if m e \<noteq> 0 then Some (start, m(e := 0), Suc e) else Some (start, m, NULL))))"

fun strncpy :: "mem \<Rightarrow> addr \<Rightarrow> addr \<Rightarrow> nat \<Rightarrow> mem" where
  "strncpy m dst src 0 = m"
| "strncpy m dst src (Suc n) = strncpy (m(dst := m src)) (Suc dst) (Suc src) n"

partial_function (option) strcpy :: "mem \<Rightarrow> addr \<Rightarrow> addr \<Rightarrow> mem option" where
  "strcpy m dst src =
     (if m src \<noteq> 0 then strcpy (m(dst := m src)) (Suc dst) (Suc src) else Some (m(dst := 0)))"

partial_function (option) strcmp :: "mem \<Rightarrow> addr \<Rightarrow> addr \<Rightarrow> u8 option" where
  "strcmp m s d =
     (if m s = m d \<and> m s \<noteq> 0 then strcmp m (Suc s) (Suc d) else Some (m s - m d))"

fun strncmp :: "mem \<Rightarrow> addr \<Rightarrow> addr \<Rightarrow> nat \<Rightarrow> u8" where
  "strncmp m s1 s2 0 = 0"
| "strncmp m s1 s2 (Suc n) =
     (if m s1 \<noteq> 0 \<and> m s1 = m s2 then strncmp m (Suc s1) (Suc s2) n else m s1 - m s2)"

partial_function (option) strchr :: "mem \<Rightarrow> addr \<Rightarrow> int \<Rightarrow> addr option" where
  "strchr m s c =
     (if m s \<noteq> 0 then if sint (m s) = c then Some s else strchr m (Suc s) c else Some s)"

text \<open>The loop of \<^verbatim>\<open>strrchr\<close>: the end of the string and the last match.\<close>

partial_function (option) strrchr_loop :: "mem \<Rightarrow> addr \<Rightarrow> u8 \<Rightarrow> addr \<Rightarrow> (addr \<times> addr) option" where
  "strrchr_loop m s c l =
     (if m s \<noteq> 0 then strrchr_loop m (Suc s) c (if m s = c then s else l) else Some (s, l))"

definition strrchr :: "mem \<Rightarrow> addr \<Rightarrow> int \<Rightarrow> addr option" where
  "strrchr m s c = map_option (\<lambda>(e, l). if c = 0 then e else l) (strrchr_loop m s (of_int c) NULL)"

partial_function (option) strlen_end :: "mem \<Rightarrow> addr \<Rightarrow> addr option" where
  "strlen_end m d = (if m d \<noteq> 0 then strlen_end m (Suc d) else Some (Suc d))"

definition strlen :: "mem \<Rightarrow> addr \<Rightarrow> nat option" where
  "strlen m s = map_option (\<lambda>d. d - s - 1) (strlen_end m s)"

text \<open>\<^verbatim>\<open>atoi\<close>: a signed overflow is undefined in C, hence \<^const>\<open>None\<close>.\<close>

definition int_ok :: "int \<Rightarrow> bool" where
  "int_ok i \<longleftrightarrow> - (2 ^ 31) \<le> i \<and> i < 2 ^ 31"

partial_function (option) atoi_space :: "mem \<Rightarrow> addr \<Rightarrow> addr option" where
  "atoi_space m p = (if isspace (m p) then atoi_space m (Suc p) else Some p)"

partial_function (option) atoi_digits :: "mem \<Rightarrow> addr \<Rightarrow> int \<Rightarrow> int option" where
  "atoi_digits m p res =
     (if isdigit (m p) then
        let res' = res * 10 + (uint (m p) - 48)
        in if int_ok (res * 10) \<and> int_ok res' then atoi_digits m (Suc p) res' else None
      else Some res)"

definition atoi :: "mem \<Rightarrow> addr \<Rightarrow> int option" where
  "atoi m str = Option.bind (atoi_space m str) (\<lambda>p.
     let sgn = (if m p = 45 then - 1 else 1);
         p' = (if m p = 43 \<or> m p = 45 then Suc p else p)
     in map_option (\<lambda>res. res * sgn) (atoi_digits m p' 0))"

definition strdup :: "alloc \<Rightarrow> addr \<Rightarrow> (addr \<times> alloc) option" where
  "strdup a s = Option.bind (strlen (mem a) s) (\<lambda>n.
     Option.bind (malloc a (n + 1)) (\<lambda>(p, a').
       Option.bind (strlen (mem a') s) (\<lambda>k.
         Some (p, a'\<lparr>mem := memcpy (mem a') p s (k + 1)\<rparr>))))"

section \<open>Lemmas\<close>

lemma cstr_nth: "cstr m p s \<longleftrightarrow> (\<forall>i<length s. m (p + i) = s ! i \<and> s ! i \<noteq> 0) \<and> m (p + length s) = 0"
  by (induction s arbitrary: p) (auto simp: nth_Cons All_less_Suc2 less_Suc_eq_0_disj split: nat.split)

lemma cstr_cong: "(\<And>i. i \<le> length s \<Longrightarrow> m' (p + i) = m (p + i)) \<Longrightarrow> cstr m' p s = cstr m p s"
  by (auto simp: cstr_nth)

lemma cstr_upd_out: "x < p \<or> p + length s < x \<Longrightarrow> cstr (m(x := v)) p s = cstr m p s"
  by (rule cstr_cong) auto

lemma cstr_unique: "cstr m p s \<Longrightarrow> cstr m p t \<Longrightarrow> s = t"
proof (induction s arbitrary: p t)
  case Nil
  then show ?case by (cases t) auto
next
  case (Cons c s)
  then show ?case by (cases t) auto
qed

lemma cstr_no_zero: "cstr m p s \<Longrightarrow> 0 \<notin> set s"
  by (induction s arbitrary: p) auto

lemma cstr_appendD: "cstr m p (s @ t) \<Longrightarrow> cstr m (p + length s) t"
  by (induction s arbitrary: p) (auto, metis add_Suc)

lemma cstr_cut: "cstr m p (s @ t) \<Longrightarrow> cstr (m(p + length s := 0)) p s"
  by (auto simp: cstr_nth nth_append) (metis trans_less_add1)

lemma strlen_end_cstr: "cstr m p s \<Longrightarrow> strlen_end m p = Some (Suc (p + length s))"
  by (induction s arbitrary: p; subst strlen_end.simps) auto

lemma strlen_cstr: "cstr m p s \<Longrightarrow> strlen m p = Some (length s)"
  by (simp add: strlen_def strlen_end_cstr)

lemma dlim_cstr: "cstr m d ds \<Longrightarrow> dlim m c d = Some (c \<in> set ds)"
  by (induction ds arbitrary: d; subst dlim.simps) auto

lemma strtok_skip_cstr:
  "cstr m p s \<Longrightarrow> cstr m d ds \<Longrightarrow>
     strtok_skip m d p = Some (p + length (takeWhile (\<lambda>c. c \<in> set ds) s))"
  by (induction s arbitrary: p; subst strtok_skip.simps) (auto simp: dlim_cstr)

lemma strtok_scan_cstr:
  "cstr m p s \<Longrightarrow> cstr m d ds \<Longrightarrow>
     strtok_scan m d p = Some (p + length (takeWhile (\<lambda>c. c \<notin> set ds) s))"
  by (induction s arbitrary: p; subst strtok_scan.simps) (auto simp: dlim_cstr)

lemma strcmp_cstr:
  "cstr m p s \<Longrightarrow> cstr m q t \<Longrightarrow> \<exists>r. strcmp m p q = Some r \<and> (r = 0 \<longleftrightarrow> s = t)"
proof (induction s arbitrary: p q t)
  case Nil
  then show ?case by (cases t; subst strcmp.simps) auto
next
  case (Cons c s)
  show ?case
  proof (cases t)
    case Nil
    then show ?thesis using Cons.prems by (subst strcmp.simps) auto
  next
    case (Cons d t')
    then show ?thesis using Cons.prems Cons.IH [of "Suc p" "Suc q" t'] Cons
      by (subst strcmp.simps) auto
  qed
qed

lemma strncmp_cstr:
  "cstr m p s \<Longrightarrow> cstr m q t \<Longrightarrow> strncmp m p q n = 0 \<longleftrightarrow> take n s = take n t"
proof (induction n arbitrary: p q s t)
  case (Suc n)
  show ?case
  proof (cases s)
    case Nil
    then show ?thesis using Suc.prems by (cases t) auto
  next
    case (Cons c s')
    note c = this
    show ?thesis
    proof (cases t)
      case Nil
      then show ?thesis using Suc.prems c by auto
    next
      case (Cons d t')
      then show ?thesis using Suc.prems Suc.IH [of "Suc p" s' "Suc q" t'] c by auto
    qed
  qed
qed simp

lemma strcpy_cstr:
  "cstr m src s \<Longrightarrow> dst + length s < src \<or> src + length s < dst \<Longrightarrow>
     \<exists>m'. strcpy m dst src = Some m' \<and> cstr m' dst s \<and> (\<forall>x. x < dst \<or> dst + length s < x \<longrightarrow> m' x = m x)"
proof (induction s arbitrary: m dst src)
  case Nil
  then show ?case by (subst strcpy.simps) simp
next
  case (Cons c s)
  have "cstr (m(dst := c)) (Suc src) s"
    using Cons.prems by (subst cstr_upd_out) auto
  from Cons.IH [OF this, of "Suc dst"] Cons.prems obtain m' where
    "strcpy (m(dst := c)) (Suc dst) (Suc src) = Some m'" "cstr m' (Suc dst) s"
    "\<forall>x. x < Suc dst \<or> Suc dst + length s < x \<longrightarrow> m' x = (m(dst := c)) x" by (auto simp del: fun_upd_apply)
  then show ?case using Cons.prems by (subst strcpy.simps) auto
qed

lemma strrchr_loop_cstr:
  assumes "cstr m p s"
  shows "\<exists>r. strrchr_loop m p c l = Some (p + length s, r) \<and>
    (c \<notin> set s \<and> r = l \<or> (\<exists>u v. s = u @ c # v \<and> c \<notin> set v \<and> r = p + length u))"
  using assms
proof (induction s arbitrary: p l)
  case Nil
  then show ?case by (subst strrchr_loop.simps) simp
next
  case (Cons x s)
  let ?l = "if x = c then p else l"
  have "cstr m (Suc p) s" using Cons.prems by simp
  from Cons.IH [OF this, of ?l] obtain r where r: "strrchr_loop m (Suc p) c ?l = Some (Suc p + length s, r)"
    "c \<notin> set s \<and> r = ?l \<or> (\<exists>u v. s = u @ c # v \<and> c \<notin> set v \<and> r = Suc p + length u)"
    by blast
  have eq: "strrchr_loop m p c l = Some (p + length (x # s), r)"
    using Cons.prems r(1) by (subst strrchr_loop.simps) auto
  from r(2) show ?case
  proof
    assume n: "c \<notin> set s \<and> r = ?l"
    show ?thesis
    proof (cases "x = c")
      case True
      then have "x # s = [] @ c # s \<and> c \<notin> set s \<and> r = p + length []" using n by simp
      then show ?thesis using eq by blast
    qed (use n eq in auto)
  next
    assume "\<exists>u v. s = u @ c # v \<and> c \<notin> set v \<and> r = Suc p + length u"
    then obtain u v where "s = u @ c # v" "c \<notin> set v" "r = Suc p + length u" by blast
    then have "x # s = (x # u) @ c # v \<and> c \<notin> set v \<and> r = p + length (x # u)" by simp
    then show ?thesis using eq by blast
  qed
qed

section \<open>Tokens\<close>

function tokens :: "u8 set \<Rightarrow> u8 list \<Rightarrow> u8 list list" where
  "tokens D s = (case dropWhile (\<lambda>c. c \<in> D) s of [] \<Rightarrow> []
     | c # s' \<Rightarrow> (c # takeWhile (\<lambda>c. c \<notin> D) s') # tokens D (dropWhile (\<lambda>c. c \<notin> D) s'))"
  by pat_completeness auto
termination
proof (relation "measure (length \<circ> snd)")
  fix D :: "u8 set" and s s' c
  assume "dropWhile (\<lambda>c. c \<in> D) s = c # s'"
  then have "length (c # s') \<le> length s" by (metis length_dropWhile_le)
  moreover have "length (dropWhile (\<lambda>c. c \<notin> D) s') \<le> length s'" by (rule length_dropWhile_le)
  ultimately show "((D, dropWhile (\<lambda>c. c \<notin> D) s'), D, s) \<in> measure (length \<circ> snd)" by simp
qed simp

declare tokens.simps [simp del]

lemma tokens_Nil [simp]: "tokens D [] = []"
  by (subst tokens.simps) simp

lemma tokens_delim: "c \<in> D \<Longrightarrow> tokens D (c # s) = tokens D s"
  by (subst tokens.simps, subst tokens.simps) simp

lemma tokens_word:
  assumes "w \<noteq> []" "set w \<inter> D = {}" "r = [] \<or> hd r \<in> D"
  shows "tokens D (w @ r) = w # tokens D r"
proof -
  obtain c w' where w: "w = c # w'" using assms(1) by (cases w) auto
  have nD: "c \<notin> D" "set w' \<inter> D = {}" using assms(2) w by auto
  have "takeWhile (\<lambda>c. c \<notin> D) (w' @ r) = w' \<and> dropWhile (\<lambda>c. c \<notin> D) (w' @ r) = r"
    using nD(2) assms(3) by (cases r) (auto simp: takeWhile_append dropWhile_append)
  then show ?thesis using w nD by (subst tokens.simps) simp
qed

lemma tokens_word_all: "set w \<inter> D = {} \<Longrightarrow> tokens D w = (if w = [] then [] else [w])"
  using tokens_word [of w D "[]"] by auto

lemma tokens_good: "w \<in> set (tokens D s) \<Longrightarrow> w \<noteq> [] \<and> set w \<inter> D = {} \<and> set w \<subseteq> set s"
proof (induction D s rule: tokens.induct)
  case (1 D s)
  show ?case
  proof (cases "dropWhile (\<lambda>c. c \<in> D) s")
    case Nil
    then show ?thesis using "1.prems" unfolding tokens.simps [of D s] Nil by simp
  next
    case (Cons c s')
    have c: "c \<notin> D" using Cons by (metis dropWhile_eq_Cons_conv)
    have sub: "set (c # s') \<subseteq> set s" using Cons by (metis set_dropWhileD subsetI)
    from "1.prems" Cons consider "w = c # takeWhile (\<lambda>c. c \<notin> D) s'"
      | "w \<in> set (tokens D (dropWhile (\<lambda>c. c \<notin> D) s'))" by (auto simp: tokens.simps [of D s])
    then show ?thesis
    proof cases
      case 1
      then show ?thesis using c sub by (auto dest: set_takeWhileD)
    next
      case 2
      then show ?thesis using "1.IH" [OF Cons] sub by (auto dest: set_dropWhileD)
    qed
  qed
qed

text \<open>One call of \<^verbatim>\<open>strtok_r\<close>.\<close>

lemma strtok_r_none:
  assumes "cstr m p s" "cstr m d ds" "NULL < p" "tokens (set ds) s = []"
  shows "strtok_r m p d x = Some (NULL, m, NULL)"
proof -
  let ?in = "\<lambda>c. c \<in> set ds"
  have "dropWhile ?in s = []" using assms(4) by (subst (asm) tokens.simps) (auto split: list.splits)
  then have tw: "takeWhile ?in s = s" by (metis dropWhile_eq_Nil_conv takeWhile_eq_all_conv)
  have "strtok_skip m d p = Some (p + length s)" using strtok_skip_cstr [OF assms(1,2)] unfolding tw .
  moreover have "m (p + length s) = 0" using assms(1) by (simp add: cstr_nth)
  ultimately show ?thesis using assms(3) by (simp add: strtok_r_def)
qed

lemma tokens_Cons_split:
  assumes "tokens D s = w # ws"
  shows "\<exists>u r. s = u @ w @ r \<and> set u \<subseteq> D \<and> w \<noteq> [] \<and> set w \<inter> D = {} \<and> (r = [] \<or> hd r \<in> D) \<and> tokens D r = ws"
proof -
  obtain c s' where cs: "dropWhile (\<lambda>c. c \<in> D) s = c # s'"
    using assms by (subst (asm) tokens.simps) (auto split: list.splits)
  then have w: "w = c # takeWhile (\<lambda>c. c \<notin> D) s'" "tokens D (dropWhile (\<lambda>c. c \<notin> D) s') = ws"
    using assms by (auto simp: tokens.simps [of D s])
  have "c \<notin> D" using cs by (metis dropWhile_eq_Cons_conv)
  moreover have "s = takeWhile (\<lambda>c. c \<in> D) s @ w @ dropWhile (\<lambda>c. c \<notin> D) s'"
    using cs w(1) by (metis append_Cons takeWhile_dropWhile_id)
  moreover have "set (takeWhile (\<lambda>c. c \<in> D) s) \<subseteq> D" by (auto dest: set_takeWhileD)
  moreover have "dropWhile (\<lambda>c. c \<notin> D) s' = [] \<or> hd (dropWhile (\<lambda>c. c \<notin> D) s') \<in> D"
    by (meson hd_dropWhile)
  ultimately show ?thesis using w
    by (intro exI [of _ "takeWhile (\<lambda>c. c \<in> D) s"] exI [of _ "dropWhile (\<lambda>c. c \<notin> D) s'"])
      (auto dest: set_takeWhileD)
qed

lemma strtok_r_some:
  assumes c: "cstr m p (u @ w @ r)" and d: "cstr m d ds" and p: "NULL < p"
    and u: "set u \<subseteq> set ds" and w: "w \<noteq> []" "set w \<inter> set ds = {}" and r: "r = [] \<or> hd r \<in> set ds"
  shows "strtok_r m p d x = Some (p + length u,
    if r = [] then m else m(p + length (u @ w) := 0), if r = [] then NULL else Suc (p + length (u @ w)))"
proof -
  let ?in = "\<lambda>c. c \<in> set ds"
  have cw: "cstr m (p + length u) (w @ r)" using cstr_appendD [OF c] by simp
  have cr: "cstr m (p + length (u @ w)) r" using cstr_appendD [OF cw] by (simp add: add.assoc)
  have hw: "hd w \<notin> set ds" using w by (metis IntI empty_iff list.set_sel(1))
  have "takeWhile ?in (u @ w @ r) = u" using u w(1) hw by (cases w) (auto simp: takeWhile_append)
  then have sk: "strtok_skip m d p = Some (p + length u)" using strtok_skip_cstr [OF c d] by simp
  have "takeWhile (\<lambda>c. c \<notin> set ds) (w @ r) = w"
    using w(2) r by (cases r) (auto simp: takeWhile_append)
  then have sc: "strtok_scan m d (p + length u) = Some (p + length (u @ w))"
    using strtok_scan_cstr [OF cw d] by (simp add: add.assoc)
  have 1: "m (p + length u) \<noteq> 0" using cw w(1) by (cases w) auto
  have 2: "m (p + length (u @ w)) = 0 \<longleftrightarrow> r = []" using cr by (cases r) auto
  show ?thesis using sk sc 1 2 p by (simp add: strtok_r_def Let_def)
qed

text \<open>The loop every caller writes: \<^verbatim>\<open>while ((tok = strtok_r(rest, delim, &rest)))\<close>.\<close>

partial_function (option) tok_loop :: "mem \<Rightarrow> addr \<Rightarrow> addr \<Rightarrow> (addr list \<times> mem) option" where
  "tok_loop m d rest = Option.bind (strtok_r m rest d rest) (\<lambda>r.
     if fst r = NULL then Some ([], fst (snd r))
     else Option.bind (tok_loop (fst (snd r)) d (snd (snd r))) (\<lambda>q. Some (fst r # fst q, snd q)))"

lemma tok_loop_tokens:
  assumes "cstr m p s" "cstr m d ds" "NULL < p" "d + length ds < p \<or> p + length s < d"
  shows "\<exists>ps m'. tok_loop m d p = Some (ps, m') \<and> list_all2 (cstr m') ps (tokens (set ds) s) \<and>
    (\<forall>x. x < p \<or> p + length s \<le> x \<longrightarrow> m' x = m x)"
  using assms
proof (induction "length s" arbitrary: m p s rule: less_induct)
  case less
  show ?case
  proof (cases "tokens (set ds) s")
    case Nil
    then show ?thesis using strtok_r_none [OF less.prems(1-3)]
      by (subst tok_loop.simps) simp
  next
    case (Cons w ws)
    from tokens_Cons_split [OF Cons] obtain u r where s: "s = u @ w @ r" "set u \<subseteq> set ds" "w \<noteq> []"
      "set w \<inter> set ds = {}" "r = [] \<or> hd r \<in> set ds" "tokens (set ds) r = ws" by blast
    let ?e = "p + length (u @ w)" and ?t = "p + length u"
    note tok = strtok_r_some [OF less.prems(1) [unfolded s(1)] less.prems(2,3) s(2-5), of p]
    have cw: "cstr m ?t (w @ r)" using less.prems(1) s(1) cstr_appendD by auto
    show ?thesis
    proof (cases r)
      case Nil
      have "tok_loop m d NULL = Some ([], m)"
        by (subst tok_loop.simps) (simp add: strtok_r_def)
      then have "tok_loop m d p = Some ([?t], m)"
        using tok less.prems(3) Nil by (subst tok_loop.simps) simp
      then show ?thesis using Cons s Nil cw by simp
    next
      case r: (Cons c r')
      let ?m = "m(?e := 0)"
      have ws: "tokens (set ds) r' = ws" using s(5,6) r tokens_delim by simp
      have "cstr m (Suc ?e) r'" using cstr_appendD [OF cw] r by (simp add: add.assoc)
      then have cr: "cstr ?m (Suc ?e) r'" by (subst cstr_upd_out) auto
      have cd: "cstr ?m d ds" using less.prems(2,4) s(1) r by (subst cstr_upd_out) auto
      have lr: "length r' < length s" using s(1) r by simp
      have dr: "d + length ds < Suc ?e \<or> Suc ?e + length r' < d" using less.prems(4) s(1) r by auto
      from less.hyps [OF lr cr cd _ dr, unfolded ws] obtain ps m' where
        IH: "tok_loop ?m d (Suc ?e) = Some (ps, m')" "list_all2 (cstr m') ps ws"
        "\<forall>x. x < Suc ?e \<or> Suc ?e + length r' \<le> x \<longrightarrow> m' x = ?m x" by blast
      have "tok_loop m d p = Some (?t # ps, m')"
        using tok r IH(1) less.prems(3) by (subst tok_loop.simps) simp
      moreover have "cstr ?m ?t w" using cstr_cut [OF cw] by (simp add: add.assoc)
      then have "cstr m' ?t w" using IH(3) by (subst cstr_cong [of w m' ?t ?m]) auto
      moreover have "\<forall>x. x < p \<or> p + length s \<le> x \<longrightarrow> m' x = m x" using IH(3) s(1) r by auto
      ultimately show ?thesis using IH(2) Cons by auto
    qed
  qed
qed

section \<open>Decimal numbers\<close>

lemma isdigit_iff: "isdigit c \<longleftrightarrow> 48 \<le> unat c \<and> unat c \<le> 57"
proof -
  have "list_all (\<lambda>n. (ctype ! (1 + n) AND CT_D \<noteq> 0) = (48 \<le> n \<and> n \<le> 57)) [0..<256]" by code_simp
  then show ?thesis using u8_less [of c] by (auto simp: isdigit_def class_of_def list_all_iff)
qed

lemma isspace_iff: "isspace c \<longleftrightarrow> unat c = 32 \<or> 9 \<le> unat c \<and> unat c \<le> 13"
proof -
  have "list_all (\<lambda>n. (ctype ! (1 + n) AND CT_S \<noteq> 0) = (n = 32 \<or> 9 \<le> n \<and> n \<le> 13)) [0..<256]" by code_simp
  then show ?thesis using u8_less [of c] by (auto simp: isspace_def class_of_def list_all_iff)
qed

text \<open>The number a digit string denotes.\<close>

definition dec_step :: "int \<Rightarrow> u8 \<Rightarrow> int" where
  "dec_step v c = v * 10 + (uint c - 48)"

definition dec_val :: "u8 list \<Rightarrow> int" where
  "dec_val ds = foldl dec_step 0 ds"

lemma dec_step_ge: "isdigit c \<Longrightarrow> 0 \<le> v \<Longrightarrow> v * 10 \<le> dec_step v c \<and> v \<le> dec_step v c"
proof -
  assume d: "isdigit c" and v: "0 \<le> v"
  have "uint c = int (unat c)" "48 \<le> unat c" using d by (auto simp: isdigit_iff)
  then have "48 \<le> uint c" by linarith
  then show ?thesis using v by (simp add: dec_step_def)
qed

lemma dec_fold_mono: "list_all isdigit ds \<Longrightarrow> 0 \<le> v \<Longrightarrow> v \<le> foldl dec_step v ds"
proof (induction ds arbitrary: v)
  case (Cons c ds)
  then have "v \<le> dec_step v c" using dec_step_ge [of c v] by simp
  moreover from this have "dec_step v c \<le> foldl dec_step (dec_step v c) ds"
    using Cons.prems by (intro Cons.IH) auto
  ultimately show ?case by simp
qed simp

lemma atoi_digits_val:
  assumes "list_all isdigit ds" "\<And>i. i < length ds \<Longrightarrow> m (p + i) = ds ! i" "\<not> isdigit (m (p + length ds))"
    and "0 \<le> v" "foldl dec_step v ds < 2 ^ 31"
  shows "atoi_digits m p v = Some (foldl dec_step v ds)"
  using assms
proof (induction ds arbitrary: p v)
  case Nil
  then show ?case by (subst atoi_digits.simps) simp
next
  case (Cons c ds)
  let ?v = "dec_step v c"
  have mp: "m p = c" "isdigit c" using Cons.prems(1) Cons.prems(2) [of 0] by auto
  have ge: "v * 10 \<le> ?v" "v \<le> ?v" using dec_step_ge [OF mp(2) Cons.prems(4)] by auto
  then have "?v \<le> foldl dec_step ?v ds" using Cons.prems by (intro dec_fold_mono) auto
  then have ok: "int_ok (v * 10)" "int_ok ?v" using Cons.prems(4,5) ge by (auto simp: int_ok_def)
  have "atoi_digits m (Suc p) ?v = Some (foldl dec_step ?v ds)"
  proof (rule Cons.IH)
    show "m (Suc p + i) = ds ! i" if "i < length ds" for i using Cons.prems(2) [of "Suc i"] that by simp
  qed (use Cons.prems ge in auto)
  then show ?case using mp ok by (subst atoi_digits.simps) (simp add: Let_def dec_step_def)
qed

lemma atoi_space_skip: "\<not> isspace (m p) \<Longrightarrow> atoi_space m p = Some p"
  by (subst atoi_space.simps) simp

section \<open>Joining with a delimiter\<close>

fun joinc :: "u8 \<Rightarrow> u8 list list \<Rightarrow> u8 list" where
  "joinc d [] = []"
| "joinc d [s] = s"
| "joinc d (s # t # ss) = s @ d # joinc d (t # ss)"

lemma tokens_joinc: "\<forall>s\<in>set ss. s \<noteq> [] \<and> d \<notin> set s \<Longrightarrow> tokens {d} (joinc d ss) = ss"
proof (induction d ss rule: joinc.induct)
  case (2 d s)
  then show ?case by (simp add: tokens_word_all)
next
  case (3 d s t ss)
  then show ?case using tokens_word [of s "{d}" "d # joinc d (t # ss)"] by (simp add: tokens_delim)
qed simp

lemma joinc_snoc: "ss \<noteq> [] \<Longrightarrow> joinc d (ss @ [s]) = joinc d ss @ d # s"
proof (induction d ss rule: joinc.induct)
  case (3 d a b ss)
  then show ?case by (cases ss) auto
qed auto

lemma tokens_lines: "\<forall>s\<in>set ss. s \<noteq> [] \<and> d \<notin> set s \<Longrightarrow> tokens {d} (concat (map (\<lambda>s. s @ [d]) ss)) = ss"
proof (induction ss)
  case (Cons s ss)
  then show ?case using tokens_word [of s "{d}" "d # concat (map (\<lambda>s. s @ [d]) ss)"] by (simp add: tokens_delim)
qed simp

lemma atoi_number:
  assumes "cstr m p (sg @ ds)" "sg \<in> {[], [43], [45]}" "list_all isdigit ds" "ds \<noteq> []" "dec_val ds < 2 ^ 31"
  shows "atoi m p = Some (if sg = [45] then - dec_val ds else dec_val ds)"
proof -
  have cd: "cstr m (p + length sg) ds" using cstr_appendD [OF assms(1)] .
  then have nth: "\<And>i. i < length ds \<Longrightarrow> m (p + length sg + i) = ds ! i" "m (p + length sg + length ds) = 0"
    by (auto simp: cstr_nth)
  have d0: "isdigit (ds ! 0)" "m (p + length sg) = ds ! 0" using assms(3,4) nth(1) [of 0] by (cases ds; simp)+
  have dig: "atoi_digits m (p + length sg) 0 = Some (dec_val ds)"
    unfolding dec_val_def
    by (rule atoi_digits_val) (use assms nth in \<open>auto simp: dec_val_def isdigit_iff\<close>)
  have mp: "m p = (if sg = [] then ds ! 0 else hd sg)"
    using assms(1,2) d0(2) by auto
  have "unat (43 :: u8) = 43" "unat (45 :: u8) = 45" by simp_all
  then have ns: "\<not> isspace (m p)" and d: "ds ! 0 \<noteq> 43" "ds ! 0 \<noteq> 45"
    using mp assms(2) d0(1) by (auto simp: isspace_iff isdigit_iff)
  then show ?thesis
    using dig mp assms(2) atoi_space_skip [of m p, OF ns] by (auto simp: atoi_def Let_def)
qed

section \<open>Properties\<close>

text \<open>A memory holding one string.\<close>

definition put_str :: "addr \<Rightarrow> u8 list \<Rightarrow> mem \<Rightarrow> mem" where
  "put_str p s m = (\<lambda>x. if p \<le> x \<and> x < p + length s then s ! (x - p) else if x = p + length s then 0 else m x)"

lemma cstr_put_str: "0 \<notin> set s \<Longrightarrow> cstr (put_str p s m) p s"
  by (auto simp: cstr_nth put_str_def) (metis nth_mem)

lemma cstr_put_str_other: "p + length s < q \<or> q + length t < p \<Longrightarrow> cstr (put_str p s m) q t = cstr m q t"
  by (rule cstr_cong) (auto simp: put_str_def)

text \<open>The loop \<^verbatim>\<open>while ((tok = strtok_r(rest, delim, &rest)))\<close> ends and finds
  exactly the maximal delimiter-free pieces of the string, in order, each NUL-terminated in
  place; nothing outside the string changes.\<close>

theorem strtok_tokenizes:
  assumes "cstr m p s" "cstr m d ds" "NULL < p" "d + length ds < p \<or> p + length s < d"
  shows "\<exists>ps m'. tok_loop m d p = Some (ps, m') \<and> list_all2 (cstr m') ps (tokens (set ds) s) \<and>
    (\<forall>x. x < p \<or> p + length s \<le> x \<longrightarrow> m' x = m x)"
  by (rule tok_loop_tokens [OF assms])

theorem strtok_tokenizes_witness:
  "let m = put_str 100 [47, 97, 47, 47, 98, 99] (put_str 50 [47] (\<lambda>_. 0))
   in \<exists>ps m'. tok_loop m 50 100 = Some (ps, m') \<and> list_all2 (cstr m') ps (tokens (set [47]) [47, 97, 47, 47, 98, 99]) \<and>
        (\<forall>x. x < 100 \<or> 100 + length ([47, 97, 47, 47, 98, 99] :: u8 list) \<le> x \<longrightarrow>
           m' x = put_str 100 [47, 97, 47, 47, 98, 99] (put_str 50 [47] (\<lambda>_. 0)) x)"
  unfolding Let_def
  by (rule strtok_tokenizes) (auto simp: put_str_def)

text \<open>On NUL-terminated strings \<^verbatim>\<open>strlen\<close> is the length, \<^verbatim>\<open>strcmp\<close> returns 0
  exactly for equal strings, \<^verbatim>\<open>strncmp\<close> exactly for equal prefixes, and \<^verbatim>\<open>strrchr\<close>
  returns the last occurrence (or the null pointer).\<close>

theorem string_scans_correct:
  assumes "cstr m p s" "cstr m q t"
  shows "strlen m p = Some (length s) \<and> (\<exists>r. strcmp m p q = Some r \<and> (r = 0 \<longleftrightarrow> s = t)) \<and>
    (strncmp m p q n = 0 \<longleftrightarrow> take n s = take n t) \<and>
    (0 < c \<and> c < 128 \<longrightarrow> (\<exists>r. strrchr m p c = Some r \<and>
      (of_int c \<notin> set s \<and> r = NULL \<or> (\<exists>u v. s = u @ of_int c # v \<and> of_int c \<notin> set v \<and> r = p + length u))))"
proof -
  have "\<exists>r. strrchr m p c = Some r \<and> (of_int c \<notin> set s \<and> r = NULL \<or>
      (\<exists>u v. s = u @ of_int c # v \<and> of_int c \<notin> set v \<and> r = p + length u))" if "0 < c"
    using strrchr_loop_cstr [OF assms(1), of "of_int c" NULL] that by (auto simp: strrchr_def)
  then show ?thesis using strlen_cstr [OF assms(1)] strcmp_cstr [OF assms] strncmp_cstr [OF assms] by blast
qed

theorem string_scans_correct_witness:
  "\<exists>r. strrchr (put_str 10 [47, 98, 47, 99] (\<lambda>_. 0)) 10 47 = Some r \<and>
     (47 \<notin> set [47, 98, 47, 99 :: u8] \<and> r = NULL \<or>
      (\<exists>u v. [47, 98, 47, 99] = u @ 47 # v \<and> (47::u8) \<notin> set v \<and> r = 10 + length u))"
  using string_scans_correct [of "put_str 10 [47, 98, 47, 99] (\<lambda>_. 0)" 10 "[47, 98, 47, 99]" 10 "[47, 98, 47, 99]" 0 47]
  by (simp add: put_str_def)

text \<open>\<^verbatim>\<open>atoi\<close> of an optional sign and a digit string returns the number the digits
  denote, as long as it is below \<open>2 ^ 31\<close>; no signed overflow happens on the way.\<close>

lemma atoi_correct:
  assumes "cstr m p (sg @ ds)" "sg \<in> {[], [43], [45]}" "list_all isdigit ds" "ds \<noteq> []" "dec_val ds < 2 ^ 31"
  shows "atoi m p = Some (if sg = [45] then - dec_val ds else dec_val ds)"
  by (rule atoi_number [OF assms])

lemma atoi_correct_sample:
  "atoi (put_str 10 [45, 49, 50] (\<lambda>_. 0)) 10 = Some (- 12)"
  using atoi_correct [of "put_str 10 [45, 49, 50] (\<lambda>_. 0)" 10 "[45]" "[49, 50]"]
  by (simp add: put_str_def isdigit_iff dec_val_def dec_step_def)

text \<open>\<^verbatim>\<open>strdup\<close> of a string held in a live heap block returns, when memory can be
  had, a fresh block that holds the same string; the heap invariant holds and every live
  block, the original included, keeps its bytes.\<close>

theorem strdup_correct:
  assumes "heap_ok a L A" "hdrs_ok a A" "b \<in> A" "cstr (mem a) s str"
    and "base a + fst b \<le> s" "s + length str < base a + fst b + 2 ^ snd b" "length str < 2 ^ 31 - 14"
    and "malloc a (length str + 1) = Some (p, a1)" "p \<noteq> NULL"
  shows "\<exists>a' c. strdup a s = Some (p, a') \<and> allocated a A (length str + 1) a' p c \<and> cstr (mem a') p str \<and>
    cstr (mem a') s str"
proof -
  let ?n = "length str"
  obtain c where c: "allocated a A (?n + 1) a1 p c" "\<forall>d\<in>A. blk c \<inter> blk d = {}"
    using malloc_allocated [OF assms(1,2), of "?n + 1"] assms(7-9) by auto
  have inb: "s + i - base a \<in> blk b" "base a \<le> s + i" if "i \<le> ?n" for i
    using that assms(5,6) by (cases b; auto)+
  have keep: "mem x (s + i) = mem a (s + i)" if "keeps A a x" "i \<le> ?n" for x i
  proof -
    have "mem x (base a + (s + i - base a)) = mem a (base a + (s + i - base a))"
      using that(1) assms(3) inb(1) [OF that(2)] by (auto simp: keeps_def)
    then show ?thesis using inb(2) [OF that(2)] by simp
  qed
  have k1: "keeps A a a1" using c(1) by (simp add: allocated_def)
  have cs: "cstr (mem x) s str" if "keeps A a x" for x
    using keep [OF that] assms(4) cstr_cong [of str "mem x" s "mem a"] by simp
  let ?a = "a1\<lparr>mem := memcpy (mem a1) p s (?n + 1)\<rparr>"
  have eq: "strdup a s = Some (p, ?a)"
    using strlen_cstr [OF assms(4)] strlen_cstr [OF cs [OF k1]] assms(8) by (simp add: strdup_def)
  have al: "allocated a A (?n + 1) ?a p c" by (rule allocated_payload [OF c(1)]) (rule memcpy_out)
  have "fst c + 2 ^ snd c \<le> fst b \<or> fst b + 2 ^ snd b \<le> fst c"
  proof -
    have "blk c \<inter> blk b = {}" using c(2) assms(3) by blast
    then show ?thesis by (cases b; cases c) auto
  qed
  moreover have "p = base a + fst c + 10" "?n + 1 + 10 \<le> 2 ^ snd c" using c(1) by (auto simp: allocated_def)
  ultimately have "p + (?n + 1) \<le> s \<or> s + (?n + 1) \<le> p" using assms(5,6) by linarith
  then have "mem ?a (p + i) = mem a1 (s + i)" if "i \<le> ?n" for i
    using memcpy_in [of p "?n + 1" s i "mem a1"] that by auto
  then have "cstr (mem ?a) p str" using cs [OF k1] by (simp add: cstr_nth del: memcpy.simps)
  moreover have "cstr (mem ?a) s str" using cs [of ?a] al unfolding allocated_def by blast
  ultimately show ?thesis using eq al by blast
qed

theorem strdup_correct_witness:
  "\<exists>a' c. strdup mini_heap 80 = Some (106, a') \<and> allocated mini_heap {(0, 5)} 1 a' 106 c \<and> cstr (mem a') 106 []"
proof -
  have "\<exists>a1. malloc mini_heap 1 = Some (106, a1)"
  proof -
    have "size2ord 14 = Some 5" unfolding size2ord_def by (subst size2ord_loop.simps) (simp add: MIN_ORD_def)
    moreover have "find_cur (free (account_alloc 5 4 mini_heap)) 5 = 5"
      by (subst find_cur.simps) (simp add: mini_heap_def)
    moreover have "split_down x bl 5 5 = Some x" for x bl using split_down.simps(2) [of x bl 5 4] by simp
    ultimately show ?thesis
      by (simp add: malloc_def km_alloc_def align_up_def alloc_consts Let_def) (simp add: mini_heap_def)
  qed
  then obtain a1 where "malloc mini_heap (length ([] :: u8 list) + 1) = Some (106, a1)" by auto
  moreover have "cstr (mem mini_heap) 80 []" by (simp add: mini_heap_def wr32_def)
  ultimately show ?thesis
    using strdup_correct [OF mini_heap_ok, of "(0, 5)" 80 "[]" 106 a1] by (auto simp: mini_heap_def)
qed

end
