(* ===== verification/Fs_Path.thy ===== *)
theory Fs_Path
  imports Lib_String
begin

text \<open>
  Path names in \<^verbatim>\<open>src/kern/fs/vfs.c\<close>: \<^verbatim>\<open>path_canon\<close>, \<^verbatim>\<open>get_comps\<close> and the splitting
  part of \<^verbatim>\<open>look_bs\<close>.  A string is its byte list; that the \<^verbatim>\<open>strtok_r\<close> loop yields
  \<^const>\<open>tokens\<close> is proved in \<^verbatim>\<open>Lib_String\<close>.  The outer option is \<^const>\<open>None\<close> for
  undefined behaviour (a store outside \<^verbatim>\<open>segs\<close>, a store through a null pointer), the inner
  one for a returned null pointer.  The buffers are assumed to be allocated.
\<close>

section \<open>Definitions\<close>

abbreviation SLASH :: u8 where "SLASH \<equiv> 47"
abbreviation DOT :: u8 where "DOT \<equiv> 46"

definition MAX_PLEN :: nat where "MAX_PLEN = 127"

text \<open>The token loop of \<^verbatim>\<open>path_canon\<close>: \<open>st\<close> is \<^verbatim>\<open>segs[0..top-1]\<close>.\<close>

fun canon_segs :: "u8 list list \<Rightarrow> u8 list list \<Rightarrow> u8 list list option" where
  "canon_segs st [] = Some st"
| "canon_segs st (t # ts) =
     (if t = [DOT] then canon_segs st ts
      else if t = [DOT, DOT] then canon_segs (if length st > 0 then take (length st - 1) st else st) ts
      else if length st < MAX_PLEN div 2 then canon_segs (st @ [t]) ts
      else None)"

text \<open>The loop that writes the components to \<^verbatim>\<open>buf\<close>.\<close>

fun canon_join :: "nat \<Rightarrow> u8 list \<Rightarrow> u8 list list \<Rightarrow> u8 list option" where
  "canon_join n buf [] = Some buf"
| "canon_join n buf (s # ss) =
     (if length buf + length s + 1 > n then None
      else canon_join n (buf @ s @ (if ss \<noteq> [] then [SLASH] else [])) ss)"

definition path_canon :: "u8 list option \<Rightarrow> u8 list option \<Rightarrow> u8 list option option" where
  "path_canon cwd path =
     (case (cwd, path) of
        (Some cwd, Some path) \<Rightarrow>
          let n = length path + length cwd + 10;
              tmp = take (n - 1) (if path \<noteq> [] \<and> hd path = SLASH then path else cwd @ [SLASH] @ path)
          in map_option (\<lambda>segs. canon_join n [SLASH] segs) (canon_segs [] (tokens {SLASH} tmp))
      | _ \<Rightarrow> Some None)"

text \<open>\<^verbatim>\<open>strrchr(path, '/')\<close> as a split of the string around the last slash.\<close>

definition last_slash :: "u8 list \<Rightarrow> (u8 list \<times> u8 list) option" where
  "last_slash s = (if SLASH \<in> set s then
     let v = rev (takeWhile (\<lambda>c. c \<noteq> SLASH) (rev s)) in Some (take (length s - Suc (length v)) s, v)
   else None)"

text \<open>\<^verbatim>\<open>get_comps(path)\<close> followed by \<^verbatim>\<open>get_comps(NULL)\<close>: the directory part and the saved
  last component (\<^const>\<open>None\<close>: null).\<close>

definition get_comps :: "u8 list \<Rightarrow> (u8 list \<times> u8 list option) option" where
  "get_comps path =
     (case last_slash path of
        None \<Rightarrow> Some (path, None)
      | Some (u, v) \<Rightarrow>
          if v = [] then (case last_slash u of None \<Rightarrow> None | Some (u', v') \<Rightarrow> Some (u', Some v'))
          else Some (u, Some v))"

text \<open>The string part of \<^verbatim>\<open>look_bs\<close>: the directory to look up and the name in it.\<close>

definition look_bs_split :: "u8 list \<Rightarrow> u8 list \<Rightarrow> (u8 list \<times> u8 list option) option" where
  "look_bs_split cwd path =
     (case path_canon (Some cwd) (Some path) of
        Some (Some tmp) \<Rightarrow>
          if tmp = [SLASH] then Some ([SLASH], Some [SLASH])
          else map_option (\<lambda>(b, name). (if b = [] then [SLASH] else b, name)) (get_comps tmp)
      | _ \<Rightarrow> None)"

section \<open>Specification\<close>

text \<open>The lexical meaning of a path: the stack of components.\<close>

definition canon_step :: "u8 list list \<Rightarrow> u8 list \<Rightarrow> u8 list list" where
  "canon_step st t = (if t = [DOT] then st else if t = [DOT, DOT] then butlast st else st @ [t])"

definition resolve :: "u8 list list \<Rightarrow> u8 list list" where
  "resolve ts = foldl canon_step [] ts"

abbreviation join :: "u8 list list \<Rightarrow> u8 list" where
  "join \<equiv> joinc SLASH"

definition render :: "u8 list list \<Rightarrow> u8 list" where
  "render segs = SLASH # join segs"

definition comp_ok :: "u8 list \<Rightarrow> bool" where
  "comp_ok s \<longleftrightarrow> s \<noteq> [] \<and> SLASH \<notin> set s \<and> s \<noteq> [DOT] \<and> s \<noteq> [DOT, DOT]"

definition raw_path :: "u8 list \<Rightarrow> u8 list \<Rightarrow> u8 list" where
  "raw_path cwd path = (if path \<noteq> [] \<and> hd path = SLASH then path else cwd @ SLASH # path)"

section \<open>Lemmas\<close>

definition weight :: "u8 list list \<Rightarrow> nat" where
  "weight ss = sum_list (map (\<lambda>s. Suc (length s)) ss)"

lemma weight_simps [simp]:
  "weight [] = 0" "weight (s # ss) = Suc (length s) + weight ss" "weight (xs @ ys) = weight xs + weight ys"
  by (auto simp: weight_def)

lemma weight_butlast: "weight (butlast st) \<le> weight st"
  by (induction st) auto

lemma tokens_weight: "weight (tokens D s) \<le> Suc (length s)"
proof (induction "length s" arbitrary: s rule: less_induct)
  case less
  show ?case
  proof (cases "tokens D s")
    case (Cons w ws)
    from tokens_Cons_split [OF this] obtain u r where s: "s = u @ w @ r" "r = [] \<or> hd r \<in> D" "tokens D r = ws"
      by blast
    show ?thesis
    proof (cases r)
      case Nil
      then show ?thesis using s Cons by auto
    next
      case r: (Cons c r')
      have "tokens D r' = ws" using s r tokens_delim by auto
      then show ?thesis using less [of r'] s Cons r by auto
    qed
  qed simp
qed

lemma canon_segs_fold:
  "length st + length ts \<le> 63 \<Longrightarrow> canon_segs st ts = Some (foldl canon_step st ts)"
proof (induction ts arbitrary: st)
  case (Cons t ts)
  have "(if length st > 0 then take (length st - 1) st else st) = butlast st"
    by (simp add: butlast_conv_take)
  then show ?case using Cons by (auto simp: canon_step_def MAX_PLEN_def)
qed simp

lemma weight_step: "weight (canon_step st t) \<le> weight st + Suc (length t)"
  using weight_butlast [of st] by (auto simp: canon_step_def)

lemma weight_fold: "weight (foldl canon_step st ts) \<le> weight st + weight ts"
proof (induction ts arbitrary: st)
  case (Cons t ts)
  have "weight (foldl canon_step (canon_step st t) ts) \<le> weight (canon_step st t) + weight ts"
    by (rule Cons.IH)
  then show ?case using weight_step [of st t] by simp
qed simp

lemma canon_join_render: "length buf + weight ss \<le> n \<Longrightarrow> canon_join n buf ss = Some (buf @ join ss)"
proof (induction ss arbitrary: buf)
  case (Cons s ss)
  show ?case
  proof (cases ss)
    case (Cons t ts)
    have "canon_join n (buf @ s @ [SLASH]) ss = Some ((buf @ s @ [SLASH]) @ join ss)"
      by (rule Cons.IH) (use Cons.prems Cons in simp)
    then show ?thesis using Cons.prems Cons by simp
  qed (use Cons in simp)
qed simp

lemma comp_ok_fold:
  assumes "\<forall>s\<in>set st. comp_ok s" "\<forall>t\<in>set ts. t \<noteq> [] \<and> SLASH \<notin> set t"
  shows "\<forall>s\<in>set (foldl canon_step st ts). comp_ok s"
  using assms
proof (induction ts arbitrary: st)
  case (Cons t ts)
  have "\<forall>s\<in>set (canon_step st t). comp_ok s"
    using Cons.prems by (auto simp: canon_step_def comp_ok_def dest: in_set_butlastD)
  then show ?case using Cons by simp
qed simp

lemma resolve_comp_ok: "\<forall>s\<in>set (resolve (tokens {SLASH} p)). comp_ok s"
  unfolding resolve_def by (rule comp_ok_fold) (use tokens_good in auto)

lemma fold_comp_ok: "\<forall>s\<in>set ts. comp_ok s \<Longrightarrow> foldl canon_step st ts = st @ ts"
  by (induction ts arbitrary: st) (auto simp: canon_step_def comp_ok_def)

lemma resolve_id: "\<forall>s\<in>set ts. comp_ok s \<Longrightarrow> resolve ts = ts"
  using fold_comp_ok [of ts "[]"] by (simp add: resolve_def)

lemma tokens_render: "\<forall>s\<in>set ss. comp_ok s \<Longrightarrow> tokens {SLASH} (render ss) = ss"
  using tokens_joinc [of ss SLASH] by (simp add: render_def tokens_delim comp_ok_def)

lemma path_canon_eq:
  assumes "length (tokens {SLASH} (raw_path cwd path)) \<le> 63"
  shows "path_canon (Some cwd) (Some path) = Some (Some (render (resolve (tokens {SLASH} (raw_path cwd path)))))"
proof -
  let ?n = "length path + length cwd + 10" and ?t = "tokens {SLASH} (raw_path cwd path)"
  have raw: "take (?n - 1) (if path \<noteq> [] \<and> hd path = SLASH then path else cwd @ [SLASH] @ path) = raw_path cwd path"
    by (auto simp: raw_path_def)
  have "weight (resolve ?t) \<le> weight ?t" using weight_fold [of "[]" ?t] by (simp add: resolve_def)
  also have "\<dots> \<le> Suc (length (raw_path cwd path))" by (rule tokens_weight)
  also have "\<dots> \<le> length path + length cwd + 2" by (simp add: raw_path_def)
  finally have "canon_join ?n [SLASH] (resolve ?t) = Some (render (resolve ?t))"
    by (subst canon_join_render) (auto simp: render_def)
  moreover have "canon_segs [] ?t = Some (resolve ?t)" using assms by (simp add: canon_segs_fold resolve_def)
  ultimately show ?thesis
    unfolding path_canon_def Let_def prod.case option.case raw by (simp only: option.map)
qed

lemma last_slash_split: "SLASH \<notin> set v \<Longrightarrow> last_slash (u @ SLASH # v) = Some (u, v)"
proof -
  assume v: "SLASH \<notin> set v"
  have "takeWhile (\<lambda>c. c \<noteq> SLASH) (rev (u @ SLASH # v)) = rev v"
    using v by (simp add: takeWhile_append takeWhile_tail)
  then show ?thesis by (simp add: last_slash_def)
qed

lemma get_comps_render:
  assumes "\<forall>s\<in>set ss. comp_ok s" "ss \<noteq> []"
  shows "get_comps (render ss) = Some (if butlast ss = [] then [] else render (butlast ss), Some (last ss))"
proof -
  have l: "SLASH \<notin> set (last ss)" "last ss \<noteq> []" using assms by (auto simp: comp_ok_def)
  have ss: "ss = butlast ss @ [last ss]" using assms(2) by simp
  have "render ss = (if butlast ss = [] then [] else render (butlast ss)) @ SLASH # last ss"
  proof (cases "butlast ss = []")
    case True
    then have "ss = [last ss]" using ss by simp
    then show ?thesis using True by (metis append_Nil joinc.simps(2) render_def)
  next
    case False
    then have "join ss = join (butlast ss) @ SLASH # last ss" using joinc_snoc ss by metis
    then show ?thesis using False by (simp add: render_def)
  qed
  then show ?thesis using last_slash_split [OF l(1)] l(2) by (simp add: get_comps_def)
qed

section \<open>Properties\<close>

text \<open>C16. \<^verbatim>\<open>path_canon\<close> of a path of at most 63 components returns the absolute path
  whose components are the lexical resolution of \<^verbatim>\<open>.\<close> and \<^verbatim>\<open>..\<close> (never climbing above the
  root) in the working directory, never a null pointer; its result has no empty, \<^verbatim>\<open>.\<close> or
  \<^verbatim>\<open>..\<close> component, and canonicalising it again, from any directory, changes nothing.\<close>

theorem path_canon_correct:
  assumes "length (tokens {SLASH} (raw_path cwd path)) \<le> 63"
  shows "\<exists>segs. path_canon (Some cwd) (Some path) = Some (Some (render segs)) \<and>
    segs = resolve (tokens {SLASH} (raw_path cwd path)) \<and> (\<forall>s\<in>set segs. comp_ok s) \<and>
    tokens {SLASH} (render segs) = segs \<and>
    (length segs \<le> 63 \<longrightarrow> path_canon (Some cwd') (Some (render segs)) = Some (Some (render segs)))"
proof -
  let ?s = "resolve (tokens {SLASH} (raw_path cwd path))"
  have ok: "\<forall>s\<in>set ?s. comp_ok s" by (rule resolve_comp_ok)
  have "raw_path cwd' (render ?s) = render ?s" by (simp add: raw_path_def render_def)
  then have "path_canon (Some cwd') (Some (render ?s)) = Some (Some (render ?s))" if "length ?s \<le> 63"
    using path_canon_eq [of cwd' "render ?s"] tokens_render [OF ok] resolve_id [OF ok] that by simp
  then show ?thesis using path_canon_eq [OF assms] ok tokens_render [OF ok] by blast
qed

text \<open>The example resolves \<^verbatim>\<open>../b/./c\<close> in \<^verbatim>\<open>/a\<close>.\<close>

theorem path_canon_correct_witness:
  "path_canon (Some [47, 97]) (Some [46, 46, 47, 98, 47, 46, 47, 99]) = Some (Some [47, 98, 47, 99])"
proof -
  have "tokens {SLASH} (raw_path [47, 97] [46, 46, 47, 98, 47, 46, 47, 99]) = [[97], [46, 46], [98], [46], [99]]"
    by (simp add: raw_path_def tokens.simps)
  then show ?thesis
    using path_canon_correct [of "[47, 97]" "[46, 46, 47, 98, 47, 46, 47, 99]" "[]"]
    by (simp add: resolve_def canon_step_def render_def)
qed

text \<open>\<^verbatim>\<open>look_bs\<close> splits the canonical path into the parent directory and the last
  component: the directory handed to the lookup is the canonical path of all components
  but the last (the root if there is none), the name is the last component.\<close>

theorem look_bs_split_correct:
  assumes "length (tokens {SLASH} (raw_path cwd path)) \<le> 63"
    and "segs = resolve (tokens {SLASH} (raw_path cwd path))"
  shows "look_bs_split cwd path =
    (if segs = [] then Some ([SLASH], Some [SLASH]) else Some (render (butlast segs), Some (last segs)))"
proof -
  have c: "path_canon (Some cwd) (Some path) = Some (Some (render segs))"
    using path_canon_eq [OF assms(1)] assms(2) by simp
  have ok: "\<forall>s\<in>set segs. comp_ok s" using resolve_comp_ok assms(2) by simp
  show ?thesis
  proof (cases "segs = []")
    case True
    then show ?thesis using c by (simp add: look_bs_split_def render_def)
  next
    case False
    have "render segs \<noteq> [SLASH]"
    proof
      assume "render segs = [SLASH]"
      then have "segs = tokens {SLASH} [SLASH]" using tokens_render [OF ok] by simp
      then show False using False by (simp add: tokens_delim)
    qed
    then show ?thesis
      using False c get_comps_render [OF ok False] by (simp add: look_bs_split_def) (simp add: render_def)
  qed
qed

theorem look_bs_split_correct_witness:
  "look_bs_split [47] [100, 47, 102] = Some ([47, 100], Some [102])"
proof -
  have "resolve (tokens {SLASH} (raw_path [47] [100, 47, 102])) = [[100], [102]]"
    "length (tokens {SLASH} (raw_path [47] [100, 47, 102])) \<le> 63"
    by (simp_all add: raw_path_def tokens.simps resolve_def canon_step_def)
  then show ?thesis using look_bs_split_correct [of "[47]" "[100, 47, 102]"] by (simp add: render_def)
qed

end
