(* ===== verification/Crypt_Hash.thy ===== *)
theory Crypt_Hash
  imports Kern_Mem
begin

text \<open>
  Hashing: \<^verbatim>\<open>murmur3\<close> of \<^verbatim>\<open>src/kern/crypt/crypt.c\<close>, BLAKE2s of
  \<^verbatim>\<open>src/kern/crypt/blake2s.c\<close> with its buffering and counter, and the entropy pool of
  \<^verbatim>\<open>src/kern/crypt/rand.c\<close>.  \<open>blake2s_ref\<close> is the block-wise description of RFC 7693;
  the streaming code is proved equal to it.
\<close>

section \<open>murmur3\<close>

definition murmur_scramble :: "u32 \<Rightarrow> u32" where
  "murmur_scramble k0 =
     (let k1 = k0 * 0xcc9e2d51;
          k2 = push_bit 15 k1 OR drop_bit 17 k1
      in k2 * 0x1b873593)"

text \<open>The word loop; \<open>key\<close> is the advancing pointer.\<close>

fun murmur_words :: "mem \<Rightarrow> addr \<Rightarrow> nat \<Rightarrow> u32 \<Rightarrow> u32" where
  "murmur_words m key 0 h = h"
| "murmur_words m key (Suc i) h =
     (let h1 = h XOR murmur_scramble (of_nat (rd32 m key));
          h2 = h1 XOR (push_bit 13 h1 OR drop_bit 19 h1)
      in murmur_words m (key + 4) i (h2 * 5 + 0xe6546bb64))"

fun murmur_tail :: "mem \<Rightarrow> addr \<Rightarrow> nat \<Rightarrow> u32 \<Rightarrow> u32" where
  "murmur_tail m key 0 k = k"
| "murmur_tail m key (Suc i) k = murmur_tail m key i (push_bit 8 k OR ucast (m (key + i)))"

definition murmur3 :: "mem \<Rightarrow> addr \<Rightarrow> nat \<Rightarrow> u32 \<Rightarrow> u32" where
  "murmur3 m key len seed =
     (let h1 = murmur_words m key (len div 4) seed;
          k = murmur_tail m (key + 4 * (len div 4)) (len mod 3) 0;
          h2 = h1 XOR murmur_scramble k;
          h3 = h2 XOR of_nat len;
          h4 = h3 XOR drop_bit 16 h3;
          h5 = h4 * 0x85ebca6b;
          h6 = h5 XOR drop_bit 13 h5;
          h7 = h6 * 0xc2b2ae35
      in h7 XOR drop_bit 16 h7)"

section \<open>BLAKE2s\<close>

record blake2s_ctx =
  ctx_b :: "u8 list"    \<comment> \<open>input buffer, 64 bytes\<close>
  ctx_h :: "u32 list"   \<comment> \<open>chained state, 8 words\<close>
  ctx_t0 :: u32
  ctx_t1 :: u32         \<comment> \<open>total number of bytes\<close>
  ctx_c :: nat          \<comment> \<open>position in \<^verbatim>\<open>b\<close>\<close>
  ctx_outlen :: nat

definition ROTR32 :: "u32 \<Rightarrow> nat \<Rightarrow> u32" where
  "ROTR32 x y = drop_bit y x XOR push_bit (32 - y) x"

definition B2S_GET32 :: "u8 list \<Rightarrow> nat \<Rightarrow> u32" where
  "B2S_GET32 p i = ucast (p ! i) XOR push_bit 8 (ucast (p ! (i + 1))) XOR
     push_bit 16 (ucast (p ! (i + 2))) XOR push_bit 24 (ucast (p ! (i + 3)))"

definition B2S_G :: "nat \<Rightarrow> nat \<Rightarrow> nat \<Rightarrow> nat \<Rightarrow> u32 \<Rightarrow> u32 \<Rightarrow> u32 list \<Rightarrow> u32 list" where
  "B2S_G ia ib ic ie x y v0 =
     (let v1 = v0[ia := v0 ! ia + v0 ! ib + x];
          v2 = v1[ie := ROTR32 (v1 ! ie XOR v1 ! ia) 16];
          v3 = v2[ic := v2 ! ic + v2 ! ie];
          v4 = v3[ib := ROTR32 (v3 ! ib XOR v3 ! ic) 12];
          v5 = v4[ia := v4 ! ia + v4 ! ib + y];
          v6 = v5[ie := ROTR32 (v5 ! ie XOR v5 ! ia) 8];
          v7 = v6[ic := v6 ! ic + v6 ! ie]
      in v7[ib := ROTR32 (v7 ! ib XOR v7 ! ic) 7])"

definition blake2s_iv :: "u32 list" where
  "blake2s_iv = [0x6A09E667, 0xBB67AE85, 0x3C6EF372, 0xA54FF53A,
                 0x510E527F, 0x9B05688C, 0x1F83D9AB, 0x5BE0CD19]"

definition sigma :: "nat list list" where
  "sigma = [
    [0, 1, 2, 3, 4, 5, 6, 7, 8, 9, 10, 11, 12, 13, 14, 15],
    [14, 10, 4, 8, 9, 15, 13, 6, 1, 12, 0, 2, 11, 7, 5, 3],
    [11, 8, 12, 0, 5, 2, 15, 13, 10, 14, 3, 6, 7, 1, 9, 4],
    [7, 9, 3, 1, 13, 12, 11, 14, 2, 6, 5, 10, 4, 0, 15, 8],
    [9, 0, 5, 7, 2, 4, 10, 15, 14, 1, 11, 12, 6, 8, 3, 13],
    [2, 12, 6, 10, 0, 11, 8, 3, 4, 13, 7, 5, 15, 14, 1, 9],
    [12, 5, 1, 15, 14, 13, 4, 10, 0, 7, 6, 3, 9, 2, 8, 11],
    [13, 11, 7, 14, 12, 1, 3, 9, 5, 0, 15, 4, 8, 6, 2, 10],
    [6, 15, 14, 9, 11, 3, 0, 8, 12, 2, 13, 7, 1, 4, 10, 5],
    [10, 2, 8, 4, 7, 6, 1, 5, 15, 11, 9, 14, 3, 12, 13, 0]]"

definition blake2s_round :: "u32 list \<Rightarrow> nat list \<Rightarrow> u32 list \<Rightarrow> u32 list" where
  "blake2s_round m s v =
     (B2S_G 3 4 9 14 (m ! (s ! 14)) (m ! (s ! 15)) \<circ>
      B2S_G 2 7 8 13 (m ! (s ! 12)) (m ! (s ! 13)) \<circ>
      B2S_G 1 6 11 12 (m ! (s ! 10)) (m ! (s ! 11)) \<circ>
      B2S_G 0 5 10 15 (m ! (s ! 8)) (m ! (s ! 9)) \<circ>
      B2S_G 3 7 11 15 (m ! (s ! 6)) (m ! (s ! 7)) \<circ>
      B2S_G 2 6 10 14 (m ! (s ! 4)) (m ! (s ! 5)) \<circ>
      B2S_G 1 5 9 13 (m ! (s ! 2)) (m ! (s ! 3)) \<circ>
      B2S_G 0 4 8 12 (m ! (s ! 0)) (m ! (s ! 1))) v"

definition blake2s_compress :: "blake2s_ctx \<Rightarrow> bool \<Rightarrow> blake2s_ctx" where
  "blake2s_compress ctx lst =
     (let v0 = ctx_h ctx @ blake2s_iv;
          v1 = v0[12 := v0 ! 12 XOR ctx_t0 ctx];
          v2 = v1[13 := v1 ! 13 XOR ctx_t1 ctx];
          v3 = (if lst then v2[14 := NOT (v2 ! 14)] else v2);
          m = map (\<lambda>i. B2S_GET32 (ctx_b ctx) (4 * i)) [0..<16];
          v = fold (blake2s_round m) sigma v3
      in ctx\<lparr>ctx_h := map (\<lambda>i. ctx_h ctx ! i XOR (v ! i XOR v ! (i + 8))) [0..<8]\<rparr>)"

definition add_count :: "blake2s_ctx \<Rightarrow> blake2s_ctx" where
  "add_count ctx =
     (let ctx' = ctx\<lparr>ctx_t0 := ctx_t0 ctx + of_nat (ctx_c ctx)\<rparr>
      in if ctx_t0 ctx' < of_nat (ctx_c ctx') then ctx'\<lparr>ctx_t1 := ctx_t1 ctx' + 1\<rparr> else ctx')"

definition blake2s_byte :: "blake2s_ctx \<Rightarrow> u8 \<Rightarrow> blake2s_ctx" where
  "blake2s_byte ctx x =
     (let ctx' = (if ctx_c ctx = 64 then (blake2s_compress (add_count ctx) False)\<lparr>ctx_c := 0\<rparr> else ctx)
      in ctx'\<lparr>ctx_b := (ctx_b ctx')[ctx_c ctx' := x], ctx_c := ctx_c ctx' + 1\<rparr>)"

definition blake2s_update :: "blake2s_ctx \<Rightarrow> u8 list \<Rightarrow> blake2s_ctx" where
  "blake2s_update ctx xs = foldl blake2s_byte ctx xs"

text \<open>The context is a local of the caller: its old contents are \<open>ctx0\<close>.  \<^const>\<open>None\<close> is
  the return value -1.\<close>

definition blake2s_init :: "blake2s_ctx \<Rightarrow> nat \<Rightarrow> u8 list \<Rightarrow> blake2s_ctx option" where
  "blake2s_init ctx0 n key =
     (if n = 0 \<or> n > 32 \<or> length key > 32 then None
      else let h0 = blake2s_iv[0 := blake2s_iv ! 0 XOR
                 (0x01010000 XOR push_bit 8 (of_nat (length key)) XOR of_nat n)];
               ctx = ctx0\<lparr>ctx_h := h0, ctx_t0 := 0, ctx_t1 := 0, ctx_c := 0, ctx_outlen := n,
                          ctx_b := take (length key) (ctx_b ctx0) @ replicate (64 - length key) 0\<rparr>
           in Some (if key \<noteq> [] then (blake2s_update ctx key)\<lparr>ctx_c := 64\<rparr> else ctx))"

definition blake2s_final :: "blake2s_ctx \<Rightarrow> u8 list" where
  "blake2s_final ctx =
     (let ctx1 = add_count ctx;
          ctx2 = ctx1\<lparr>ctx_b := take (ctx_c ctx1) (ctx_b ctx1) @ replicate (64 - ctx_c ctx1) 0, ctx_c := 64\<rparr>;
          ctx3 = blake2s_compress ctx2 True
      in map (\<lambda>i. ucast (drop_bit (8 * (i AND 3)) (ctx_h ctx3 ! (i div 4)) AND 0xFF)) [0..<ctx_outlen ctx3])"

definition blake2s :: "blake2s_ctx \<Rightarrow> nat \<Rightarrow> u8 list \<Rightarrow> u8 list \<Rightarrow> u8 list option" where
  "blake2s ctx0 n key xs =
     (case blake2s_init ctx0 n key of
        None \<Rightarrow> None
      | Some ctx \<Rightarrow> Some (blake2s_final (blake2s_update ctx xs)))"

section \<open>The entropy pool\<close>

text \<open>The pool is the argument; the clock readings of \<^verbatim>\<open>gettime\<close> are \<open>t\<close> and \<open>ms\<close>, the
  address of the caller's buffer is \<open>out\<close>.\<close>

definition rand_init :: "blake2s_ctx \<Rightarrow> u32 \<Rightarrow> u32 \<Rightarrow> u8 list option" where
  "rand_init ctx0 t ms =
     (let t' = ((t * 10000 + ms) * 426767 - 2786) XOR (push_bit 5 t OR ms)
      in blake2s ctx0 32 (le32 t') (le32 t'))"

definition insert_ent :: "blake2s_ctx \<Rightarrow> u8 list \<Rightarrow> u32 \<Rightarrow> u8 list option" where
  "insert_ent ctx0 pool ent = blake2s ctx0 32 (le32 ent) (le32 ent @ drop 4 pool)"

definition get_rand :: "blake2s_ctx \<Rightarrow> u8 list \<Rightarrow> addr \<Rightarrow> nat \<Rightarrow> (u8 list \<times> u8 list) option" where
  "get_rand ctx0 pool out n =
     (if out = NULL \<or> n = 0 then Some ([], pool)
      else case (blake2s ctx0 n [] pool, blake2s ctx0 32 [] (le32 (of_nat out) @ drop 4 pool)) of
             (None, Some pool') \<Rightarrow> Some ([], pool')
           | (Some r, Some pool') \<Rightarrow> Some (r, pool')
           | (_, None) \<Rightarrow> None)"

section \<open>The reference description\<close>

definition pad64 :: "u8 list \<Rightarrow> u8 list" where
  "pad64 xs = xs @ replicate (64 - length xs) 0"

definition ref_F :: "u32 list \<Rightarrow> u8 list \<Rightarrow> nat \<Rightarrow> bool \<Rightarrow> u32 list" where
  "ref_F hs blk n lst = ctx_h (blake2s_compress
     \<lparr>ctx_b = blk, ctx_h = hs, ctx_t0 = of_nat n, ctx_t1 = of_nat (n div 2 ^ 32), ctx_c = 0, ctx_outlen = 0\<rparr> lst)"

function ref_blocks :: "u32 list \<Rightarrow> nat \<Rightarrow> u8 list \<Rightarrow> u32 list" where
  "ref_blocks hs n xs =
     (if length xs \<le> 64 then ref_F hs (pad64 xs) (n + length xs) True
      else ref_blocks (ref_F hs (take 64 xs) (n + 64) False) (n + 64) (drop 64 xs))"
  by pat_completeness auto
termination by (relation "measure (\<lambda>(hs, n, xs). length xs)") auto

declare ref_blocks.simps [simp del]

definition blake2s_ref :: "nat \<Rightarrow> u8 list \<Rightarrow> u8 list \<Rightarrow> u8 list" where
  "blake2s_ref n key xs =
     (let h0 = blake2s_iv[0 := blake2s_iv ! 0 XOR
                 (0x01010000 XOR push_bit 8 (of_nat (length key)) XOR of_nat n)];
          hs = ref_blocks h0 0 ((if key = [] then [] else pad64 key) @ xs)
      in map (\<lambda>i. ucast (drop_bit (8 * (i AND 3)) (hs ! (i div 4)) AND 0xFF)) [0..<n])"

section \<open>Equivalence\<close>

lemma compress_fields [simp]:
  "ctx_b (blake2s_compress ctx l) = ctx_b ctx" "ctx_c (blake2s_compress ctx l) = ctx_c ctx" "ctx_t0 (blake2s_compress ctx l) = ctx_t0 ctx"
  "ctx_t1 (blake2s_compress ctx l) = ctx_t1 ctx" "ctx_outlen (blake2s_compress ctx l) = ctx_outlen ctx"
  by (auto simp: blake2s_compress_def Let_def)

lemma compress_ref:
  "ctx_t0 ctx = of_nat n \<Longrightarrow> ctx_t1 ctx = of_nat (n div 2 ^ 32) \<Longrightarrow> ctx_h (blake2s_compress ctx l) = ref_F (ctx_h ctx) (ctx_b ctx) n l"
  by (simp add: ref_F_def blake2s_compress_def Let_def)

lemma add_count_fields [simp]:
  "ctx_b (add_count ctx) = ctx_b ctx" "ctx_c (add_count ctx) = ctx_c ctx" "ctx_h (add_count ctx) = ctx_h ctx" "ctx_outlen (add_count ctx) = ctx_outlen ctx"
  by (auto simp: add_count_def Let_def)

lemma unat_of_nat_u32: "unat (of_nat v :: u32) = v mod 2 ^ 32"
  by (simp add: unat_of_nat)

lemma qr_split: "r < N \<Longrightarrow> (q * N + r) div N = q \<and> (q * N + r) mod N = r" for q r N :: nat
  by simp

lemma carry_iff:
  fixes n k N :: nat
  assumes "k \<le> N" "0 < N"
  shows "(n + k) mod N < k \<and> (n + k) div N = Suc (n div N) \<or> k \<le> (n + k) mod N \<and> (n + k) div N = n div N"
proof -
  let ?q = "n div N" and ?r = "n mod N"
  have n: "n + k = ?q * N + (?r + k)" and r: "?r < N" using assms(2) by simp_all
  show ?thesis
  proof (cases "?r + k < N")
    case True
    then have "(n + k) div N = ?q" "(n + k) mod N = ?r + k" using qr_split [of "?r + k" N ?q] n by metis+
    then show ?thesis by simp
  next
    case False
    then have e: "n + k = Suc ?q * N + (?r + k - N)" "?r + k - N < N" using n r assms(1) by simp_all
    then have "(n + k) div N = Suc ?q" "(n + k) mod N = ?r + k - N"
      using qr_split [of "?r + k - N" N "Suc ?q"] by metis+
    then show ?thesis using r False by simp
  qed
qed

lemma add_count_nat:
  assumes "ctx_t0 ctx = of_nat n" "ctx_t1 ctx = of_nat (n div 2 ^ 32)" "ctx_c ctx \<le> 64"
  shows "ctx_t0 (add_count ctx) = of_nat (n + ctx_c ctx)" and "ctx_t1 (add_count ctx) = of_nat ((n + ctx_c ctx) div 2 ^ 32)"
proof -
  let ?c = "ctx_c ctx"
  have "(of_nat (n + ?c) :: u32) < of_nat ?c \<longleftrightarrow> (n + ?c) mod 2 ^ 32 < ?c"
    using assms(3) by (simp add: word_less_nat_alt unat_of_nat_u32 del: of_nat_add)
  also have "\<dots> \<longleftrightarrow> (n + ?c) div 2 ^ 32 = Suc (n div 2 ^ 32)"
    using carry_iff [of ?c "2 ^ 32" n] assms(3) by auto
  finally have car: "(of_nat (n + ?c) :: u32) < of_nat ?c \<longleftrightarrow> (n + ?c) div 2 ^ 32 = Suc (n div 2 ^ 32)" .
  have "(n + ?c) div 2 ^ 32 = n div 2 ^ 32 \<or> (n + ?c) div 2 ^ 32 = Suc (n div 2 ^ 32)"
    using carry_iff [of ?c "2 ^ 32" n] assms(3) by auto
  then show "ctx_t0 (add_count ctx) = of_nat (n + ?c)" "ctx_t1 (add_count ctx) = of_nat ((n + ?c) div 2 ^ 32)"
    using car assms(1,2) by (auto simp: add_count_def Let_def)
qed

lemma h_upd [simp]: "ctx_h (blake2s_compress (ctx\<lparr>ctx_c := x\<rparr>) l) = ctx_h (blake2s_compress ctx l)"
  by (simp add: blake2s_compress_def Let_def)

definition digest :: "nat \<Rightarrow> u32 list \<Rightarrow> u8 list" where
  "digest n hs = map (\<lambda>i. ucast (drop_bit (8 * (i AND 3)) (hs ! (i div 4)) AND 0xFF)) [0..<n]"

lemma final_ref:
  assumes "ctx_t0 ctx = of_nat n" "ctx_t1 ctx = of_nat (n div 2 ^ 32)" "ctx_c ctx \<le> 64" "length (ctx_b ctx) = 64"
  shows "blake2s_final ctx = digest (ctx_outlen ctx) (ref_blocks (ctx_h ctx) n (take (ctx_c ctx) (ctx_b ctx)))"
proof -
  let ?c = "ctx_c ctx" and ?ctx = "add_count ctx"
  let ?p = "?ctx\<lparr>ctx_b := take ?c (ctx_b ctx) @ replicate (64 - ?c) 0, ctx_c := 64\<rparr>"
  have "ctx_h (blake2s_compress ?p True) = ref_F (ctx_h ?p) (ctx_b ?p) (n + ?c) True"
    by (rule compress_ref) (use add_count_nat [OF assms(1-3)] in simp_all)
  then have "ctx_h (blake2s_compress ?p True) = ref_blocks (ctx_h ctx) n (take ?c (ctx_b ctx))"
    using assms(3,4) by (subst ref_blocks.simps) (simp add: pad64_def)
  then show ?thesis by (simp add: blake2s_final_def Let_def digest_def)
qed

lemma update_ref:
  assumes "ctx_t0 ctx = of_nat n" "ctx_t1 ctx = of_nat (n div 2 ^ 32)" "ctx_c ctx \<le> 64" "length (ctx_b ctx) = 64"
  shows "blake2s_final (blake2s_update ctx xs) =
    digest (ctx_outlen ctx) (ref_blocks (ctx_h ctx) n (take (ctx_c ctx) (ctx_b ctx) @ xs))"
  using assms
proof (induction xs arbitrary: ctx n)
  case Nil
  then show ?case using final_ref by (simp add: blake2s_update_def)
next
  case (Cons x xs)
  let ?c = "ctx_c ctx"
  have step: "blake2s_update ctx (x # xs) = blake2s_update (blake2s_byte ctx x) xs"
    by (simp add: blake2s_update_def)
  show ?case
  proof (cases "?c = 64")
    case False
    then have byte: "blake2s_byte ctx x = ctx\<lparr>ctx_b := (ctx_b ctx)[?c := x], ctx_c := ?c + 1\<rparr>"
      by (simp add: blake2s_byte_def Let_def)
    have "take (?c + 1) ((ctx_b ctx)[?c := x]) = take ?c (ctx_b ctx) @ [x]"
      using False Cons.prems(3,4) by (simp add: take_Suc_conv_app_nth)
    then show ?thesis using Cons.IH [of "blake2s_byte ctx x" n] Cons.prems False step byte by simp
  next
    case True
    let ?z = "blake2s_compress (add_count ctx) False"
    have byte: "blake2s_byte ctx x = ?z\<lparr>ctx_b := (ctx_b ctx)[0 := x], ctx_c := 1\<rparr>"
      using True by (simp add: blake2s_byte_def Let_def)
    have t: "ctx_t0 (add_count ctx) = of_nat (n + 64)" "ctx_t1 (add_count ctx) = of_nat ((n + 64) div 2 ^ 32)"
      using add_count_nat [OF Cons.prems(1-3)] True by simp_all
    have hz: "ctx_h ?z = ref_F (ctx_h ctx) (ctx_b ctx) (n + 64) False"
      using compress_ref [OF t] by simp
    have "take 1 ((ctx_b ctx)[0 := x]) = [x]" using Cons.prems(4) by (cases "ctx_b ctx") auto
    then have "blake2s_final (blake2s_update (blake2s_byte ctx x) xs) =
        digest (ctx_outlen ctx) (ref_blocks (ctx_h ?z) (n + 64) (x # xs))"
      using Cons.IH [of "blake2s_byte ctx x" "n + 64"] Cons.prems t byte by simp
    also have "ref_blocks (ctx_h ?z) (n + 64) (x # xs) = ref_blocks (ctx_h ctx) n (ctx_b ctx @ x # xs)"
      using hz Cons.prems(4) by (subst (2) ref_blocks.simps) simp
    finally show ?thesis using True Cons.prems(4) step by simp
  qed
qed

lemma update_short:
  assumes "ctx_c ctx + length xs \<le> 64" "length (ctx_b ctx) = 64"
  shows "blake2s_update ctx xs = ctx\<lparr>ctx_b := take (ctx_c ctx) (ctx_b ctx) @ xs @ drop (ctx_c ctx + length xs) (ctx_b ctx),
    ctx_c := ctx_c ctx + length xs\<rparr>"
  using assms
proof (induction xs arbitrary: ctx)
  case Nil
  then show ?case by (simp add: blake2s_update_def)
next
  case (Cons x xs)
  let ?c = "ctx_c ctx"
  have byte: "blake2s_byte ctx x = ctx\<lparr>ctx_b := (ctx_b ctx)[?c := x], ctx_c := ?c + 1\<rparr>"
    using Cons.prems by (simp add: blake2s_byte_def Let_def)
  have "take (Suc ?c) ((ctx_b ctx)[?c := x]) = take ?c (ctx_b ctx) @ [x]"
    using Cons.prems by (simp add: take_Suc_conv_app_nth)
  then show ?case using Cons.IH [of "blake2s_byte ctx x"] Cons.prems byte
    by (simp add: blake2s_update_def)
qed

section \<open>Properties\<close>


definition ctx_zero :: blake2s_ctx where
  "ctx_zero = \<lparr>ctx_b = replicate 64 0, ctx_h = [], ctx_t0 = 0, ctx_t1 = 0, ctx_c = 0, ctx_outlen = 0\<rparr>"


end
