(* ===== verification/Crypt_Cred.thy ===== *)
theory Crypt_Cred
  imports Crypt_Hash Lib_String
begin

text \<open>
  Credentials: \<^verbatim>\<open>struct cred\<close> and \<^verbatim>\<open>struct userinfo\<close> of \<^verbatim>\<open>src/include/proc/proc.h\<close>, the
  system calls \<^verbatim>\<open>setuid\<close> and \<^verbatim>\<open>seteuid\<close> and the password-file readers \<^verbatim>\<open>getuser\<close>,
  \<^verbatim>\<open>getuid\<close> and \<^verbatim>\<open>chkcred\<close> of \<^verbatim>\<open>src/kern/crypt/crypt.c\<close>.  The contents of the password
  file are an argument (\<open>FOpenErr\<close>: it cannot be opened).  Strings are byte lists; a null
  pointer passed to a string routine, a use after free and a signed overflow are
  \<^const>\<open>None\<close>.
\<close>

section \<open>User identities\<close>

record cred =
  cr_uid :: u32
  cr_euid :: u32
  cr_suid :: u32
  cr_gid :: u32
  cr_egid :: u32
  cr_sgid :: u32
  cr_groups :: "u32 list"
  cr_ngroups :: int

definition sys_setuid :: "u32 \<Rightarrow> cred \<Rightarrow> int \<times> cred" where
  "sys_setuid uid p =
     (if cr_euid p = 0 then (0, p\<lparr>cr_uid := uid, cr_euid := uid, cr_suid := uid\<rparr>)
      else if cr_uid p = uid \<or> cr_suid p = uid then (0, p\<lparr>cr_euid := uid\<rparr>)
      else (- EPERM, p))"

definition sys_seteuid :: "u32 \<Rightarrow> cred \<Rightarrow> int \<times> cred" where
  "sys_seteuid uid p =
     (if cr_euid p = 0 \<or> cr_uid p = uid \<or> cr_suid p = uid then (0, p\<lparr>cr_euid := uid\<rparr>)
      else (- EPERM, p))"

datatype uid_call = SetUid u32 | SetEUid u32

fun uid_step :: "cred \<Rightarrow> uid_call \<Rightarrow> cred" where
  "uid_step p (SetUid u) = snd (sys_setuid u p)"
| "uid_step p (SetEUid u) = snd (sys_seteuid u p)"

section \<open>The password file\<close>

definition MAX_CMTLEN :: nat where "MAX_CMTLEN = 32"
definition UI_ALLOCATED :: nat where "UI_ALLOCATED = 0x80"

record userinfo =
  ui_username :: "u8 list"
  ui_uid :: u32
  ui_gid :: u32
  ui_comment :: "u8 list"
  ui_home :: "u8 list"
  ui_interp :: "u8 list"
  ui_pass_req :: nat

datatype pwfile = FOpenErr | FReadErr | FBytes "u8 list"

definition COLON :: u8 where "COLON = 58"
definition NL :: u8 where "NL = 10"
definition DOLLAR :: u8 where "DOLLAR = 36"

definition atoi_str :: "u8 list option \<Rightarrow> int option" where
  "atoi_str s = Option.bind s (\<lambda>s. atoi (put_str 1 s (\<lambda>_. 0)) 1)"

text \<open>The \<open>i\<close>-th result of the successive \<^verbatim>\<open>strtok_r\<close> calls.\<close>

definition tok_nth :: "u8 list list \<Rightarrow> nat \<Rightarrow> u8 list option" where
  "tok_nth ts i = (if i < length ts then Some (ts ! i) else None)"

definition streq :: "u8 list option \<Rightarrow> u8 list option \<Rightarrow> bool option" where
  "streq s t = Option.bind s (\<lambda>a. Option.bind t (\<lambda>b. Some (a = b)))"

text \<open>The buffer of the file: what follows a NUL byte is not seen.\<close>

definition file_lines :: "u8 list \<Rightarrow> u8 list list" where
  "file_lines bs = tokens {NL} (takeWhile (\<lambda>c. c \<noteq> 0) bs)"

fun getuser_lines :: "u8 list option \<Rightarrow> u32 \<Rightarrow> userinfo \<Rightarrow> u8 list list \<Rightarrow> (int \<times> userinfo) option" where
  "getuser_lines uname uid info [] = Some (0, info)"
| "getuser_lines uname uid info (line # lines) =
     (let f = tokens {COLON} line;
          name = tok_nth f 0; pass = tok_nth f 1; id_s = tok_nth f 2; gid_s = tok_nth f 3;
          cmt = tok_nth f 4; home = tok_nth f 5; intp = tok_nth f 6
      in Option.bind (atoi_str id_s) (\<lambda>id.
         Option.bind (atoi_str gid_s) (\<lambda>gid.
         Option.bind (if uname = None \<and> id = sint uid then Some True else streq name uname) (\<lambda>match.
           if match then
             (case (name, cmt, home, intp, pass) of
                (Some name, Some cmt, Some home, Some intp, Some pass) \<Rightarrow>
                  Some (1, info\<lparr>ui_username := take MAX_CMTLEN name, ui_comment := take MAX_CMTLEN cmt,
                      ui_home := take MAX_CMTLEN home, ui_interp := take MAX_CMTLEN intp,
                      ui_uid := of_int id, ui_gid := of_int gid,
                      ui_pass_req := (if take 1 pass = [120] then 1 else 0) OR UI_ALLOCATED\<rparr>)
              | _ \<Rightarrow> None)
           else getuser_lines uname uid info lines))))"

definition getuser :: "pwfile \<Rightarrow> u8 list option \<Rightarrow> u32 \<Rightarrow> userinfo \<Rightarrow> (int \<times> userinfo) option" where
  "getuser file uname uid info =
     (let info = info\<lparr>ui_pass_req := UI_ALLOCATED\<rparr>
      in case file of
           FOpenErr \<Rightarrow> Some (0, info)
         | FReadErr \<Rightarrow> None
         | FBytes bs \<Rightarrow> getuser_lines uname uid info (file_lines bs))"

fun getuid_lines :: "u8 list \<Rightarrow> u32 \<Rightarrow> u8 list list \<Rightarrow> u32 option" where
  "getuid_lines usr uid [] = Some uid"
| "getuid_lines usr uid (line # lines) =
     (let f = tokens {COLON} line; name = tok_nth f 0; field = tok_nth f 2
      in Option.bind (atoi_str field) (\<lambda>id.
         Option.bind (streq name (Some usr)) (\<lambda>match.
           getuid_lines usr (if match then of_int id else uid) lines)))"

definition getuid :: "pwfile \<Rightarrow> u8 list \<Rightarrow> u32 option" where
  "getuid file usr =
     (case file of
        FOpenErr \<Rightarrow> Some (- 1)
      | FReadErr \<Rightarrow> None
      | FBytes bs \<Rightarrow> getuid_lines usr (- 1) (file_lines bs))"

text \<open>\<^verbatim>\<open>murmur3\<close> of a string: the bytes after the terminator that the tail loop may read
  are \<open>m\<close>.\<close>

definition hash_str :: "mem \<Rightarrow> u8 list \<Rightarrow> u32 \<Rightarrow> u32" where
  "hash_str m s seed = murmur3 (put_str 1 s m) 1 (length s) seed"

fun chkcred_lines :: "mem \<Rightarrow> u8 list \<Rightarrow> u8 list \<Rightarrow> u8 list list \<Rightarrow> bool option" where
  "chkcred_lines m usr cred [] = Some False"
| "chkcred_lines m usr cred (line # lines) =
     (let f = tokens {COLON} line; name = tok_nth f 0; pass = tok_nth f 1
      in Option.bind (streq name (Some usr)) (\<lambda>match.
           if match then
             Option.bind pass (\<lambda>pass.
               let g = tokens {DOLLAR} pass in
               Option.bind (streq (tok_nth g 0) (Some [102, 117])) (\<lambda>fu.
                 if \<not> fu then Some False
                 else Option.bind (atoi_str (tok_nth g 1)) (\<lambda>sed.
                      Option.bind (atoi_str (tok_nth g 2)) (\<lambda>hh.
                        if of_int hh = hash_str m cred (of_int sed) then Some True
                        else chkcred_lines m usr cred lines))))
           else chkcred_lines m usr cred lines))"

definition chkcred :: "pwfile \<Rightarrow> pwfile \<Rightarrow> mem \<Rightarrow> u8 list \<Rightarrow> u8 list \<Rightarrow> userinfo \<Rightarrow> (int \<times> userinfo) option" where
  "chkcred passwd shadow m usr cred info =
     Option.bind (if ui_pass_req info AND UI_ALLOCATED = 0 then getuser passwd (Some usr) 0 info
                  else Some (0, info)) (\<lambda>(r, info).
       if r \<noteq> 0 \<and> ui_pass_req info AND 1 = 0 then Some (1, info)
       else case shadow of
              FOpenErr \<Rightarrow> Some (0, info)
            | FReadErr \<Rightarrow> None
            | FBytes bs \<Rightarrow> map_option (\<lambda>ok. (if ok then 1 else 0, info))
                (chkcred_lines m usr cred (file_lines bs)))"

section \<open>Lemmas\<close>

definition ids :: "cred \<Rightarrow> u32 set" where
  "ids p = {cr_uid p, cr_euid p, cr_suid p}"

lemma uid_step_ids: "cr_euid p \<noteq> 0 \<Longrightarrow> ids (uid_step p u) \<subseteq> ids p"
  by (cases u) (auto simp: ids_def sys_setuid_def sys_seteuid_def)

lemma uid_steps_ids: "0 \<notin> ids p \<Longrightarrow> ids (foldl uid_step p us) \<subseteq> ids p"
proof (induction us arbitrary: p)
  case (Cons u us)
  have "cr_euid p \<noteq> 0" using Cons.prems by (auto simp: ids_def)
  then have s: "ids (uid_step p u) \<subseteq> ids p" by (rule uid_step_ids)
  then have "0 \<notin> ids (uid_step p u)" using Cons.prems by auto
  from Cons.IH [OF this] show ?case using s by auto
qed simp

text \<open>An entry of the password file as it is written.\<close>

record pwent =
  e_name :: "u8 list"
  e_pass :: "u8 list"
  e_uid :: "u8 list"
  e_gid :: "u8 list"
  e_cmt :: "u8 list"
  e_home :: "u8 list"
  e_interp :: "u8 list"

definition e_fields :: "pwent \<Rightarrow> u8 list list" where
  "e_fields e = [e_name e, e_pass e, e_uid e, e_gid e, e_cmt e, e_home e, e_interp e]"

definition e_line :: "pwent \<Rightarrow> u8 list" where
  "e_line e = joinc COLON (e_fields e)"

definition pw_render :: "pwent list \<Rightarrow> u8 list" where
  "pw_render es = concat (map (\<lambda>s. s @ [NL]) (map e_line es))"

definition field_ok :: "u8 list \<Rightarrow> bool" where
  "field_ok s \<longleftrightarrow> s \<noteq> [] \<and> set s \<inter> {0, NL, COLON} = {}"

definition num_ok :: "u8 list \<Rightarrow> bool" where
  "num_ok s \<longleftrightarrow> list_all isdigit s \<and> s \<noteq> [] \<and> dec_val s < 2 ^ 31"

definition e_ok :: "pwent \<Rightarrow> bool" where
  "e_ok e \<longleftrightarrow> list_all field_ok (e_fields e) \<and> num_ok (e_uid e) \<and> num_ok (e_gid e)"

definition e_info :: "pwent \<Rightarrow> userinfo \<Rightarrow> userinfo" where
  "e_info e info = info\<lparr>ui_username := take 32 (e_name e), ui_comment := take 32 (e_cmt e),
     ui_home := take 32 (e_home e), ui_interp := take 32 (e_interp e),
     ui_uid := of_int (dec_val (e_uid e)), ui_gid := of_int (dec_val (e_gid e)),
     ui_pass_req := (if take 1 (e_pass e) = [120] then 1 else 0) OR UI_ALLOCATED\<rparr>"

lemma atoi_str_num: "num_ok s \<Longrightarrow> 0 \<notin> set s \<Longrightarrow> atoi_str (Some s) = Some (dec_val s)"
  using atoi_number [of "put_str 1 s (\<lambda>_. 0)" 1 "[]" s]
  by (simp add: atoi_str_def num_ok_def cstr_put_str)

lemma e_line_tokens: "e_ok e \<Longrightarrow> tokens {COLON} (e_line e) = e_fields e"
  unfolding e_line_def by (rule tokens_joinc) (auto simp: e_ok_def field_ok_def list_all_iff)

lemma set_joinc: "set (joinc d ss) \<subseteq> insert d (\<Union>(set ` set ss))"
  by (induction d ss rule: joinc.induct) auto

lemma e_line_ok: "e_ok e \<Longrightarrow> e_line e \<noteq> [] \<and> NL \<notin> set (e_line e) \<and> 0 \<notin> set (e_line e)"
proof -
  assume ok: "e_ok e"
  have sub: "set (e_line e) \<subseteq> insert COLON (\<Union>(set ` set (e_fields e)))"
    unfolding e_line_def by (rule set_joinc)
  have fld: "x \<noteq> NL \<and> x \<noteq> 0" if "x \<in> \<Union>(set ` set (e_fields e))" for x
    using ok that by (auto simp: e_ok_def field_ok_def list_all_iff)
  have "COLON \<noteq> NL" "COLON \<noteq> 0" by (simp_all add: COLON_def NL_def)
  then have "x \<noteq> NL \<and> x \<noteq> 0" if "x \<in> set (e_line e)" for x
    using subsetD [OF sub that] fld [of x] by (elim insertE) simp_all
  moreover have "e_line e \<noteq> []" by (auto simp: e_line_def e_fields_def)
  ultimately show ?thesis by metis
qed

lemma file_lines_render: "\<forall>e\<in>set es. e_ok e \<Longrightarrow> file_lines (pw_render es) = map e_line es"
proof -
  assume ok: "\<forall>e\<in>set es. e_ok e"
  have "\<forall>c\<in>set (pw_render es). c \<noteq> 0"
    using ok e_line_ok by (auto simp: pw_render_def NL_def)
  then have z: "takeWhile (\<lambda>c. c \<noteq> 0) (pw_render es) = pw_render es" by (simp add: takeWhile_eq_all_conv)
  have "tokens {NL} (pw_render es) = map e_line es"
    unfolding pw_render_def by (rule tokens_lines) (use ok e_line_ok in auto)
  then show ?thesis using z by (simp only: file_lines_def)
qed

lemma getuser_lines_find:
  assumes "\<forall>e\<in>set es. e_ok e"
  shows "getuser_lines (Some n) uid info (map e_line es) =
    Some (case find (\<lambda>e. e_name e = n) es of None \<Rightarrow> (0, info) | Some e \<Rightarrow> (1, e_info e info))"
  using assms
proof (induction es)
  case (Cons e es)
  have ok: "e_ok e" using Cons.prems by simp
  then have z: "0 \<notin> set (e_uid e)" "0 \<notin> set (e_gid e)" "num_ok (e_uid e)" "num_ok (e_gid e)"
    by (auto simp: e_ok_def field_ok_def e_fields_def)
  have num: "atoi_str (Some (e_uid e)) = Some (dec_val (e_uid e))" "atoi_str (Some (e_gid e)) = Some (dec_val (e_gid e))"
    using z atoi_str_num by auto
  have f: "tok_nth (e_fields e) 0 = Some (e_name e)" "tok_nth (e_fields e) (Suc 0) = Some (e_pass e)"
    "tok_nth (e_fields e) 2 = Some (e_uid e)" "tok_nth (e_fields e) 3 = Some (e_gid e)"
    "tok_nth (e_fields e) 4 = Some (e_cmt e)" "tok_nth (e_fields e) 5 = Some (e_home e)"
    "tok_nth (e_fields e) 6 = Some (e_interp e)" by (simp_all add: tok_nth_def e_fields_def)
  show ?case
    using Cons num f e_line_tokens [OF ok] by (simp add: streq_def Let_def e_info_def MAX_CMTLEN_def)
qed simp

section \<open>Properties\<close>

text \<open>C14. No privilege escalation: from a process none of whose real, effective and
  saved user ids is root, no sequence of \<^verbatim>\<open>setuid\<close> and \<^verbatim>\<open>seteuid\<close> calls reaches an id it
  did not have, so never root; and after root has called \<^verbatim>\<open>setuid\<close> to a user, that user's
  id is the only one it can ever have again.\<close>

theorem setuid_no_escalation:
  "(0 \<notin> ids p \<longrightarrow> ids (foldl uid_step p us) \<subseteq> ids p \<and> cr_euid (foldl uid_step p us) \<noteq> 0) \<and>
   (cr_euid p = 0 \<and> u \<noteq> 0 \<longrightarrow> ids (foldl uid_step p (SetUid u # us)) = {u})"
proof (intro conjI impI)
  assume z: "0 \<notin> ids p"
  show "ids (foldl uid_step p us) \<subseteq> ids p" by (rule uid_steps_ids [OF z])
  then show "cr_euid (foldl uid_step p us) \<noteq> 0" using z by (auto simp: ids_def)
next
  assume r: "cr_euid p = 0 \<and> u \<noteq> 0"
  let ?q = "uid_step p (SetUid u)"
  have q: "ids ?q = {u}" using r by (simp add: ids_def sys_setuid_def)
  then have "ids (foldl uid_step ?q us) \<subseteq> {u}" using uid_steps_ids [of ?q us] r by simp
  moreover have "ids (foldl uid_step ?q us) \<noteq> {}" by (simp add: ids_def)
  ultimately show "ids (foldl uid_step p (SetUid u # us)) = {u}" by auto
qed

definition cred_of :: "u32 \<Rightarrow> cred" where
  "cred_of u = \<lparr>cr_uid = u, cr_euid = u, cr_suid = u, cr_gid = 0, cr_egid = 0, cr_sgid = 0, cr_groups = [],
     cr_ngroups = 0\<rparr>"

theorem setuid_no_escalation_witness:
  "cr_euid (foldl uid_step (cred_of 5) [SetUid 0, SetEUid 0, SetUid 5]) \<noteq> 0 \<and>
   ids (foldl uid_step (cred_of 0) (SetUid 5 # [SetUid 0])) = {5}"
  using setuid_no_escalation [of "cred_of 5" "[SetUid 0, SetEUid 0, SetUid 5]" 5]
    setuid_no_escalation [of "cred_of 0" "[SetUid 0]" 5]
  by (simp add: cred_of_def ids_def)

text \<open>\<^verbatim>\<open>getuser\<close> finds the first entry with the given name in every well-formed
  password file (non-empty fields, numeric ids below \<open>2 ^ 31\<close>) and reports its ids,
  directories and whether a password is required; if there is none it returns 0.\<close>

theorem getuser_correct:
  assumes "\<forall>e\<in>set es. e_ok e"
  shows "getuser (FBytes (pw_render es)) (Some n) uid info =
    Some (case find (\<lambda>e. e_name e = n) es of
            None \<Rightarrow> (0, info\<lparr>ui_pass_req := UI_ALLOCATED\<rparr>) | Some e \<Rightarrow> (1, e_info e info))"
  using getuser_lines_find [OF assms, of n uid "info\<lparr>ui_pass_req := UI_ALLOCATED\<rparr>"] file_lines_render [OF assms]
  by (auto simp: getuser_def Let_def e_info_def split: option.splits)

definition root_ent :: pwent where
  "root_ent = \<lparr>e_name = [114], e_pass = [120], e_uid = [48], e_gid = [48], e_cmt = [114], e_home = [47], e_interp = [115]\<rparr>"

definition no_info :: userinfo where
  "no_info = \<lparr>ui_username = [], ui_uid = 0, ui_gid = 0, ui_comment = [], ui_home = [], ui_interp = [], ui_pass_req = 0\<rparr>"

theorem getuser_correct_witness:
  "getuser (FBytes (pw_render [root_ent])) (Some [114]) 0 no_info = Some (1, e_info root_ent no_info)"
proof -
  have "e_ok root_ent"
    by (simp add: e_ok_def root_ent_def e_fields_def field_ok_def num_ok_def isdigit_iff dec_val_def dec_step_def
        NL_def COLON_def)
  then show ?thesis using getuser_correct [of "[root_ent]" "[114]" 0 no_info] by (simp add: root_ent_def)
qed

text \<open>\<^verbatim>\<open>chkcred\<close> accepts only for a reason: the user's entry asks for no password, or
  the shadow file has a line for that user of type \<^verbatim>\<open>fu\<close> whose stored hash is the hash of
  the given password under the stored seed.\<close>

theorem chkcred_sound:
  assumes "chkcred passwd (FBytes bs) m usr cred info = Some (1, info')"
  shows "(\<exists>r. getuser passwd (Some usr) 0 info = Some (r, info') \<and> r \<noteq> 0 \<and> ui_pass_req info' AND 1 = 0) \<or>
    (\<exists>line\<in>set (file_lines bs). \<exists>pass seed hh. tok_nth (tokens {COLON} line) 0 = Some usr \<and>
       tok_nth (tokens {COLON} line) 1 = Some pass \<and> tok_nth (tokens {DOLLAR} pass) 0 = Some [102, 117] \<and>
       atoi_str (tok_nth (tokens {DOLLAR} pass) 1) = Some seed \<and>
       atoi_str (tok_nth (tokens {DOLLAR} pass) 2) = Some hh \<and> of_int hh = hash_str m cred (of_int seed))"
proof -
  have lines: "\<exists>line\<in>set ls. \<exists>pass seed hh. tok_nth (tokens {COLON} line) 0 = Some usr \<and>
       tok_nth (tokens {COLON} line) 1 = Some pass \<and> tok_nth (tokens {DOLLAR} pass) 0 = Some [102, 117] \<and>
       atoi_str (tok_nth (tokens {DOLLAR} pass) 1) = Some seed \<and>
       atoi_str (tok_nth (tokens {DOLLAR} pass) 2) = Some hh \<and> of_int hh = hash_str m cred (of_int seed)"
    if "chkcred_lines m usr cred ls = Some True" for ls
    using that
  proof (induction ls)
    case (Cons line ls)
    then show ?case
      by (auto simp: Let_def streq_def bind_eq_Some_conv split: if_splits)
  qed simp
  show ?thesis
    using assms lines by (auto simp: chkcred_def bind_eq_Some_conv split: if_splits)
qed

lemma sample_accepts:
  "chkcred FOpenErr (FBytes [114, 58, 36, 102, 117, 36, 48, 36, 48, 10]) (\<lambda>_. 0) [114] []
     (no_info\<lparr>ui_pass_req := UI_ALLOCATED\<rparr>) = Some (1, no_info\<lparr>ui_pass_req := UI_ALLOCATED\<rparr>)"
proof -
  have l: "file_lines [114, 58, 36, 102, 117, 36, 48, 36, 48, 10] = [[114, 58, 36, 102, 117, 36, 48, 36, 48]]"
    by (simp add: file_lines_def NL_def tokens.simps)
  have f: "tokens {COLON} [114, 58, 36, 102, 117, 36, 48, 36, 48] = [[114], [36, 102, 117, 36, 48, 36, 48]]"
    "tokens {DOLLAR} [36, 102, 117, 36, 48, 36, 48] = [[102, 117], [48], [48]]"
    by (simp_all add: COLON_def DOLLAR_def tokens.simps)
  have n: "atoi_str (Some [48]) = Some 0"
    using atoi_str_num [of "[48]"] by (simp add: num_ok_def isdigit_iff dec_val_def dec_step_def)
  have hz: "hash_str (\<lambda>_. 0) [] 0 = 0"
    by (simp add: hash_str_def murmur3_def murmur_scramble_def Let_def)
  have "chkcred_lines (\<lambda>_. 0) [114] [] (file_lines [114, 58, 36, 102, 117, 36, 48, 36, 48, 10]) = Some True"
    using f n hz by (simp add: l streq_def tok_nth_def Let_def)
  then show ?thesis by (simp add: chkcred_def UI_ALLOCATED_def)
qed

theorem chkcred_sound_witness:
  "\<exists>line\<in>set (file_lines [114, 58, 36, 102, 117, 36, 48, 36, 48, 10]).
     tok_nth (tokens {COLON} line) 0 = Some [114]"
  using chkcred_sound [OF sample_accepts] by (auto simp: getuser_def)

end
