(* ===== verification/Fs_Inode.thy ===== *)
theory Fs_Inode
  imports Crypt_Hash "HOL-Library.Multiset"
begin

text \<open>
  The inode cache of \<^verbatim>\<open>src/kern/fs/inode.c\<close>: a hash table of inodes in use and an LRU
  list of unreferenced ones, both intrusive lists.  Here a bucket and the LRU list are the
  lists of inode addresses they hold, in order; \<^verbatim>\<open>Lib_List\<close> proves that
  \<^verbatim>\<open>hlist_add_head\<close>, \<^verbatim>\<open>hlist_del\<close>, \<^verbatim>\<open>list_add\<close> and \<^verbatim>\<open>list_del\<close> implement the operations on
  such lists.  The address of a new inode (\<^verbatim>\<open>malloc\<close>) is an argument of \<open>iget\<close>; the calls
  into the file system (\<^verbatim>\<open>read_inode\<close>, \<^verbatim>\<open>write_inode\<close>, \<^verbatim>\<open>put_inode\<close>) are fields of the super
  block and are recorded in a log.
\<close>

section \<open>Data\<close>

type_synonym dev = "64 word"
type_synonym ino = u32

definition IN_DIRTY :: u32 where "IN_DIRTY = 0x0001"
definition IN_MOUNT :: u32 where "IN_MOUNT = 0x0002"
definition HITAB_MAX :: nat where "HITAB_MAX = 64"

record inode =
  i_mode :: u32
  i_size :: nat
  i_iflags :: u32
  i_ino :: ino
  i_dev :: dev
  i_rdev :: dev
  i_uid :: u32
  i_gid :: u32
  i_blkcount :: int
  i_refs :: u16
  i_sb :: addr
  i_mnt :: addr
  i_ops :: addr
  i_fops :: addr
  i_pdata :: addr

record super_block =
  s_blocksize :: nat
  s_dev :: dev
  s_root :: addr
  s_read_inode :: "(inode \<Rightarrow> inode) option"   \<comment> \<open>\<^verbatim>\<open>s_op->read_inode\<close>\<close>
  s_write_inode :: bool                        \<comment> \<open>\<^verbatim>\<open>s_op->write_inode\<close> is set\<close>
  s_put_inode :: bool

datatype ievent = WriteInode addr | PutInode addr | FreeInode addr

record icache =
  inodes :: "addr \<Rightarrow> inode"
  supers :: "addr \<Rightarrow> super_block"
  mnt_pt :: "addr \<Rightarrow> addr"      \<comment> \<open>\<^verbatim>\<open>struct mount\<close>: where it is mounted\<close>
  mnt_sb :: "addr \<Rightarrow> addr"      \<comment> \<open>and the mounted file system\<close>
  hitab :: "nat \<Rightarrow> addr list"
  ilru :: "addr list"
  ilog :: "ievent list"

definition zero_inode :: inode where
  "zero_inode = \<lparr>i_mode = 0, i_size = 0, i_iflags = 0, i_ino = 0, i_dev = 0, i_rdev = 0, i_uid = 0, i_gid = 0,
     i_blkcount = 0, i_refs = 0, i_sb = NULL, i_mnt = NULL, i_ops = NULL, i_fops = NULL, i_pdata = NULL\<rparr>"

section \<open>Operations\<close>

definition ihash :: "dev \<Rightarrow> ino \<Rightarrow> nat" where
  "ihash d i =
     (let key = (\<lambda>x. if x = 0 then ucast d else if x = 1 then ucast i else 0)
      in unat (murmur3 key 0 2 (ucast (d + ucast i))) mod HITAB_MAX)"

definition set_inode :: "addr \<Rightarrow> inode \<Rightarrow> icache \<Rightarrow> icache" where
  "set_inode a i s = s\<lparr>inodes := (inodes s)(a := i)\<rparr>"

definition inode_alloc :: "addr \<Rightarrow> addr \<Rightarrow> icache \<Rightarrow> addr \<times> icache" where
  "inode_alloc nw sb s = (nw, set_inode nw (zero_inode\<lparr>i_dev := s_dev (supers s sb)\<rparr>) s)"

definition iadd :: "addr \<Rightarrow> icache \<Rightarrow> icache" where
  "iadd a s =
     (let k = ihash (s_dev (supers s (i_sb (inodes s a)))) (i_ino (inodes s a))
      in s\<lparr>hitab := (hitab s)(k := a # hitab s k)\<rparr>)"

text \<open>\<^verbatim>\<open>in->sb->s_dev == sb->s_dev && in->ino == fsino\<close>\<close>

definition imatch :: "icache \<Rightarrow> addr \<Rightarrow> ino \<Rightarrow> addr \<Rightarrow> bool" where
  "imatch s sb fsino a \<longleftrightarrow>
     s_dev (supers s (i_sb (inodes s a))) = s_dev (supers s sb) \<and> i_ino (inodes s a) = fsino"

definition ref_inc :: "addr \<Rightarrow> icache \<Rightarrow> icache" where
  "ref_inc a s = set_inode a ((inodes s a)\<lparr>i_refs := i_refs (inodes s a) + 1\<rparr>) s"

definition iget :: "addr \<Rightarrow> addr \<Rightarrow> ino \<Rightarrow> icache \<Rightarrow> addr \<times> icache" where
  "iget nw sb fsino s =
     (if sb = NULL then (NULL, s)
      else let k = ihash (s_dev (supers s sb)) fsino in
      case find (imatch s sb fsino) (hitab s k) of
        Some a \<Rightarrow> (a, ref_inc a s)
      | None \<Rightarrow>
      (case find (\<lambda>a. i_sb (inodes s a) \<noteq> NULL \<and> imatch s sb fsino a) (ilru s) of
        Some a \<Rightarrow>
          let s1 = (if i_refs (inodes s a) = 0 then s\<lparr>ilru := remove1 a (ilru s)\<rparr> else s);
              s2 = ref_inc a s1
          in (a, s2\<lparr>hitab := (hitab s2)(k := a # hitab s2 k)\<rparr>)
      | None \<Rightarrow>
          let fix_up = (\<lambda>i. i\<lparr>i_ino := fsino, i_dev := s_dev (supers s sb), i_sb := sb, i_refs := 1\<rparr>);
              i1 = fix_up zero_inode;
              i2 = (case s_read_inode (supers s sb) of None \<Rightarrow> i1 | Some rd \<Rightarrow> rd i1);
              s1 = set_inode nw (fix_up i2) s
          in (nw, s1\<lparr>hitab := (hitab s1)(k := nw # hitab s1 k)\<rparr>)))"

definition free_inode :: "addr \<Rightarrow> icache \<Rightarrow> icache" where
  "free_inode a s =
     (let i = inodes s a;
          s1 = (if i_sb i \<noteq> NULL \<and> s_put_inode (supers s (i_sb i)) then s\<lparr>ilog := ilog s @ [PutInode a]\<rparr> else s)
      in s1\<lparr>ilru := remove1 a (ilru s1), ilog := ilog s1 @ [FreeInode a]\<rparr>)"

definition iput :: "addr \<Rightarrow> icache \<Rightarrow> icache" where
  "iput a s =
     (if i_refs (inodes s a) = 0 then s
      else let i = (inodes s a)\<lparr>i_refs := i_refs (inodes s a) - 1\<rparr>;
               s1 = set_inode a i s
           in if i_refs i > 0 then s1
              else let s2 = (if i_iflags i AND IN_DIRTY \<noteq> 0 \<and> s_write_inode (supers s1 (i_sb i))
                             then s1\<lparr>ilog := ilog s1 @ [WriteInode a]\<rparr> else s1);
                       s3 = s2\<lparr>ilru := a # ilru s2\<rparr>;
                       k = ihash (s_dev (supers s (i_sb i))) (i_ino i)
                   in s3\<lparr>hitab := (hitab s3)(k := remove1 a (hitab s3 k))\<rparr>)"

definition imount :: "addr \<Rightarrow> addr \<Rightarrow> icache \<Rightarrow> icache" where
  "imount a mnt s =
     (let s1 = set_inode a ((inodes s a)\<lparr>i_iflags := i_iflags (inodes s a) OR IN_MOUNT, i_mnt := mnt\<rparr>) s
      in s1\<lparr>mnt_pt := (mnt_pt s1)(mnt := a)\<rparr>)"

text \<open>\<^verbatim>\<open>while (m->next != m) free_inode(first)\<close>: each round removes the first entry.\<close>

fun purge_list :: "addr list \<Rightarrow> icache \<Rightarrow> icache" where
  "purge_list [] s = s"
| "purge_list (a # as) s = purge_list as (free_inode a s)"

definition purge_lru :: "icache \<Rightarrow> icache" where
  "purge_lru s = purge_list (ilru s) s"

section \<open>The invariant\<close>

definition in_tab :: "icache \<Rightarrow> addr \<Rightarrow> bool" where
  "in_tab s a \<longleftrightarrow> (\<exists>k. a \<in> set (hitab s k))"

definition cached :: "icache \<Rightarrow> addr set" where
  "cached s = {a. in_tab s a} \<union> set (ilru s)"

text \<open>The file-system identity of a cached inode.\<close>

definition iid :: "icache \<Rightarrow> addr \<Rightarrow> dev \<times> ino" where
  "iid s a = (s_dev (supers s (i_sb (inodes s a))), i_ino (inodes s a))"

definition icache_ok :: "icache \<Rightarrow> bool" where
  "icache_ok s \<longleftrightarrow>
     (\<forall>k. distinct (hitab s k)) \<and> distinct (ilru s) \<and>
     (\<forall>k. \<forall>a\<in>set (hitab s k). k = ihash (fst (iid s a)) (snd (iid s a)) \<and> i_refs (inodes s a) \<noteq> 0) \<and>
     (\<forall>a\<in>set (ilru s). i_refs (inodes s a) = 0) \<and>
     (\<forall>a\<in>cached s. i_sb (inodes s a) \<noteq> NULL \<and> a \<noteq> NULL) \<and> inj_on (iid s) (cached s)"

lemma imatch_iid: "imatch s sb i a \<longleftrightarrow> iid s a = (s_dev (supers s sb), i)"
  by (auto simp: imatch_def iid_def)

lemma icache_okD:
  assumes "icache_ok s"
  shows ic_dist: "distinct (hitab s k)" and ic_dlru: "distinct (ilru s)"
    and ic_tab: "a \<in> set (hitab s k) \<Longrightarrow> k = ihash (fst (iid s a)) (snd (iid s a)) \<and> i_refs (inodes s a) \<noteq> 0"
    and ic_lru: "a \<in> set (ilru s) \<Longrightarrow> i_refs (inodes s a) = 0"
    and ic_sb: "a \<in> cached s \<Longrightarrow> i_sb (inodes s a) \<noteq> NULL \<and> a \<noteq> NULL"
    and ic_inj: "inj_on (iid s) (cached s)"
  using assms unfolding icache_ok_def by blast+

lemma ic_tab_refs: "icache_ok s \<Longrightarrow> in_tab s a \<Longrightarrow> i_refs (inodes s a) \<noteq> 0"
  using ic_tab by (auto simp: in_tab_def)

lemma ic_disj: "icache_ok s \<Longrightarrow> a \<in> set (ilru s) \<Longrightarrow> \<not> in_tab s a"
  using ic_tab_refs ic_lru by blast

lemma ic_home: "icache_ok s \<Longrightarrow> in_tab s a \<longleftrightarrow> a \<in> set (hitab s (ihash (fst (iid s a)) (snd (iid s a))))"
  using ic_tab by (auto simp: in_tab_def)

lemma ref_inc_simps [simp]:
  "hitab (ref_inc a s) = hitab s" "ilru (ref_inc a s) = ilru s" "supers (ref_inc a s) = supers s"
  "iid (ref_inc a s) = iid s" "i_refs (inodes (ref_inc a s) a) = i_refs (inodes s a) + 1"
  "b \<noteq> a \<Longrightarrow> inodes (ref_inc a s) b = inodes s b" "i_sb (inodes (ref_inc a s) b) = i_sb (inodes s b)"
  "in_tab (ref_inc a s) = in_tab s" "cached (ref_inc a s) = cached s"
  by (auto simp: ref_inc_def set_inode_def iid_def fun_eq_iff in_tab_def cached_def)

text \<open>What one call of \<open>iget\<close> guarantees.\<close>

definition iget_post :: "icache \<Rightarrow> dev \<times> ino \<Rightarrow> addr \<Rightarrow> icache \<Rightarrow> bool" where
  "iget_post s d a s' \<longleftrightarrow> icache_ok s' \<and> in_tab s' a \<and> iid s' a = d \<and> cached s' = insert a (cached s) \<and>
     (\<forall>b. b \<noteq> a \<longrightarrow> inodes s' b = inodes s b) \<and> supers s' = supers s \<and>
     (a \<in> cached s \<longleftrightarrow> d \<in> iid s ` cached s) \<and>
     i_refs (inodes s' a) = (if a \<in> cached s then i_refs (inodes s a) + 1 else 1)"

lemma iget_hit:
  assumes ok: "icache_ok s" and a: "in_tab s a" and r: "i_refs (inodes s a) + 1 \<noteq> 0"
  shows "iget_post s (iid s a) a (ref_inc a s)"
proof -
  have nl: "a \<notin> set (ilru s)" using ic_disj [OF ok] a by blast
  have "icache_ok (ref_inc a s)"
    unfolding icache_ok_def ref_inc_simps
  proof (intro conjI allI ballI)
    fix j b assume "b \<in> set (hitab s j)"
    then show "j = ihash (fst (iid s b)) (snd (iid s b))" "i_refs (inodes (ref_inc a s) b) \<noteq> 0"
      using ic_tab [OF ok, of b j] r by (cases "b = a"; simp)+
  next
    fix b assume "b \<in> set (ilru s)"
    then show "i_refs (inodes (ref_inc a s) b) = 0" using ic_lru [OF ok, of b] nl by (cases "b = a") auto
  qed (use ok in \<open>auto simp: icache_ok_def\<close>)
  then show ?thesis using a by (auto simp: iget_post_def cached_def)
qed

lemma iget_lru:
  assumes ok: "icache_ok s" and a: "a \<in> set (ilru s)" and k: "k = ihash (fst (iid s a)) (snd (iid s a))"
  defines "s' \<equiv> (ref_inc a (s\<lparr>ilru := remove1 a (ilru s)\<rparr>))\<lparr>hitab := (hitab s)(k := a # hitab s k)\<rparr>"
  shows "iget_post s (iid s a) a s'"
proof -
  have na: "a \<notin> set (hitab s j)" for j using ic_disj [OF ok a] by (auto simp: in_tab_def)
  have ino: "inodes s' = (inodes s)(a := (inodes s a)\<lparr>i_refs := i_refs (inodes s a) + 1\<rparr>)"
    "supers s' = supers s" "ilru s' = remove1 a (ilru s)" "hitab s' = (hitab s)(k := a # hitab s k)"
    by (auto simp: s'_def ref_inc_def set_inode_def)
  have id: "iid s' = iid s" by (auto simp: iid_def ino fun_eq_iff)
  have sb: "i_sb (inodes s' b) = i_sb (inodes s b)" for b by (simp add: ino)
  have tab: "in_tab s' b \<longleftrightarrow> b = a \<or> in_tab s b" for b by (auto simp: in_tab_def ino)
  have ca: "cached s' = cached s" using a ic_dlru [OF ok] by (auto simp: cached_def tab ino)
  have refs: "i_refs (inodes s a) = 0" using ic_lru [OF ok a] .
  have "icache_ok s'"
    unfolding icache_ok_def id sb ca
  proof (intro conjI allI ballI)
    show "distinct (hitab s' j)" for j using ic_dist [OF ok] na by (simp add: ino)
    show "distinct (ilru s')" using ic_dlru [OF ok] by (simp add: ino)
    fix j b assume "b \<in> set (hitab s' j)"
    then show "j = ihash (fst (iid s b)) (snd (iid s b))" "i_refs (inodes s' b) \<noteq> 0"
      using ic_tab [OF ok, of b j] k refs by (auto simp: ino split: if_splits)
  next
    fix b assume "b \<in> set (ilru s')"
    then show "i_refs (inodes s' b) = 0" using ic_lru [OF ok, of b] ic_dlru [OF ok] by (auto simp: ino)
  qed (use ic_sb [OF ok] ic_inj [OF ok] in auto)
  moreover have "a \<in> cached s" using a by (simp add: cached_def)
  ultimately show ?thesis using ca refs by (auto simp: iget_post_def tab id ino)
qed

lemma iget_new:
  assumes ok: "icache_ok s" and nw: "nw \<notin> cached s" "nw \<noteq> NULL" and sb: "i_sb i \<noteq> NULL" "i_refs i = 1"
    and d: "d = (s_dev (supers s (i_sb i)), i_ino i)" "d \<notin> iid s ` cached s" and k: "k = ihash (fst d) (snd d)"
  defines "s' \<equiv> (set_inode nw i s)\<lparr>hitab := (hitab s)(k := nw # hitab s k)\<rparr>"
  shows "iget_post s d nw s'"
proof -
  have nt: "nw \<notin> set (hitab s j)" "nw \<notin> set (ilru s)" for j using nw by (auto simp: cached_def in_tab_def)
  have ino: "inodes s' = (inodes s)(nw := i)" "supers s' = supers s" "ilru s' = ilru s"
    "hitab s' = (hitab s)(k := nw # hitab s k)" by (auto simp: s'_def set_inode_def)
  have id: "iid s' b = (if b = nw then d else iid s b)" for b by (auto simp: iid_def ino d)
  have tab: "in_tab s' b \<longleftrightarrow> b = nw \<or> in_tab s b" for b by (auto simp: in_tab_def ino)
  have ca: "cached s' = insert nw (cached s)" by (auto simp: cached_def tab ino)
  have "icache_ok s'"
    unfolding icache_ok_def ca
  proof (intro conjI allI ballI)
    show "distinct (hitab s' j)" for j using ic_dist [OF ok] nt by (simp add: ino)
    show "distinct (ilru s')" using ic_dlru [OF ok] by (simp add: ino)
    fix j b assume "b \<in> set (hitab s' j)"
    then show "j = ihash (fst (iid s' b)) (snd (iid s' b))" "i_refs (inodes s' b) \<noteq> 0"
      using ic_tab [OF ok, of b j] k sb nt by (auto simp: ino id split: if_splits)
  next
    fix b assume "b \<in> set (ilru s')"
    then show "i_refs (inodes s' b) = 0" using ic_lru [OF ok, of b] nt by (auto simp: ino)
  next
    show "inj_on (iid s') (insert nw (cached s))"
      using ic_inj [OF ok] d(2) nw(1) by (auto simp: inj_on_def id)
  qed (use ic_sb [OF ok] nw sb in \<open>auto simp: ino\<close>)
  then show ?thesis using ca nw sb d(2) by (auto simp: iget_post_def tab id ino)
qed

lemma iget_ok:
  assumes ok: "icache_ok s" and sb: "sb \<noteq> NULL" and nw: "nw \<notin> cached s" "nw \<noteq> NULL"
    and r: "\<And>a. in_tab s a \<Longrightarrow> i_refs (inodes s a) + 1 \<noteq> 0"
  shows "\<exists>a s'. iget nw sb i s = (a, s') \<and> iget_post s (s_dev (supers s sb), i) a s'"
proof -
  let ?d = "(s_dev (supers s sb), i)" and ?k = "ihash (s_dev (supers s sb)) i"
  show ?thesis
  proof (cases "find (imatch s sb i) (hitab s ?k)")
    case (Some a)
    then have a: "in_tab s a" "iid s a = ?d" by (auto dest!: find_SomeD simp: imatch_iid in_tab_def)
    then have "iget_post s ?d a (ref_inc a s)" using iget_hit [OF ok a(1)] r by auto
    moreover have "iget nw sb i s = (a, ref_inc a s)" using Some sb by (simp add: iget_def)
    ultimately show ?thesis by blast
  next
    case None
    then have miss: "\<not> (\<exists>a. in_tab s a \<and> iid s a = ?d)"
      using ic_home [OF ok] by (fastforce simp: find_None_iff imatch_iid)
    let ?m = "\<lambda>a. i_sb (inodes s a) \<noteq> NULL \<and> imatch s sb i a"
    show ?thesis
    proof (cases "find ?m (ilru s)")
      case (Some a)
      then have a: "a \<in> set (ilru s)" "iid s a = ?d" by (auto dest!: find_SomeD simp: imatch_iid)
      let ?s = "(ref_inc a (s\<lparr>ilru := remove1 a (ilru s)\<rparr>))\<lparr>hitab := (hitab s)(?k := a # hitab s ?k)\<rparr>"
      have "iget nw sb i s = (a, ?s)"
        using None Some sb ic_lru [OF ok a(1)] by (simp add: iget_def Let_def)
      moreover have "iget_post s ?d a ?s" using iget_lru [OF ok a(1), of ?k] a(2) by simp
      ultimately show ?thesis by blast
    next
      case n2: None
      then have "\<not> (\<exists>a. a \<in> set (ilru s) \<and> iid s a = ?d)"
        using ic_sb [OF ok] by (auto simp: find_None_iff imatch_iid cached_def)
      then have d: "?d \<notin> iid s ` cached s" using miss by (auto simp: cached_def)
      let ?f = "\<lambda>j. j\<lparr>i_ino := i, i_dev := s_dev (supers s sb), i_sb := sb, i_refs := 1\<rparr>"
      let ?j = "?f (case s_read_inode (supers s sb) of None \<Rightarrow> ?f zero_inode | Some rd \<Rightarrow> rd (?f zero_inode))"
      let ?s = "(set_inode nw ?j s)\<lparr>hitab := (hitab s)(?k := nw # hitab s ?k)\<rparr>"
      have "iget nw sb i s = (nw, ?s)"
        using None n2 sb by (simp add: iget_def Let_def set_inode_def)
      moreover have "iget_post s ?d nw ?s" by (rule iget_new [OF ok nw]) (use sb d in auto)
      ultimately show ?thesis by blast
    qed
  qed
qed

lemma iput_ok:
  assumes ok: "icache_ok s" and a: "in_tab s a"
  shows "icache_ok (iput a s)" and "cached (iput a s) = cached s" and "iid (iput a s) = iid s"
    and "i_refs (inodes (iput a s) a) = i_refs (inodes s a) - 1" and "supers (iput a s) = supers s"
    and "\<And>b. b \<noteq> a \<Longrightarrow> inodes (iput a s) b = inodes s b"
    and "\<And>b. in_tab (iput a s) b \<longleftrightarrow> in_tab s b \<and> (b = a \<longrightarrow> i_refs (inodes s a) \<noteq> 1)"
proof -
  let ?s = "iput a s" and ?k = "ihash (fst (iid s a)) (snd (iid s a))"
  have nz: "i_refs (inodes s a) \<noteq> 0" by (rule ic_tab_refs [OF ok a])
  have one: "i_refs (inodes s a) - 1 > 0 \<longleftrightarrow> i_refs (inodes s a) \<noteq> 1"
    by (metis diff_eq_diff_eq diff_self eq_iff_diff_eq_0 word_gt_0)
  have ino: "inodes ?s = (inodes s)(a := (inodes s a)\<lparr>i_refs := i_refs (inodes s a) - 1\<rparr>)" "supers ?s = supers s"
    using nz by (auto simp: iput_def Let_def set_inode_def)
  have lru: "ilru ?s = (if i_refs (inodes s a) = 1 then a # ilru s else ilru s)"
    and tabs: "hitab ?s = (if i_refs (inodes s a) = 1 then (hitab s)(?k := remove1 a (hitab s ?k)) else hitab s)"
    using nz one by (auto simp: iput_def Let_def set_inode_def iid_def)
  show id: "iid ?s = iid s" by (auto simp: iid_def ino fun_eq_iff)
  have ak: "a \<in> set (hitab s j) \<longleftrightarrow> j = ?k" for j
    using ic_home [OF ok, of a] ic_tab [OF ok, of a j] a by auto
  have nl: "a \<notin> set (ilru s)" using ic_disj [OF ok] a by blast
  have stab: "set (hitab ?s j) = (if i_refs (inodes s a) = 1 then set (hitab s j) - {a} else set (hitab s j))" for j
    using ak [of j] ic_dist [OF ok, of ?k] by (auto simp: tabs)
  show tab: "in_tab ?s b \<longleftrightarrow> in_tab s b \<and> (b = a \<longrightarrow> i_refs (inodes s a) \<noteq> 1)" for b
    unfolding in_tab_def stab by auto
  show ca: "cached ?s = cached s" using a by (auto simp: cached_def tab lru split: if_splits)
  show "i_refs (inodes ?s a) = i_refs (inodes s a) - 1" "supers ?s = supers s" by (simp_all add: ino)
  show "inodes ?s b = inodes s b" if "b \<noteq> a" for b using that by (simp add: ino)
  show "icache_ok ?s"
    unfolding icache_ok_def id ca
  proof (intro conjI allI ballI)
    show "distinct (hitab ?s j)" for j using ic_dist [OF ok] by (simp add: tabs)
    show "distinct (ilru ?s)" using ic_dlru [OF ok] nl by (simp add: lru)
    fix j b assume b: "b \<in> set (hitab ?s j)"
    then have "b \<in> set (hitab s j)" "b = a \<longrightarrow> i_refs (inodes s a) \<noteq> 1"
      using ic_dist [OF ok, of ?k] ak by (auto simp: tabs split: if_splits)
    then show "j = ihash (fst (iid s b)) (snd (iid s b))" "i_refs (inodes ?s b) \<noteq> 0"
      using ic_tab [OF ok, of b j] one by (auto simp: ino)
  next
    fix b assume "b \<in> set (ilru ?s)"
    then show "i_refs (inodes ?s b) = 0" using ic_lru [OF ok, of b] nl by (auto simp: ino lru split: if_splits)
  qed (use ic_sb [OF ok] ic_inj [OF ok] in \<open>auto simp: ino\<close>)
qed

lemma purge_list_simps:
  "inodes (purge_list as s) = inodes s" "hitab (purge_list as s) = hitab s" "supers (purge_list as s) = supers s"
  by (induction as arbitrary: s) (auto simp: free_inode_def Let_def)

lemma purge_list_lru: "ilru s = as \<Longrightarrow> ilru (purge_list as s) = []"
  by (induction as arbitrary: s) (auto simp: free_inode_def Let_def)

lemma purge_list_log:
  "\<exists>ev. ilog (purge_list as s) = ilog s @ ev \<and> {a. FreeInode a \<in> set ev} = set as \<and> (\<forall>a. WriteInode a \<notin> set ev)"
proof (induction as arbitrary: s)
  case (Cons a as)
  obtain ev where ev: "ilog (purge_list as (free_inode a s)) = ilog (free_inode a s) @ ev"
    "{a. FreeInode a \<in> set ev} = set as" "\<forall>a. WriteInode a \<notin> set ev" using Cons by blast
  let ?e1 = "if i_sb (inodes s a) \<noteq> NULL \<and> s_put_inode (supers s (i_sb (inodes s a))) then [PutInode a] else []"
  have "ilog (free_inode a s) = ilog s @ ?e1 @ [FreeInode a]" "?e1 = [] \<or> ?e1 = [PutInode a]"
    by (simp_all add: free_inode_def Let_def)
  then obtain e1 where "ilog (free_inode a s) = ilog s @ e1 @ [FreeInode a]" "e1 = [] \<or> e1 = [PutInode a]"
    by blast
  then show ?case using ev by (intro exI [of _ "e1 @ [FreeInode a] @ ev"]) auto
qed simp

lemma purge_ok:
  assumes "icache_ok s"
  shows "icache_ok (purge_lru s)" and "cached (purge_lru s) = {a. in_tab s a}"
    and "in_tab (purge_lru s) = in_tab s"
proof -
  let ?s = "purge_lru s"
  have eq: "inodes ?s = inodes s" "hitab ?s = hitab s" "supers ?s = supers s" "ilru ?s = []"
    by (simp_all add: purge_lru_def purge_list_simps purge_list_lru)
  then show tab: "in_tab ?s = in_tab s" and ca: "cached ?s = {a. in_tab s a}"
    by (auto simp: in_tab_def cached_def fun_eq_iff)
  have "iid ?s = iid s" by (auto simp: iid_def eq fun_eq_iff)
  moreover have "{a. in_tab s a} \<subseteq> cached s" by (auto simp: cached_def)
  ultimately show "icache_ok ?s"
    using assms unfolding icache_ok_def ca eq by (auto intro: inj_on_subset)
qed

section \<open>Reference counting\<close>

text \<open>\<open>R\<close> is the multiset of references the rest of the kernel holds.\<close>

definition iref_inv :: "icache \<Rightarrow> addr multiset \<Rightarrow> bool" where
  "iref_inv s R \<longleftrightarrow> icache_ok s \<and> size R < 2 ^ 16 \<and> (\<forall>a\<in>#R. in_tab s a) \<and>
     (\<forall>a\<in>cached s. unat (i_refs (inodes s a)) = count R a)"

definition new_ok :: "icache \<Rightarrow> addr \<Rightarrow> addr \<Rightarrow> bool" where
  "new_ok s nw sb \<longleftrightarrow> sb \<noteq> NULL \<and> nw \<noteq> NULL \<and> nw \<notin> cached s"

lemma count_le_size: "count R a \<le> size R"
  by (metis count_le_replicate_mset_subset_eq size_mset_mono size_replicate_mset order_refl)

lemma unat_inc16: "unat x < 2 ^ 16 - 1 \<Longrightarrow> unat (x + 1 :: u16) = unat x + 1 \<and> x + 1 \<noteq> 0"
proof -
  assume u: "unat x < 2 ^ 16 - 1"
  then have "unat (x + 1) = unat x + 1" by (simp add: unat_word_ariths)
  then show ?thesis by (metis add_is_0 one_neq_zero unat_0)
qed

lemma iref_bound: "iref_inv s R \<Longrightarrow> size R < 2 ^ 16 - 1 \<Longrightarrow> a \<in> cached s \<Longrightarrow> unat (i_refs (inodes s a)) < 2 ^ 16 - 1"
  using count_le_size [of R a] by (auto simp: iref_inv_def)

lemma iref_get:
  assumes inv: "iref_inv s R" and nw: "new_ok s nw sb" and lim: "size R < 2 ^ 16 - 1"
  shows "\<exists>a s'. iget nw sb i s = (a, s') \<and> iref_inv s' (R + {#a#}) \<and>
    iget_post s (s_dev (supers s sb), i) a s'"
proof -
  have ok: "icache_ok s" using inv by (simp add: iref_inv_def)
  have r: "i_refs (inodes s a) + 1 \<noteq> 0" if "in_tab s a" for a
    using unat_inc16 iref_bound [OF inv lim] that by (auto simp: cached_def)
  from iget_ok [OF ok _ _ _ r] nw obtain a s' where a: "iget nw sb i s = (a, s')"
    "iget_post s (s_dev (supers s sb), i) a s'" unfolding new_ok_def by blast
  have tab: "in_tab s' b" if "in_tab s b" for b
  proof (rule ccontr)
    assume n: "\<not> in_tab s' b"
    have "b \<in> cached s'" using that a(2) by (auto simp: iget_post_def cached_def)
    then have "b \<in> set (ilru s')" "icache_ok s'" using n a(2) by (auto simp: cached_def iget_post_def)
    then have "i_refs (inodes s' b) = 0" using ic_lru by blast
    moreover have "b \<noteq> a" using n a(2) by (auto simp: iget_post_def)
    ultimately show False using a(2) ic_tab_refs [OF ok that] by (auto simp: iget_post_def)
  qed
  have cnt: "unat (i_refs (inodes s' b)) = count (R + {#a#}) b" if b: "b \<in> cached s'" for b
  proof (cases "b = a")
    case False
    then show ?thesis using b a(2) inv by (auto simp: iget_post_def iref_inv_def)
  next
    case True
    show ?thesis
    proof (cases "a \<in> cached s")
      case c: True
      then have "unat (i_refs (inodes s a)) = count R a" using inv by (simp add: iref_inv_def)
      then show ?thesis using True c a(2) unat_inc16 [OF iref_bound [OF inv lim c]]
        by (auto simp: iget_post_def)
    next
      case n: False
      then have "a \<notin># R" using inv by (auto simp: iref_inv_def cached_def)
      then have "count R a = 0" by (simp add: count_eq_zero_iff)
      then show ?thesis using True n a(2) by (auto simp: iget_post_def)
    qed
  qed
  have "\<forall>b\<in>#R + {#a#}. in_tab s' b" using inv a(2) tab by (auto simp: iget_post_def iref_inv_def)
  then have "iref_inv s' (R + {#a#})"
    using cnt a(2) lim by (auto simp: iref_inv_def iget_post_def)
  then show ?thesis using a by blast
qed

lemma iref_put:
  assumes inv: "iref_inv s R" and a: "a \<in># R"
  shows "iref_inv (iput a s) (R - {#a#})"
proof -
  have ok: "icache_ok s" and t: "in_tab s a" using inv a by (auto simp: iref_inv_def)
  note p = iput_ok [OF ok t]
  have ca: "a \<in> cached s" using t by (simp add: cached_def)
  have cnt: "unat (i_refs (inodes s a)) = count R a" using inv ca by (simp add: iref_inv_def)
  have nz: "i_refs (inodes s a) \<noteq> 0" using ic_tab_refs [OF ok t] .
  then have dec: "unat (i_refs (inodes s a) - 1) = count R a - 1" using cnt by (simp add: unat_minus_one)
  have "unat (i_refs (inodes (iput a s) b)) = count (R - {#a#}) b" if "b \<in> cached s" for b
    using that inv p(4,6) dec by (cases "b = a") (auto simp: iref_inv_def)
  moreover have "in_tab (iput a s) b" if b: "b \<in># R - {#a#}" for b
  proof -
    have "in_tab s b" using inv in_diffD [OF b] by (auto simp: iref_inv_def)
    moreover have "i_refs (inodes s a) \<noteq> 1" if "b = a"
      using b that cnt by (metis count_diff count_single diff_self_eq_0 not_in_iff unat_1)
    ultimately show ?thesis using p(7) by blast
  qed
  moreover have "size (R - {#a#}) < 2 ^ 16" using inv size_Diff_submset [of "{#a#}" R] a by (auto simp: iref_inv_def)
  ultimately show ?thesis using p(1,2) by (auto simp: iref_inv_def)
qed

lemma iref_purge: "iref_inv s R \<Longrightarrow> iref_inv (purge_lru s) R"
proof -
  assume inv: "iref_inv s R"
  then have ok: "icache_ok s" by (simp add: iref_inv_def)
  have "inodes (purge_lru s) = inodes s" by (simp add: purge_lru_def purge_list_simps)
  then show ?thesis using inv purge_ok [OF ok] by (auto simp: iref_inv_def cached_def)
qed

text \<open>What a holder of references may rely on, whatever the cache does inside.\<close>

locale ref_store =
  fixes rinv :: "'s \<Rightarrow> 'a multiset \<Rightarrow> bool"
    and getr :: "'k \<Rightarrow> 's \<Rightarrow> 'a \<times> 's"
    and putr :: "'a \<Rightarrow> 's \<Rightarrow> 's"
    and key_ok :: "'s \<Rightarrow> 'k \<Rightarrow> bool"
    and lim :: nat
  assumes getr_ok: "rinv s R \<Longrightarrow> key_ok s k \<Longrightarrow> size R < lim \<Longrightarrow> rinv (snd (getr k s)) (add_mset (fst (getr k s)) R)"
    and putr_ok: "rinv s R \<Longrightarrow> a \<in># R \<Longrightarrow> rinv (putr a s) (R - {#a#})"
begin

text \<open>Hand over hand: take the next reference, then drop the one held.\<close>

lemma exchange:
  assumes "rinv s (add_mset a R)" "key_ok s k" "size R + 1 < lim"
  shows "rinv (putr a (snd (getr k s))) (add_mset (fst (getr k s)) R)"
proof -
  have "rinv (snd (getr k s)) (add_mset (fst (getr k s)) (add_mset a R))"
    by (rule getr_ok [OF assms(1,2)]) (use assms(3) in simp)
  from putr_ok [OF this, of a] show ?thesis by (simp add: add_mset_commute)
qed

lemma get_put:
  assumes "rinv s R" "key_ok s k" "size R < lim"
  shows "rinv (putr (fst (getr k s)) (snd (getr k s))) R"
  using putr_ok [OF getr_ok [OF assms], of "fst (getr k s)"] by simp

end

definition iget_key :: "addr \<times> addr \<times> ino \<Rightarrow> icache \<Rightarrow> addr \<times> icache" where
  "iget_key k s = iget (fst k) (fst (snd k)) (snd (snd k)) s"

definition key_new :: "icache \<Rightarrow> addr \<times> addr \<times> ino \<Rightarrow> bool" where
  "key_new s k \<longleftrightarrow> new_ok s (fst k) (fst (snd k))"

interpretation ic: ref_store iref_inv iget_key iput key_new "2 ^ 16 - 1"
proof unfold_locales
  fix s R k assume "iref_inv s R" "key_new s k" "size R < 2 ^ 16 - 1"
  then show "iref_inv (snd (iget_key k s)) (add_mset (fst (iget_key k s)) R)"
    using iref_get [of s R "fst k" "fst (snd k)" "snd (snd k)"] by (auto simp: iget_key_def key_new_def)
qed (rule iref_put)

section \<open>Properties\<close>

text \<open>The uses of the cache by the rest of the kernel, with the references outstanding.\<close>

inductive ic_step :: "icache \<times> addr multiset \<Rightarrow> icache \<times> addr multiset \<Rightarrow> bool" where
  get: "new_ok s nw sb \<Longrightarrow> size R < 2 ^ 16 - 1 \<Longrightarrow> iget nw sb i s = (a, s') \<Longrightarrow>
          ic_step (s, R) (s', add_mset a R)"
| put: "a \<in># R \<Longrightarrow> ic_step (s, R) (iput a s, R - {#a#})"
| purge: "ic_step (s, R) (purge_lru s, R)"

inductive_cases ic_stepE: "ic_step (s, R) (s', R')"

lemma ic_step_inv: "ic_step sR sR' \<Longrightarrow> iref_inv (fst sR) (snd sR) \<Longrightarrow> iref_inv (fst sR') (snd sR')"
proof (induction rule: ic_step.induct)
  case (get s nw sb R i a s')
  then show ?case using iref_get [of s R nw sb i] by auto
qed (auto intro: iref_put iref_purge)

lemma ic_steps_inv: "ic_step\<^sup>*\<^sup>* sR sR' \<Longrightarrow> iref_inv (fst sR) (snd sR) \<Longrightarrow> iref_inv (fst sR') (snd sR')"
  by (induction rule: rtranclp_induct) (auto intro: ic_step_inv)

definition empty_cache :: "(addr \<Rightarrow> super_block) \<Rightarrow> icache" where
  "empty_cache sbs = \<lparr>inodes = \<lambda>_. zero_inode, supers = sbs, mnt_pt = \<lambda>_. NULL, mnt_sb = \<lambda>_. NULL,
     hitab = \<lambda>_. [], ilru = [], ilog = []\<rparr>"

lemma empty_cache_inv: "iref_inv (empty_cache sbs) {#}"
  by (simp add: iref_inv_def icache_ok_def empty_cache_def cached_def in_tab_def)

text \<open>\<^verbatim>\<open>iget\<close> returns the one cached inode with that device and number, or a new one:
  the inode is in the hash table, its reference count went up by one, no other inode changed,
  and the cache never holds two inodes with the same identity.\<close>

theorem iget_correct:
  assumes "iref_inv s R" "new_ok s nw sb" "size R < 2 ^ 16 - 1"
  shows "\<exists>a s'. iget nw sb i s = (a, s') \<and> in_tab s' a \<and> iid s' a = (s_dev (supers s sb), i) \<and>
    i_refs (inodes s' a) = (if a \<in> cached s then i_refs (inodes s a) + 1 else 1) \<and>
    (a \<in> cached s \<longleftrightarrow> (s_dev (supers s sb), i) \<in> iid s ` cached s) \<and>
    (\<forall>b. b \<noteq> a \<longrightarrow> inodes s' b = inodes s b) \<and> inj_on (iid s') (cached s') \<and> iref_inv s' (add_mset a R)"
proof -
  from iref_get [OF assms] obtain a s' where a: "iget nw sb i s = (a, s')" "iref_inv s' (R + {#a#})"
    "iget_post s (s_dev (supers s sb), i) a s'" by blast
  moreover have "inj_on (iid s') (cached s')" using a(2) ic_inj by (auto simp: iref_inv_def)
  ultimately show ?thesis unfolding iget_post_def by auto
qed

definition sample_sbs :: "addr \<Rightarrow> super_block" where
  "sample_sbs = (\<lambda>_. \<lparr>s_blocksize = 1024, s_dev = 7, s_root = 0, s_read_inode = None, s_write_inode = False,
     s_put_inode = False\<rparr>)"

theorem iget_correct_witness:
  "\<exists>a s'. iget 64 8 2 (empty_cache sample_sbs) = (a, s') \<and> iid s' a = (7, 2) \<and> iref_inv s' {#a#}"
proof -
  have "new_ok (empty_cache sample_sbs) 64 8" by (simp add: new_ok_def cached_def in_tab_def empty_cache_def)
  from iget_correct [OF empty_cache_inv this] show ?thesis by (force simp: empty_cache_def sample_sbs_def)
qed

text \<open>C5. Reference counting: after any sequence of \<^verbatim>\<open>iget\<close>, \<^verbatim>\<open>iput\<close> of a held
  reference and \<^verbatim>\<open>purge_lru\<close> from an empty cache (fewer than 65535 references held), the
  count of every cached inode is the number of references held to it; every held inode is
  in the hash table, so it is never freed, and \<^verbatim>\<open>purge_lru\<close> frees exactly the inodes nobody
  holds.\<close>

theorem inode_refcounts:
  assumes "ic_step\<^sup>*\<^sup>* (empty_cache sbs, {#}) (s, R)"
  shows "(\<forall>a\<in>cached s. unat (i_refs (inodes s a)) = count R a) \<and> (\<forall>a\<in>#R. in_tab s a) \<and>
    (\<exists>ev. ilog (purge_lru s) = ilog s @ ev \<and>
       {a. FreeInode a \<in> set ev} = {a \<in> cached s. a \<notin># R}) \<and> cached (purge_lru s) = set_mset R"
proof -
  have inv: "iref_inv s R" using ic_steps_inv [OF assms] empty_cache_inv by simp
  then have ok: "icache_ok s" and held: "\<forall>a\<in>#R. in_tab s a"
    and cnt: "\<forall>a\<in>cached s. unat (i_refs (inodes s a)) = count R a" by (auto simp: iref_inv_def)
  have tab: "in_tab s a \<longleftrightarrow> a \<in># R" for a
    using held cnt ic_tab_refs [OF ok, of a] by (metis (mono_tags, lifting) cached_def UnCI mem_Collect_eq not_in_iff unat_eq_zero)
  have lru: "set (ilru s) = {a \<in> cached s. a \<notin># R}" using tab ic_disj [OF ok] by (auto simp: cached_def)
  show ?thesis using cnt held purge_ok(2) [OF ok] tab purge_list_log [of "ilru s" s]
    unfolding purge_lru_def lru by auto
qed

theorem inode_refcounts_witness:
  "\<exists>s a. (\<forall>b\<in>cached s. unat (i_refs (inodes s b)) = count {#a#} b) \<and> cached (purge_lru s) = {a}"
proof -
  let ?s = "empty_cache sample_sbs"
  obtain a s' where g: "iget 64 8 2 ?s = (a, s')" by fastforce
  have "new_ok ?s 64 8" by (simp add: new_ok_def cached_def in_tab_def empty_cache_def)
  then have "ic_step (?s, {#}) (s', {#a#})" using ic_step.get [OF _ _ g, of "{#}"] by simp
  then have "ic_step\<^sup>*\<^sup>* (?s, {#}) (s', {#a#})" by (rule r_into_rtranclp)
  from inode_refcounts [OF this] show ?thesis by (intro exI [of _ s'] exI [of _ a]) simp
qed

end
