(* ===== verification/Fs_Vfs.thy ===== *)
theory Fs_Vfs
  imports Fs_Path Fs_Inode Crypt_Cred
begin

text \<open>
  The virtual file system layer of \<^verbatim>\<open>src/kern/fs/vfs.c\<close>: path lookup over the inode cache,
  the per-process table of open files and the \<^verbatim>\<open>fsys_*\<close> system calls.  The operations of a
  concrete file system (\<^verbatim>\<open>struct inode_ops\<close>, \<^verbatim>\<open>struct file_ops\<close>) are the record \<open>fsops\<close>,
  indexed by the address of the table; a missing function pointer is \<^const>\<open>None\<close>.  The
  addresses \<^verbatim>\<open>malloc\<close> returns are given by \<open>al_inode\<close> and \<open>al_file\<close>.  A system call returns
  its result and the new state, or \<^const>\<open>None\<close> when it would index the table out of bounds
  or dereference a null pointer.
\<close>

section \<open>Data\<close>

record kfile =
  f_inode :: addr
  f_mode :: u32
  f_position :: nat
  f_refcont :: u32
  f_flags :: u32
  f_fops :: addr

record fsops =
  op_lookup :: "addr \<Rightarrow> (inode \<Rightarrow> u8 list \<Rightarrow> u32) option"
  op_creat :: "addr \<Rightarrow> (inode \<Rightarrow> u8 list \<Rightarrow> u32 \<Rightarrow> int) option"
  op_unlink :: "addr \<Rightarrow> (inode \<Rightarrow> u8 list \<Rightarrow> int) option"
  op_open :: "addr \<Rightarrow> (inode \<Rightarrow> kfile \<Rightarrow> int \<times> kfile) option"
  op_close :: "addr \<Rightarrow> (kfile \<Rightarrow> int) option"
  op_read :: "addr \<Rightarrow> (kfile \<Rightarrow> nat \<Rightarrow> int \<times> u8 list \<times> kfile) option"
  op_write :: "addr \<Rightarrow> (kfile \<Rightarrow> u8 list \<Rightarrow> int \<times> kfile) option"
  op_readdir :: "addr \<Rightarrow> (kfile \<Rightarrow> nat \<Rightarrow> int \<times> u8 list \<times> kfile) option"
  op_ioctl :: "addr \<Rightarrow> (kfile \<Rightarrow> u32 \<Rightarrow> addr \<Rightarrow> int) option"

record vfs =
  ic :: icache
  files :: "addr \<Rightarrow> kfile"
  ofile :: "addr list"       \<comment> \<open>\<^verbatim>\<open>u_ofile[NOFILE]\<close>\<close>
  cwd :: "u8 list"           \<comment> \<open>\<^verbatim>\<open>u_cdirname\<close>\<close>
  ucred :: cred
  root_mnt :: addr           \<comment> \<open>\<^verbatim>\<open>rootnode.mnt\<close>\<close>

definition NOFILE :: int where "NOFILE = 5"
definition F_USED :: u32 where "F_USED = 0x1000"
definition O_ACCMODE :: u32 where "O_ACCMODE = 3"
definition O_RDONLY :: u32 where "O_RDONLY = 0"
definition O_WRONLY :: u32 where "O_WRONLY = 1"
definition S_IFMT :: u32 where "S_IFMT = 0xF000"
definition S_IFDIR :: u32 where "S_IFDIR = 0x4000"
definition S_IFCHR :: u32 where "S_IFCHR = 0x2000"
definition S_IFBLK :: u32 where "S_IFBLK = 0x6000"
definition S_IXUSR :: u32 where "S_IXUSR = 0x40"
definition S_IXGRP :: u32 where "S_IXGRP = 0x8"
definition S_IXOTH :: u32 where "S_IXOTH = 0x1"
definition S_IROTH :: u32 where "S_IROTH = 0x4"
definition S_IWOTH :: u32 where "S_IWOTH = 0x2"

definition S_ISDIR :: "u32 \<Rightarrow> bool" where "S_ISDIR m \<longleftrightarrow> m AND S_IFMT = S_IFDIR"
definition S_ISCHR :: "u32 \<Rightarrow> bool" where "S_ISCHR m \<longleftrightarrow> m AND S_IFMT = S_IFCHR"
definition S_ISBLK :: "u32 \<Rightarrow> bool" where "S_ISBLK m \<longleftrightarrow> m AND S_IFMT = S_IFBLK"
definition O_ISR :: "u32 \<Rightarrow> bool" where "O_ISR fl \<longleftrightarrow> fl AND O_ACCMODE = O_RDONLY"
definition O_ISW :: "u32 \<Rightarrow> bool" where "O_ISW fl \<longleftrightarrow> fl AND O_ACCMODE = O_WRONLY"

section \<open>Guarded calls into a file system\<close>

definition read_fs :: "fsops \<Rightarrow> kfile \<Rightarrow> nat \<Rightarrow> int \<times> u8 list \<times> kfile" where
  "read_fs ops f n = (case (if f_fops f \<noteq> NULL then op_read ops (f_fops f) else None) of
     Some rd \<Rightarrow> rd f n | None \<Rightarrow> (- ENOSYS, [], f))"

definition write_fs :: "fsops \<Rightarrow> kfile \<Rightarrow> u8 list \<Rightarrow> int \<times> kfile" where
  "write_fs ops f bs = (case (if f_fops f \<noteq> NULL then op_write ops (f_fops f) else None) of
     Some wr \<Rightarrow> wr f bs | None \<Rightarrow> (- ENOSYS, f))"

definition open_fs :: "fsops \<Rightarrow> inode \<Rightarrow> kfile \<Rightarrow> int \<times> kfile" where
  "open_fs ops i f = (case (if f_fops f \<noteq> NULL then op_open ops (f_fops f) else None) of
     Some op \<Rightarrow> op i f | None \<Rightarrow> (- ENOSYS, f))"

definition close_fs :: "fsops \<Rightarrow> kfile \<Rightarrow> int" where
  "close_fs ops f = (case (if f_fops f \<noteq> NULL then op_close ops (f_fops f) else None) of
     Some cl \<Rightarrow> cl f | None \<Rightarrow> - ENOSYS)"

text \<open>\<^verbatim>\<open>create_fs\<close> and \<^verbatim>\<open>unlink_fs\<close> dereference \<^verbatim>\<open>in->ops\<close> unchecked; \<^verbatim>\<open>unlink_fs\<close> tests
  the \<^verbatim>\<open>creat\<close> pointer and calls \<^verbatim>\<open>unlink\<close>.\<close>

definition create_fs :: "fsops \<Rightarrow> inode \<Rightarrow> u8 list \<Rightarrow> u32 \<Rightarrow> int option" where
  "create_fs ops i name mode = (if i_ops i = NULL then None
     else case op_creat ops (i_ops i) of Some cr \<Rightarrow> Some (cr i name mode) | None \<Rightarrow> Some (- ENOSYS))"

definition unlink_fs :: "fsops \<Rightarrow> inode \<Rightarrow> u8 list \<Rightarrow> int option" where
  "unlink_fs ops i name = (if i_ops i = NULL then None
     else case op_creat ops (i_ops i) of
            Some _ \<Rightarrow> map_option (\<lambda>ul. ul i name) (op_unlink ops (i_ops i))
          | None \<Rightarrow> Some (- ENOSYS))"

definition lookup_fs :: "fsops \<Rightarrow> inode \<Rightarrow> u8 list \<Rightarrow> u32" where
  "lookup_fs ops i name =
     (if S_ISDIR (i_mode i) \<and> i_ops i \<noteq> NULL then
        (case op_lookup ops (i_ops i) of Some lk \<Rightarrow> lk i name | None \<Rightarrow> - 1)
      else - 1)"

section \<open>Path lookup\<close>

text \<open>One component: the next inode, its mount point crossed, the old reference dropped.
  \<open>al\<close> gives the address of a new inode.\<close>

definition walk_step :: "(icache \<Rightarrow> addr) \<Rightarrow> addr \<Rightarrow> u32 \<Rightarrow> icache \<Rightarrow> addr \<times> icache" where
  "walk_step al a i s =
     (let (b, s1) = iget (al s) (i_sb (inodes s a)) i s;
          s2 = iput a s1;
          ib = inodes s2 b
      in if i_iflags ib AND IN_MOUNT \<noteq> 0 \<and> i_mnt ib \<noteq> NULL \<and> mnt_sb s2 (i_mnt ib) \<noteq> NULL then
           let msb = mnt_sb s2 (i_mnt ib);
               (c, s3) = iget (al s2) msb (i_ino (inodes s2 (s_root (supers s2 msb)))) s2
           in (c, iput b s3)
         else (b, s2))"

fun walk :: "fsops \<Rightarrow> (icache \<Rightarrow> addr) \<Rightarrow> nat \<Rightarrow> nat \<Rightarrow> addr \<Rightarrow> u8 list list \<Rightarrow> icache \<Rightarrow> addr \<times> icache" where
  "walk ops al mdepth depth a [] s = (a, s)"
| "walk ops al mdepth depth a (tok # toks) s =
     (let i = lookup_fs ops (inodes s a) tok in
      if i = - 1 then (NULL, s)
      else let (b, s') = walk_step al a i s in
           if b = NULL then (NULL, s')
           else if depth + 1 = mdepth then (b, s')
           else walk ops al mdepth (depth + 1) b toks s')"

text \<open>\<^verbatim>\<open>lookup_vfs_i\<close>: \<^const>\<open>None\<close> when nothing is mounted on the root (the code halts).\<close>

definition lookup_vfs_i :: "fsops \<Rightarrow> (icache \<Rightarrow> addr) \<Rightarrow> addr \<Rightarrow> u8 list \<Rightarrow> icache \<Rightarrow> (addr \<times> icache) option" where
  "lookup_vfs_i ops al mnt pth s =
     (if mnt = NULL then None
      else let mdepth = length (filter (\<lambda>c. c = SLASH) pth);
               mroot = s_root (supers s (mnt_sb s mnt));
               (a, s1) = iget (al s) (i_sb (inodes s mroot)) (i_ino (inodes s mroot)) s
           in Some (walk ops al mdepth 0 a (tokens {SLASH} pth) s1))"

text \<open>\<^verbatim>\<open>lookup_vfs_r\<close> and \<^verbatim>\<open>lookup_vfs\<close>: the result, the canonical path and the cache.\<close>

definition lookup_vfs_r :: "fsops \<Rightarrow> (icache \<Rightarrow> addr) \<Rightarrow> vfs \<Rightarrow> u8 list \<Rightarrow> (addr \<times> u8 list \<times> vfs) option" where
  "lookup_vfs_r ops al v path =
     (case path_canon (Some (cwd v)) (Some path) of
        Some (Some pth) \<Rightarrow>
          map_option (\<lambda>(a, s). (a, pth, v\<lparr>ic := s\<rparr>)) (lookup_vfs_i ops al (root_mnt v) pth (ic v))
      | _ \<Rightarrow> None)"

definition lookup_vfs :: "fsops \<Rightarrow> (icache \<Rightarrow> addr) \<Rightarrow> vfs \<Rightarrow> u8 list \<Rightarrow> (addr \<times> vfs) option" where
  "lookup_vfs ops al v path = map_option (\<lambda>(a, pth, v'). (a, v')) (lookup_vfs_r ops al v path)"

section \<open>The table of open files\<close>

definition fd_used :: "vfs \<Rightarrow> addr \<Rightarrow> bool" where
  "fd_used v f \<longleftrightarrow> f \<noteq> NULL \<and> f_flags (files v f) AND F_USED \<noteq> 0"

fun free_slot :: "vfs \<Rightarrow> addr list \<Rightarrow> nat \<Rightarrow> int" where
  "free_slot v [] fd = - 1"
| "free_slot v (f # fs) fd = (if fd_used v f then free_slot v fs (Suc fd) else int fd)"

definition findfreefd :: "vfs \<Rightarrow> int" where
  "findfreefd v = free_slot v (take (nat NOFILE) (ofile v)) 0"

text \<open>\<^verbatim>\<open>u_ofile[fd]\<close>: \<^const>\<open>None\<close> outside the array.\<close>

definition fd_get :: "vfs \<Rightarrow> int \<Rightarrow> addr option" where
  "fd_get v fd = (if 0 \<le> fd \<and> fd < int (length (ofile v)) then Some (ofile v ! nat fd) else None)"

definition fd_set :: "int \<Rightarrow> addr \<Rightarrow> vfs \<Rightarrow> vfs option" where
  "fd_set fd f v = (if 0 \<le> fd \<and> fd < int (length (ofile v)) then Some (v\<lparr>ofile := (ofile v)[nat fd := f]\<rparr>) else None)"

definition check_fd :: "vfs \<Rightarrow> int \<Rightarrow> (int \<times> addr) option" where
  "check_fd v fd =
     (if fd > NOFILE then Some (- EBADF, NULL)
      else map_option (\<lambda>f.
        if f = NULL then (- EBADF, f)
        else if f_flags (files v f) AND F_USED = 0 then (- EBADF, f)
        else if f_inode (files v f) = NULL then (- EBADF, f)
        else (0, f)) (fd_get v fd))"

definition check_perm :: "vfs \<Rightarrow> kfile \<Rightarrow> u32 \<Rightarrow> bool" where
  "check_perm v f msk =
     (let cr = ucred v; i = inodes (ic v) (f_inode f) in
      if cr_euid cr = 0 then True
      else if cr_euid cr = i_uid i then i_mode i AND (msk * S_IXUSR) \<noteq> 0
      else if cr_egid cr = i_gid i then i_mode i AND (msk * S_IXGRP) \<noteq> 0
      else i_mode i AND (msk * S_IXOTH) \<noteq> 0)"

definition fsys_read :: "fsops \<Rightarrow> int \<Rightarrow> nat \<Rightarrow> vfs \<Rightarrow> (int \<times> u8 list \<times> vfs) option" where
  "fsys_read ops fd cnt v =
     (if fd \<ge> NOFILE then Some (- EBADF, [], v)
      else if cnt = 0 then Some (0, [], v)
      else Option.bind (fd_get v fd) (\<lambda>f.
        if f = NULL then Some (- EBADF, [], v)
        else if f_flags (files v f) AND F_USED = 0 then Some (- EBADF, [], v)
        else if f_inode (files v f) = NULL then Some (- EBADF, [], v)
        else if S_ISDIR (i_mode (inodes (ic v) (f_inode (files v f)))) then Some (- EISDIR, [], v)
        else if O_ISW (f_flags (files v f)) then Some (- EPERM, [], v)
        else if \<not> check_perm v (files v f) S_IROTH then Some (- EPERM, [], v)
        else let (r, bs, f') = read_fs ops (files v f) cnt
             in Some (r, bs, v\<lparr>files := (files v)(f := f')\<rparr>)))"

definition fsys_write :: "fsops \<Rightarrow> int \<Rightarrow> u8 list \<Rightarrow> vfs \<Rightarrow> (int \<times> vfs) option" where
  "fsys_write ops fd buf v =
     (if fd \<ge> NOFILE then Some (- EBADF, v)
      else if length buf = 0 then Some (0, v)
      else Option.bind (fd_get v fd) (\<lambda>f.
        if f = NULL then Some (- EBADF, v)
        else if f_flags (files v f) AND F_USED = 0 then Some (- EBADF, v)
        else if f_inode (files v f) = NULL then Some (- EBADF, v)
        else if S_ISDIR (i_mode (inodes (ic v) (f_inode (files v f)))) then Some (- EISDIR, v)
        else if O_ISR (f_flags (files v f)) then Some (- EPERM, v)
        else if \<not> check_perm v (files v f) S_IWOTH then Some (- EPERM, v)
        else let (r, f') = write_fs ops (files v f) buf
             in Some (r, v\<lparr>files := (files v)(f := f')\<rparr>)))"

definition fsys_open :: "fsops \<Rightarrow> (icache \<Rightarrow> addr) \<Rightarrow> (vfs \<Rightarrow> addr) \<Rightarrow> u8 list \<Rightarrow> u32 \<Rightarrow> vfs \<Rightarrow> (int \<times> vfs) option" where
  "fsys_open ops al alf pathname flags v =
     (if flags AND O_ACCMODE = 3 then Some (- EINVAL, v)
      else Option.bind (lookup_vfs ops al v pathname) (\<lambda>(a, v1).
        if a = NULL then Some (- ENOENT, v1)
        else let fd = findfreefd v1 in
        if fd = - 1 then Some (- ENFILE, v1\<lparr>ic := iput a (ic v1)\<rparr>)
        else let f = alf v1; i = inodes (ic v1) a;
                 file = \<lparr>f_inode = a, f_mode = i_mode i, f_position = 0, f_refcont = 1,
                         f_flags = flags OR F_USED, f_fops = i_fops i\<rparr>;
                 (r, file') = (if i_fops i \<noteq> NULL \<and> op_open ops (i_fops i) \<noteq> None
                               then the (op_open ops (i_fops i)) i file else (0, file))
             in if r < 0 then Some (r, v1\<lparr>ic := iput a (ic v1)\<rparr>)
                else map_option (\<lambda>v2. (fd, v2)) (fd_set fd f (v1\<lparr>files := (files v1)(f := file')\<rparr>))))"

definition fsys_close :: "fsops \<Rightarrow> int \<Rightarrow> vfs \<Rightarrow> (int \<times> vfs) option" where
  "fsys_close ops fd v =
     (if fd \<ge> NOFILE then Some (- EBADF, v)
      else Option.bind (fd_get v fd) (\<lambda>f.
        if f = NULL then Some (- EBADF, v)
        else if f_flags (files v f) OR F_USED = 0 then Some (- EBADF, v)
        else Option.bind (fd_set fd NULL v) (\<lambda>v1.
          let n = f_refcont (files v1 f) - 1;
              v2 = v1\<lparr>files := (files v1)(f := (files v1 f)\<lparr>f_refcont := n\<rparr>)\<rparr>
          in if n = 0 then Some (0, v2\<lparr>ic := iput (f_inode (files v2 f)) (ic v2)\<rparr>)
             else Some (0, v2))))"

definition fsys_mkdir :: "u8 list \<Rightarrow> u32 \<Rightarrow> vfs \<Rightarrow> int \<times> vfs" where
  "fsys_mkdir path mode v = (- ENOSYS, v)"

text \<open>\<^verbatim>\<open>look_bs\<close> followed by the operation on the parent directory.\<close>

definition look_bs :: "fsops \<Rightarrow> (icache \<Rightarrow> addr) \<Rightarrow> vfs \<Rightarrow> u8 list \<Rightarrow> (addr \<times> u8 list \<times> vfs) option" where
  "look_bs ops al v path =
     Option.bind (look_bs_split (cwd v) path) (\<lambda>(dir, name).
     Option.bind name (\<lambda>name.
       map_option (\<lambda>(a, s). (a, name, v\<lparr>ic := s\<rparr>)) (lookup_vfs_i ops al (root_mnt v) dir (ic v))))"

definition fsys_unlink :: "fsops \<Rightarrow> (icache \<Rightarrow> addr) \<Rightarrow> u8 list \<Rightarrow> vfs \<Rightarrow> (int \<times> vfs) option" where
  "fsys_unlink ops al path v =
     Option.bind (look_bs ops al v path) (\<lambda>(a, nam, v1).
       if a = NULL then Some (- EFAULT, v1)
       else map_option (\<lambda>r. (r, v1\<lparr>ic := iput a (ic v1)\<rparr>)) (unlink_fs ops (inodes (ic v1) a) nam))"

definition fsys_creat :: "fsops \<Rightarrow> (icache \<Rightarrow> addr) \<Rightarrow> u8 list \<Rightarrow> u32 \<Rightarrow> vfs \<Rightarrow> (int \<times> vfs) option" where
  "fsys_creat ops al path mode v =
     Option.bind (look_bs ops al v path) (\<lambda>(a, nam, v1).
       if a = NULL then Some (- EFAULT, v1)
       else map_option (\<lambda>r. (r, v1\<lparr>ic := iput a (ic v1)\<rparr>)) (create_fs ops (inodes (ic v1) a) nam mode))"

definition fsys_chdir :: "fsops \<Rightarrow> (icache \<Rightarrow> addr) \<Rightarrow> u8 list option \<Rightarrow> vfs \<Rightarrow> (int \<times> vfs) option" where
  "fsys_chdir ops al path v =
     (case path of
        None \<Rightarrow> Some (- EFAULT, v)
      | Some path \<Rightarrow>
          Option.bind (lookup_vfs_r ops al v path) (\<lambda>(a, pth, v1).
            if a = NULL then Some (- ENOENT, v1)
            else if \<not> S_ISDIR (i_mode (inodes (ic v1) a)) then Some (- ENOTDIR, v1)
            else Some (0, v1\<lparr>cwd := pth, ic := iput a (ic v1)\<rparr>)))"

definition fsys_dup2 :: "fsops \<Rightarrow> int \<Rightarrow> int \<Rightarrow> vfs \<Rightarrow> (int \<times> vfs) option" where
  "fsys_dup2 ops oldfd newfd v =
     Option.bind (check_fd v oldfd) (\<lambda>(r, f).
       if r < 0 then Some (r, v)
       else Option.bind (check_fd v newfd) (\<lambda>(r', n).
         Option.bind (if r' \<ge> 0 then map_option snd (fsys_close ops newfd v) else Some v) (\<lambda>v1.
           let v2 = v1\<lparr>files := (files v1)(f := (files v1 f)\<lparr>f_refcont := f_refcont (files v1 f) + 1\<rparr>)\<rparr>
           in map_option (\<lambda>v3. (newfd, v3)) (fd_set newfd f v2))))"

definition fsys_dup :: "fsops \<Rightarrow> int \<Rightarrow> vfs \<Rightarrow> (int \<times> vfs) option" where
  "fsys_dup ops oldfd v =
     (let newfd = findfreefd v in
      if newfd = - 1 then Some (- ENFILE, v)
      else map_option (\<lambda>(r, v'). (newfd, v')) (fsys_dup2 ops oldfd newfd v))"

record stat =
  st_ino :: u32
  st_mode :: u32
  st_size :: nat
  st_uid :: u32
  st_gid :: u32
  st_dev :: dev
  st_rdev :: dev
  st_blksize :: nat
  st_blocks :: int

definition fsys_fstat :: "int \<Rightarrow> vfs \<Rightarrow> (int \<times> stat option) option" where
  "fsys_fstat fd v =
     (if fd \<ge> NOFILE then Some (- EBADF, None)
      else Option.bind (fd_get v fd) (\<lambda>f.
        if f = NULL then Some (- EBADF, None)
        else if f_flags (files v f) AND F_USED = 0 then Some (- EBADF, None)
        else if f_inode (files v f) = NULL then Some (- EBADF, None)
        else let i = inodes (ic v) (f_inode (files v f)); sb = supers (ic v) (i_sb i)
             in if i_sb i = NULL then None
                else Some (0, Some \<lparr>st_ino = i_ino i, st_mode = i_mode i, st_size = i_size i, st_uid = i_uid i,
                  st_gid = i_gid i, st_dev = s_dev sb, st_rdev = i_rdev i, st_blksize = s_blocksize sb,
                  st_blocks = i_blkcount i\<rparr>)))"

definition fsys_getdents :: "fsops \<Rightarrow> int \<Rightarrow> nat \<Rightarrow> vfs \<Rightarrow> (int \<times> u8 list \<times> vfs) option" where
  "fsys_getdents ops fd cnt v =
     (if cnt = 0 then Some (0, [], v)
      else Option.bind (check_fd v fd) (\<lambda>(r, f).
        if r < 0 then Some (r, [], v)
        else if \<not> S_ISDIR (i_mode (inodes (ic v) (f_inode (files v f)))) then Some (- ENOTDIR, [], v)
        else case (if f_fops (files v f) \<noteq> NULL then op_readdir ops (f_fops (files v f)) else None) of
               Some rd \<Rightarrow> let (r, bs, f') = rd (files v f) cnt
                          in Some (r, bs, v\<lparr>files := (files v)(f := f')\<rparr>)
             | None \<Rightarrow> Some (- ENOSYS, [], v)))"

definition fsys_ioctl :: "fsops \<Rightarrow> int \<Rightarrow> u32 \<Rightarrow> addr \<Rightarrow> vfs \<Rightarrow> int option" where
  "fsys_ioctl ops fd opc arg v =
     (if fd \<ge> NOFILE then Some (- EBADF)
      else if arg = NULL then Some (- EFAULT)
      else Option.bind (fd_get v fd) (\<lambda>f.
        if f = NULL then Some (- EBADF)
        else if f_flags (files v f) AND F_USED = 0 then Some (- EBADF)
        else if f_inode (files v f) = NULL then Some (- EBADF)
        else if \<not> S_ISCHR (i_mode (inodes (ic v) (f_inode (files v f)))) then Some (- ENOTTY)
        else case (if f_fops (files v f) \<noteq> NULL then op_ioctl ops (f_fops (files v f)) else None) of
               Some io \<Rightarrow> Some (io (files v f) opc arg) | None \<Rightarrow> Some (- ENOSYS)))"

section \<open>Permission strings\<close>

definition plist :: "string list" where
  "plist = [''---'', ''--x'', ''-w-'', ''-wx'', ''r--'', ''r-x'', ''rw-'', ''rwx'']"

definition permget :: "u32 \<Rightarrow> u16 \<Rightarrow> string" where
  "permget mode perm =
     (let ch = (if S_ISDIR mode then CHR ''d'' else if S_ISCHR mode then CHR ''c''
                else if S_ISBLK mode then CHR ''b'' else CHR ''-'')
      in ch # plist ! unat (drop_bit 6 perm AND 7) @ plist ! unat (drop_bit 3 perm AND 7) @
         plist ! unat (perm AND 7))"

end
