(* ===== verification/Vfs_Refs.thy ===== *)
theory Vfs_Refs
  imports Fs_Vfs
begin

text \<open>
  Reference counting across the system calls of \<^verbatim>\<open>src/kern/fs/vfs.c\<close>: a lookup holds one inode
  at a time, an open file holds one reference to its inode, and a file's own count is the
  number of descriptors that name it.
\<close>

section \<open>References held during a lookup\<close>

definition fresh_alloc :: "(icache \<Rightarrow> addr) \<Rightarrow> bool" where
  "fresh_alloc al \<longleftrightarrow> (\<forall>s. icache_ok s \<longrightarrow> al s \<noteq> NULL \<and> al s \<notin> cached s)"

lemma fresh_key: "fresh_alloc al \<Longrightarrow> iref_inv s R \<Longrightarrow> sb \<noteq> NULL \<Longrightarrow> key_new s (al s, sb, i)"
  by (simp add: key_new_def new_ok_def fresh_alloc_def iref_inv_def)

lemma iref_held: "iref_inv s R \<Longrightarrow> a \<in># R \<Longrightarrow> a \<noteq> NULL \<and> i_sb (inodes s a) \<noteq> NULL"
  using ic_sb by (auto simp: iref_inv_def cached_def)

lemma walk_step_refs:
  assumes al: "fresh_alloc al" and inv: "iref_inv s (add_mset a R)" and n: "size R + 1 < 2 ^ 16 - 1"
  shows "iref_inv (snd (walk_step al a i s)) (add_mset (fst (walk_step al a i s)) R)"
proof -
  let ?k = "(al s, i_sb (inodes s a), i)"
  let ?b = "fst (iget_key ?k s)" and ?s2 = "iput a (snd (iget_key ?k s))"
  have "i_sb (inodes s a) \<noteq> NULL" using iref_held [OF inv] by simp
  then have "key_new s ?k" by (rule fresh_key [OF al inv])
  from ic.exchange [OF inv this n] have i2: "iref_inv ?s2 (add_mset ?b R)" .
  let ?msb = "mnt_sb ?s2 (i_mnt (inodes ?s2 ?b))"
  let ?k2 = "(al ?s2, ?msb, i_ino (inodes ?s2 (s_root (supers ?s2 ?msb))))"
  have i3: "iref_inv (iput ?b (snd (iget_key ?k2 ?s2))) (add_mset (fst (iget_key ?k2 ?s2)) R)" if "?msb \<noteq> NULL"
  proof (rule ic.exchange [OF i2 _ n])
    show "key_new ?s2 ?k2" by (rule fresh_key [OF al i2 that])
  qed
  show ?thesis using i2 i3 by (simp add: walk_step_def iget_key_def Let_def split_beta)
qed

lemma walk_refs:
  assumes "fresh_alloc al" "iref_inv s (add_mset a R)" "size R + 1 < 2 ^ 16 - 1"
  shows "\<exists>b. iref_inv (snd (walk ops al md d a toks s)) (add_mset b R) \<and>
    (fst (walk ops al md d a toks s) = NULL \<or> fst (walk ops al md d a toks s) = b)"
  using assms
proof (induction toks arbitrary: a s d)
  case (Cons t toks)
  let ?i = "lookup_fs ops (inodes s a) t"
  note st = walk_step_refs [OF Cons.prems, of ?i]
  show ?case
  proof (cases "?i = - 1")
    case False
    obtain b s' where bs: "walk_step al a ?i s = (b, s')" by fastforce
    then have "iref_inv s' (add_mset b R)" using st by simp
    from Cons.IH [OF Cons.prems(1) this Cons.prems(3), of "Suc d"] show ?thesis
      using False bs \<open>iref_inv s' (add_mset b R)\<close> by (auto simp: Let_def)
  qed (use Cons.prems in auto)
qed auto

lemma lookup_refs:
  assumes "fresh_alloc al" "iref_inv s R" "size R + 1 < 2 ^ 16 - 1"
    and "i_sb (inodes s (s_root (supers s (mnt_sb s mnt)))) \<noteq> NULL" "mnt \<noteq> NULL"
  shows "\<exists>a s' b. lookup_vfs_i ops al mnt pth s = Some (a, s') \<and> iref_inv s' (add_mset b R) \<and> (a = NULL \<or> a = b)"
proof -
  let ?r = "inodes s (s_root (supers s (mnt_sb s mnt)))"
  let ?k = "(al s, i_sb ?r, i_ino ?r)"
  have "key_new s ?k" by (rule fresh_key [OF assms(1,2,4)])
  then have "iref_inv (snd (iget_key ?k s)) (add_mset (fst (iget_key ?k s)) R)"
    using ic.getr_ok [OF assms(2)] assms(3) by simp
  from walk_refs [OF assms(1) this assms(3), of ops "length (filter (\<lambda>c. c = SLASH) pth)" 0 "tokens {SLASH} pth"]
  obtain b where b: "iref_inv (snd (walk ops al (length (filter (\<lambda>c. c = SLASH) pth)) 0 (fst (iget_key ?k s))
        (tokens {SLASH} pth) (snd (iget_key ?k s)))) (add_mset b R)"
      "fst (walk ops al (length (filter (\<lambda>c. c = SLASH) pth)) 0 (fst (iget_key ?k s)) (tokens {SLASH} pth)
        (snd (iget_key ?k s))) \<in> {NULL, b}" by blast
  moreover have "lookup_vfs_i ops al mnt pth s = Some (walk ops al (length (filter (\<lambda>c. c = SLASH) pth)) 0
      (fst (iget_key ?k s)) (tokens {SLASH} pth) (snd (iget_key ?k s)))"
    using assms(5) by (simp add: lookup_vfs_i_def iget_key_def Let_def split_beta)
  ultimately show ?thesis by (metis empty_iff insert_iff prod.collapse)
qed

section \<open>The invariant of the open-file table\<close>

definition open_files :: "vfs \<Rightarrow> addr set" where
  "open_files v = set (ofile v) - {NULL}"

definition file_refs :: "vfs \<Rightarrow> addr multiset" where
  "file_refs v = image_mset (\<lambda>f. f_inode (files v f)) (mset_set (open_files v))"

text \<open>\<open>X\<close> are the inode references the kernel holds elsewhere.\<close>

definition vfs_inv :: "vfs \<Rightarrow> addr multiset \<Rightarrow> bool" where
  "vfs_inv v X \<longleftrightarrow> length (ofile v) = 5 \<and>
     (\<forall>f\<in>open_files v. f_flags (files v f) AND F_USED \<noteq> 0 \<and> f_inode (files v f) \<noteq> NULL \<and>
        unat (f_refcont (files v f)) = count_list (ofile v) f) \<and>
     iref_inv (ic v) (file_refs v + X)"

lemma count_list_update:
  "i < length xs \<Longrightarrow> count_list (xs[i := y]) x =
     count_list xs x - (if xs ! i = x then 1 else 0) + (if y = x then 1 else 0)"
  using mset_update [of i xs y] by (simp add: count_mset [symmetric])

lemma count_list_pos: "x \<in> set xs \<Longrightarrow> 0 < count_list xs x"
  by (metis count_list_0_iff neq0_conv)

lemma set_update_keep:
  "i < length xs \<Longrightarrow> xs ! i \<noteq> x \<or> 1 < count_list xs x \<Longrightarrow> x \<in> set xs \<Longrightarrow> x \<in> set (xs[i := y])"
proof -
  assume i: "i < length xs" and c: "xs ! i \<noteq> x \<or> 1 < count_list xs x" and x: "x \<in> set xs"
  have "0 < count_list (xs[i := y]) x"
    using count_list_update [OF i, of y x] c count_list_pos [OF x] by auto
  then show ?thesis by (metis count_list_0_iff less_irrefl)
qed

lemma finite_open [simp]: "finite (open_files v)"
  by (simp add: open_files_def)

lemma file_refs_size: "length (ofile v) = 5 \<Longrightarrow> size (file_refs v) \<le> 5"
proof -
  assume "length (ofile v) = 5"
  then have "card (set (ofile v)) \<le> 5" using card_length [of "ofile v"] by simp
  moreover have "card (open_files v) \<le> card (set (ofile v))" by (simp add: open_files_def card_mono)
  ultimately show ?thesis by (simp add: file_refs_def)
qed

lemma vfs_fd:
  assumes "vfs_inv v X" "0 \<le> fd" "fd < 5"
  shows "fd_get v fd = Some (ofile v ! nat fd)" and "fd_set fd f v = Some (v\<lparr>ofile := (ofile v)[nat fd := f]\<rparr>)"
    and "ofile v ! nat fd \<noteq> NULL \<Longrightarrow> ofile v ! nat fd \<in> open_files v"
  using assms by (auto simp: vfs_inv_def fd_get_def fd_set_def open_files_def)

lemma close_last:
  assumes inv: "vfs_inv v X" and fd: "0 \<le> fd" "fd < 5" and f: "f = ofile v ! nat fd" "f \<noteq> NULL"
    and c: "count_list (ofile v) f = 1"
  shows "vfs_inv (v\<lparr>ofile := (ofile v)[nat fd := NULL], files := (files v)(f := (files v f)\<lparr>f_refcont := n\<rparr>),
      ic := iput (f_inode (files v f)) (ic v)\<rparr>) X"
proof -
  let ?o = "(ofile v)[nat fd := NULL]"
  have len: "length (ofile v) = 5" "nat fd < 5" using inv fd by (auto simp: vfs_inv_def)
  have fo: "f \<in> open_files v" using f len by (auto simp: open_files_def)
  have cnt: "count_list ?o x = count_list (ofile v) x - (if x = f then 1 else 0)" if "x \<noteq> NULL" for x
    using count_list_update [of "nat fd" "ofile v" NULL x] len f that by auto
  have fno: "f \<notin> set ?o" using cnt [OF f(2)] c by (metis count_list_0_iff diff_self_eq_0)
  have op: "set ?o - {NULL} = open_files v - {f}"
  proof
    show "set ?o - {NULL} \<subseteq> open_files v - {f}"
      using fno set_update_subset_insert [of "ofile v" "nat fd" NULL] by (auto simp: open_files_def)
    show "open_files v - {f} \<subseteq> set ?o - {NULL}"
      using set_update_keep [of "nat fd" "ofile v"] len f by (auto simp: open_files_def)
  qed
  have "mset_set (open_files v) = add_mset f (mset_set (open_files v - {f}))"
    using fo by (metis finite_open mset_set.insert_remove insert_absorb)
  then have refs: "file_refs v = add_mset (f_inode (files v f))
      (image_mset (\<lambda>g. f_inode (files v g)) (mset_set (open_files v - {f})))" by (simp add: file_refs_def)
  have "iref_inv (iput (f_inode (files v f)) (ic v))
      (image_mset (\<lambda>g. f_inode (files v g)) (mset_set (open_files v - {f})) + X)"
    using iref_put [of "ic v" "file_refs v + X" "f_inode (files v f)"] inv by (simp add: vfs_inv_def refs)
  moreover have "image_mset (\<lambda>g. f_inode (((files v)(f := (files v f)\<lparr>f_refcont := n\<rparr>)) g)) (mset_set (open_files v - {f})) =
      image_mset (\<lambda>g. f_inode (files v g)) (mset_set (open_files v - {f}))"
    by (rule image_mset_cong) auto
  ultimately show ?thesis
    using inv len cnt unfolding vfs_inv_def file_refs_def open_files_def [of "v\<lparr>ofile := _, files := _, ic := _\<rparr>"]
    by (simp add: op) (auto simp: open_files_def)
qed

lemma vfs_inv_recount:
  assumes inv: "vfs_inv v X" and len: "length (ofile v') = 5" and op: "open_files v' = open_files v"
    and ic: "ic v' = ic v"
    and fi: "\<And>g. g \<in> open_files v \<Longrightarrow> f_inode (files v' g) = f_inode (files v g) \<and> f_flags (files v' g) = f_flags (files v g)"
    and cnt: "\<And>g. g \<in> open_files v \<Longrightarrow> unat (f_refcont (files v' g)) = count_list (ofile v') g"
  shows "vfs_inv v' X"
proof -
  have "file_refs v' = file_refs v"
    unfolding file_refs_def op by (rule image_mset_cong) (use fi in auto)
  then show ?thesis using inv len op ic fi cnt by (simp add: vfs_inv_def)
qed

lemma vfs_count:
  "vfs_inv v X \<Longrightarrow> f \<in> open_files v \<Longrightarrow> unat (f_refcont (files v f)) = count_list (ofile v) f \<and>
     1 \<le> count_list (ofile v) f \<and> count_list (ofile v) f \<le> 5"
  using count_list_pos [of f "ofile v"] count_le_length [of "ofile v" f]
  by (auto simp: vfs_inv_def open_files_def)

lemma close_shared:
  assumes inv: "vfs_inv v X" and fd: "0 \<le> fd" "fd < 5" and f: "f = ofile v ! nat fd" "f \<noteq> NULL"
    and c: "1 < count_list (ofile v) f"
  shows "vfs_inv (v\<lparr>ofile := (ofile v)[nat fd := NULL],
      files := (files v)(f := (files v f)\<lparr>f_refcont := f_refcont (files v f) - 1\<rparr>)\<rparr>) X"
proof (rule vfs_inv_recount [OF inv])
  let ?o = "(ofile v)[nat fd := NULL]"
  have len: "length (ofile v) = 5" "nat fd < 5" using inv fd by (auto simp: vfs_inv_def)
  have fo: "f \<in> open_files v" using f len by (auto simp: open_files_def)
  have cnt: "count_list ?o x = count_list (ofile v) x - (if x = f then 1 else 0)" if "x \<noteq> NULL" for x
    using count_list_update [of "nat fd" "ofile v" NULL x] len f that by auto
  have "x \<in> set ?o" if "x \<in> set (ofile v)" for x
    by (rule set_update_keep) (use len f c that in auto)
  then have "set ?o - {NULL} = set (ofile v) - {NULL}"
    using set_update_subset_insert [of "ofile v" "nat fd" NULL] by auto
  then show "open_files (v\<lparr>ofile := ?o, files := (files v)(f := (files v f)\<lparr>f_refcont := f_refcont (files v f) - 1\<rparr>)\<rparr>)
      = open_files v" by (simp add: open_files_def)
  fix g assume g: "g \<in> open_files v"
  have "f_refcont (files v f) \<noteq> 0" using vfs_count [OF inv fo] by auto
  then have "unat (f_refcont (files v f) - 1) = count_list (ofile v) f - 1"
    using vfs_count [OF inv fo] by (simp add: unat_minus_one)
  then show "unat (f_refcont (files (v\<lparr>ofile := ?o,
      files := (files v)(f := (files v f)\<lparr>f_refcont := f_refcont (files v f) - 1\<rparr>)\<rparr>) g)) = count_list (ofile (v\<lparr>ofile := ?o,
      files := (files v)(f := (files v f)\<lparr>f_refcont := f_refcont (files v f) - 1\<rparr>)\<rparr>)) g"
    using vfs_count [OF inv g] cnt [of g] g by (auto simp: open_files_def)
qed (use inv in \<open>auto simp: vfs_inv_def\<close>)

lemma fsys_close_inv:
  assumes inv: "vfs_inv v X" and fd: "0 \<le> fd" "fd < 5"
  shows "\<exists>r v'. fsys_close ops fd v = Some (r, v') \<and> vfs_inv v' X \<and>
    ofile v' = (ofile v)[nat fd := NULL] \<and> r = (if ofile v ! nat fd = NULL then - EBADF else 0) \<and>
    (\<forall>g. g \<noteq> ofile v ! nat fd \<longrightarrow> files v' g = files v g)"
proof -
  let ?f = "ofile v ! nat fd"
  note get = vfs_fd [OF inv fd]
  have lt: "\<not> NOFILE \<le> fd" using fd by (simp add: NOFILE_def)
  show ?thesis
  proof (cases "?f = NULL")
    case True
    then have "(ofile v)[nat fd := NULL] = ofile v" by (metis list_update_id)
    then show ?thesis using True get(1) lt inv by (auto simp: fsys_close_def)
  next
    case False
    have fo: "?f \<in> open_files v" using get(3) False by simp
    note cnt = vfs_count [OF inv fo]
    have fl: "f_flags (files v ?f) OR F_USED \<noteq> 0" by (simp add: F_USED_def or_eq_0_iff)
    let ?n = "f_refcont (files v ?f) - 1"
    have "?n = 0 \<longleftrightarrow> f_refcont (files v ?f) = 1" by simp
    then have one: "?n = 0 \<longleftrightarrow> count_list (ofile v) ?f = 1"
      using cnt by (metis unat_1 word_unat_eq_iff)
    let ?v = "v\<lparr>ofile := (ofile v)[nat fd := NULL], files := (files v)(?f := (files v ?f)\<lparr>f_refcont := ?n\<rparr>)\<rparr>"
    have eq: "fsys_close ops fd v = Some (0, if ?n = 0 then ?v\<lparr>ic := iput (f_inode (files v ?f)) (ic v)\<rparr> else ?v)"
      using False get(1,2) fl lt by (simp add: fsys_close_def Let_def)
    show ?thesis
    proof (cases "?n = 0")
      case True
      then have "vfs_inv (?v\<lparr>ic := iput (f_inode (files v ?f)) (ic v)\<rparr>) X"
        using close_last [OF inv fd refl False] one by simp
      then show ?thesis using eq True False by auto
    next
      case n: False
      then have "vfs_inv ?v X" using close_shared [OF inv fd refl False] one cnt by simp
      then show ?thesis using eq n False by auto
    qed
  qed
qed

lemma findfreefd_spec:
  assumes inv: "vfs_inv v X"
  shows "findfreefd v = - 1 \<and> NULL \<notin> set (ofile v) \<or>
    (\<exists>n<5. findfreefd v = int n \<and> ofile v ! n = NULL \<and> (\<forall>j<n. ofile v ! j \<noteq> NULL))"
proof -
  have used: "fd_used v f \<longleftrightarrow> f \<noteq> NULL" if "f \<in> set (ofile v)" for f
    using inv that by (auto simp: fd_used_def vfs_inv_def open_files_def)
  have "free_slot v fs k = - 1 \<and> NULL \<notin> set fs \<or>
      (\<exists>n<length fs. free_slot v fs k = int (k + n) \<and> fs ! n = NULL \<and> (\<forall>j<n. fs ! j \<noteq> NULL))"
    if "set fs \<subseteq> set (ofile v)" for fs k
    using that
  proof (induction fs arbitrary: k)
    case (Cons f fs)
    show ?case
    proof (cases "f = NULL")
      case True
      then show ?thesis using used [of f] Cons.prems by auto
    next
      case False
      then have step: "free_slot v (f # fs) k = free_slot v fs (Suc k)" using used [of f] Cons.prems by simp
      from Cons.IH [of "Suc k"] Cons.prems
      consider "free_slot v fs (Suc k) = - 1" "NULL \<notin> set fs"
        | n where "n < length fs" "free_slot v fs (Suc k) = int (Suc k + n)" "fs ! n = NULL" "\<forall>j<n. fs ! j \<noteq> NULL"
        by auto
      then show ?thesis
      proof cases
        case (2 n)
        then have "\<forall>j<Suc n. (f # fs) ! j \<noteq> NULL" using False by (auto simp: less_Suc_eq_0_disj)
        then show ?thesis using 2 step
          by (intro disjI2 exI [of _ "Suc n"]) auto
      qed (use False step in auto)
    qed
  qed simp
  from this [of "ofile v" 0] show ?thesis using inv by (simp add: findfreefd_def NOFILE_def vfs_inv_def)
qed

lemma install_shared:
  assumes inv: "vfs_inv v X" and n: "n < 5" "ofile v ! n = NULL" and f: "f \<in> open_files v"
  shows "vfs_inv (v\<lparr>files := (files v)(f := (files v f)\<lparr>f_refcont := f_refcont (files v f) + 1\<rparr>),
      ofile := (ofile v)[n := f]\<rparr>) X"
proof (rule vfs_inv_recount [OF inv])
  let ?o = "(ofile v)[n := f]"
  have len: "length (ofile v) = 5" using inv by (simp add: vfs_inv_def)
  have fn: "f \<noteq> NULL" "f \<in> set (ofile v)" using f by (auto simp: open_files_def)
  have cnt: "count_list ?o x = count_list (ofile v) x + (if x = f then 1 else 0)" if "x \<noteq> NULL" for x
    using count_list_update [of n "ofile v" f x] len n that by auto
  have "set ?o - {NULL} = set (ofile v) - {NULL}"
    using set_update_subset_insert [of "ofile v" n f] set_update_keep [of n "ofile v"] len n fn by auto
  then show "open_files (v\<lparr>files := (files v)(f := (files v f)\<lparr>f_refcont := f_refcont (files v f) + 1\<rparr>), ofile := ?o\<rparr>)
      = open_files v" by (simp add: open_files_def)
  fix g assume g: "g \<in> open_files v"
  have "unat (f_refcont (files v f) + 1) = count_list (ofile v) f + 1"
    using vfs_count [OF inv f] by (simp add: unat_word_ariths)
  then show "unat (f_refcont (files (v\<lparr>files := (files v)(f := (files v f)\<lparr>f_refcont := f_refcont (files v f) + 1\<rparr>),
      ofile := ?o\<rparr>) g)) = count_list (ofile (v\<lparr>files := (files v)(f := (files v f)\<lparr>f_refcont := f_refcont (files v f) + 1\<rparr>),
      ofile := ?o\<rparr>)) g"
    using vfs_count [OF inv g] cnt [of g] g by (auto simp: open_files_def)
qed (use inv in \<open>auto simp: vfs_inv_def\<close>)

lemma check_fd_inv:
  assumes "vfs_inv v X" "0 \<le> fd" "fd < 5"
  shows "check_fd v fd = Some (if ofile v ! nat fd = NULL then - EBADF else 0, ofile v ! nat fd)"
proof (cases "ofile v ! nat fd = NULL")
  case False
  then have "ofile v ! nat fd \<in> open_files v" by (rule vfs_fd(3) [OF assms])
  then have "f_flags (files v (ofile v ! nat fd)) AND F_USED \<noteq> 0" "f_inode (files v (ofile v ! nat fd)) \<noteq> NULL"
    using assms(1) unfolding vfs_inv_def by blast+
  then show ?thesis using vfs_fd(1) [OF assms] assms(3) False by (simp add: check_fd_def NOFILE_def)
qed (use vfs_fd(1) [OF assms] assms(3) in \<open>simp add: check_fd_def NOFILE_def\<close>)

lemma fsys_dup2_inv:
  assumes inv: "vfs_inv v X" and old: "0 \<le> old" "old < 5" "ofile v ! nat old \<noteq> NULL" and new: "0 \<le> new" "new < 5" "new \<noteq> old"
  shows "\<exists>v'. fsys_dup2 ops old new v = Some (new, v') \<and> vfs_inv v' X \<and>
    ofile v' = (ofile v)[nat new := ofile v ! nat old]"
proof -
  let ?f = "ofile v ! nat old"
  note co = check_fd_inv [OF inv old(1,2)] and cn = check_fd_inv [OF inv new(1,2)]
  obtain v1 where v1: "(if ofile v ! nat new = NULL then Some v else map_option snd (fsys_close ops new v)) = Some v1"
    "vfs_inv v1 X" "ofile v1 = (ofile v)[nat new := NULL]"
  proof (cases "ofile v ! nat new = NULL")
    case True
    then have "(ofile v)[nat new := NULL] = ofile v" by (metis list_update_id)
    then show ?thesis using that [of v] True inv by simp
  next
    case False
    then show ?thesis using fsys_close_inv [OF inv new(1,2), of ops] that by auto
  qed
  have len: "length (ofile v) = 5" using inv by (simp add: vfs_inv_def)
  have "ofile v1 ! nat old = ?f" using v1(3) new old len by (simp add: nth_list_update nat_eq_iff)
  then have fo: "?f \<in> open_files v1" using vfs_fd(3) [OF v1(2) old(1,2)] old(3) by simp
  have sl: "ofile v1 ! nat new = NULL" "nat new < 5" using v1(3) len new by auto
  let ?v2 = "v1\<lparr>files := (files v1)(?f := (files v1 ?f)\<lparr>f_refcont := f_refcont (files v1 ?f) + 1\<rparr>)\<rparr>"
  have "fd_set new ?f ?v2 = Some (?v2\<lparr>ofile := (ofile v1)[nat new := ?f]\<rparr>)"
    using v1(2) new by (simp add: fd_set_def vfs_inv_def)
  moreover have "EBADF > 0" by (simp add: EBADF_def)
  ultimately have "fsys_dup2 ops old new v = Some (new, ?v2\<lparr>ofile := (ofile v1)[nat new := ?f]\<rparr>)"
    using co cn old(3) v1(1) by (auto simp: fsys_dup2_def Let_def split: if_splits)
  moreover have "vfs_inv (?v2\<lparr>ofile := (ofile v1)[nat new := ?f]\<rparr>) X"
    using install_shared [OF v1(2) sl(2,1) fo] by simp
  ultimately show ?thesis using v1(3) by auto
qed

text \<open>A file system's operations may change position and private data of an open file,
  nothing the table relies on.\<close>

definition same_file :: "kfile \<Rightarrow> kfile \<Rightarrow> bool" where
  "same_file f g \<longleftrightarrow> f_inode g = f_inode f \<and> f_refcont g = f_refcont f \<and> f_flags g = f_flags f"

locale fs_driver =
  fixes ops :: fsops
  assumes open_same: "op_open ops x = Some op \<Longrightarrow> same_file f (snd (op i f))"
    and read_same: "op_read ops x = Some rd \<Longrightarrow> same_file f (snd (snd (rd f n)))"
    and write_same: "op_write ops x = Some wr \<Longrightarrow> same_file f (snd (wr f bs))"
    and readdir_same: "op_readdir ops x = Some rdd \<Longrightarrow> same_file f (snd (snd (rdd f n)))"
begin

lemma update_same:
  assumes "vfs_inv v X" "same_file (files v f) g"
  shows "vfs_inv (v\<lparr>files := (files v)(f := g)\<rparr>) X"
proof (rule vfs_inv_recount [OF assms(1)])
  show "unat (f_refcont (files (v\<lparr>files := (files v)(f := g)\<rparr>) h)) = count_list (ofile (v\<lparr>files := (files v)(f := g)\<rparr>)) h"
    if "h \<in> open_files v" for h
    using vfs_count [OF assms(1) that] assms(2) by (auto simp: same_file_def)
qed (use assms in \<open>auto simp: vfs_inv_def open_files_def same_file_def\<close>)

lemma read_inv: "vfs_inv v X \<Longrightarrow> fsys_read ops fd n v = Some (r, bs, v') \<Longrightarrow> vfs_inv v' X"
  by (auto simp: fsys_read_def read_fs_def Let_def bind_eq_Some_conv split_beta same_file_def
      split: if_splits option.splits intro!: update_same read_same)

lemma write_inv: "vfs_inv v X \<Longrightarrow> fsys_write ops fd bs v = Some (r, v') \<Longrightarrow> vfs_inv v' X"
  by (auto simp: fsys_write_def write_fs_def Let_def bind_eq_Some_conv split_beta same_file_def
      split: if_splits option.splits intro!: update_same write_same)

lemma getdents_inv: "vfs_inv v X \<Longrightarrow> fsys_getdents ops fd n v = Some (r, bs, v') \<Longrightarrow> vfs_inv v' X"
  by (auto simp: fsys_getdents_def Let_def bind_eq_Some_conv split_beta
      split: if_splits option.splits intro!: update_same readdir_same)

lemma install_new:
  assumes inv: "vfs_inv v X" and i: "iref_inv s (add_mset a (file_refs v + X))" and n: "n < 5" "ofile v ! n = NULL"
    and f: "f \<noteq> NULL" "f \<notin> open_files v"
    and g: "f_inode g = a" "f_refcont g = 1" "f_flags g AND F_USED \<noteq> 0"
  shows "vfs_inv (v\<lparr>ic := s, files := (files v)(f := g), ofile := (ofile v)[n := f]\<rparr>) X"
proof -
  let ?o = "(ofile v)[n := f]" and ?v = "v\<lparr>ic := s, files := (files v)(f := g), ofile := (ofile v)[n := f]\<rparr>"
  have len: "length (ofile v) = 5" using inv by (simp add: vfs_inv_def)
  have cnt: "count_list ?o x = count_list (ofile v) x + (if x = f then 1 else 0)" if "x \<noteq> NULL" for x
    using count_list_update [of n "ofile v" f x] len n that by auto
  have fs: "f \<notin> set (ofile v)" using f by (auto simp: open_files_def)
  have "f \<in> set ?o" using n len by (metis length_list_update nth_list_update_eq nth_mem)
  moreover have "x \<in> set ?o" if "x \<in> set (ofile v)" "x \<noteq> NULL" for x
    by (rule set_update_keep) (use len n that in auto)
  ultimately have op: "open_files ?v = insert f (open_files v)"
    using set_update_subset_insert [of "ofile v" n f] f(1) by (auto simp: open_files_def)
  have "image_mset (\<lambda>h. f_inode (files ?v h)) (mset_set (open_files v)) = file_refs v"
    unfolding file_refs_def by (rule image_mset_cong) (use f in auto)
  then have refs: "file_refs ?v = add_mset a (file_refs v)"
    using f(2) g(1) unfolding file_refs_def [of ?v] op by simp
  have "a \<noteq> NULL" using iref_held [OF i] by simp
  moreover have "count_list (ofile v) f = 0" using fs by (simp add: count_list_0_iff)
  ultimately show ?thesis
    using inv i len g cnt f fs unfolding vfs_inv_def op refs by (auto simp: open_files_def)
qed

lemma open_inv:
  assumes inv: "vfs_inv v X" and al: "fresh_alloc al" and alf: "\<And>w. alf w \<noteq> NULL \<and> alf w \<notin> open_files w"
    and X: "size X + 6 < 2 ^ 16 - 1"
    and rt: "root_mnt v \<noteq> NULL" "i_sb (inodes (ic v) (s_root (supers (ic v) (mnt_sb (ic v) (root_mnt v))))) \<noteq> NULL"
    and path: "path_canon (Some (cwd v)) (Some path) = Some (Some pth)"
  shows "\<exists>r v'. fsys_open ops al alf path flags v = Some (r, v') \<and>
    (r = - ENOENT \<and> ofile v' = ofile v \<and> (\<exists>b. vfs_inv v' (add_mset b X)) \<or>
     vfs_inv v' X \<and> (r < 0 \<and> ofile v' = ofile v \<or>
       (\<exists>n f. r = int n \<and> n < 5 \<and> ofile v ! n = NULL \<and> (\<forall>j<n. ofile v ! j \<noteq> NULL) \<and>
          ofile v' = (ofile v)[n := f] \<and> f \<noteq> NULL \<and> f \<notin> open_files v)))"
proof (cases "flags AND O_ACCMODE = 3")
  case True
  then show ?thesis using inv by (auto simp: fsys_open_def EINVAL_def)
next
  case False
  have len: "length (ofile v) = 5" and iinv: "iref_inv (ic v) (file_refs v + X)" using inv by (auto simp: vfs_inv_def)
  have "size (file_refs v + X) + 1 < 2 ^ 16 - 1" using file_refs_size [OF len] X by simp
  from lookup_refs [OF al iinv this rt(2,1), of ops pth] obtain a s b where
    lk: "lookup_vfs_i ops al (root_mnt v) pth (ic v) = Some (a, s)" "iref_inv s (add_mset b (file_refs v + X))"
      "a = NULL \<or> a = b" by blast
  let ?v1 = "v\<lparr>ic := s\<rparr>"
  have same: "file_refs ?v1 = file_refs v" "open_files ?v1 = open_files v" by (simp_all add: file_refs_def open_files_def)
  have leak: "vfs_inv ?v1 (add_mset b X)" using inv lk(2) by (simp add: vfs_inv_def same)
  have look: "lookup_vfs ops al v path = Some (a, ?v1)"
    using path lk(1) by (simp add: lookup_vfs_def lookup_vfs_r_def)
  show ?thesis
  proof (cases "a = NULL")
    case True
    then show ?thesis using look False leak by (auto simp: fsys_open_def)
  next
    case nz: False
    then have ab: "a = b" using lk(3) by simp
    have bk: "vfs_inv (?v1\<lparr>ic := iput a s\<rparr>) X"
      using inv iref_put [OF lk(2), of b] ab by (simp add: vfs_inv_def file_refs_def open_files_def)
    show ?thesis
    proof (cases "findfreefd ?v1 = - 1")
      case True
      then show ?thesis using look False nz bk by (simp add: fsys_open_def Let_def ENFILE_def)
    next
      case fd: False
      then obtain n where n: "n < 5" "findfreefd ?v1 = int n" "ofile v ! n = NULL" "\<forall>j<n. ofile v ! j \<noteq> NULL"
        using findfreefd_spec [OF leak] by auto
      let ?i = "inodes s a" and ?f = "alf ?v1"
      let ?g = "\<lparr>f_inode = a, f_mode = i_mode ?i, f_position = 0, f_refcont = 1, f_flags = flags OR F_USED, f_fops = i_fops ?i\<rparr>"
      let ?r = "if i_fops ?i \<noteq> NULL \<and> op_open ops (i_fops ?i) \<noteq> None then the (op_open ops (i_fops ?i)) ?i ?g else (0, ?g)"
      have sg: "same_file ?g (snd ?r)" using open_same [of "i_fops ?i"] by (auto simp: same_file_def)
      have used: "(flags OR F_USED) AND F_USED \<noteq> 0" by (simp add: F_USED_def and.commute bit.conj_disj_distrib or_eq_0_iff)
      show ?thesis
      proof (cases "fst ?r < 0")
        case True
        then have "fsys_open ops al alf path flags v = Some (fst ?r, ?v1\<lparr>ic := iput a s\<rparr>)"
          using look False nz fd by (simp add: fsys_open_def Let_def split_beta)
        then show ?thesis using True bk by auto
      next
        case ok: False
        let ?v2 = "?v1\<lparr>files := (files v)(?f := snd ?r), ofile := (ofile v)[n := ?f]\<rparr>"
        have eq: "fsys_open ops al alf path flags v = Some (int n, ?v2)"
          using look False nz fd ok n(1,2) len by (simp add: fsys_open_def Let_def split_beta fd_set_def)
        have "vfs_inv (v\<lparr>ic := s, files := (files v)(?f := snd ?r), ofile := (ofile v)[n := ?f]\<rparr>) X"
          by (rule install_new [OF inv _ n(1,3), where a = a])
            (use lk(2) ab alf [of ?v1] same sg used in \<open>auto simp: same_file_def\<close>)
        then show ?thesis using eq n alf [of ?v1] same(2) by (intro exI [of _ "int n"] exI [of _ ?v2]) auto
      qed
    qed
  qed
qed

end

section \<open>Permissions\<close>

text \<open>The Unix rule: root may do anything, otherwise one of the three classes of mode bits
  decides; \<open>k\<close> is 2 for reading, 1 for writing, 0 for executing.\<close>

definition unix_may :: "cred \<Rightarrow> inode \<Rightarrow> nat \<Rightarrow> bool" where
  "unix_may cr i k \<longleftrightarrow> cr_euid cr = 0 \<or>
     bit (i_mode i) (if cr_euid cr = i_uid i then k + 6 else if cr_egid cr = i_gid i then k + 3 else k)"

lemma and_pow_bit: "(x :: u32) AND 2 ^ k \<noteq> 0 \<longleftrightarrow> bit x k"
  using and_exp_eq_0_iff_not_bit [of x k] by simp

lemma check_perm_unix:
  "check_perm v f S_IROTH = unix_may (ucred v) (inodes (ic v) (f_inode f)) 2"
  "check_perm v f S_IWOTH = unix_may (ucred v) (inodes (ic v) (f_inode f)) 1"
proof -
  have m: "S_IROTH * S_IXUSR = 2 ^ 8" "S_IROTH * S_IXGRP = 2 ^ 5" "S_IROTH * S_IXOTH = 2 ^ 2"
    "S_IWOTH * S_IXUSR = 2 ^ 7" "S_IWOTH * S_IXGRP = 2 ^ 4" "S_IWOTH * S_IXOTH = 2 ^ 1"
    by (simp_all add: S_IROTH_def S_IWOTH_def S_IXUSR_def S_IXGRP_def S_IXOTH_def)
  show "check_perm v f S_IROTH = unix_may (ucred v) (inodes (ic v) (f_inode f)) 2"
    "check_perm v f S_IWOTH = unix_may (ucred v) (inodes (ic v) (f_inode f)) 1"
    unfolding check_perm_def unix_may_def Let_def m and_pow_bit by auto
qed

section \<open>A sample state\<close>

definition no_ops :: fsops where
  "no_ops = \<lparr>op_lookup = \<lambda>_. None, op_creat = \<lambda>_. None, op_unlink = \<lambda>_. None, op_open = \<lambda>_. None, op_close = \<lambda>_. None,
     op_read = \<lambda>_. None, op_write = \<lambda>_. None, op_readdir = \<lambda>_. None, op_ioctl = \<lambda>_. None\<rparr>"

lemma no_ops_driver: "fs_driver no_ops"
  by unfold_locales (auto simp: no_ops_def)

definition sample_al :: "icache \<Rightarrow> addr" where
  "sample_al s = Suc (sum_list (ilru s) + sum_list (map (\<lambda>k. sum_list (hitab s k)) [0..<64]))"

definition sample_alf :: "vfs \<Rightarrow> addr" where
  "sample_alf v = Suc (sum_list (ofile v))"

lemma sample_al_above:
  assumes ok: "icache_ok s" and a: "a \<in> cached s"
  shows "a < sample_al s"
proof (cases "a \<in> set (ilru s)")
  case True
  then show ?thesis using member_le_sum_list [OF True] by (simp add: sample_al_def)
next
  case False
  with a obtain k where k: "a \<in> set (hitab s k)" by (auto simp: cached_def in_tab_def)
  then have "k < 64" using ic_tab [OF ok k] by (simp add: ihash_def Let_def HITAB_MAX_def)
  then have "sum_list (hitab s k) \<le> sum_list (map (\<lambda>k. sum_list (hitab s k)) [0..<64])"
    by (intro member_le_sum_list) auto
  then show ?thesis using member_le_sum_list [OF k] by (simp add: sample_al_def)
qed

lemma sample_al_fresh: "fresh_alloc sample_al"
  unfolding fresh_alloc_def using sample_al_above by (fastforce simp: sample_al_def)

lemma sample_alf_fresh: "sample_alf w \<noteq> NULL \<and> sample_alf w \<notin> open_files w"
  using member_le_sum_list [of "sample_alf w" "ofile w"] by (auto simp: sample_alf_def open_files_def)

text \<open>One file is open on descriptor 0.\<close>

definition sample_cache :: icache where
  "sample_cache = (empty_cache sample_sbs)\<lparr>inodes := \<lambda>_. zero_inode\<lparr>i_sb := 8, i_ino := 2\<rparr>, mnt_sb := \<lambda>_. 8\<rparr>"

definition sample_vfs :: vfs where
  "sample_vfs = (let (a, s) = iget 64 8 2 sample_cache in
     \<lparr>ic = s, files = \<lambda>_. \<lparr>f_inode = a, f_mode = 0, f_position = 0, f_refcont = 1, f_flags = F_USED, f_fops = 0\<rparr>,
      ofile = [200, 0, 0, 0, 0], cwd = [SLASH], ucred = cred_of 0, root_mnt = 1\<rparr>)"

lemma sample_cache_inv: "iref_inv sample_cache {#}"
  by (simp add: iref_inv_def icache_ok_def sample_cache_def empty_cache_def cached_def in_tab_def)

lemma sample_vfs_inv: "vfs_inv sample_vfs {#}"
proof -
  note inv = sample_cache_inv
  have "new_ok sample_cache 64 8" by (simp add: new_ok_def cached_def in_tab_def sample_cache_def empty_cache_def)
  from iref_get [OF inv this, of 2] obtain a s where a: "iget 64 8 2 sample_cache = (a, s)" "iref_inv s {#a#}"
    by auto
  have "open_files sample_vfs = {200}" by (auto simp: open_files_def sample_vfs_def a)
  moreover have "a \<noteq> NULL" using iref_held [OF a(2)] by simp
  ultimately show ?thesis using a by (simp add: vfs_inv_def file_refs_def) (simp add: sample_vfs_def F_USED_def)
qed

lemma sample_root:
  "root_mnt sample_vfs \<noteq> NULL"
  "i_sb (inodes (ic sample_vfs) (s_root (supers (ic sample_vfs) (mnt_sb (ic sample_vfs) (root_mnt sample_vfs))))) \<noteq> NULL"
proof -
  obtain a s where a: "iget 64 8 2 sample_cache = (a, s)" by fastforce
  have same: "inodes s (s_root (supers s 8)) = inodes s 0 \<and> supers s = sample_sbs \<and> mnt_sb s = (\<lambda>_. 8)"
    using a by (auto simp: iget_def sample_cache_def empty_cache_def Let_def set_inode_def sample_sbs_def)
  have "i_sb (inodes s 0) = 8"
    using a by (auto simp: iget_def sample_cache_def empty_cache_def Let_def set_inode_def split: if_splits)
  then show "root_mnt sample_vfs \<noteq> NULL"
    "i_sb (inodes (ic sample_vfs) (s_root (supers (ic sample_vfs) (mnt_sb (ic sample_vfs) (root_mnt sample_vfs))))) \<noteq> NULL"
    using same by (simp_all add: sample_vfs_def a sample_sbs_def)
qed

section \<open>Properties\<close>

text \<open>C6. Path lookup walks hand over hand: whatever the path and the file systems on it,
  a successful \<^verbatim>\<open>lookup_vfs_i\<close> leaves the caller with exactly one new reference, the one to
  the inode it returns; a failed one returns null and leaves one reference nobody owns (to the
  directory in which the search stopped).\<close>

theorem lookup_refcounts:
  assumes "fresh_alloc al" "iref_inv s R" "size R + 1 < 2 ^ 16 - 1" "mnt \<noteq> NULL"
    and "i_sb (inodes s (s_root (supers s (mnt_sb s mnt)))) \<noteq> NULL"
  shows "\<exists>a s'. lookup_vfs_i ops al mnt pth s = Some (a, s') \<and>
    (if a = NULL then \<exists>b. iref_inv s' (add_mset b R) else iref_inv s' (add_mset a R))"
proof -
  from lookup_refs [OF assms(1,2,3,5,4), of ops pth] obtain a s' b where
    "lookup_vfs_i ops al mnt pth s = Some (a, s')" "iref_inv s' (add_mset b R)" "a = NULL \<or> a = b" by blast
  then show ?thesis by (intro exI [of _ a] exI [of _ s']) auto
qed

theorem lookup_refcounts_witness:
  "\<exists>a s'. lookup_vfs_i no_ops sample_al 1 [SLASH, 97] sample_cache = Some (a, s') \<and>
    (if a = NULL then \<exists>b. iref_inv s' {#b#} else iref_inv s' {#a#})"
  by (rule lookup_refcounts [OF sample_al_fresh sample_cache_inv]) (simp_all add: sample_cache_def)



text \<open>C8. \<^verbatim>\<open>fsys_close\<close> of a descriptor in range clears its slot and no other; it reports
  \<^verbatim>\<open>EBADF\<close> exactly for an empty slot.  The file survives while another descriptor names it,
  and with the last one its inode reference is dropped: the counts agree with the table.\<close>

theorem fsys_close_correct:
  assumes "vfs_inv v X" "0 \<le> fd" "fd < 5"
  shows "\<exists>r v'. fsys_close ops fd v = Some (r, v') \<and> vfs_inv v' X \<and> ofile v' = (ofile v)[nat fd := NULL] \<and>
    r = (if ofile v ! nat fd = NULL then - EBADF else 0) \<and> (\<forall>g. g \<noteq> ofile v ! nat fd \<longrightarrow> files v' g = files v g)"
  by (rule fsys_close_inv [OF assms])

theorem fsys_close_correct_witness:
  "\<exists>v'. fsys_close no_ops 0 sample_vfs = Some (0, v') \<and> vfs_inv v' {#} \<and> ofile v' = [0, 0, 0, 0, 0]"
proof -
  have "ofile sample_vfs = [200, 0, 0, 0, 0]" by (simp add: sample_vfs_def split_beta)
  then show ?thesis using fsys_close_correct [OF sample_vfs_inv, of 0 no_ops] by auto
qed

text \<open>\<^verbatim>\<open>fsys_dup2\<close> of an open descriptor to a different one in range makes both name
  the same file (closing what the target named) and keeps all counts; a target at or above
  \<^verbatim>\<open>NOFILE\<close> is not rejected but indexes the table out of bounds.\<close>

theorem fsys_dup2_correct:
  assumes "vfs_inv v X" "0 \<le> old" "old < 5" "ofile v ! nat old \<noteq> NULL" "0 \<le> new" "new \<noteq> old"
  shows "if new < 5 then \<exists>v'. fsys_dup2 ops old new v = Some (new, v') \<and> vfs_inv v' X \<and>
      ofile v' = (ofile v)[nat new := ofile v ! nat old]
    else fsys_dup2 ops old new v = None"
proof (cases "new < 5")
  case True
  then show ?thesis using fsys_dup2_inv [OF assms(1-5) _ assms(6)] by simp
next
  case False
  have len: "length (ofile v) = 5" using assms(1) by (simp add: vfs_inv_def)
  have "check_fd v new = None \<or> check_fd v new = Some (- EBADF, NULL)"
    using False len by (simp add: check_fd_def fd_get_def)
  moreover have "fd_set new f w = None" if "ofile w = ofile v" for f w using that False len by (simp add: fd_set_def)
  ultimately show ?thesis
    using False check_fd_inv [OF assms(1-3)] assms(4)
    by (auto simp: fsys_dup2_def Let_def EBADF_def)
qed

theorem fsys_dup2_correct_witness:
  "\<exists>v'. fsys_dup2 no_ops 0 3 sample_vfs = Some (3, v') \<and> vfs_inv v' {#} \<and> ofile v' = [200, 0, 0, 200, 0]"
proof -
  have "ofile sample_vfs = [200, 0, 0, 0, 0]" by (simp add: sample_vfs_def split_beta)
  then show ?thesis using fsys_dup2_correct [OF sample_vfs_inv, of 0 3 no_ops] by auto
qed



end
