(* ===== verification/Fs_Devfs.thy ===== *)
theory Fs_Devfs
  imports Vfs_Refs
begin

text \<open>
  The device file system of \<^verbatim>\<open>src/kern/fs/devtmpfs/dev.c\<close>: the table of character devices,
  the list of block devices, the flat directory \<^verbatim>\<open>/dev\<close>, and the operations it gives to the
  virtual file system.  A device's functions take its number and private data; the state of
  a driver behind them is not part of this theory.  \<^const>\<open>None\<close> is an access outside
  \<^verbatim>\<open>chrdev_tab\<close> or \<^verbatim>\<open>entry\<close>, or a call through a null pointer.
\<close>

section \<open>Device numbers\<close>

definition MKDEV :: "u16 \<Rightarrow> u16 \<Rightarrow> dev" where
  "MKDEV M m = push_bit 8 (ucast M AND 0xfff) OR (ucast m AND 0xff) OR push_bit 12 (ucast m AND NOT 0xff)"

definition MAJOR :: "dev \<Rightarrow> u16" where
  "MAJOR d = ucast (drop_bit 8 d AND 0xfff)"

definition MINOR :: "dev \<Rightarrow> u16" where
  "MINOR d = ucast ((d AND 0xff) OR (drop_bit 12 d AND 0xfff00))"

section \<open>Data\<close>

record device =
  dv_name :: "u8 list"
  dv_devt :: dev
  dv_pdata :: addr
  dv_read :: "(dev \<Rightarrow> addr \<Rightarrow> nat \<Rightarrow> int \<times> u8 list) option"
  dv_write :: "(dev \<Rightarrow> addr \<Rightarrow> u8 list \<Rightarrow> int) option"
  dv_open :: "(inode \<Rightarrow> kfile \<Rightarrow> int \<times> kfile) option"
  dv_close :: "(kfile \<Rightarrow> int) option"
  dv_ioctl :: "(dev \<Rightarrow> addr \<Rightarrow> u32 \<Rightarrow> addr \<Rightarrow> int) option"

definition DE_USED :: u16 where "DE_USED = 1"
definition MAXMAJ :: nat where "MAXMAJ = 10"
definition MAXMIN :: nat where "MAXMIN = 5"

record dir_entry =
  de_name :: "u8 list"
  de_flg :: u16
  de_in :: addr

record dir_data =
  dd_entry :: "dir_entry list"
  dd_count :: nat

record devfs =
  devs :: "addr \<Rightarrow> device"
  chrdev_tab :: "nat \<Rightarrow> nat \<Rightarrow> addr"
  dev_blk_dev :: "addr list"           \<comment> \<open>the chain of \<^verbatim>\<open>next\<close> from \<^verbatim>\<open>dev_blk_dev\<close>\<close>
  devfs_root :: dir_data
  dnodes :: "addr \<Rightarrow> inode"
  devnode :: inode
  next_dev :: u32

section \<open>Operations\<close>

fun free_entry :: "dir_entry list \<Rightarrow> nat \<Rightarrow> nat option" where
  "free_entry [] k = None"
| "free_entry (e # es) k = (if de_flg e AND DE_USED \<noteq> 0 then free_entry es (Suc k) else Some k)"

definition dir_add :: "dir_data \<Rightarrow> u8 list \<Rightarrow> addr \<Rightarrow> dir_data option" where
  "dir_add dir name a =
     (case free_entry (dd_entry dir) 0 of
        None \<Rightarrow> None
      | Some k \<Rightarrow> if length name \<ge> 32 then None
          else Some (dir\<lparr>dd_entry := (dd_entry dir)[k := \<lparr>de_name = name, de_flg = DE_USED, de_in = a\<rparr>],
                         dd_count := dd_count dir + 1\<rparr>))"

definition lookup_dev :: "devfs \<Rightarrow> inode \<Rightarrow> u8 list \<Rightarrow> ino" where
  "lookup_dev d dir name =
     (if i_pdata dir = NULL then - 1
      else case find (\<lambda>e. de_name e = name) (take (dd_count (devfs_root d)) (dd_entry (devfs_root d))) of
             Some e \<Rightarrow> i_ino (dnodes d (de_in e))
           | None \<Rightarrow> - 1)"

definition register_dev :: "nat \<Rightarrow> nat \<Rightarrow> addr \<Rightarrow> devfs \<Rightarrow> (int \<times> devfs) option" where
  "register_dev maj mi dv d =
     (if maj \<ge> MAXMAJ \<or> mi \<ge> MAXMIN then None
      else if chrdev_tab d maj mi \<noteq> NULL then Some (- 1, d)
      else Some (0, d\<lparr>chrdev_tab := (chrdev_tab d)(maj := (chrdev_tab d maj)(mi := dv))\<rparr>))"

text \<open>The node both \<^verbatim>\<open>creat_devfs\<close> and \<^verbatim>\<open>creat_blockdev\<close> make: \<open>nw\<close> is the (zeroed) block
  from \<^verbatim>\<open>malloc\<close>, \<open>sb\<close> and \<open>fops\<close> the addresses of \<^verbatim>\<open>devblock\<close> and \<^verbatim>\<open>dev_fops\<close>.\<close>

definition dev_node :: "addr \<Rightarrow> addr \<Rightarrow> u32 \<Rightarrow> addr \<Rightarrow> u8 list \<Rightarrow> addr \<Rightarrow> u16 \<Rightarrow> u16 \<Rightarrow> devfs \<Rightarrow> devfs option" where
  "dev_node sb fops md nw name dv maj mi d =
     (let n = zero_inode\<lparr>i_mode := md, i_ino := next_dev d, i_sb := sb, i_fops := fops, i_refs := 1,
                i_rdev := MKDEV maj mi\<rparr>
      in map_option (\<lambda>r. d\<lparr>dnodes := (dnodes d)(nw := n), next_dev := next_dev d + 1,
             devs := (devs d)(dv := (devs d dv)\<lparr>dv_devt := MKDEV maj mi\<rparr>), devfs_root := r\<rparr>)
           (dir_add (devfs_root d) name nw))"

definition creat_devfs :: "addr \<Rightarrow> addr \<Rightarrow> addr \<Rightarrow> u8 list \<Rightarrow> addr \<Rightarrow> u16 \<Rightarrow> u16 \<Rightarrow> devfs \<Rightarrow> devfs option" where
  "creat_devfs sb fops nw name dv maj mi d =
     Option.bind (register_dev (unat maj) (unat mi) dv d) (\<lambda>(_, d1).
       dev_node sb fops (S_IFCHR OR 0x1b6) nw name dv maj mi d1)"

definition creat_blockdev :: "addr \<Rightarrow> addr \<Rightarrow> addr \<Rightarrow> u8 list \<Rightarrow> addr \<Rightarrow> u16 \<Rightarrow> u16 \<Rightarrow> devfs \<Rightarrow> devfs option" where
  "creat_blockdev sb fops nw name dv maj mi d =
     dev_node sb fops (S_IFBLK OR 0x1b6) nw name dv maj mi (d\<lparr>dev_blk_dev := dev_blk_dev d @ [dv]\<rparr>)"

definition device_get_devblk :: "dev \<Rightarrow> devfs \<Rightarrow> addr" where
  "device_get_devblk dv d = (case find (\<lambda>a. dv_devt (devs d a) = dv) (dev_blk_dev d) of Some a \<Rightarrow> a | None \<Rightarrow> NULL)"

definition blkdev_get_dev :: "dev \<Rightarrow> devfs \<Rightarrow> addr" where
  "blkdev_get_dev dv d =
     (case find (\<lambda>a. dv_devt (devs d a) = dv) (dev_blk_dev d) of Some a \<Rightarrow> dv_pdata (devs d a) | None \<Rightarrow> NULL)"

text \<open>The inode is used without a test: a failed lookup is a null dereference.\<close>

definition blkdev_get_path :: "fsops \<Rightarrow> (icache \<Rightarrow> addr) \<Rightarrow> u8 list \<Rightarrow> devfs \<Rightarrow> vfs \<Rightarrow> (addr \<times> vfs) option" where
  "blkdev_get_path ops al path d v =
     Option.bind (lookup_vfs ops al v path) (\<lambda>(a, v1).
       if a = NULL then None
       else if \<not> S_ISBLK (i_mode (inodes (ic v1) a)) then Some (NULL, v1)
       else Some (blkdev_get_dev (i_rdev (inodes (ic v1) a)) d, v1\<lparr>ic := iput a (ic v1)\<rparr>))"

definition getdev :: "devfs \<Rightarrow> inode \<Rightarrow> addr option" where
  "getdev d i =
     (if S_ISBLK (i_mode i) then Some (device_get_devblk (i_rdev i) d)
      else let maj = unat (MAJOR (i_rdev i)); mi = unat (MINOR (i_rdev i))
           in if maj \<ge> MAXMAJ \<or> mi \<ge> MAXMIN then None else Some (chrdev_tab d maj mi))"

definition read_devfs :: "devfs \<Rightarrow> (addr \<Rightarrow> inode) \<Rightarrow> kfile \<Rightarrow> nat \<Rightarrow> (int \<times> u8 list) option" where
  "read_devfs d nodes f n =
     map_option (\<lambda>a. case (if a = NULL then None else dv_read (devs d a)) of
         None \<Rightarrow> (- ENOSYS, [])
       | Some rd \<Rightarrow> rd (dv_devt (devs d a)) (dv_pdata (devs d a)) n) (getdev d (nodes (f_inode f)))"

text \<open>\<^verbatim>\<open>write_devfs\<close> tests the \<^verbatim>\<open>read\<close> pointer and calls \<^verbatim>\<open>write\<close>.\<close>

definition write_devfs :: "devfs \<Rightarrow> (addr \<Rightarrow> inode) \<Rightarrow> kfile \<Rightarrow> u8 list \<Rightarrow> int option" where
  "write_devfs d nodes f bs =
     Option.bind (getdev d (nodes (f_inode f))) (\<lambda>a.
       if a = NULL \<or> dv_read (devs d a) = None then Some (- ENOSYS)
       else map_option (\<lambda>wr. wr (dv_devt (devs d a)) (dv_pdata (devs d a)) bs) (dv_write (devs d a)))"

definition open_devfs :: "devfs \<Rightarrow> inode \<Rightarrow> kfile \<Rightarrow> (int \<times> kfile) option" where
  "open_devfs d i f =
     map_option (\<lambda>a. case (if a = NULL then None else dv_open (devs d a)) of None \<Rightarrow> (0, f) | Some op \<Rightarrow> op i f)
       (getdev d i)"

definition close_devfs :: "devfs \<Rightarrow> (addr \<Rightarrow> inode) \<Rightarrow> kfile \<Rightarrow> int option" where
  "close_devfs d nodes f =
     map_option (\<lambda>a. case (if a = NULL then None else dv_close (devs d a)) of None \<Rightarrow> 0 | Some cl \<Rightarrow> cl f)
       (getdev d (nodes (f_inode f)))"

definition ioctl_devfs :: "devfs \<Rightarrow> (addr \<Rightarrow> inode) \<Rightarrow> kfile \<Rightarrow> u32 \<Rightarrow> addr \<Rightarrow> int option" where
  "ioctl_devfs d nodes f opc arg =
     map_option (\<lambda>a. case (if a = NULL then None else dv_ioctl (devs d a)) of
         None \<Rightarrow> - ENOSYS | Some io \<Rightarrow> io (dv_devt (devs d a)) (dv_pdata (devs d a)) opc arg)
       (getdev d (nodes (f_inode f)))"

text \<open>\<^verbatim>\<open>read_inode\<close> of the super block: the whole inode is copied.\<close>

definition dev_inoder :: "devfs \<Rightarrow> inode \<Rightarrow> inode" where
  "dev_inoder d i =
     (if i_ino i = 0 then devnode d
      else case find (\<lambda>e. de_in e \<noteq> NULL \<and> i_ino (dnodes d (de_in e)) = i_ino i) (dd_entry (devfs_root d)) of
             Some e \<Rightarrow> dnodes d (de_in e)
           | None \<Rightarrow> i)"

section \<open>The memory devices\<close>

text \<open>\<^verbatim>\<open>read_null\<close> serves null, zero and random by minor number; the last reads the entropy
  pool four bytes at a time.  The result, the bytes stored and the new pool.\<close>

function rand_fill :: "blake2s_ctx \<Rightarrow> addr \<Rightarrow> nat \<Rightarrow> u8 list \<Rightarrow> (u8 list \<times> u8 list) option" where
  "rand_fill ctx buf len pool =
     (if len > 4 then
        Option.bind (get_rand ctx pool buf 4) (\<lambda>(r, pool1).
        map_option (\<lambda>(rs, pool2). (r @ rs, pool2)) (rand_fill ctx (buf + 4) (len - 4) pool1))
      else get_rand ctx pool buf len)"
  by pat_completeness auto
termination by (relation "measure (\<lambda>(_, _, len, _). len)") auto

declare rand_fill.simps [simp del]

definition read_null :: "blake2s_ctx \<Rightarrow> dev \<Rightarrow> addr \<Rightarrow> nat \<Rightarrow> u8 list \<Rightarrow> (int \<times> u8 list \<times> u8 list) option" where
  "read_null ctx dv buf cnt pool =
     (let mi = MINOR dv in
      if mi = 1 then Some (0, [], pool)
      else if mi = 2 then Some (int cnt, replicate cnt 0, pool)
      else if mi = 3 then map_option (\<lambda>(bs, pool'). (int cnt, bs, pool')) (rand_fill ctx buf cnt pool)
      else Some (0, [], pool))"

definition write_null :: "dev \<Rightarrow> addr \<Rightarrow> u8 list \<Rightarrow> int" where
  "write_null dv pd bs = 0"

text \<open>\<^verbatim>\<open>nulldev\<close>, \<^verbatim>\<open>zerodev\<close> and \<^verbatim>\<open>randdev\<close> differ in their names only.\<close>

definition mem_device :: "blake2s_ctx \<Rightarrow> u8 list \<Rightarrow> addr \<Rightarrow> u8 list \<Rightarrow> device" where
  "mem_device ctx pool buf name = \<lparr>dv_name = name, dv_devt = 0, dv_pdata = NULL,
     dv_read = Some (\<lambda>dv pd n. case read_null ctx dv buf n pool of Some (r, bs, _) \<Rightarrow> (r, bs) | None \<Rightarrow> (0, [])),
     dv_write = Some write_null, dv_open = None, dv_close = None, dv_ioctl = None\<rparr>"

text \<open>\<^verbatim>\<open>init_devs\<close>: the arguments are the addresses of \<^verbatim>\<open>devblock\<close>, \<^verbatim>\<open>dev_iops\<close>, \<^verbatim>\<open>dev_fops\<close>,
  \<^verbatim>\<open>devfs_root\<close>, of the three devices and of the three blocks from \<^verbatim>\<open>malloc\<close>.\<close>

definition bytes :: "string \<Rightarrow> u8 list" where
  "bytes s = map (\<lambda>c. of_nat (of_char c)) s"

definition init_devs :: "addr \<Rightarrow> addr \<Rightarrow> addr \<Rightarrow> addr \<Rightarrow> addr \<times> addr \<times> addr \<Rightarrow> addr \<times> addr \<times> addr \<Rightarrow> devfs \<Rightarrow> devfs option" where
  "init_devs sb iops fops root dvs nws d =
     (let (dnull, dzero, drand) = dvs; (n1, n2, n3) = nws;
          d1 = d\<lparr>devnode := zero_inode\<lparr>i_ino := 0, i_mode := S_IFDIR OR 0x1f6, i_ops := iops, i_fops := fops,
                   i_refs := 1, i_pdata := root, i_dev := 0, i_sb := sb\<rparr>,
                 next_dev := next_dev d + 1\<rparr>
      in Option.bind (creat_devfs sb fops n1 (bytes ''null'') dnull 1 1 d1) (\<lambda>d2.
         Option.bind (creat_devfs sb fops n2 (bytes ''zero'') dzero 1 2 d2)
           (creat_devfs sb fops n3 (bytes ''random'') drand 1 3)))"

text \<open>The tables \<^verbatim>\<open>dev_iops\<close> and \<^verbatim>\<open>dev_fops\<close> as the virtual file system sees them; \<open>iops\<close> and
  \<open>fops\<close> are their addresses.  \<^verbatim>\<open>close\<close> is not in the table.  Every devfs inode has its
  number in range (\<open>getdev\<close> is not \<^const>\<open>None\<close>), see \<open>devfs_inv\<close>.\<close>

definition dev_fsops :: "addr \<Rightarrow> addr \<Rightarrow> devfs \<Rightarrow> (addr \<Rightarrow> inode) \<Rightarrow> fsops" where
  "dev_fsops iops fops d nodes =
     \<lparr>op_lookup = (\<lambda>x. if x = iops then Some (lookup_dev d) else None),
      op_creat = (\<lambda>_. None), op_unlink = (\<lambda>_. None),
      op_open = (\<lambda>x. if x = fops then Some (\<lambda>i f. case open_devfs d i f of Some r \<Rightarrow> r | None \<Rightarrow> (- EFAULT, f)) else None),
      op_close = (\<lambda>_. None),
      op_read = (\<lambda>x. if x = fops then Some (\<lambda>f n. case read_devfs d nodes f n of
                   Some (r, bs) \<Rightarrow> (r, bs, f) | None \<Rightarrow> (- EFAULT, [], f)) else None),
      op_write = (\<lambda>x. if x = fops then Some (\<lambda>f bs. case write_devfs d nodes f bs of
                   Some r \<Rightarrow> (r, f) | None \<Rightarrow> (- EFAULT, f)) else None),
      op_readdir = (\<lambda>_. None),
      op_ioctl = (\<lambda>x. if x = fops then Some (\<lambda>f opc arg. case ioctl_devfs d nodes f opc arg of
                   Some r \<Rightarrow> r | None \<Rightarrow> - EFAULT) else None)\<rparr>"

section \<open>Device numbers round trip\<close>

lemma dev_masks:
  "(0xfff :: 'a::len word) = mask 12" "(0xff :: 'a word) = mask 8" "(0xfff00 :: dev) = push_bit 8 (mask 12)"
  by (simp_all add: mask_eq_exp_minus_1 push_bit_eq_mult)

lemma MINOR_MKDEV [simp]: "MINOR (MKDEV M m) = m"
  unfolding MINOR_def MKDEV_def dev_masks
  by (rule bit_word_eqI) (auto simp: bit_simps)

lemma MAJOR_MKDEV: "MAJOR (MKDEV M m) = M AND 0xfff"
  unfolding MAJOR_def MKDEV_def dev_masks
  by (rule bit_word_eqI) (auto simp: bit_simps)

lemma MAJOR_MKDEV_small [simp]: "unat M < MAXMAJ \<Longrightarrow> MAJOR (MKDEV M m) = M"
proof -
  assume "unat M < MAXMAJ"
  then have "M < 2 ^ 12" by (simp add: word_less_nat_alt MAXMAJ_def)
  then have "take_bit 12 M = M" by (rule less_mask_eq [of M 12, folded take_bit_eq_mask])
  then show ?thesis by (simp add: MAJOR_MKDEV dev_masks take_bit_eq_mask)
qed

section \<open>The directory invariant\<close>

definition ents :: "devfs \<Rightarrow> dir_entry list" where
  "ents d = take (dd_count (devfs_root d)) (dd_entry (devfs_root d))"

definition dev_names :: "devfs \<Rightarrow> u8 list set" where
  "dev_names d = de_name ` set (ents d)"

text \<open>The used entries come first, number \<open>k\<close> holding inode \<open>k + 1\<close> of a registered device.\<close>

definition devfs_inv :: "devfs \<Rightarrow> bool" where
  "devfs_inv d \<longleftrightarrow> length (dd_entry (devfs_root d)) = 16 \<and> dd_count (devfs_root d) \<le> 16 \<and>
     next_dev d = of_nat (Suc (dd_count (devfs_root d))) \<and>
     (\<forall>k<dd_count (devfs_root d). let e = dd_entry (devfs_root d) ! k in
        de_flg e = DE_USED \<and> de_in e \<noteq> NULL \<and> i_ino (dnodes d (de_in e)) = of_nat (Suc k) \<and>
        (\<exists>a. getdev d (dnodes d (de_in e)) = Some a \<and> a \<noteq> NULL)) \<and>
     (\<forall>k<16. dd_count (devfs_root d) \<le> k \<longrightarrow>
        de_flg (dd_entry (devfs_root d) ! k) = 0 \<and> de_in (dd_entry (devfs_root d) ! k) = NULL)"

text \<open>Opening a name: look it up, read the inode, find its device.\<close>

definition dev_resolve :: "devfs \<Rightarrow> inode \<Rightarrow> u8 list \<Rightarrow> addr option" where
  "dev_resolve d dir name =
     (let i = lookup_dev d dir name
      in if i = - 1 then None else getdev d (dev_inoder d (zero_inode\<lparr>i_ino := i\<rparr>)))"

lemma free_entry_first:
  assumes "n < length es" "\<forall>k<n. de_flg (es ! k) AND DE_USED \<noteq> 0" "de_flg (es ! n) AND DE_USED = 0"
  shows "free_entry es k0 = Some (k0 + n)"
  using assms
proof (induction es arbitrary: n k0)
  case (Cons e es)
  then show ?case by (cases n) (auto simp: All_less_Suc2)
qed simp

lemma unat_ino: "i \<le> 16 \<Longrightarrow> unat (of_nat (Suc i) :: u32) = Suc i"
  by (simp add: unat_of_nat del: of_nat_Suc)

lemma ino_inj: "i \<le> 16 \<Longrightarrow> j \<le> 16 \<Longrightarrow> (of_nat (Suc i) :: u32) = of_nat (Suc j) \<longleftrightarrow> i = j"
  using unat_ino [of i] unat_ino [of j] by (metis nat.inject)

lemma ino_not: "i \<le> 16 \<Longrightarrow> (of_nat (Suc i) :: u32) \<noteq> 0 \<and> (of_nat (Suc i) :: u32) \<noteq> - 1"
proof -
  assume i: "i \<le> 16"
  have "unat (- 1 :: u32) = 4294967295" by (simp add: unsigned_minus_1_eq_mask mask_eq_exp_minus_1)
  then show ?thesis using unat_ino [OF i] i by (auto simp del: of_nat_Suc)
qed

lemma devfs_entry:
  assumes "devfs_inv d" "k < dd_count (devfs_root d)"
  shows "de_flg (dd_entry (devfs_root d) ! k) = DE_USED" "de_in (dd_entry (devfs_root d) ! k) \<noteq> NULL"
    "i_ino (dnodes d (de_in (dd_entry (devfs_root d) ! k))) = of_nat (Suc k)" "k < 16"
    "\<exists>a. getdev d (dnodes d (de_in (dd_entry (devfs_root d) ! k))) = Some a \<and> a \<noteq> NULL"
  using assms by (auto simp: devfs_inv_def Let_def)

lemma devfs_rest:
  assumes "devfs_inv d" "k < 16" "dd_count (devfs_root d) \<le> k"
  shows "de_flg (dd_entry (devfs_root d) ! k) = 0" "de_in (dd_entry (devfs_root d) ! k) = NULL"
  using assms by (auto simp: devfs_inv_def Let_def)

lemma devfs_len: "devfs_inv d \<Longrightarrow> length (dd_entry (devfs_root d)) = 16 \<and> dd_count (devfs_root d) \<le> 16"
  by (simp add: devfs_inv_def)

text \<open>The inode read by number is the entry's own.\<close>

lemma dev_inoder_entry:
  assumes inv: "devfs_inv d" and k: "k < dd_count (devfs_root d)"
  shows "dev_inoder d (zero_inode\<lparr>i_ino := of_nat (Suc k)\<rparr>) = dnodes d (de_in (dd_entry (devfs_root d) ! k))"
proof -
  let ?es = "dd_entry (devfs_root d)"
  let ?P = "\<lambda>e. de_in e \<noteq> NULL \<and> i_ino (dnodes d (de_in e)) = of_nat (Suc k)"
  note len = devfs_len [OF inv]
  have "?P (?es ! k)" using devfs_entry [OF inv k] by simp
  moreover have "\<not> ?P (?es ! j)" if "j < k" for j
    using devfs_entry(3) [OF inv, of j] that k len ino_inj [of j k] by (auto simp del: of_nat_Suc)
  ultimately have "find ?P ?es = Some (?es ! k)"
    unfolding find_Some_iff using k len by (intro exI [of _ k]) simp
  then show ?thesis using ino_not [of k] k len by (simp add: dev_inoder_def del: of_nat_Suc)
qed

lemma dev_resolve_find:
  assumes inv: "devfs_inv d" and "i_pdata dir \<noteq> NULL"
  shows "dev_resolve d dir name =
    (case find (\<lambda>e. de_name e = name) (ents d) of None \<Rightarrow> None | Some e \<Rightarrow> getdev d (dnodes d (de_in e)))"
proof (cases "find (\<lambda>e. de_name e = name) (ents d)")
  case None
  then show ?thesis using assms(2) by (simp add: dev_resolve_def lookup_dev_def ents_def)
next
  case (Some e)
  then have "e \<in> set (ents d)" by (auto dest: find_SomeD)
  then obtain k where k: "k < dd_count (devfs_root d)" "e = dd_entry (devfs_root d) ! k"
    using devfs_len [OF inv] by (auto simp: ents_def in_set_conv_nth)
  have "lookup_dev d dir name = of_nat (Suc k)"
    using Some assms(2) devfs_entry(3) [OF inv k(1)] k(2) by (simp add: lookup_dev_def ents_def)
  then show ?thesis
    using Some dev_inoder_entry [OF inv k(1)] ino_not [of k] k devfs_len [OF inv]
    by (simp add: dev_resolve_def del: of_nat_Suc)
qed

lemma dir_add_inv:
  assumes "devfs_inv d" "dd_count (devfs_root d) < 16" "length name < 32"
  shows "dir_add (devfs_root d) name a =
    Some (\<lparr>dd_entry = (dd_entry (devfs_root d))[dd_count (devfs_root d) := \<lparr>de_name = name, de_flg = DE_USED, de_in = a\<rparr>],
      dd_count = Suc (dd_count (devfs_root d))\<rparr>)"
proof -
  have "free_entry (dd_entry (devfs_root d)) 0 = Some (0 + dd_count (devfs_root d))"
    by (rule free_entry_first) (use assms devfs_len [of d] devfs_entry(1) [of d] devfs_rest(1) [of d] in
      \<open>auto simp: DE_USED_def\<close>)
  then show ?thesis using assms(3) by (simp add: dir_add_def)
qed

text \<open>Adding one node: \<open>g\<close> is the device the new node resolves to.\<close>

lemma dev_node_correct:
  assumes inv: "devfs_inv d" and full: "dd_count (devfs_root d) < 16" and nm: "length name < 32" "name \<notin> dev_names d"
    and nw: "nw \<noteq> NULL" "nw \<notin> de_in ` set (ents d)"
    and d1: "devfs_root d1 = devfs_root d" "dnodes d1 = dnodes d" "next_dev d1 = next_dev d"
    and dn: "dev_node sb fops md nw name dv maj mi d1 = Some d'"
    and old: "\<And>i a. i \<in> dnodes d ` de_in ` set (ents d) \<Longrightarrow> getdev d i = Some a \<Longrightarrow> a \<noteq> NULL \<Longrightarrow> getdev d' i = Some a"
    and g: "getdev d' (zero_inode\<lparr>i_mode := md, i_ino := next_dev d, i_sb := sb, i_fops := fops, i_refs := 1,
                i_rdev := MKDEV maj mi\<rparr>) = Some g" "g \<noteq> NULL"
    and dir: "i_pdata dir \<noteq> NULL"
  shows "devfs_inv d' \<and> dev_resolve d' dir name = Some g \<and>
    (\<forall>n. n \<noteq> name \<longrightarrow> dev_resolve d' dir n = dev_resolve d dir n) \<and> dev_names d' = insert name (dev_names d)"
proof -
  let ?c = "dd_count (devfs_root d)" and ?e = "\<lparr>de_name = name, de_flg = DE_USED, de_in = nw\<rparr>"
  let ?i = "zero_inode\<lparr>i_mode := md, i_ino := next_dev d, i_sb := sb, i_fops := fops, i_refs := 1, i_rdev := MKDEV maj mi\<rparr>"
  note len = devfs_len [OF inv]
  have f: "devfs_root d' = \<lparr>dd_entry = (dd_entry (devfs_root d))[?c := ?e], dd_count = Suc ?c\<rparr>"
    "dnodes d' = (dnodes d)(nw := ?i)" "next_dev d' = next_dev d + 1"
    using dn d1 dir_add_inv [OF inv full nm(1), of nw] by (auto simp: dev_node_def Let_def)
  have en: "ents d' = ents d @ [?e]"
    using full len by (simp add: ents_def f take_Suc_conv_app_nth)
  have nd: "dnodes d' (de_in e) = dnodes d (de_in e)" if "e \<in> set (ents d)" for e
    using nw(2) that by (auto simp: f)
  have inent: "dd_entry (devfs_root d) ! k \<in> set (ents d)" if "k < ?c" for k
    using that len by (auto simp: ents_def in_set_conv_nth)
  have gd: "getdev d' (dnodes d' (de_in e)) = getdev d (dnodes d (de_in e))" if e: "e \<in> set (ents d)" for e
  proof -
    obtain k where "k < ?c" "e = dd_entry (devfs_root d) ! k" using e len by (auto simp: ents_def in_set_conv_nth)
    then show ?thesis using devfs_entry(5) [OF inv] old nd e by fastforce
  qed
  have inv': "devfs_inv d'"
  proof -
    have n: "next_dev d = of_nat (Suc ?c)" using inv by (simp add: devfs_inv_def)
    have "let e = dd_entry (devfs_root d') ! k in
        de_flg e = DE_USED \<and> de_in e \<noteq> NULL \<and> i_ino (dnodes d' (de_in e)) = of_nat (Suc k) \<and>
        (\<exists>a. getdev d' (dnodes d' (de_in e)) = Some a \<and> a \<noteq> NULL)" if k: "k < Suc ?c" for k
    proof (cases "k = ?c")
      case True
      then show ?thesis using g nw(1) full len n by (simp add: f)
    next
      case False
      then have "k < ?c" using k by simp
      with devfs_entry [OF inv this] nd [OF inent] gd [OF inent] False len show ?thesis by (simp add: f(1))
    qed
    then show ?thesis
      using full len n devfs_rest [OF inv] unfolding devfs_inv_def by (simp add: f(1,3))
  qed
  have fnd: "find (\<lambda>e. de_name e = n) (ents d') =
      (case find (\<lambda>e. de_name e = n) (ents d) of Some e \<Rightarrow> Some e | None \<Rightarrow> if n = name then Some ?e else None)" for n
    by (simp add: en find_append split: option.split)
  have "find (\<lambda>e. de_name e = name) (ents d) = None"
    using nm(2) by (auto simp: find_None_iff dev_names_def)
  then have "dev_resolve d' dir name = Some g"
    using g by (simp add: dev_resolve_find [OF inv' dir] fnd f(2))
  moreover have "dev_resolve d' dir n = dev_resolve d dir n" if "n \<noteq> name" for n
    using that gd by (auto simp: dev_resolve_find [OF inv' dir] dev_resolve_find [OF inv dir] fnd
        split: option.splits dest: find_SomeD)
  ultimately show ?thesis using inv' by (simp add: dev_names_def en)
qed

lemma dev_node_some:
  assumes "devfs_inv d" "dd_count (devfs_root d) < 16" "length name < 32" "devfs_root d1 = devfs_root d"
  shows "\<exists>d'. dev_node sb fops md nw name dv maj mi d1 = Some d'"
  using assms dir_add_inv [of d name nw] by (simp add: dev_node_def Let_def)

lemma modes [simp]: "\<not> S_ISBLK (S_IFCHR OR 0x1b6)" "S_ISBLK (S_IFBLK OR 0x1b6)" "S_ISCHR (S_IFCHR OR 0x1b6)"
  by (simp_all add: S_ISBLK_def S_ISCHR_def S_IFMT_def S_IFCHR_def S_IFBLK_def)

lemma find_devt_upd:
  "dv \<notin> set xs \<Longrightarrow> find (\<lambda>a. dv_devt (((devs d)(dv := v)) a) = t) xs = find (\<lambda>a. dv_devt (devs d a) = t) xs"
  by (rule find_cong) auto

lemma creat_devfs_inv:
  assumes inv: "devfs_inv d" and full: "dd_count (devfs_root d) < 16" and nm: "length name < 32" "name \<notin> dev_names d"
    and nw: "nw \<noteq> NULL" "nw \<notin> de_in ` set (ents d)"
    and mm: "unat maj < MAXMAJ" "unat mi < MAXMIN" and dv: "dv \<noteq> NULL" "dv \<notin> set (dev_blk_dev d)"
    and dir: "i_pdata dir \<noteq> NULL"
  shows "\<exists>d'. creat_devfs sb fops nw name dv maj mi d = Some d' \<and> devfs_inv d' \<and>
    dev_resolve d' dir name = Some (if chrdev_tab d (unat maj) (unat mi) = NULL then dv else chrdev_tab d (unat maj) (unat mi)) \<and>
    (\<forall>n. n \<noteq> name \<longrightarrow> dev_resolve d' dir n = dev_resolve d dir n) \<and> dev_names d' = insert name (dev_names d) \<and>
    ents d' = ents d @ [\<lparr>de_name = name, de_flg = DE_USED, de_in = nw\<rparr>] \<and> dev_blk_dev d' = dev_blk_dev d \<and>
    chrdev_tab d' = (chrdev_tab d)(unat maj := (chrdev_tab d (unat maj))(unat mi :=
      if chrdev_tab d (unat maj) (unat mi) = NULL then dv else chrdev_tab d (unat maj) (unat mi)))"
proof -
  let ?t = "chrdev_tab d" and ?M = "unat maj" and ?m = "unat mi"
  let ?g = "if ?t ?M ?m = NULL then dv else ?t ?M ?m"
  define d1 where "d1 = (if ?t ?M ?m = NULL then d\<lparr>chrdev_tab := ?t(?M := (?t ?M)(?m := dv))\<rparr> else d)"
  have f1: "devfs_root d1 = devfs_root d" "dnodes d1 = dnodes d" "next_dev d1 = next_dev d" "dev_blk_dev d1 = dev_blk_dev d"
    "devs d1 = devs d" "chrdev_tab d1 = ?t(?M := (?t ?M)(?m := ?g))" by (auto simp: d1_def fun_eq_iff)
  have c: "creat_devfs sb fops nw name dv maj mi d = dev_node sb fops (S_IFCHR OR 0x1b6) nw name dv maj mi d1"
    using mm by (simp add: creat_devfs_def register_dev_def d1_def)
  obtain d' where d': "dev_node sb fops (S_IFCHR OR 0x1b6) nw name dv maj mi d1 = Some d'"
    using dev_node_some [OF inv full nm(1) f1(1)] by blast
  have f2: "chrdev_tab d' = chrdev_tab d1" "dev_blk_dev d' = dev_blk_dev d" "devs d' = (devs d)(dv := (devs d dv)\<lparr>dv_devt := MKDEV maj mi\<rparr>)"
    "ents d' = ents d @ [\<lparr>de_name = name, de_flg = DE_USED, de_in = nw\<rparr>]"
    using d' f1 dir_add_inv [OF inv full nm(1), of nw] full devfs_len [OF inv]
    by (auto simp: dev_node_def Let_def ents_def take_Suc_conv_app_nth)
  have blk: "device_get_devblk t d' = device_get_devblk t d" for t
    using find_devt_upd [OF dv(2), of d] by (simp add: device_get_devblk_def f2 del: fun_upd_apply)
  have "devfs_inv d' \<and> dev_resolve d' dir name = Some ?g \<and>
    (\<forall>n. n \<noteq> name \<longrightarrow> dev_resolve d' dir n = dev_resolve d dir n) \<and> dev_names d' = insert name (dev_names d)"
  proof (rule dev_node_correct [OF inv full nm nw f1(1-3) d' _ _ _ dir])
    show "getdev d' i = Some a" if "getdev d i = Some a" "a \<noteq> NULL" for i a
      using that blk f1(6) f2(1) unfolding getdev_def by (auto simp: Let_def split: if_splits)
    show "getdev d' (zero_inode\<lparr>i_mode := S_IFCHR OR 0x1b6, i_ino := next_dev d, i_sb := sb, i_fops := fops,
        i_refs := 1, i_rdev := MKDEV maj mi\<rparr>) = Some ?g"
      using mm f1(6) f2(1) by (simp add: getdev_def Let_def)
  qed (use dv in auto)
  then show ?thesis using c d' f1 f2 by simp
qed

lemma creat_blockdev_inv:
  assumes inv: "devfs_inv d" and full: "dd_count (devfs_root d) < 16" and nm: "length name < 32" "name \<notin> dev_names d"
    and nw: "nw \<noteq> NULL" "nw \<notin> de_in ` set (ents d)" and dv: "dv \<noteq> NULL" "dv \<notin> set (dev_blk_dev d)"
    and num: "device_get_devblk (MKDEV maj mi) d = NULL" and ne: "NULL \<notin> set (dev_blk_dev d)"
    and dir: "i_pdata dir \<noteq> NULL"
  shows "\<exists>d'. creat_blockdev sb fops nw name dv maj mi d = Some d' \<and> devfs_inv d' \<and>
    dev_resolve d' dir name = Some dv \<and> blkdev_get_dev (MKDEV maj mi) d' = dv_pdata (devs d dv) \<and>
    (\<forall>n. n \<noteq> name \<longrightarrow> dev_resolve d' dir n = dev_resolve d dir n)"
proof -
  let ?d1 = "d\<lparr>dev_blk_dev := dev_blk_dev d @ [dv]\<rparr>"
  have "devfs_root ?d1 = devfs_root d" by simp
  from dev_node_some [OF inv full nm(1) this]
  obtain d' where d': "dev_node sb fops (S_IFBLK OR 0x1b6) nw name dv maj mi ?d1 = Some d'" by blast
  have f2: "chrdev_tab d' = chrdev_tab d" "dev_blk_dev d' = dev_blk_dev d @ [dv]"
    "devs d' = (devs d)(dv := (devs d dv)\<lparr>dv_devt := MKDEV maj mi\<rparr>)"
    using d' by (auto simp: dev_node_def Let_def)
  have fnd: "find (\<lambda>a. dv_devt (devs d' a) = t) (dev_blk_dev d') =
      (case find (\<lambda>a. dv_devt (devs d a) = t) (dev_blk_dev d) of Some a \<Rightarrow> Some a
       | None \<Rightarrow> if t = MKDEV maj mi then Some dv else None)" for t
    using find_devt_upd [OF dv(2), of d "(devs d dv)\<lparr>dv_devt := MKDEV maj mi\<rparr>" t]
    by (simp add: f2 find_append split: option.split del: fun_upd_apply) simp
  have none: "find (\<lambda>a. dv_devt (devs d a) = MKDEV maj mi) (dev_blk_dev d) = None"
    using num ne by (auto simp: device_get_devblk_def split: option.splits dest: find_SomeD)
  have "devfs_inv d' \<and> dev_resolve d' dir name = Some dv \<and>
    (\<forall>n. n \<noteq> name \<longrightarrow> dev_resolve d' dir n = dev_resolve d dir n) \<and> dev_names d' = insert name (dev_names d)"
  proof (rule dev_node_correct [OF inv full nm nw _ _ _ d' _ _ dv(1) dir])
    show "getdev d' i = Some a" if "getdev d i = Some a" "a \<noteq> NULL" for i a
      using that f2(1) unfolding getdev_def
      by (auto simp: Let_def device_get_devblk_def fnd split: if_splits option.splits)
    show "getdev d' (zero_inode\<lparr>i_mode := S_IFBLK OR 0x1b6, i_ino := next_dev d, i_sb := sb, i_fops := fops,
        i_refs := 1, i_rdev := MKDEV maj mi\<rparr>) = Some dv"
      using none by (simp add: getdev_def device_get_devblk_def fnd)
  qed auto
  moreover have "blkdev_get_dev (MKDEV maj mi) d' = dv_pdata (devs d dv)"
    using none by (simp add: blkdev_get_dev_def fnd) (simp add: f2)
  ultimately show ?thesis using d' by (simp add: creat_blockdev_def)
qed

text \<open>C17. Creating a device node in \<^verbatim>\<open>/dev\<close> (a free name of fewer than 32 characters, a free
  directory slot) succeeds; afterwards opening the name (lookup, inode by number, device by
  number) gives the device registered under the node's numbers, which is the new device unless
  the numbers were taken (the failure of \<^verbatim>\<open>register_dev\<close> is ignored), every other name still
  leads to its device, and the directory invariant holds.  The same for a block device with a
  new number, which \<^verbatim>\<open>blkdev_get_dev\<close> then finds.\<close>

theorem devfs_names_devices:
  assumes "devfs_inv d" "dd_count (devfs_root d) < 16" "length name < 32" "name \<notin> dev_names d"
    and "nw \<noteq> NULL" "nw \<notin> de_in ` set (ents d)" "dv \<noteq> NULL" "dv \<notin> set (dev_blk_dev d)" "i_pdata dir \<noteq> NULL"
  shows "(unat maj < MAXMAJ \<and> unat mi < MAXMIN \<longrightarrow>
      (\<exists>d'. creat_devfs sb fops nw name dv maj mi d = Some d' \<and> devfs_inv d' \<and>
        dev_resolve d' dir name = Some (if chrdev_tab d (unat maj) (unat mi) = NULL then dv
                                        else chrdev_tab d (unat maj) (unat mi)) \<and>
        (\<forall>n. n \<noteq> name \<longrightarrow> dev_resolve d' dir n = dev_resolve d dir n))) \<and>
    (device_get_devblk (MKDEV maj mi) d = NULL \<and> NULL \<notin> set (dev_blk_dev d) \<longrightarrow>
      (\<exists>d'. creat_blockdev sb fops nw name dv maj mi d = Some d' \<and> devfs_inv d' \<and>
        dev_resolve d' dir name = Some dv \<and> blkdev_get_dev (MKDEV maj mi) d' = dv_pdata (devs d dv) \<and>
        (\<forall>n. n \<noteq> name \<longrightarrow> dev_resolve d' dir n = dev_resolve d dir n)))"
proof (intro conjI impI)
  assume "unat maj < MAXMAJ \<and> unat mi < MAXMIN"
  show "\<exists>d'. creat_devfs sb fops nw name dv maj mi d = Some d' \<and> devfs_inv d' \<and>
        dev_resolve d' dir name = Some (if chrdev_tab d (unat maj) (unat mi) = NULL then dv
                                        else chrdev_tab d (unat maj) (unat mi)) \<and>
        (\<forall>n. n \<noteq> name \<longrightarrow> dev_resolve d' dir n = dev_resolve d dir n)"
    using creat_devfs_inv [OF assms(1-6) _ _ assms(7,8,9)] \<open>unat maj < MAXMAJ \<and> unat mi < MAXMIN\<close> by blast
next
  assume "device_get_devblk (MKDEV maj mi) d = NULL \<and> NULL \<notin> set (dev_blk_dev d)"
  then show "\<exists>d'. creat_blockdev sb fops nw name dv maj mi d = Some d' \<and> devfs_inv d' \<and>
        dev_resolve d' dir name = Some dv \<and> blkdev_get_dev (MKDEV maj mi) d' = dv_pdata (devs d dv) \<and>
        (\<forall>n. n \<noteq> name \<longrightarrow> dev_resolve d' dir n = dev_resolve d dir n)"
    using creat_blockdev_inv [OF assms(1-8) _ _ assms(9)] by blast
qed

section \<open>The booted device file system\<close>

definition no_device :: device where
  "no_device = \<lparr>dv_name = [], dv_devt = 0, dv_pdata = NULL, dv_read = None, dv_write = None, dv_open = None,
     dv_close = None, dv_ioctl = None\<rparr>"

text \<open>Memory before \<^verbatim>\<open>init_devs\<close>: everything zero, the three static devices at \<open>1\<close>, \<open>2\<close>, \<open>3\<close>.\<close>

definition raw_devfs :: "blake2s_ctx \<Rightarrow> u8 list \<Rightarrow> addr \<Rightarrow> devfs" where
  "raw_devfs ctx pool buf =
     \<lparr>devs = (\<lambda>_. no_device)(1 := mem_device ctx pool buf (bytes ''null dev''), 2 := mem_device ctx pool buf (bytes ''zero dev''),
        3 := mem_device ctx pool buf (bytes ''rand dev'')),
      chrdev_tab = (\<lambda>_ _. NULL), dev_blk_dev = [],
      devfs_root = \<lparr>dd_entry = replicate 16 \<lparr>de_name = [], de_flg = 0, de_in = NULL\<rparr>, dd_count = 0\<rparr>,
      dnodes = (\<lambda>_. zero_inode), devnode = zero_inode, next_dev = 0\<rparr>"

lemma creat_devfs_devnode: "creat_devfs sb fops nw name dv maj mi d = Some d' \<Longrightarrow> devnode d' = devnode d"
  by (auto simp: creat_devfs_def dev_node_def register_dev_def Let_def bind_eq_Some_conv split: if_splits)

lemma init_devs_inv:
  assumes dir: "i_pdata dir \<noteq> NULL"
  shows "\<exists>d. init_devs sb iops fops root (1, 2, 3) (10, 11, 12) (raw_devfs ctx pool buf) = Some d \<and> devfs_inv d \<and>
    dev_resolve d dir (bytes ''null'') = Some 1 \<and> dev_resolve d dir (bytes ''zero'') = Some 2 \<and>
    dev_resolve d dir (bytes ''random'') = Some 3 \<and>
    dev_names d = {bytes ''null'', bytes ''zero'', bytes ''random''} \<and> de_in ` set (ents d) = {10, 11, 12} \<and>
    dev_blk_dev d = [] \<and> dd_count (devfs_root d) = 3 \<and>
    devnode d = zero_inode\<lparr>i_ino := 0, i_mode := S_IFDIR OR 0x1f6, i_ops := iops, i_fops := fops, i_refs := 1,
      i_pdata := root, i_dev := 0, i_sb := sb\<rparr>"
proof -
  let ?d1 = "(raw_devfs ctx pool buf)\<lparr>devnode := zero_inode\<lparr>i_ino := 0, i_mode := S_IFDIR OR 0x1f6, i_ops := iops,
     i_fops := fops, i_refs := 1, i_pdata := root, i_dev := 0, i_sb := sb\<rparr>, next_dev := 1\<rparr>"
  have i1: "devfs_inv ?d1" "ents ?d1 = []" "dev_names ?d1 = {}" "dev_blk_dev ?d1 = []" "chrdev_tab ?d1 = (\<lambda>_ _. NULL)"
    "dd_count (devfs_root ?d1) = 0"
    by (simp_all add: devfs_inv_def raw_devfs_def ents_def dev_names_def)
  have ne: "bytes ''null'' \<noteq> bytes ''zero''" "bytes ''zero'' \<noteq> bytes ''random''" "bytes ''null'' \<noteq> bytes ''random''"
    "length (bytes ''null'') < 32" "length (bytes ''zero'') < 32" "length (bytes ''random'') < 32"
    by (simp_all add: bytes_def)
  have cnt: "dd_count (devfs_root d) = length (ents d)" if "devfs_inv d" for d
    using devfs_len [OF that] by (simp add: ents_def)
  obtain d2 where d2: "creat_devfs sb fops 10 (bytes ''null'') 1 1 1 ?d1 = Some d2" "devfs_inv d2"
    "dev_resolve d2 dir (bytes ''null'') = Some 1" "dev_names d2 = {bytes ''null''}"
    "de_in ` set (ents d2) = {10}" "dev_blk_dev d2 = []" "chrdev_tab d2 = (\<lambda>_ _. NULL)(1 := (\<lambda>_. NULL)(1 := 1))" "length (ents d2) = 1"
    using creat_devfs_inv [OF i1(1), of "bytes ''null''" 10 1 1 1 dir sb fops] i1 ne dir by (auto simp: MAXMAJ_def MAXMIN_def)
  obtain d3 where d3: "creat_devfs sb fops 11 (bytes ''zero'') 2 1 2 d2 = Some d3" "devfs_inv d3"
    "dev_resolve d3 dir (bytes ''zero'') = Some 2" "\<forall>n. n \<noteq> bytes ''zero'' \<longrightarrow> dev_resolve d3 dir n = dev_resolve d2 dir n"
    "dev_names d3 = {bytes ''null'', bytes ''zero''}"
    "de_in ` set (ents d3) = {10, 11}" "dev_blk_dev d3 = []" "chrdev_tab d3 1 3 = NULL" "length (ents d3) = 2"
    using creat_devfs_inv [OF d2(2), of "bytes ''zero''" 11 1 2 2 dir sb fops] d2 cnt [OF d2(2)] ne dir
    by (auto simp: MAXMAJ_def MAXMIN_def insert_commute)
  obtain d4 where d4: "creat_devfs sb fops 12 (bytes ''random'') 3 1 3 d3 = Some d4" "devfs_inv d4"
    "dev_resolve d4 dir (bytes ''random'') = Some 3" "\<forall>n. n \<noteq> bytes ''random'' \<longrightarrow> dev_resolve d4 dir n = dev_resolve d3 dir n"
    "dev_names d4 = {bytes ''null'', bytes ''zero'', bytes ''random''}" "de_in ` set (ents d4) = {10, 11, 12}" "dev_blk_dev d4 = []"
    "length (ents d4) = 3"
    using creat_devfs_inv [OF d3(2), of "bytes ''random''" 12 1 3 3 dir sb fops] d3 cnt [OF d3(2)] ne dir
    by (auto simp: MAXMAJ_def MAXMIN_def insert_commute)
  have "next_dev (raw_devfs ctx pool buf) + 1 = 1" by (simp add: raw_devfs_def)
  moreover have "devnode d4 = devnode ?d1" using d2(1) d3(1) d4(1) by (simp add: creat_devfs_devnode)
  ultimately show ?thesis using d2 d3 d4 ne cnt [OF d4(2)] by (simp add: init_devs_def Let_def)
qed

theorem devfs_names_devices_witness:
  "let d = (raw_devfs ctx_zero [] 0)\<lparr>next_dev := 1\<rparr>; dir = zero_inode\<lparr>i_pdata := 5\<rparr> in
   (\<exists>d'. creat_devfs 7 8 10 (bytes ''tty'') 1 4 0 d = Some d' \<and> dev_resolve d' dir (bytes ''tty'') = Some 1) \<and>
   (\<exists>d'. creat_blockdev 7 8 10 (bytes ''sda'') 1 8 0 d = Some d' \<and> dev_resolve d' dir (bytes ''sda'') = Some 1)"
proof -
  let ?d = "(raw_devfs ctx_zero [] 0)\<lparr>next_dev := 1\<rparr>" and ?dir = "zero_inode\<lparr>i_pdata := 5\<rparr>"
  have i: "devfs_inv ?d" "dd_count (devfs_root ?d) < 16" "name \<notin> dev_names ?d" "10 \<notin> de_in ` set (ents ?d)"
    "1 \<notin> set (dev_blk_dev ?d)" "device_get_devblk t ?d = NULL" "NULL \<notin> set (dev_blk_dev ?d)"
    "chrdev_tab ?d 4 0 = NULL" "i_pdata ?dir \<noteq> NULL" for name t
    by (simp_all add: devfs_inv_def raw_devfs_def ents_def dev_names_def device_get_devblk_def)
  have n: "length (bytes ''tty'') < 32" "length (bytes ''sda'') < 32" by (simp_all add: bytes_def)
  from devfs_names_devices [OF i(1,2) n(1) i(3) _ i(4) _ i(5) i(9), where maj = 4 and mi = 0 and sb = 7 and fops = 8]
    devfs_names_devices [OF i(1,2) n(2) i(3) _ i(4) _ i(5) i(9), where maj = 8 and mi = 0 and sb = 7 and fops = 8]
  show ?thesis using i(6,7,8) by (auto simp: MAXMAJ_def MAXMIN_def)
qed

section \<open>The operations behave as the virtual file system requires\<close>

lemma dev_fsops_driver:
  assumes "\<And>a op i f. dv_open (devs d a) = Some op \<Longrightarrow> same_file f (snd (op i f))"
  shows "fs_driver (dev_fsops iops fops d nodes)"
proof
  show "same_file f (snd (op i f))" if "op_open (dev_fsops iops fops d nodes) x = Some op" for x op i f
    using that assms by (auto simp: dev_fsops_def open_devfs_def same_file_def split: if_splits option.splits)
qed (auto simp: dev_fsops_def same_file_def split: if_splits option.splits)

lemma creat_devfs_open: "creat_devfs sb fops nw name dv maj mi d = Some d' \<Longrightarrow> dv_open (devs d' a) = dv_open (devs d a)"
  by (auto simp: creat_devfs_def dev_node_def register_dev_def Let_def bind_eq_Some_conv split: if_splits)

text \<open>The device file system after \<^verbatim>\<open>init_devs\<close>.\<close>

definition boot_devfs :: "blake2s_ctx \<Rightarrow> u8 list \<Rightarrow> addr \<Rightarrow> devfs" where
  "boot_devfs ctx pool buf = the (init_devs 7 8 9 5 (1, 2, 3) (10, 11, 12) (raw_devfs ctx pool buf))"

lemma boot_devfs_open: "dv_open (devs (boot_devfs ctx pool buf) a) = None"
proof -
  have "i_pdata (zero_inode\<lparr>i_pdata := 1\<rparr>) \<noteq> NULL" by simp
  from init_devs_inv [OF this] obtain d where
    d: "init_devs 7 8 9 5 (1, 2, 3) (10, 11, 12) (raw_devfs ctx pool buf) = Some d" by blast
  have "dv_open (devs d a) = dv_open (devs (raw_devfs ctx pool buf) a)"
    using d by (auto simp: init_devs_def Let_def bind_eq_Some_conv creat_devfs_open)
  then show ?thesis using d by (simp add: boot_devfs_def raw_devfs_def mem_device_def no_device_def)
qed

interpretation bdev: fs_driver "dev_fsops 8 9 (boot_devfs ctx pool buf) nodes" for ctx pool buf nodes
  by (rule dev_fsops_driver) (simp add: boot_devfs_open)

end
