(* ===== verification/Fs_Ext2.thy ===== *)
theory Fs_Ext2
  imports Fs_Devfs
begin

text \<open>
  Block devices (\<^verbatim>\<open>src/kern/dev/block_dev.c\<close>) and the ext2 file system
  (\<^verbatim>\<open>src/kern/fs/ext2/ext2.c\<close>, \<^verbatim>\<open>ext2fs.c\<close>): reading blocks and inodes, searching and listing
  directories, reading files, mounting.  A disk is a function from sector, count and buffer
  to result and new buffer.  On-disk structures are decoded from bytes.  \<^const>\<open>None\<close> is a
  read outside a buffer or table, a division by zero, or a directory scan that does not end.
\<close>

section \<open>Block devices\<close>

record block_dev =
  bd_dev :: dev
  bd_start :: u32
  bd_read :: "(u32 \<Rightarrow> nat \<Rightarrow> u8 list \<Rightarrow> int \<times> u8 list) option"   \<comment> \<open>\<^verbatim>\<open>bd_disk->bops->read\<close>\<close>
  bd_write :: "(u32 \<Rightarrow> nat \<Rightarrow> u8 list \<Rightarrow> int) option"

definition bread :: "block_dev option \<Rightarrow> u32 \<Rightarrow> u32 \<Rightarrow> u8 list \<Rightarrow> int \<times> u8 list" where
  "bread bd sect cnt buf =
     (case bd of None \<Rightarrow> (- 1, buf)
      | Some b \<Rightarrow> (case bd_read b of None \<Rightarrow> (- 1, buf) | Some rd \<Rightarrow> rd (sect + bd_start b) (unat cnt) buf))"

definition bwrite :: "block_dev option \<Rightarrow> u32 \<Rightarrow> u32 \<Rightarrow> u8 list \<Rightarrow> int" where
  "bwrite bd sect cnt buf =
     (case bd of None \<Rightarrow> - 1
      | Some b \<Rightarrow> (case bd_write b of None \<Rightarrow> - 1 | Some wr \<Rightarrow> wr (sect + bd_start b) (unat cnt) buf))"

definition bmap :: "(nat \<Rightarrow> u32) option \<Rightarrow> nat \<Rightarrow> u32" where
  "bmap f bno = (case f of Some g \<Rightarrow> g bno | None \<Rightarrow> 0)"

section \<open>On-disk structures\<close>

definition get16 :: "u8 list \<Rightarrow> nat \<Rightarrow> nat" where
  "get16 bs k = unat (bs ! k) + 256 * unat (bs ! (k + 1))"

definition get32 :: "u8 list \<Rightarrow> nat \<Rightarrow> u32" where
  "get32 bs k = of_nat (get16 bs k + 65536 * get16 bs (k + 2))"

definition EXT2_SUPER_MAGIC :: nat where "EXT2_SUPER_MAGIC = 0xef53"
definition EXT2_MAX_GROUP_LOADED :: nat where "EXT2_MAX_GROUP_LOADED = 8"

record ext2_superblock =
  sbk_blocks_count :: u32
  sbk_log_block_siz :: u32
  sbk_blocks_per_group :: u32
  sbk_inodes_per_group :: u32
  sbk_magic :: nat
  sbk_inode_siz :: nat

text \<open>The fields used, at their offsets in the packed structure.\<close>

definition ext2_superblock_of :: "u8 list \<Rightarrow> ext2_superblock" where
  "ext2_superblock_of b = \<lparr>sbk_blocks_count = get32 b 4, sbk_log_block_siz = get32 b 24,
     sbk_blocks_per_group = get32 b 32, sbk_inodes_per_group = get32 b 40, sbk_magic = get16 b 56,
     sbk_inode_siz = get16 b 88\<rparr>"

record ext2_blockgroup =
  bg_block_bitmap :: u32
  bg_inode_bitmap :: u32
  bg_inode_table :: u32

definition ext2_blockgroup_of :: "u8 list \<Rightarrow> nat \<Rightarrow> ext2_blockgroup" where
  "ext2_blockgroup_of b k = \<lparr>bg_block_bitmap = get32 b k, bg_inode_bitmap = get32 b (k + 4), bg_inode_table = get32 b (k + 8)\<rparr>"

record ext2_inode =
  ei_mode :: nat
  ei_uid :: nat
  ei_size :: u32
  ei_gid :: nat
  ei_blocks :: u32
  ei_block :: "u32 list"

definition ext2_inode_of :: "u8 list \<Rightarrow> nat \<Rightarrow> ext2_inode" where
  "ext2_inode_of b k = \<lparr>ei_mode = get16 b k, ei_uid = get16 b (k + 2), ei_size = get32 b (k + 4),
     ei_gid = get16 b (k + 24), ei_blocks = get32 b (k + 28), ei_block = map (\<lambda>j. get32 b (k + 40 + 4 * j)) [0..<15]\<rparr>"

record ext2_sb_info =
  s_block_size :: u32
  s_inode_size :: u32
  s_inodes_per_group :: u32
  s_blocks_per_group :: u32
  s_group_count :: u16
  s_group_desc :: "ext2_blockgroup list"
  s_inode_bitmap :: "u8 list list"
  s_block_bitmap :: "u8 list list"

text \<open>The volume: device, block size of the super block, its \<^verbatim>\<open>generic_sbp\<close>.\<close>

record ext2_vol =
  v_bdev :: block_dev
  v_blocksize :: u32
  v_info :: ext2_sb_info

section \<open>Blocks and inodes\<close>

definition ext2_read :: "block_dev \<Rightarrow> u32 \<Rightarrow> u32 \<Rightarrow> u32 \<Rightarrow> u8 list \<Rightarrow> u8 list" where
  "ext2_read bd ssz bno blkcount buf =
     snd (bread (Some bd) (bno * ssz div 512) (blkcount * ssz div 512) buf)"

text \<open>A fresh buffer from \<^verbatim>\<open>malloc\<close> with one block read into it.\<close>

definition e2block :: "ext2_vol \<Rightarrow> u32 \<Rightarrow> u8 list" where
  "e2block v bno = ext2_read (v_bdev v) (v_blocksize v) bno 1 (replicate (unat (v_blocksize v)) 0)"

definition ext2_bitmap_test :: "ext2_vol \<Rightarrow> u32 \<Rightarrow> bool option" where
  "ext2_bitmap_test v index =
     (let ipg = s_inodes_per_group (v_info v) in
      if ipg = 0 then None
      else let grp = unat (index div ipg); k = index mod ipg;
               byte = unat (drop_bit 3 k); bt = unat (k AND 7)
           in if grp < length (s_block_bitmap (v_info v)) \<and> byte < length (s_block_bitmap (v_info v) ! grp)
              then Some (bit (s_block_bitmap (v_info v) ! grp ! byte) bt) else None)"

definition ext2_read_ino :: "ext2_vol \<Rightarrow> u32 \<Rightarrow> ext2_inode option" where
  "ext2_read_ino v ino =
     (let sb = v_info v; ipg = s_inodes_per_group sb; bs = s_block_size sb in
      if ipg = 0 \<or> bs = 0 then None
      else let grp = unat (ino div ipg); k = ino mod ipg in
      if grp \<ge> length (s_group_desc sb) then None
      else let off = (k - 1) * s_inode_size sb;
               bno = bg_inode_table (s_group_desc sb ! grp) + off div bs;
               boff = unat (off mod bs);
               buf = ext2_read (v_bdev v) (v_blocksize v) bno 1 (replicate (unat bs) 0)
           in if boff + 128 > length buf then None else Some (ext2_inode_of buf boff))"

section \<open>Directories\<close>

text \<open>One block: \<^const>\<open>None\<close> as said above, otherwise the inode number found, if any.\<close>

partial_function (option) ext2_scan :: "u8 list \<Rightarrow> u8 list \<Rightarrow> nat \<Rightarrow> ino option option" where
  "ext2_scan name buf off =
     (if off < length buf then
        if off + 8 > length buf \<or> off + 8 + unat (buf ! (off + 6)) > length buf then None
        else if get32 buf off \<noteq> 0 \<and> unat (buf ! (off + 6)) = length name \<and>
                take (length name) (drop (off + 8) buf) = name
             then Some (Some (get32 buf off))
        else ext2_scan name buf (off + get16 buf (off + 4))
      else Some None)"

fun ext2_lookup_blocks :: "ext2_vol \<Rightarrow> u8 list \<Rightarrow> u32 list \<Rightarrow> ino option" where
  "ext2_lookup_blocks v name [] = Some (- 1)"
| "ext2_lookup_blocks v name (b # bs) =
     (if b = 0 then ext2_lookup_blocks v name bs
      else case ext2_scan name (e2block v b) 0 of
             None \<Rightarrow> None
           | Some (Some i) \<Rightarrow> Some i
           | Some None \<Rightarrow> ext2_lookup_blocks v name bs)"

text \<open>\<open>blks\<close> is \<^verbatim>\<open>i_block\<close> of the directory's private data; only the first 12 are used.\<close>

definition ext2_lookup :: "ext2_vol \<Rightarrow> u32 list \<Rightarrow> u8 list \<Rightarrow> ino option" where
  "ext2_lookup v blks name = ext2_lookup_blocks v name (take 12 blks)"

record nnux_dirent =
  nd_ino :: u32
  nd_off :: nat
  nd_type :: u8
  nd_name :: "u8 list"

definition nd_reclen :: "nnux_dirent \<Rightarrow> nat" where
  "nd_reclen d = 16 + length (nd_name d) + 1"

partial_function (option) ext2_list :: "nat \<Rightarrow> u8 list \<Rightarrow> nat \<Rightarrow> nat \<Rightarrow> (nnux_dirent list \<times> nat) option" where
  "ext2_list cnt buf off rd =
     (if off < length buf \<and> rd < cnt then
        if off + 8 > length buf \<or> off + 8 + unat (buf ! (off + 6)) > length buf then None
        else if get32 buf off \<noteq> 0 then
          let e = \<lparr>nd_ino = get32 buf off, nd_off = off, nd_type = buf ! (off + 7),
                   nd_name = take (unat (buf ! (off + 6))) (drop (off + 8) buf)\<rparr>
          in Option.bind (ext2_list cnt buf (off + get16 buf (off + 4)) (rd + nd_reclen e)) (\<lambda>(es, r). Some (e # es, r))
        else ext2_list cnt buf (off + get16 buf (off + 4)) rd
      else Some ([], rd))"

fun ext2_list_blocks :: "ext2_vol \<Rightarrow> nat \<Rightarrow> u32 list \<Rightarrow> nat \<Rightarrow> (nnux_dirent list \<times> nat) option" where
  "ext2_list_blocks v cnt [] rd = Some ([], rd)"
| "ext2_list_blocks v cnt (b # bs) rd =
     (if b = 0 then ext2_list_blocks v cnt bs rd
      else Option.bind (ext2_list cnt (e2block v b) 0 rd) (\<lambda>(es, r).
           map_option (\<lambda>(es', r'). (es @ es', r')) (ext2_list_blocks v cnt bs r)))"

definition ext2_readdir :: "ext2_vol \<Rightarrow> u32 list \<Rightarrow> nat \<Rightarrow> (nnux_dirent list \<times> nat) option" where
  "ext2_readdir v blks cnt = ext2_list_blocks v cnt (take 12 blks) 0"

section \<open>Files\<close>

lemma chunk_smaller: "(0::nat) < b \<Longrightarrow> rd < cnt \<Longrightarrow> cnt - (rd + min (b - x mod b) (cnt - rd)) < cnt - rd"
proof -
  assume a: "0 < b" "rd < cnt"
  define m where "m = x mod b"
  have "m < b" using a by (simp add: m_def)
  then show ?thesis using a unfolding m_def [symmetric] by linarith
qed

text \<open>The read loop: \<open>off\<close> the file position at the start, \<open>rd\<close> the bytes read so far; the
  bytes still to come.  The block index is a \<^verbatim>\<open>uint8_t\<close>.\<close>

function ext2_rloop :: "ext2_vol \<Rightarrow> u32 list \<Rightarrow> nat \<Rightarrow> nat \<Rightarrow> nat \<Rightarrow> u8 list option" where
  "ext2_rloop v blks off cnt rd =
     (if rd < cnt then
        let bs = unat (v_blocksize v); pos = off + rd; boff = pos mod bs; k = pos div bs mod 256 in
        if bs = 0 \<or> k \<ge> length blks then None
        else if blks ! k = 0 then Some []
        else let d = min (bs - boff) (cnt - rd)
             in map_option (\<lambda>r. take d (drop boff (e2block v (blks ! k))) @ r) (ext2_rloop v blks off cnt (rd + d))
      else Some [])"
  by pat_completeness auto
termination
  by (relation "measure (\<lambda>(_, _, _, cnt, rd). cnt - rd)") (auto simp del: diff_diff_left intro!: chunk_smaller)

declare ext2_rloop.simps [simp del]

definition ext2_lread :: "ext2_vol \<Rightarrow> inode \<Rightarrow> kfile \<Rightarrow> nat \<Rightarrow> (int \<times> u8 list \<times> kfile) option" where
  "ext2_lread v i f cnt =
     (let off = f_position f in
      if off > i_size i then Some (0, [], f)
      else let n = (if (off + cnt) mod 2 ^ 32 > i_size i then i_size i - off else cnt)
      in Option.bind (ext2_read_ino v (i_ino i)) (\<lambda>ein.
         map_option (\<lambda>bs. (int (length bs), bs, f\<lparr>f_position := f_position f + length bs\<rparr>))
           (ext2_rloop v (ei_block ein) off n 0)))"

text \<open>\<^verbatim>\<open>read_inode\<close>: the inode and the \<^verbatim>\<open>ext2_inode_info\<close> (its \<^verbatim>\<open>i_block\<close>) stored at \<open>nw\<close>.\<close>

definition ext2_inoder :: "ext2_vol \<Rightarrow> addr \<Rightarrow> addr \<Rightarrow> addr \<Rightarrow> inode \<Rightarrow> (inode \<times> u32 list) option" where
  "ext2_inoder v iops fops nw i =
     map_option (\<lambda>t. (i\<lparr>i_gid := of_nat (ei_gid t), i_uid := of_nat (ei_uid t), i_mode := of_nat (ei_mode t),
         i_pdata := nw, i_fops := fops, i_ops := iops, i_size := unat (ei_size t), i_blkcount := uint (ei_blocks t)\<rparr>,
       ei_block t)) (ext2_read_ino v (i_ino i))"

section \<open>Mounting\<close>

definition DIV_ROUND_UP :: "u32 \<Rightarrow> u32 \<Rightarrow> u32" where
  "DIV_ROUND_UP n d = (n + d - 1) div d"

fun ext2_groups :: "ext2_vol \<Rightarrow> u8 list \<Rightarrow> nat \<Rightarrow> nat \<Rightarrow> nat \<Rightarrow> ext2_vol option" where
  "ext2_groups v buff 0 i off = Some v"
| "ext2_groups v buff (Suc n) i off =
     (if i \<ge> EXT2_MAX_GROUP_LOADED \<or> off + 32 > length buff then None
      else let g = ext2_blockgroup_of buff off; inf = v_info v;
               v' = v\<lparr>v_info := inf\<lparr>s_group_desc := s_group_desc inf @ [g],
                      s_inode_bitmap := s_inode_bitmap inf @ [e2block v (bg_inode_bitmap g)],
                      s_block_bitmap := s_block_bitmap inf @ [e2block v (bg_block_bitmap g)]\<rparr>\<rparr>
           in if off + 32 \<ge> unat (v_blocksize v) then Some v' else ext2_groups v' buff n (Suc i) (off + 32))"

text \<open>The result code and, on success, the volume; \<^verbatim>\<open>iget(sb, 2)\<close> for the root follows in
  \<open>ext2_mount\<close>.\<close>

definition ext2_fill_super :: "block_dev \<Rightarrow> (int \<times> ext2_vol option) option" where
  "ext2_fill_super bd =
     (let buf = snd (bread (Some bd) 2 2 (replicate 1024 0));
          e2sb = ext2_superblock_of buf
      in if length buf < 1024 then None
         else if sbk_magic e2sb \<noteq> EXT2_SUPER_MAGIC then Some (1, None)
         else if unat (sbk_log_block_siz e2sb) > 20 \<or> sbk_blocks_per_group e2sb = 0 then None
         else let bsz = push_bit (unat (sbk_log_block_siz e2sb)) 1024;
                  inf = \<lparr>s_block_size = bsz, s_inode_size = of_nat (sbk_inode_siz e2sb),
                         s_inodes_per_group = sbk_inodes_per_group e2sb, s_blocks_per_group = sbk_blocks_per_group e2sb,
                         s_group_count = ucast (DIV_ROUND_UP (sbk_blocks_count e2sb) (sbk_blocks_per_group e2sb)),
                         s_group_desc = [], s_inode_bitmap = [], s_block_bitmap = []\<rparr>;
                  v = \<lparr>v_bdev = bd, v_blocksize = bsz, v_info = inf\<rparr>;
                  buff = e2block v (if bsz > 1024 then 1 else 2)
              in map_option (\<lambda>v'. (0, Some v')) (ext2_groups v buff (unat (s_group_count inf)) 0 0))"

text \<open>Super blocks are counted: \<open>m_sb\<close> is \<^verbatim>\<open>bd->bd_sb\<close>, \<open>m_refs\<close> the \<^verbatim>\<open>s_refs\<close>, \<open>m_vol\<close> what
  \<^verbatim>\<open>read_super\<close> left in the super block, \<open>m_freed\<close> the super blocks released.\<close>

record mnts =
  m_sb :: addr
  m_refs :: "addr \<Rightarrow> u32"
  m_vol :: "addr \<Rightarrow> ext2_vol option"
  m_freed :: "addr list"

definition sget :: "addr \<Rightarrow> block_dev \<Rightarrow> mnts \<Rightarrow> (addr \<times> mnts) option" where
  "sget nw bd m =
     (if m_sb m \<noteq> NULL \<and> m_refs m (m_sb m) \<noteq> 0 then Some (m_sb m, m)
      else map_option (\<lambda>(_, vol). (nw, m\<lparr>m_sb := nw, m_vol := (m_vol m)(nw := vol), m_refs := (m_refs m)(nw := 1)\<rparr>))
             (ext2_fill_super bd))"

definition sput :: "addr \<Rightarrow> addr \<Rightarrow> mnts \<Rightarrow> icache \<Rightarrow> mnts \<times> icache" where
  "sput sb root m s =
     (let n = m_refs m sb - 1; m1 = m\<lparr>m_refs := (m_refs m)(sb := n)\<rparr>
      in if n > 0 then (m1, s) else (m1\<lparr>m_freed := m_freed m1 @ [sb]\<rparr>, iput root s))"

section \<open>Directories as lists of entries\<close>

definition le16 :: "nat \<Rightarrow> u8 list" where
  "le16 n = [of_nat n, of_nat (n div 256)]"

record dent =
  dn_ino :: u32
  dn_type :: u8
  dn_name :: "u8 list"
  dn_pad :: "u8 list"

definition dn_rec :: "dent \<Rightarrow> nat" where
  "dn_rec e = 8 + length (dn_name e) + length (dn_pad e)"

definition dent_ok :: "dent \<Rightarrow> bool" where
  "dent_ok e \<longleftrightarrow> length (dn_name e) < 256 \<and> dn_rec e < 65536"

text \<open>\<^verbatim>\<open>struct ext2_direntry\<close> on disk.\<close>

definition enc :: "dent \<Rightarrow> u8 list" where
  "enc e = le32 (dn_ino e) @ le16 (dn_rec e) @ [of_nat (length (dn_name e)), dn_type e] @ dn_name e @ dn_pad e"

lemma get16_append [simp]: "get16 (xs @ ys) (length xs + k) = get16 ys k"
  by (simp add: get16_def nth_append)

lemma get16_append0 [simp]: "get16 (xs @ ys) (length xs) = get16 ys 0"
  using get16_append [of xs ys 0] by (simp del: get16_append)

lemma get32_append [simp]: "get32 (xs @ ys) (length xs) = get32 ys 0"
  using get16_append [of xs ys 2] by (simp add: get32_def numeral_2_eq_2 del: get16_append)

lemma get16_le16 [simp]: "n < 65536 \<Longrightarrow> get16 (le16 n @ ys) 0 = n"
  by (simp add: get16_def le16_def)

lemma get32_rd32: "get32 bs k = of_nat (rd32 (\<lambda>i. bs ! i) k)"
  by (simp add: get32_def get16_def rd32_def numeral_2_eq_2 numeral_3_eq_3 algebra_simps)

lemma get32_le32 [simp]: "get32 (le32 x @ ys) 0 = x"
proof -
  have b: "unat (drop_bit n x) = unat x div 2 ^ n" for n by (subst unat_drop_bit_eq) (rule drop_bit_eq_div)
  have "rd32 (\<lambda>i. (le32 x @ ys) ! i) 0 = rd32 (wr32 (\<lambda>_. 0) 0 (unat x)) 0"
    by (simp add: rd32_def wr32_def le32_def b unsigned_ucast_eq unat_of_nat take_bit_eq_mod)
  also have "\<dots> = unat x"
  proof (rule rd32_wr32_same)
    have "unat x < 2 ^ LENGTH(32)" by (rule unsigned_less)
    then show "unat x < 2 ^ 32" by simp
  qed
  finally show ?thesis by (simp add: get32_rd32)
qed

lemma enc_len [simp]: "length (enc e) = dn_rec e"
  by (simp add: enc_def dn_rec_def le16_def)

lemma enc_fields:
  assumes "dent_ok e"
  shows "get32 (pre @ enc e @ post) (length pre) = dn_ino e"
    and "get16 (pre @ enc e @ post) (length pre + 4) = dn_rec e"
    and "unat ((pre @ enc e @ post) ! (length pre + 6)) = length (dn_name e)"
    and "(pre @ enc e @ post) ! (length pre + 7) = dn_type e"
    and "take (length (dn_name e)) (drop (length pre + 8) (pre @ enc e @ post)) = dn_name e"
proof -
  have l: "length (dn_name e) < 256" "dn_rec e < 65536" using assms by (auto simp: dent_ok_def)
  show "get32 (pre @ enc e @ post) (length pre) = dn_ino e" by (simp add: enc_def)
  have "get16 (pre @ enc e @ post) (length pre + 4) = get16 (enc e @ post) (length (le32 (dn_ino e)))"
    by (simp del: get16_append0)
  also have "\<dots> = dn_rec e"
    unfolding enc_def append.assoc using l(2) by (simp only: get16_append0 get16_le16)
  finally show "get16 (pre @ enc e @ post) (length pre + 4) = dn_rec e" .
  show "unat ((pre @ enc e @ post) ! (length pre + 6)) = length (dn_name e)"
    using l(1) by (simp add: enc_def le16_def le32_def nth_append unat_of_nat)
  show "(pre @ enc e @ post) ! (length pre + 7) = dn_type e"
    by (simp add: enc_def le16_def le32_def nth_append)
  show "take (length (dn_name e)) (drop (length pre + 8) (pre @ enc e @ post)) = dn_name e"
    by (simp add: enc_def le16_def le32_def)
qed

lemma rec_pos: "0 < dn_rec e" "8 + length (dn_name e) \<le> dn_rec e"
  by (simp_all add: dn_rec_def)

lemma ext2_scan_enc:
  assumes "\<forall>e\<in>set es. dent_ok e"
  shows "ext2_scan name (pre @ concat (map enc es)) (length pre) =
    Some (map_option dn_ino (find (\<lambda>e. dn_ino e \<noteq> 0 \<and> dn_name e = name) es))"
  using assms
proof (induction es arbitrary: pre)
  case Nil
  then show ?case by (simp add: ext2_scan.simps)
next
  case (Cons e es)
  let ?b = "pre @ enc e @ concat (map enc es)"
  note f = enc_fields [of e pre "concat (map enc es)"]
  have ok: "dent_ok e" using Cons.prems by simp
  have len: "length pre + 8 + length (dn_name e) \<le> length ?b" using rec_pos [of e] by simp
  have nm: "(dn_ino e \<noteq> 0 \<and> length (dn_name e) = length name \<and> take (length name) (drop (length pre + 8) ?b) = name) =
      (dn_ino e \<noteq> 0 \<and> dn_name e = name)"
    using f(5) [OF ok] by metis
  have nxt: "ext2_scan name ?b (length pre + dn_rec e) =
      Some (map_option dn_ino (find (\<lambda>e. dn_ino e \<noteq> 0 \<and> dn_name e = name) es))"
    using Cons.IH [of "pre @ enc e"] Cons.prems by simp
  have "ext2_scan name ?b (length pre) = (if dn_ino e \<noteq> 0 \<and> dn_name e = name then Some (Some (dn_ino e))
      else ext2_scan name ?b (length pre + dn_rec e))"
    unfolding ext2_scan.simps [of name ?b "length pre"] f(1-3) [OF ok] nm using len rec_pos(1) [of e] by simp
  then show ?case using nxt by simp
qed

lemma lookup_blocks_enc:
  assumes "\<forall>b\<in>set bl. b \<noteq> 0 \<longrightarrow> e2block v b = concat (map enc (ds b)) \<and> (\<forall>e\<in>set (ds b). dent_ok e)"
  shows "ext2_lookup_blocks v name bl =
    Some (case find (\<lambda>e. dn_ino e \<noteq> 0 \<and> dn_name e = name) (concat (map ds (filter (\<lambda>b. b \<noteq> 0) bl))) of
            Some e \<Rightarrow> dn_ino e | None \<Rightarrow> - 1)"
  using assms
proof (induction bl)
  case (Cons b bl)
  show ?case
  proof (cases "b = 0")
    case False
    then have "ext2_scan name (e2block v b) 0 = Some (map_option dn_ino (find (\<lambda>e. dn_ino e \<noteq> 0 \<and> dn_name e = name) (ds b)))"
      using ext2_scan_enc [of "ds b" name "[]"] Cons.prems by simp
    then show ?thesis using False Cons
      by (cases "find (\<lambda>e. dn_ino e \<noteq> 0 \<and> dn_name e = name) (ds b)") (simp_all add: find_append)
  qed (use Cons in simp)
qed simp

section \<open>Listing\<close>

definition used :: "dent list \<Rightarrow> dent list" where
  "used es = filter (\<lambda>e. dn_ino e \<noteq> 0) es"

definition list_size :: "dent list \<Rightarrow> nat" where
  "list_size es = (\<Sum>e\<leftarrow>es. 17 + length (dn_name e))"

text \<open>What a listed entry shows of the entry on disk.\<close>

definition shows_dent :: "nnux_dirent \<Rightarrow> dent \<Rightarrow> bool" where
  "shows_dent d e \<longleftrightarrow> nd_ino d = dn_ino e \<and> nd_name d = dn_name e \<and> nd_type d = dn_type e"

lemma ext2_list_enc:
  assumes "\<forall>e\<in>set es. dent_ok e" "rd + list_size (used es) \<le> cnt"
  shows "\<exists>ds. ext2_list cnt (pre @ concat (map enc es)) (length pre) rd = Some (ds, rd + list_size (used es)) \<and>
    list_all2 shows_dent ds (used es)"
  using assms
proof (induction es arbitrary: pre rd)
  case Nil
  then show ?case by (simp add: ext2_list.simps used_def list_size_def)
next
  case (Cons e es)
  let ?b = "pre @ enc e @ concat (map enc es)"
  note f = enc_fields [of e pre "concat (map enc es)"]
  have ok: "dent_ok e" using Cons.prems by simp
  have len: "length pre + 8 + length (dn_name e) \<le> length ?b" "length pre < length ?b" using rec_pos [of e] by simp_all
  show ?case
  proof (cases "rd < cnt")
    case False
    then have "used (e # es) = []" "rd + list_size (used (e # es)) = rd"
      using Cons.prems(2) by (cases "used (e # es)"; simp add: list_size_def)+
    then show ?thesis using False by (simp add: ext2_list.simps [of cnt ?b])
  next
    case True
    let ?d = "\<lparr>nd_ino = dn_ino e, nd_off = length pre, nd_type = dn_type e, nd_name = dn_name e\<rparr>"
    let ?r = "if dn_ino e \<noteq> 0 then rd + (17 + length (dn_name e)) else rd"
    have u: "rd + list_size (used (e # es)) = ?r + list_size (used es)" by (simp add: used_def list_size_def)
    obtain ds where ds: "ext2_list cnt ?b (length pre + dn_rec e) ?r = Some (ds, ?r + list_size (used es))"
        "list_all2 shows_dent ds (used es)"
      using Cons.IH [of ?r "pre @ enc e"] Cons.prems u by auto
    have "ext2_list cnt ?b (length pre) rd = (if dn_ino e \<noteq> 0
        then Option.bind (ext2_list cnt ?b (length pre + dn_rec e) (rd + nd_reclen ?d)) (\<lambda>(es, r). Some (?d # es, r))
        else ext2_list cnt ?b (length pre + dn_rec e) rd)"
      unfolding ext2_list.simps [of cnt ?b "length pre"] f(1-4) [OF ok] f(5) [OF ok] Let_def using len True by simp
    moreover have "shows_dent ?d e" by (simp add: shows_dent_def)
    ultimately show ?thesis using ds u by (auto simp: nd_reclen_def used_def split: if_splits)
  qed
qed

lemma list_blocks_enc:
  assumes "\<forall>b\<in>set bl. b \<noteq> 0 \<longrightarrow> e2block v b = concat (map enc (ds b)) \<and> (\<forall>e\<in>set (ds b). dent_ok e)"
    and "rd + list_size (used (concat (map ds (filter (\<lambda>b. b \<noteq> 0) bl)))) \<le> cnt"
  shows "\<exists>rs. ext2_list_blocks v cnt bl rd = Some (rs, rd + list_size (used (concat (map ds (filter (\<lambda>b. b \<noteq> 0) bl))))) \<and>
    list_all2 shows_dent rs (used (concat (map ds (filter (\<lambda>b. b \<noteq> 0) bl))))"
  using assms
proof (induction bl arbitrary: rd)
  case (Cons b bl)
  let ?u = "used (concat (map ds (filter (\<lambda>b. b \<noteq> 0) bl)))"
  show ?case
  proof (cases "b = 0")
    case False
    then have u: "used (concat (map ds (filter (\<lambda>b. b \<noteq> 0) (b # bl)))) = used (ds b) @ ?u"
      "list_size (used (ds b) @ ?u) = list_size (used (ds b)) + list_size ?u"
      by (simp_all add: used_def list_size_def)
    obtain r1 where r1: "ext2_list cnt (e2block v b) 0 rd = Some (r1, rd + list_size (used (ds b)))"
      "list_all2 shows_dent r1 (used (ds b))"
      using ext2_list_enc [of "ds b" rd cnt "[]"] False Cons.prems u by auto
    obtain r2 where r2: "ext2_list_blocks v cnt bl (rd + list_size (used (ds b))) =
        Some (r2, rd + list_size (used (ds b)) + list_size ?u)" "list_all2 shows_dent r2 ?u"
      using Cons.IH [of "rd + list_size (used (ds b))"] Cons.prems u by auto
    show ?thesis unfolding u using r1 r2 False by (auto intro!: list_all2_appendI)
  qed (use Cons in simp)
qed (simp add: used_def list_size_def)

text \<open>C18. On a directory whose blocks hold well-formed entries, \<^verbatim>\<open>ext2_lookup\<close> ends and
  returns the inode number of the first used entry with the name, or \<open>-1\<close> when there is none;
  \<^verbatim>\<open>ext2_readdir\<close> with a buffer large enough ends and lists exactly the used entries in order,
  and returns the space they take.  (Only the 12 direct blocks are searched.)\<close>

theorem ext2_directory_correct:
  assumes "\<forall>b\<in>set (take 12 blks). b \<noteq> 0 \<longrightarrow> e2block v b = concat (map enc (ds b)) \<and> (\<forall>e\<in>set (ds b). dent_ok e)"
    and "es = concat (map ds (filter (\<lambda>b. b \<noteq> 0) (take 12 blks)))"
  shows "ext2_lookup v blks name =
      Some (case find (\<lambda>e. dn_ino e \<noteq> 0 \<and> dn_name e = name) es of Some e \<Rightarrow> dn_ino e | None \<Rightarrow> - 1) \<and>
    (list_size (used es) \<le> cnt \<longrightarrow>
      (\<exists>rs. ext2_readdir v blks cnt = Some (rs, list_size (used es)) \<and> list_all2 shows_dent rs (used es)))"
  using lookup_blocks_enc [OF assms(1), of name] list_blocks_enc [OF assms(1), of 0 cnt]
  unfolding ext2_lookup_def ext2_readdir_def assms(2) by simp

section \<open>Reading a file\<close>

text \<open>The contents: all direct blocks one after the other.\<close>

definition file_data :: "ext2_vol \<Rightarrow> u32 list \<Rightarrow> u8 list" where
  "file_data v blks = concat (map (e2block v) (take 12 blks))"

lemma take_drop_concat:
  assumes "\<forall>x\<in>set xs. length (f x) = n" "k < length xs" "boff + d \<le> n"
  shows "take d (drop (k * n + boff) (concat (map f xs))) = take d (drop boff (f (xs ! k)))"
  using assms
proof (induction xs arbitrary: k)
  case (Cons x xs)
  show ?case
  proof (cases k)
    case 0
    then show ?thesis using Cons.prems by simp
  next
    case (Suc j)
    then have "drop (k * n + boff) (concat (map f (x # xs))) = drop (j * n + boff) (concat (map f xs))"
      using Cons.prems(1) by simp
    then show ?thesis using Cons Suc by simp
  qed
qed simp

lemma ext2_rloop_reads:
  assumes bs: "unat (v_blocksize v) = n" "0 < n" and len: "12 \<le> length blks" "off + cnt \<le> 12 * n"
    and full: "\<forall>k<12. length (e2block v (blks ! k)) = n" and nz: "\<forall>k. k * n < off + cnt \<longrightarrow> k < 12 \<longrightarrow> blks ! k \<noteq> 0"
    and rd: "rd \<le> cnt"
  shows "ext2_rloop v blks off cnt rd = Some (take (cnt - rd) (drop (off + rd) (file_data v blks)))"
  using rd
proof (induction "cnt - rd" arbitrary: rd rule: less_induct)
  case less
  show ?case
  proof (cases "rd < cnt")
    case False
    then show ?thesis by (simp add: ext2_rloop.simps)
  next
    case True
    let ?p = "off + rd" let ?k = "?p div n" and ?o = "?p mod n"
    let ?d = "min (n - ?o) (cnt - rd)"
    have p: "?p = ?k * n + ?o" by simp
    have o: "?o < n" using bs(2) by simp
    have "?p < 12 * n" using len(2) True by simp
    then have k: "?k < 12" by (simp add: less_mult_imp_div_less)
    have "?k * n < off + cnt" using p True by linarith
    then have b: "blks ! ?k \<noteq> 0" using nz k by blast
    have d: "0 < ?d" "?o + ?d \<le> n" "rd + ?d \<le> cnt" using o True by auto
    have full': "\<forall>x\<in>set (take 12 blks). length (e2block v x) = n"
      using full len(1) by (auto simp: in_set_conv_nth)
    have chunk: "take ?d (drop ?p (file_data v blks)) = take ?d (drop ?o (e2block v (blks ! ?k)))"
      using take_drop_concat [OF full', of ?k ?o ?d] k len(1) d(2) p by (simp add: file_data_def)
    have "ext2_rloop v blks off cnt (rd + ?d) = Some (take (cnt - (rd + ?d)) (drop (off + (rd + ?d)) (file_data v blks)))"
      by (rule less.hyps) (use d chunk_smaller [OF bs(2) True, of ?p] in auto)
    moreover have "take (cnt - rd) (drop ?p (file_data v blks)) = take ?d (drop ?p (file_data v blks)) @
        take (cnt - (rd + ?d)) (drop (off + (rd + ?d)) (file_data v blks))"
    proof -
      have c: "cnt - rd = ?d + (cnt - (rd + ?d))" using d(3) by linarith
      have "drop ?d (drop ?p (file_data v blks)) = drop (off + (rd + ?d)) (file_data v blks)"
        by (simp only: drop_drop ac_simps)
      then show ?thesis by (subst c) (simp only: take_add)
    qed
    ultimately show ?thesis
      using True bs k len(1) b chunk by (simp add: ext2_rloop.simps [of v blks off cnt rd] Let_def)
  qed
qed

text \<open>C19. Reading a file that lies in its direct blocks: \<^verbatim>\<open>ext2_lread\<close> returns exactly the
  bytes of the file from the position on, as many as asked for or as are left, and advances
  the position by that number; at or beyond the end it returns 0.\<close>

theorem ext2_lread_correct:
  assumes "ext2_read_ino v (i_ino i) = Some ein" "unat (v_blocksize v) = n" "0 < n"
    and "i_size i \<le> 12 * n" "f_position f + cnt < 2 ^ 32"
    and "\<forall>k<12. length (e2block v (ei_block ein ! k)) = n" "\<forall>k. k * n < i_size i \<longrightarrow> ei_block ein ! k \<noteq> 0"
    and "m = min cnt (i_size i - f_position f)"
  shows "\<exists>bs. ext2_lread v i f cnt = Some (int m, bs, f\<lparr>f_position := f_position f + m\<rparr>) \<and>
    bs = take m (drop (f_position f) (file_data v (ei_block ein))) \<and> length bs = m"
proof (cases "f_position f \<le> i_size i")
  case False
  then show ?thesis using assms(8) by (simp add: ext2_lread_def)
next
  case True
  let ?off = "f_position f"
  have len15: "length (ei_block ein) = 15"
    using assms(1) by (auto simp: ext2_read_ino_def Let_def ext2_inode_of_def split: if_splits)
  have m: "(if (?off + cnt) mod 2 ^ 32 > i_size i then i_size i - ?off else cnt) = m"
    using assms(5,8) True by auto
  have om: "?off + m \<le> i_size i" using assms(8) True by simp
  have r: "ext2_rloop v (ei_block ein) ?off m 0 = Some (take m (drop ?off (file_data v (ei_block ein))))"
    using ext2_rloop_reads [OF assms(2,3), of "ei_block ein" ?off m 0] len15 om assms(4,6,7) by auto
  have "\<forall>x\<in>set (take 12 (ei_block ein)). length (e2block v x) = n"
    using assms(6) len15 by (auto simp: in_set_conv_nth)
  then have "map (\<lambda>x. length (e2block v x)) (take 12 (ei_block ein)) = replicate 12 n"
    using len15 by (intro replicate_eqI) auto
  then have "length (file_data v (ei_block ein)) = 12 * n"
    by (simp add: file_data_def length_concat comp_def sum_list_replicate)
  then have "length (take m (drop ?off (file_data v (ei_block ein)))) = m" using om assms(4) by simp
  then show ?thesis using True r assms(1) m by (simp add: ext2_lread_def Let_def)
qed

text \<open>A small volume: every byte of every sector is 1.\<close>

definition ones_vol :: ext2_vol where
  "ones_vol = \<lparr>v_bdev = \<lparr>bd_dev = 0, bd_start = 0, bd_read = Some (\<lambda>_ _ buf. (0, map (\<lambda>_. 1) buf)), bd_write = None\<rparr>,
     v_blocksize = 128,
     v_info = \<lparr>s_block_size = 128, s_inode_size = 128, s_inodes_per_group = 8, s_blocks_per_group = 8, s_group_count = 1,
       s_group_desc = [\<lparr>bg_block_bitmap = 1, bg_inode_bitmap = 2, bg_inode_table = 3\<rparr>], s_inode_bitmap = [], s_block_bitmap = []\<rparr>\<rparr>"

lemma ones_block: "e2block ones_vol b = replicate 128 1"
  by (simp add: e2block_def ext2_read_def bread_def ones_vol_def map_replicate_const)

lemma ones_get32: "k + 3 < 128 \<Longrightarrow> get32 (replicate 128 1) k = 0x01010101"
  by (simp add: get32_def get16_def)

lemma ones_inode:
  "\<exists>ein. ext2_read_ino ones_vol 1 = Some ein \<and> ei_block ein = replicate 15 0x01010101"
proof -
  have "map (\<lambda>j. get32 (replicate 128 1) (0 + 40 + 4 * j)) [0..<15] = replicate 15 0x01010101"
    by (intro nth_equalityI) (auto simp: ones_get32)
  then have "ei_block (ext2_inode_of (replicate 128 1) 0) = replicate 15 0x01010101" by (simp add: ext2_inode_of_def)
  moreover have "ext2_read_ino ones_vol 1 = Some (ext2_inode_of (replicate 128 1) 0)"
    by (simp add: ext2_read_ino_def Let_def ones_vol_def ext2_read_def bread_def map_replicate_const unat_div_distrib)
  ultimately show ?thesis by blast
qed

theorem ext2_lread_correct_witness:
  "\<exists>bs f'. ext2_lread ones_vol (zero_inode\<lparr>i_ino := 1, i_size := 300\<rparr>)
     \<lparr>f_inode = 1, f_mode = 0, f_position = 250, f_refcont = 1, f_flags = 0, f_fops = 0\<rparr> 100 = Some (50, bs, f') \<and>
     f_position f' = 300 \<and> length bs = 50"
proof -
  let ?f = "\<lparr>f_inode = 1, f_mode = 0, f_position = 250, f_refcont = 1, f_flags = 0, f_fops = 0\<rparr>"
  obtain ein where e: "ext2_read_ino ones_vol 1 = Some ein" "ei_block ein = replicate 15 0x01010101" using ones_inode by blast
  have k: "ei_block ein ! k \<noteq> 0" if "k * 128 < 300" for k using that e(2) by simp
  have b: "unat (v_blocksize ones_vol) = 128" by (simp add: ones_vol_def)
  from ext2_lread_correct [of ones_vol "zero_inode\<lparr>i_ino := 1, i_size := 300\<rparr>" ein 128 ?f 100 50]
  show ?thesis using e b k by (fastforce simp: ones_block)
qed

theorem ext2_directory_correct_witness:
  "ext2_lookup \<lparr>v_bdev = \<lparr>bd_dev = 0, bd_start = 0, bd_read = Some (\<lambda>_ _ buf. (0, take (length buf)
       (enc \<lparr>dn_ino = 7, dn_type = 1, dn_name = [97, 98], dn_pad = [0, 0]\<rparr>))), bd_write = None\<rparr>,
     v_blocksize = 12, v_info = v_info ones_vol\<rparr> [5, 0, 0] [97, 98] = Some 7"
proof -
  let ?e = "\<lparr>dn_ino = 7, dn_type = 1, dn_name = [97, 98], dn_pad = [0, 0]\<rparr>"
  let ?v = "\<lparr>v_bdev = \<lparr>bd_dev = 0, bd_start = 0, bd_read = Some (\<lambda>_ _ buf. (0, take (length buf) (enc ?e))), bd_write = None\<rparr>,
     v_blocksize = 12, v_info = v_info ones_vol\<rparr>"
  have "e2block ?v b = enc ?e" for b
    by (simp add: e2block_def ext2_read_def bread_def dn_rec_def)
  then have "\<forall>b\<in>set (take 12 [5, 0, 0]). b \<noteq> 0 \<longrightarrow> e2block ?v b = concat (map enc [?e]) \<and> (\<forall>e\<in>set [?e]. dent_ok e)"
    by (simp add: dent_ok_def dn_rec_def)
  from ext2_directory_correct [OF this refl, of "[97, 98]"] show ?thesis by simp
qed

section \<open>The operations behave as the virtual file system requires\<close>

definition ext2_fsops :: "addr \<Rightarrow> addr \<Rightarrow> ext2_vol \<Rightarrow> (addr \<Rightarrow> u32 list) \<Rightarrow> (addr \<Rightarrow> inode) \<Rightarrow> fsops" where
  "ext2_fsops iops fops v pd nodes =
     \<lparr>op_lookup = (\<lambda>x. if x = iops then Some (\<lambda>i name. case ext2_lookup v (pd (i_pdata i)) name of Some k \<Rightarrow> k | None \<Rightarrow> - 1) else None),
      op_creat = (\<lambda>_. None), op_unlink = (\<lambda>_. None), op_open = (\<lambda>_. None), op_close = (\<lambda>_. None),
      op_read = (\<lambda>x. if x = fops then Some (\<lambda>f n. case ext2_lread v (nodes (f_inode f)) f n of
                   Some r \<Rightarrow> r | None \<Rightarrow> (- EFAULT, [], f)) else None),
      op_write = (\<lambda>_. None),
      op_readdir = (\<lambda>x. if x = fops then Some (\<lambda>f n. case ext2_readdir v (pd (i_pdata (nodes (f_inode f)))) n of
                   Some (es, r) \<Rightarrow> (int r, concat (map (\<lambda>e. le32 (nd_ino e) @ le32 (of_nat (nd_off e)) @
                     le32 (of_nat (nd_reclen e)) @ [0, nd_type e] @ nd_name e @ [0, 0, 0]) es), f)
                 | None \<Rightarrow> (- EFAULT, [], f)) else None),
      op_ioctl = (\<lambda>_. None)\<rparr>"

interpretation ext2: fs_driver "ext2_fsops iops fops v pd nodes" for iops fops v pd nodes
  by unfold_locales (auto simp: ext2_fsops_def same_file_def ext2_lread_def Let_def bind_eq_Some_conv
      split: if_splits option.splits)

text \<open>Both file systems together, as the kernel has them: tables at different addresses.\<close>

definition merge_ops :: "fsops \<Rightarrow> fsops \<Rightarrow> fsops" where
  "merge_ops a b =
     \<lparr>op_lookup = (\<lambda>x. case op_lookup a x of None \<Rightarrow> op_lookup b x | r \<Rightarrow> r),
      op_creat = (\<lambda>x. case op_creat a x of None \<Rightarrow> op_creat b x | r \<Rightarrow> r),
      op_unlink = (\<lambda>x. case op_unlink a x of None \<Rightarrow> op_unlink b x | r \<Rightarrow> r),
      op_open = (\<lambda>x. case op_open a x of None \<Rightarrow> op_open b x | r \<Rightarrow> r),
      op_close = (\<lambda>x. case op_close a x of None \<Rightarrow> op_close b x | r \<Rightarrow> r),
      op_read = (\<lambda>x. case op_read a x of None \<Rightarrow> op_read b x | r \<Rightarrow> r),
      op_write = (\<lambda>x. case op_write a x of None \<Rightarrow> op_write b x | r \<Rightarrow> r),
      op_readdir = (\<lambda>x. case op_readdir a x of None \<Rightarrow> op_readdir b x | r \<Rightarrow> r),
      op_ioctl = (\<lambda>x. case op_ioctl a x of None \<Rightarrow> op_ioctl b x | r \<Rightarrow> r)\<rparr>"

lemma merge_driver: "fs_driver a \<Longrightarrow> fs_driver b \<Longrightarrow> fs_driver (merge_ops a b)"
  unfolding fs_driver_def merge_ops_def by (auto split: option.splits)

interpretation kern: fs_driver "merge_ops (dev_fsops 8 9 (boot_devfs ctx pool buf) nodes) (ext2_fsops iops fops v pd nodes)"
  for ctx pool buf nodes iops fops v pd
  by (rule merge_driver) unfold_locales

end
