(* ===== verification/Fs_Mount.thy ===== *)
theory Fs_Mount
  imports Fs_Ext2
begin

text \<open>
  File system types and mounting, \<^verbatim>\<open>src/kern/fs/fs.c\<close> with \<^verbatim>\<open>ext2_mount\<close> of
  \<^verbatim>\<open>src/kern/fs/ext2/ext2fs.c\<close> and \<^verbatim>\<open>set_special\<close> of \<^verbatim>\<open>src/kern/fs/vfs.c\<close>: from a block device to
  an inode cache in which path lookup can start.  A null dereference is \<^const>\<open>None\<close>.
\<close>

section \<open>File system types\<close>

record fs_type =
  ft_name :: "u8 list option"
  ft_mount :: addr               \<comment> \<open>the \<^verbatim>\<open>mount\<close> pointer\<close>

text \<open>The chain from \<^verbatim>\<open>fs_types\<close>; every type is registered once.\<close>

definition register_fstype :: "fs_type \<Rightarrow> fs_type list \<Rightarrow> fs_type list" where
  "register_fstype t reg = (case ft_name t of None \<Rightarrow> reg | Some n \<Rightarrow> if n = [] then reg else reg @ [t])"

definition get_fstype :: "u8 list \<Rightarrow> fs_type list \<Rightarrow> fs_type option" where
  "get_fstype name reg = find (\<lambda>t. ft_name t = Some name) reg"

definition ext2_fs_type :: fs_type where
  "ext2_fs_type = \<lparr>ft_name = Some (bytes ''ext2''), ft_mount = 1\<rparr>"

definition register_fses :: "fs_type list \<Rightarrow> fs_type list" where
  "register_fses reg = register_fstype ext2_fs_type reg"

definition detect_fstype :: "block_dev option \<Rightarrow> fs_type list \<Rightarrow> fs_type option" where
  "detect_fstype bd reg =
     (let b = snd (bread bd 0 4 (replicate 2048 0))
      in if get16 b (1024 + 56) = 0xef53 then get_fstype (bytes ''ext2'') reg else None)"

section \<open>Mounting\<close>

text \<open>The super block \<^verbatim>\<open>ext2_fill_super\<close> sets up; \<open>ia\<close> is where \<^verbatim>\<open>ext2_inoder\<close> puts its data.\<close>

definition ext2_sb :: "addr \<Rightarrow> addr \<Rightarrow> addr \<Rightarrow> ext2_vol \<Rightarrow> super_block" where
  "ext2_sb iops fops ia v = \<lparr>s_blocksize = unat (v_blocksize v), s_dev = bd_dev (v_bdev v), s_root = NULL,
     s_read_inode = Some (\<lambda>i. case ext2_inoder v iops fops ia i of Some (i', _) \<Rightarrow> i' | None \<Rightarrow> i),
     s_write_inode = False, s_put_inode = True\<rparr>"

definition set_root :: "addr \<Rightarrow> addr \<Rightarrow> icache \<Rightarrow> icache" where
  "set_root sb r s = s\<lparr>supers := (supers s)(sb := (supers s sb)\<lparr>s_root := r\<rparr>)\<rparr>"

text \<open>\<^verbatim>\<open>ext2_mount\<close>: \<open>sba\<close> and \<open>nw\<close> are the blocks from \<^verbatim>\<open>malloc\<close> for the super block and the
  root inode.  When \<^verbatim>\<open>read_super\<close> rejects the disk its error is dropped and the root is null.\<close>

definition ext2_mount :: "addr \<Rightarrow> addr \<Rightarrow> addr \<Rightarrow> addr \<Rightarrow> addr \<Rightarrow> block_dev \<Rightarrow> mnts \<Rightarrow> icache \<Rightarrow> (addr \<times> mnts \<times> icache) option" where
  "ext2_mount iops fops ia sba nw bd m s =
     (if m_sb m \<noteq> NULL \<and> m_refs m (m_sb m) \<noteq> 0 then Some (s_root (supers s (m_sb m)), m, s)
      else Option.bind (sget sba bd m) (\<lambda>(a, m').
        case m_vol m' a of
          None \<Rightarrow> Some (NULL, m', s)
        | Some v \<Rightarrow>
            let s1 = s\<lparr>supers := (supers s)(a := ext2_sb iops fops ia v)\<rparr>;
                (r, s2) = iget nw a 2 s1
            in Some (r, m', set_root a r s2)))"

text \<open>\<open>bdevs\<close> gives the block device at an address; \<^verbatim>\<open>rootnode\<close> is the static inode at \<open>rn\<close>.\<close>

definition mount_root ::
    "fs_type list \<Rightarrow> devfs \<Rightarrow> (addr \<Rightarrow> block_dev) \<Rightarrow> addr \<times> addr \<times> addr \<Rightarrow> addr \<times> addr \<times> addr \<Rightarrow> addr \<Rightarrow>
     dev \<Rightarrow> u8 list \<Rightarrow> mnts \<Rightarrow> icache \<Rightarrow> (mnts \<times> icache) option" where
  "mount_root reg d bdevs tabs nws rn dv fstype m s =
     (let (iops, fops, ia) = tabs; (sba, nw, mnt) = nws in
      case get_fstype fstype reg of
        None \<Rightarrow> Some (m, s)
      | Some t \<Rightarrow>
          let ba = blkdev_get_dev dv d in
          if ba = NULL then None
          else Option.bind (ext2_mount iops fops ia sba nw (bdevs ba) m s) (\<lambda>(r, m', s').
            if r = NULL then None
            else Some (m', imount rn mnt (s'\<lparr>mnt_sb := (mnt_sb s')(mnt := i_sb (inodes s' r))\<rparr>))))"

text \<open>\<^verbatim>\<open>set_special\<close>: mount devfs on \<^verbatim>\<open>/dev\<close>; the lookup result is not tested.\<close>

definition set_special :: "fsops \<Rightarrow> (icache \<Rightarrow> addr) \<Rightarrow> addr \<Rightarrow> vfs \<Rightarrow> vfs option" where
  "set_special ops al devmnt v =
     Option.bind (lookup_vfs ops al v (bytes ''/dev'')) (\<lambda>(a, v1).
       if a = NULL then None else Some (v1\<lparr>ic := imount a devmnt (ic v1)\<rparr>))"

section \<open>Registered types are found\<close>

lemma get_registered:
  "ft_name t = Some n \<Longrightarrow> n \<noteq> [] \<Longrightarrow> get_fstype n reg = None \<Longrightarrow> get_fstype n (register_fstype t reg) = Some t"
  by (simp add: get_fstype_def register_fstype_def find_append)

lemma get_ext2: "get_fstype (bytes ''ext2'') (register_fses []) = Some ext2_fs_type"
  unfolding register_fses_def by (rule get_registered) (simp_all add: ext2_fs_type_def bytes_def get_fstype_def)

section \<open>After mounting, lookup can start\<close>

lemma iid_supers: "s_dev (sp (i_sb (inodes s a))) = s_dev (supers s (i_sb (inodes s a))) \<Longrightarrow> iid (s\<lparr>supers := sp\<rparr>) a = iid s a"
  by (simp add: iid_def)

text \<open>The counts stay right when only fields of uncached inodes, super blocks or mounts change.\<close>

lemma iref_frame:
  assumes inv: "iref_inv s R" and tab: "hitab s' = hitab s" "ilru s' = ilru s"
    and keep: "\<And>a. a \<in> cached s \<Longrightarrow> i_refs (inodes s' a) = i_refs (inodes s a) \<and>
      i_sb (inodes s' a) = i_sb (inodes s a) \<and> iid s' a = iid s a"
  shows "iref_inv s' R"
proof -
  have c: "cached s' = cached s" "in_tab s' = in_tab s" by (simp_all add: cached_def in_tab_def fun_eq_iff tab)
  have h: "a \<in> cached s" if "a \<in> set (hitab s k) \<or> a \<in> set (ilru s)" for a k using that by (auto simp: cached_def in_tab_def)
  have ok: "icache_ok s" using inv by (simp add: iref_inv_def)
  have "icache_ok s'"
    unfolding icache_ok_def c tab
  proof (intro conjI allI ballI)
    fix k a assume a: "a \<in> set (hitab s k)"
    then have "a \<in> cached s" using h by blast
    from keep [OF this] show "k = ihash (fst (iid s' a)) (snd (iid s' a))" "i_refs (inodes s' a) \<noteq> 0"
      using ic_tab [OF ok a] by simp_all
  next
    show "inj_on (iid s') (cached s)" using ic_inj [OF ok] keep by (metis inj_on_cong)
  qed (use ok ic_sb [OF ok] ic_lru [OF ok] keep h in \<open>auto simp: icache_ok_def\<close>)
  then show ?thesis using inv keep by (simp add: iref_inv_def c)
qed

lemma iref_supers:
  assumes "iref_inv s R" "\<And>a. a \<in> cached s \<Longrightarrow> s_dev (sp (i_sb (inodes s a))) = s_dev (supers s (i_sb (inodes s a)))"
  shows "iref_inv (s\<lparr>supers := sp\<rparr>) R"
  by (rule iref_frame [OF assms(1)]) (use assms(2) in \<open>simp_all add: iid_def\<close>)

lemma iref_imount:
  assumes "iref_inv s R"
  shows "iref_inv (imount a mnt (s\<lparr>mnt_sb := x\<rparr>)) R"
  by (rule iref_frame [OF assms]) (simp_all add: imount_def set_inode_def Let_def iid_def)

lemma iget_miss:
  assumes "(s_dev (supers s sb), i) \<notin> iid s ` cached s" "sb \<noteq> NULL"
  shows "fst (iget nw sb i s) = nw \<and> i_sb (inodes (snd (iget nw sb i s)) nw) = sb \<and>
    i_ino (inodes (snd (iget nw sb i s)) nw) = i"
proof -
  have m: "\<not> imatch s sb i a" if "a \<in> cached s" for a using assms(1) that by (metis imageI imatch_iid)
  then have "find (imatch s sb i) (hitab s k) = None" for k by (auto simp: find_None_iff cached_def in_tab_def)
  moreover have "find (\<lambda>a. i_sb (inodes s a) \<noteq> NULL \<and> imatch s sb i a) (ilru s) = None"
    using m by (auto simp: find_None_iff cached_def)
  ultimately show ?thesis using assms(2) by (simp add: iget_def Let_def set_inode_def)
qed

section \<open>What the cache holds\<close>

text \<open>The contents of the cache up to its bookkeeping: the cached inodes without their counts, super blocks and mounts.\<close>

definition same_content :: "icache \<Rightarrow> icache \<Rightarrow> bool" where
  "same_content s s' \<longleftrightarrow> cached s' = cached s \<and> (\<forall>a. (inodes s' a)\<lparr>i_refs := 0\<rparr> = (inodes s a)\<lparr>i_refs := 0\<rparr>) \<and>
     supers s' = supers s \<and> mnt_sb s' = mnt_sb s"

lemma sc_refl: "same_content s s"
  by (simp add: same_content_def)

lemma sc_trans: "same_content s s' \<Longrightarrow> same_content s' s'' \<Longrightarrow> same_content s s''"
  by (simp add: same_content_def)

lemma but_refs:
  assumes e: "i\<lparr>i_refs := 0\<rparr> = j\<lparr>i_refs := 0\<rparr>"
  shows "i_sb i = i_sb j" "i_ino i = i_ino j" "i_iflags i = i_iflags j" "i_mnt i = i_mnt j" "i_mode i = i_mode j"
    "i_rdev i = i_rdev j" "i_ops i = i_ops j" "i_pdata i = i_pdata j"
  using arg_cong [OF e, of i_sb] arg_cong [OF e, of i_ino] arg_cong [OF e, of i_iflags] arg_cong [OF e, of i_mnt]
    arg_cong [OF e, of i_mode] arg_cong [OF e, of i_rdev] arg_cong [OF e, of i_ops] arg_cong [OF e, of i_pdata]
  by simp_all

lemma sc_fields:
  assumes "same_content s s'"
  shows "i_sb (inodes s' a) = i_sb (inodes s a)" "i_ino (inodes s' a) = i_ino (inodes s a)"
    "i_iflags (inodes s' a) = i_iflags (inodes s a)" "i_mnt (inodes s' a) = i_mnt (inodes s a)"
    "i_mode (inodes s' a) = i_mode (inodes s a)" "i_rdev (inodes s' a) = i_rdev (inodes s a)"
    "i_ops (inodes s' a) = i_ops (inodes s a)" "i_pdata (inodes s' a) = i_pdata (inodes s a)"
    "supers s' = supers s" "mnt_sb s' = mnt_sb s" "cached s' = cached s" "iid s' a = iid s a"
proof -
  note e = but_refs [of "inodes s' a" "inodes s a"]
  show "i_sb (inodes s' a) = i_sb (inodes s a)" "i_ino (inodes s' a) = i_ino (inodes s a)"
    "i_iflags (inodes s' a) = i_iflags (inodes s a)" "i_mnt (inodes s' a) = i_mnt (inodes s a)"
    "i_mode (inodes s' a) = i_mode (inodes s a)" "i_rdev (inodes s' a) = i_rdev (inodes s a)"
    "i_ops (inodes s' a) = i_ops (inodes s a)" "i_pdata (inodes s' a) = i_pdata (inodes s a)"
    "supers s' = supers s" "mnt_sb s' = mnt_sb s" "cached s' = cached s" using assms e by (simp_all add: same_content_def)
  then show "iid s' a = iid s a" by (simp add: iid_def)
qed

lemma sc_put:
  assumes "iref_inv s R" "a \<in># R"
  shows "same_content s (iput a s)" "iref_inv (iput a s) (R - {#a#})"
proof -
  have ok: "icache_ok s" "in_tab s a" using assms by (auto simp: iref_inv_def)
  note p = iput_ok [OF ok]
  have "mnt_sb (iput a s) = mnt_sb s" by (simp add: iput_def Let_def set_inode_def)
  moreover have "(inodes (iput a s) b)\<lparr>i_refs := 0\<rparr> = (inodes s b)\<lparr>i_refs := 0\<rparr>" for b
    by (simp add: iput_def Let_def set_inode_def)
  ultimately show "same_content s (iput a s)" using p by (simp add: same_content_def)
  show "iref_inv (iput a s) (R - {#a#})" by (rule iref_put [OF assms])
qed

text \<open>A cached inode is found again, with one reference more.\<close>

lemma get_cached:
  assumes inv: "iref_inv s R" "size R < 2 ^ 16 - 1" and b: "b \<in> cached s" "iid s b = (s_dev (supers s sb), i)"
    and nw: "new_ok s nw sb"
  shows "\<exists>s'. iget nw sb i s = (b, s') \<and> same_content s s' \<and> iref_inv s' (add_mset b R)"
proof -
  from iref_get [OF inv(1) nw inv(2), of i] obtain a s' where a: "iget nw sb i s = (a, s')" "iref_inv s' (R + {#a#})"
    "iget_post s (s_dev (supers s sb), i) a s'" by blast
  have "(s_dev (supers s sb), i) \<in> iid s ` cached s" using b by (metis imageI)
  then have "a \<in> cached s" using a(3) by (simp add: iget_post_def)
  then have "a \<noteq> nw" using nw by (auto simp: new_ok_def)
  then have sh: "mnt_sb s' = mnt_sb s \<and> (inodes s' c)\<lparr>i_refs := 0\<rparr> = (inodes s c)\<lparr>i_refs := 0\<rparr>" for c
    using a(1) by (auto simp: iget_def Let_def ref_inc_def set_inode_def split: if_splits option.splits)
  then have sc: "same_content s s'" using a(3) \<open>a \<in> cached s\<close> by (auto simp: same_content_def iget_post_def)
  have "iid s a = iid s b" using a(3) b(2) sc_fields(12) [OF sc, of a] by (simp add: iget_post_def)
  then have "a = b" using ic_inj inv(1) b(1) \<open>a \<in> cached s\<close> by (auto simp: iref_inv_def dest: inj_onD)
  then show ?thesis using a sc by simp
qed

text \<open>An inode that is not cached is read.\<close>

definition read_node :: "super_block \<Rightarrow> addr \<Rightarrow> ino \<Rightarrow> inode" where
  "read_node sb a i =
     (let fix_up = (\<lambda>j. j\<lparr>i_ino := i, i_dev := s_dev sb, i_sb := a, i_refs := 1\<rparr>)
      in fix_up (case s_read_inode sb of None \<Rightarrow> fix_up zero_inode | Some rd \<Rightarrow> rd (fix_up zero_inode)))"

lemma get_uncached:
  assumes inv: "iref_inv s R" "size R < 2 ^ 16 - 1" and m: "(s_dev (supers s sb), i) \<notin> iid s ` cached s"
    and nw: "new_ok s nw sb"
  shows "\<exists>s'. iget nw sb i s = (nw, s') \<and> iref_inv s' (add_mset nw R) \<and> cached s' = insert nw (cached s) \<and>
    inodes s' = (inodes s)(nw := read_node (supers s sb) sb i) \<and> supers s' = supers s \<and> mnt_sb s' = mnt_sb s"
proof -
  have sb: "sb \<noteq> NULL" using nw by (simp add: new_ok_def)
  from iref_get [OF inv(1) nw inv(2), of i] obtain a s' where a: "iget nw sb i s = (a, s')" "iref_inv s' (R + {#a#})"
    "iget_post s (s_dev (supers s sb), i) a s'" by blast
  have "a = nw" using iget_miss [OF m sb, of nw] a(1) by simp
  moreover have mm: "\<not> imatch s sb i c" if "c \<in> cached s" for c using m that by (metis imageI imatch_iid)
  have "find (imatch s sb i) (hitab s k) = None" for k using mm by (auto simp: find_None_iff cached_def in_tab_def)
  moreover have "find (\<lambda>c. i_sb (inodes s c) \<noteq> NULL \<and> imatch s sb i c) (ilru s) = None"
    using mm by (auto simp: find_None_iff cached_def)
  ultimately show ?thesis using a sb
    by (auto simp: iget_def Let_def set_inode_def read_node_def iget_post_def)
qed

section \<open>Mounting the root\<close>

lemma mount_root_state:
  assumes inv: "iref_inv s R" "size R < 2 ^ 16 - 1" and ft: "get_fstype fstype reg \<noteq> None"
    and dv: "blkdev_get_dev dv d \<noteq> NULL" and new: "m_sb m = NULL"
    and fill: "ext2_fill_super (bdevs (blkdev_get_dev dv d)) = Some (0, Some v)"
    and sba: "sba \<noteq> NULL" "\<forall>a\<in>cached s. i_sb (inodes s a) \<noteq> sba" and nw: "nw \<noteq> NULL" "nw \<notin> cached s"
    and rn: "rn \<notin> cached s" "rn \<noteq> nw" and fresh: "(bd_dev (v_bdev v), 2) \<notin> iid s ` cached s"
  shows "\<exists>m' s'. mount_root reg d bdevs (iops, fops, ia) (sba, nw, mnt) rn dv fstype m s = Some (m', s') \<and>
    m_sb m' = sba \<and> m_vol m' sba = Some v \<and> iref_inv s' (add_mset nw R) \<and> cached s' = insert nw (cached s) \<and>
    inodes s' nw = read_node (ext2_sb iops fops ia v) sba 2 \<and> (\<forall>a. a \<notin> {nw, rn} \<longrightarrow> inodes s' a = inodes s a) \<and>
    i_mnt (inodes s' rn) = mnt \<and> supers s' = (supers s)(sba := (ext2_sb iops fops ia v)\<lparr>s_root := nw\<rparr>) \<and>
    mnt_sb s' = (mnt_sb s)(mnt := sba)"
proof -
  let ?sb = "ext2_sb iops fops ia v" and ?s1 = "s\<lparr>supers := (supers s)(sba := ext2_sb iops fops ia v)\<rparr>"
  have i1: "iref_inv ?s1 R" by (rule iref_supers [OF inv(1)]) (use sba in auto)
  have c1: "cached ?s1 = cached s" by (simp add: cached_def in_tab_def)
  have ids: "iid ?s1 ` cached ?s1 = iid s ` cached s" unfolding c1
    by (rule image_cong [OF refl], rule iid_supers) (use sba in auto)
  have "s_dev (supers ?s1 sba) = bd_dev (v_bdev v)" by (simp add: ext2_sb_def)
  then have miss: "(s_dev (supers ?s1 sba), 2) \<notin> iid ?s1 ` cached ?s1" unfolding ids using fresh by simp
  have "new_ok ?s1 nw sba" using nw sba c1 by (simp add: new_ok_def)
  from get_uncached [OF i1 inv(2) miss this] obtain s2 where g: "iget nw sba 2 ?s1 = (nw, s2)" "iref_inv s2 (add_mset nw R)"
    "cached s2 = insert nw (cached s)" "inodes s2 = (inodes s)(nw := read_node ?sb sba 2)" "supers s2 = supers ?s1"
    "mnt_sb s2 = mnt_sb s" using c1 by auto
  let ?s3 = "set_root sba nw s2"
  let ?s4 = "imount rn mnt (?s3\<lparr>mnt_sb := (mnt_sb ?s3)(mnt := sba)\<rparr>)"
  have nsb: "i_sb (read_node ?sb sba 2) = sba" by (simp add: read_node_def Let_def)
  have "mount_root reg d bdevs (iops, fops, ia) (sba, nw, mnt) rn dv fstype m s =
      Some (m\<lparr>m_sb := sba, m_vol := (m_vol m)(sba := Some v), m_refs := (m_refs m)(sba := 1)\<rparr>, ?s4)"
    using ft dv new fill g nw nsb
    by (auto simp: mount_root_def ext2_mount_def sget_def Let_def set_root_def split: option.splits)
  moreover have "iref_inv ?s3 (add_mset nw R)" unfolding set_root_def by (rule iref_supers [OF g(2)]) simp
  then have "iref_inv ?s4 (add_mset nw R)"
    by (rule iref_imount)
  moreover have "cached ?s4 = insert nw (cached s)"
    using g(3) by (simp add: imount_def set_inode_def Let_def set_root_def cached_def in_tab_def)
  ultimately show ?thesis using g rn by (simp add: imount_def set_inode_def Let_def set_root_def)
qed

text \<open>Mounting the root: with an ext2 super block on the disk that \<^verbatim>\<open>ext2_fill_super\<close> accepts,
  \<^verbatim>\<open>mount_root\<close> succeeds; the root inode (number 2) is cached and holds exactly one reference
  of the mount, all other references are as before, and the lookup of \<^verbatim>\<open>/\<close> returns it.  An
  unknown file system type changes nothing.\<close>

theorem mount_root_correct:
  assumes inv: "iref_inv s R" "size R + 2 < 2 ^ 16 - 1" and ft: "get_fstype fstype reg \<noteq> None"
    and dv: "blkdev_get_dev dv d \<noteq> NULL" and new: "m_sb m = NULL"
    and fill: "ext2_fill_super (bdevs (blkdev_get_dev dv d)) = Some (0, Some v)"
    and sba: "sba \<noteq> NULL" "\<forall>a\<in>cached s. i_sb (inodes s a) \<noteq> sba" and nw: "nw \<noteq> NULL" "nw \<notin> cached s"
    and rn: "rn \<notin> cached s" "rn \<noteq> nw" and mnt: "mnt \<noteq> NULL"
    and fresh: "(bd_dev (v_bdev v), 2) \<notin> iid s ` cached s" and al: "fresh_alloc al"
  shows "(\<exists>m' s' s''. mount_root reg d bdevs (iops, fops, ia) (sba, nw, mnt) rn dv fstype m s = Some (m', s') \<and>
    iref_inv s' (add_mset nw R) \<and> i_ino (inodes s' nw) = 2 \<and> i_mnt (inodes s' rn) = mnt \<and>
    lookup_vfs_i ops al mnt [SLASH] s' = Some (nw, s'') \<and> iref_inv s'' (add_mset nw (add_mset nw R))) \<and>
    (get_fstype other reg = None \<longrightarrow> mount_root reg d bdevs (iops, fops, ia) (sba, nw, mnt) rn dv other m s = Some (m, s))"
proof (rule conjI)
  show "get_fstype other reg = None \<longrightarrow> mount_root reg d bdevs (iops, fops, ia) (sba, nw, mnt) rn dv other m s = Some (m, s)"
    by (simp add: mount_root_def)
  from mount_root_state [where fstype = fstype and reg = reg and d = d and bdevs = bdevs and rn = rn and mnt = mnt and iops = iops
      and fops = fops and ia = ia, OF inv(1) _ ft dv new fill sba nw rn fresh] inv(2)
  obtain m' s' where m: "mount_root reg d bdevs (iops, fops, ia) (sba, nw, mnt) rn dv fstype m s = Some (m', s')"
    "iref_inv s' (add_mset nw R)" "cached s' = insert nw (cached s)" "inodes s' nw = read_node (ext2_sb iops fops ia v) sba 2"
    "i_mnt (inodes s' rn) = mnt" "supers s' = (supers s)(sba := (ext2_sb iops fops ia v)\<lparr>s_root := nw\<rparr>)"
    "mnt_sb s' mnt = sba" by auto
  have id: "i_ino (inodes s' nw) = 2" "i_sb (inodes s' nw) = sba" using m(4) by (simp_all add: read_node_def Let_def)
  have "new_ok s' (al s') sba" using al m(2) sba by (auto simp: new_ok_def fresh_alloc_def iref_inv_def)
  from get_cached [OF m(2) _ _ _ this, of nw 2] inv(2) m(3) id obtain s'' where
    g: "iget (al s') sba 2 s' = (nw, s'')" "iref_inv s'' (add_mset nw (add_mset nw R))" by (auto simp: iid_def)
  have "lookup_vfs_i ops al mnt [SLASH] s' = Some (nw, s'')"
    using mnt m(6,7) id g(1) by (simp add: lookup_vfs_i_def Let_def tokens.simps)
  with m id g show "\<exists>m' s' s''. mount_root reg d bdevs (iops, fops, ia) (sba, nw, mnt) rn dv fstype m s = Some (m', s') \<and>
    iref_inv s' (add_mset nw R) \<and> i_ino (inodes s' nw) = 2 \<and> i_mnt (inodes s' rn) = mnt \<and>
    lookup_vfs_i ops al mnt [SLASH] s' = Some (nw, s'') \<and> iref_inv s'' (add_mset nw (add_mset nw R))" by blast
qed

text \<open>A disk that holds one empty block group.\<close>

definition tiny_byte :: "nat \<Rightarrow> u8" where
  "tiny_byte a = (if a = 1080 then 0x53 else if a = 1081 then 0xef else if a = 1056 \<or> a = 1028 \<or> a = 1064 then 1 else 0)"

definition tiny_disk :: block_dev where
  "tiny_disk = \<lparr>bd_dev = 0x800, bd_start = 0,
     bd_read = Some (\<lambda>lba cnt buf. (int cnt, map (\<lambda>k. tiny_byte (512 * unat lba + k)) [0..<length buf])), bd_write = None\<rparr>"

lemma tiny_fill: "\<exists>v. ext2_fill_super tiny_disk = Some (0, Some v) \<and> v_bdev v = tiny_disk"
proof -
  let ?b = "map (\<lambda>k. tiny_byte (1024 + k)) [0..<1024]"
  have b: "snd (bread (Some tiny_disk) 2 2 (replicate 1024 0)) = ?b"
    by (simp add: bread_def tiny_disk_def)
  have sb: "ext2_superblock_of ?b = \<lparr>sbk_blocks_count = 1, sbk_log_block_siz = 0, sbk_blocks_per_group = 1,
      sbk_inodes_per_group = 1, sbk_magic = 0xef53, sbk_inode_siz = 0\<rparr>"
    by (simp add: ext2_superblock_of_def get32_def get16_def tiny_byte_def)
  let ?inf = "\<lparr>s_block_size = 1024, s_inode_size = 0, s_inodes_per_group = 1, s_blocks_per_group = 1, s_group_count = 1,
     s_group_desc = [], s_inode_bitmap = [], s_block_bitmap = []\<rparr>"
  let ?v = "\<lparr>v_bdev = tiny_disk, v_blocksize = 1024, v_info = ?inf\<rparr>"
  have l: "length (e2block ?v 2) = 1024" by (simp add: e2block_def ext2_read_def bread_def tiny_disk_def)
  have g: "\<exists>w. ext2_groups ?v (e2block ?v 2) 1 0 0 = Some w \<and> v_bdev w = tiny_disk"
    using l by (simp add: EXT2_MAX_GROUP_LOADED_def Let_def)
  then show ?thesis
    by (auto simp: ext2_fill_super_def b sb Let_def EXT2_SUPER_MAGIC_def DIV_ROUND_UP_def simp del: One_nat_def)
qed

theorem mount_root_correct_witness:
  "\<exists>m' s' s''. mount_root (register_fses [])
     ((raw_devfs ctx_zero [] 0)\<lparr>dev_blk_dev := [1], devs := (\<lambda>_. no_device\<lparr>dv_devt := 0x800, dv_pdata := 1\<rparr>)\<rparr>)
     (\<lambda>_. tiny_disk) (1, 2, 3) (20, 30, 40) 50 0x800 (bytes ''ext2'')
     \<lparr>m_sb = 0, m_refs = (\<lambda>_. 0), m_vol = (\<lambda>_. None), m_freed = []\<rparr> (empty_cache sample_sbs) = Some (m', s') \<and>
     lookup_vfs_i no_ops sample_al 40 [SLASH] s' = Some (30, s'')"
proof -
  let ?d = "(raw_devfs ctx_zero [] 0)\<lparr>dev_blk_dev := [1], devs := (\<lambda>_. no_device\<lparr>dv_devt := 0x800, dv_pdata := 1\<rparr>)\<rparr>"
  obtain v where v: "ext2_fill_super tiny_disk = Some (0, Some v)" using tiny_fill by blast
  have c: "cached (empty_cache sample_sbs) = {}" by (simp add: cached_def in_tab_def empty_cache_def)
  have b: "blkdev_get_dev 0x800 ?d = 1" by (simp add: blkdev_get_dev_def)
  from mount_root_correct [where s = "empty_cache sample_sbs" and R = "{#}" and fstype = "bytes ''ext2''" and
      reg = "register_fses []" and dv = "0x800" and d = ?d and bdevs = "\<lambda>_. tiny_disk" and v = v and sba = 20 and
      nw = 30 and rn = 50 and mnt = 40 and al = sample_al and iops = 1 and fops = 2 and ia = 3 and ops = no_ops and other = "[]" and
      m = "\<lparr>m_sb = 0, m_refs = (\<lambda>_. 0), m_vol = (\<lambda>_. None), m_freed = []\<rparr>"]
  show ?thesis using v b c get_ext2 sample_al_fresh empty_cache_inv [of sample_sbs] by (auto split: prod.splits)
qed

end
