(* ===== verification/Proc_Sched.thy ===== *)
theory Proc_Sched
  imports Kern_Prelude
begin

text \<open>
  Processes and scheduling, \<^verbatim>\<open>src/kern/proc/proc.c\<close>: the process table, kernel stacks, the
  run queue, wait queues and the switch.  A process is its index in \<^verbatim>\<open>procs\<close>; a queue is the
  list of processes on it (\<^verbatim>\<open>Lib_List\<close>: \<^verbatim>\<open>list_add_tail\<close> appends, \<^verbatim>\<open>list_del\<close> removes, and does
  nothing to a node that is on no list).  \<^const>\<open>None\<close> is undefined behaviour: taking the
  process of an empty queue's head, or using a null process.  The register switch of
  \<^verbatim>\<open>task_switch\<close> is the change of \<open>cur\<close>.
\<close>

section \<open>Data\<close>

definition P_SFREE :: nat where "P_SFREE = 0"
definition P_SSLEEP :: nat where "P_SSLEEP = 1"
definition P_SRUN :: nat where "P_SRUN = 2"
definition P_SRUNABLE :: nat where "P_SRUNABLE = 3"
definition NOPROC :: nat where "NOPROC = 10"
definition STACKSIZ :: nat where "STACKSIZ = 512"
definition HEAP_SIZ :: nat where "HEAP_SIZ = 1024"
definition CS_U :: nat where "CS_U = 0x1b"
definition DS_U :: nat where "DS_U = 0x23"
definition DS_K :: nat where "DS_K = 0x10"
definition REGS_SIZ :: nat where "REGS_SIZ = 76"

lemmas proc_defs = P_SFREE_def P_SSLEEP_def P_SRUN_def P_SRUNABLE_def NOPROC_def

record proc =
  p_stat :: nat
  p_stidx :: nat
  p_pid :: nat
  p_ppid :: nat
  p_addr :: addr
  p_args :: addr
  p_esp :: addr    \<comment> \<open>\<^verbatim>\<open>con.esp\<close>, also \<^verbatim>\<open>p_frame\<close>\<close>
  p_cs :: nat      \<comment> \<open>code segment, data segments and flags of the frame\<close>
  p_ss :: nat
  p_eflags :: nat

record sched =
  procs :: "proc list"
  used_stacks :: "bool list"
  runq :: "nat list"
  waitq :: "addr \<Rightarrow> nat list"
  cur :: nat
  bss_end :: addr

section \<open>Operations\<close>

fun first_false :: "bool list \<Rightarrow> nat \<Rightarrow> nat option" where
  "first_false [] i = None"
| "first_false (x # xs) i = (if x then first_false xs (Suc i) else Some i)"

text \<open>The index (\<open>0xff\<close> when all are used) and the new stack pointer.\<close>

definition alloc_esp :: "addr \<Rightarrow> sched \<Rightarrow> nat \<times> addr \<times> sched" where
  "alloc_esp esp0 s =
     (case first_false (used_stacks s) 0 of
        Some i \<Rightarrow> (i, i * (STACKSIZ + 1) + bss_end s + HEAP_SIZ, s\<lparr>used_stacks := (used_stacks s)[i := True]\<rparr>)
      | None \<Rightarrow> (0xff, esp0, s))"

definition dealloc_esp :: "nat \<Rightarrow> sched \<Rightarrow> sched" where
  "dealloc_esp idx s = s\<lparr>used_stacks := (used_stacks s)[idx := False]\<rparr>"

definition set_stat :: "nat \<Rightarrow> nat \<Rightarrow> sched \<Rightarrow> sched" where
  "set_stat p st s = s\<lparr>procs := (procs s)[p := (procs s ! p)\<lparr>p_stat := st\<rparr>]\<rparr>"

definition find_freeproc :: "sched \<Rightarrow> nat option" where
  "find_freeproc s = first_false (map (\<lambda>p. p_stat p \<noteq> P_SFREE) (procs s)) 0"

definition enqueque_runqueue :: "nat \<Rightarrow> sched \<Rightarrow> sched" where
  "enqueque_runqueue p s = s\<lparr>runq := runq s @ [p]\<rparr>"

definition dequeque_runqueue :: "nat \<Rightarrow> sched \<Rightarrow> sched" where
  "dequeque_runqueue p s = s\<lparr>runq := remove1 p (runq s)\<rparr>"

definition proc_next :: "sched \<Rightarrow> nat option" where
  "proc_next s = (case runq s of [] \<Rightarrow> None | p # _ \<Rightarrow> Some p)"

definition task_switch :: "nat \<Rightarrow> sched \<Rightarrow> sched" where
  "task_switch p s = s\<lparr>cur := p\<rparr>"

definition schedule :: "sched \<Rightarrow> sched option" where
  "schedule s = Option.bind (proc_next s) (\<lambda>nxt.
     if nxt = cur s then Some s
     else let s1 = (if p_stat (procs s ! cur s) = P_SRUN then enqueque_runqueue (cur s) s else s);
              s2 = dequeque_runqueue nxt s1
          in Some (task_switch nxt s2))"

text \<open>\<^verbatim>\<open>sleep_on\<close> up to the switch; the lock is dropped before and taken after it.\<close>

definition sleep_on :: "addr \<Rightarrow> sched \<Rightarrow> sched option" where
  "sleep_on q s =
     (let s1 = dequeque_runqueue (cur s) s;
          s2 = set_stat (cur s) P_SSLEEP s1;
          s3 = s2\<lparr>waitq := (waitq s2)(q := waitq s2 q @ [cur s])\<rparr>
      in schedule s3)"

definition wake_up :: "addr \<Rightarrow> sched \<Rightarrow> sched option" where
  "wake_up q s =
     (case waitq s q of
        [] \<Rightarrow> None
      | p # ps \<Rightarrow>
          let s1 = s\<lparr>waitq := (waitq s)(q := ps)\<rparr>
          in Some (enqueque_runqueue p (set_stat p P_SRUN s1)))"

definition free_proc :: "nat \<Rightarrow> sched \<Rightarrow> sched" where
  "free_proc p s = set_stat p P_SFREE (dequeque_runqueue p s)"

definition block_proc :: "nat \<Rightarrow> sched \<Rightarrow> sched" where
  "block_proc p s = set_stat p P_SSLEEP (dequeque_runqueue p s)"

definition exit_cur :: "sched \<Rightarrow> sched option" where
  "exit_cur s =
     (let s1 = dequeque_runqueue (cur s) s;
          s2 = set_stat (cur s) P_SFREE s1;
          s3 = dealloc_esp (p_stidx (procs s ! cur s)) s2
      in schedule s3)"

definition alloc_proc :: "addr \<Rightarrow> nat \<Rightarrow> addr \<Rightarrow> sched \<Rightarrow> nat option \<times> sched" where
  "alloc_proc f cs args s =
     (case find_freeproc s of
        None \<Rightarrow> (None, s)
      | Some i \<Rightarrow>
          let (k, esp, s1) = alloc_esp 0x6210 s;
              p = \<lparr>p_stat = P_SRUNABLE, p_stidx = k, p_pid = i, p_ppid = 0, p_addr = f, p_args = args,
                   p_esp = esp - REGS_SIZ, p_cs = cs, p_ss = (if cs = CS_U then DS_U else DS_K), p_eflags = 0x202\<rparr>
          in (Some i, s1\<lparr>procs := (procs s1)[i := p]\<rparr>))"

definition add_proc :: "nat \<Rightarrow> sched \<Rightarrow> sched" where
  "add_proc p s = enqueque_runqueue p (set_stat p P_SRUN s)"

definition spawn_proc :: "addr \<Rightarrow> nat \<Rightarrow> addr \<Rightarrow> sched \<Rightarrow> sched option" where
  "spawn_proc f cs args s =
     (case alloc_proc f cs args s of (None, _) \<Rightarrow> None | (Some p, s') \<Rightarrow> Some (add_proc p s'))"

definition init_root_proc :: "sched \<Rightarrow> sched option" where
  "init_root_proc s =
     (case alloc_proc 0x9400 0x08 0 (s\<lparr>runq := []\<rparr>) of
        (None, _) \<Rightarrow> None
      | (Some p, s') \<Rightarrow> Some ((add_proc p s')\<lparr>cur := p\<rparr>))"

section \<open>The invariant\<close>

definition stat_of :: "sched \<Rightarrow> nat \<Rightarrow> nat" where
  "stat_of s i = p_stat (procs s ! i)"

text \<open>Queues: every process is on at most one queue, the run queue holds runnable
  processes, wait queues hold sleeping ones, and no runnable process is lost.\<close>

definition queues_ok :: "sched \<Rightarrow> bool" where
  "queues_ok s \<longleftrightarrow> length (procs s) = NOPROC \<and> cur s < NOPROC \<and> distinct (runq s) \<and>
     (\<forall>i\<in>set (runq s). i < NOPROC \<and> stat_of s i = P_SRUN) \<and>
     (\<forall>i<NOPROC. stat_of s i = P_SRUN \<longrightarrow> i = cur s \<or> i \<in> set (runq s)) \<and>
     (\<forall>q. distinct (waitq s q) \<and> (\<forall>i\<in>set (waitq s q). i < NOPROC \<and> stat_of s i = P_SSLEEP)) \<and>
     (\<forall>q r. q \<noteq> r \<longrightarrow> set (waitq s q) \<inter> set (waitq s r) = {})"

text \<open>Stacks: every live process has its own, and every used stack belongs to one.\<close>

definition stacks_ok :: "sched \<Rightarrow> bool" where
  "stacks_ok s \<longleftrightarrow> length (used_stacks s) = NOPROC \<and> length (procs s) = NOPROC \<and>
     (\<forall>i<NOPROC. stat_of s i \<noteq> P_SFREE \<longrightarrow> p_stidx (procs s ! i) < NOPROC \<and> used_stacks s ! p_stidx (procs s ! i)) \<and>
     (\<forall>i<NOPROC. \<forall>j<NOPROC. stat_of s i \<noteq> P_SFREE \<and> stat_of s j \<noteq> P_SFREE \<and> i \<noteq> j \<longrightarrow>
        p_stidx (procs s ! i) \<noteq> p_stidx (procs s ! j)) \<and>
     (\<forall>k<NOPROC. used_stacks s ! k \<longrightarrow> (\<exists>i<NOPROC. stat_of s i \<noteq> P_SFREE \<and> p_stidx (procs s ! i) = k))"

lemma first_false_spec:
  "(first_false xs i = None \<longleftrightarrow> (\<forall>j<length xs. xs ! j)) \<and>
   (\<forall>k. first_false xs i = Some k \<longrightarrow> i \<le> k \<and> k < i + length xs \<and> \<not> xs ! (k - i))"
proof (induction xs arbitrary: i)
  case (Cons x xs)
  show ?case
  proof (cases x)
    case True
    have "(\<forall>j<length (x # xs). (x # xs) ! j) \<longleftrightarrow> (\<forall>j<length xs. xs ! j)"
      using True by (auto simp: All_less_Suc2)
    moreover have "\<not> (x # xs) ! (k - i)" if "first_false xs (Suc i) = Some k" for k
    proof -
      have "Suc i \<le> k" "\<not> xs ! (k - Suc i)" using Cons.IH [of "Suc i"] that by auto
      then show ?thesis by (cases "k - i") (auto, metis Suc_diff_Suc Suc_le_lessD nat.inject)
    qed
    ultimately show ?thesis using True Cons.IH [of "Suc i"] by fastforce
  qed (use Cons in \<open>auto simp: All_less_Suc2\<close>)
qed simp

lemma set_stat_simps [simp]:
  "runq (set_stat p st s) = runq s" "waitq (set_stat p st s) = waitq s" "cur (set_stat p st s) = cur s"
  "used_stacks (set_stat p st s) = used_stacks s" "length (procs (set_stat p st s)) = length (procs s)"
  "bss_end (set_stat p st s) = bss_end s"
  by (simp_all add: set_stat_def)

lemma set_stat_stat [simp]:
  "p < length (procs s) \<Longrightarrow> stat_of (set_stat p st s) i = (if i = p then st else stat_of s i)"
  by (simp add: set_stat_def stat_of_def nth_list_update)

lemma set_stat_stidx [simp]: "p_stidx (procs (set_stat p st s) ! i) = p_stidx (procs s ! i)"
  by (cases "p < length (procs s)"; cases "i = p") (simp_all add: set_stat_def list_update_beyond)

lemma stat_of_upd [simp]:
  "stat_of (s\<lparr>runq := r\<rparr>) = stat_of s" "stat_of (s\<lparr>waitq := w\<rparr>) = stat_of s" "stat_of (s\<lparr>cur := c\<rparr>) = stat_of s"
  "stat_of (s\<lparr>used_stacks := u\<rparr>) = stat_of s"
  by (auto simp: stat_of_def fun_eq_iff)

section \<open>Scheduling\<close>

lemma schedule_queues:
  assumes ok: "queues_ok s" and sch: "schedule s = Some s'"
    and here: "cur s \<notin> set (runq s) \<or> hd (runq s) = cur s"
  shows "queues_ok s'" and "procs s' = procs s" and "waitq s' = waitq s"
    and "cur s' \<notin> set (runq s') \<or> hd (runq s') = cur s'" and "used_stacks s' = used_stacks s"
proof -
  obtain n r where n: "runq s = n # r" using sch by (auto simp: schedule_def proc_next_def split: list.splits)
  show "procs s' = procs s" "waitq s' = waitq s" "used_stacks s' = used_stacks s"
    using sch n by (auto simp: schedule_def proc_next_def Let_def enqueque_runqueue_def dequeque_runqueue_def
        task_switch_def split: if_splits)
  show "cur s' \<notin> set (runq s') \<or> hd (runq s') = cur s'"
    using sch n here ok by (auto simp: schedule_def proc_next_def Let_def enqueque_runqueue_def dequeque_runqueue_def
        task_switch_def queues_ok_def split: if_splits)
  show "queues_ok s'"
  proof (cases "n = cur s")
    case True
    then show ?thesis using sch n ok by (simp add: schedule_def proc_next_def)
  next
    case False
    then have c: "cur s \<notin> set (runq s)" using here n by auto
    let ?r = "if stat_of s (cur s) = P_SRUN then r @ [cur s] else r"
    have s': "s' = s\<lparr>runq := ?r, cur := n\<rparr>"
      using sch n False c by (auto simp: schedule_def proc_next_def Let_def enqueque_runqueue_def
          dequeque_runqueue_def task_switch_def stat_of_def)
    show ?thesis using ok n c unfolding s' queues_ok_def by (auto split: if_splits)
  qed
qed

lemma schedule_round:
  assumes "cur s \<notin> set (runq s)" "stat_of s (cur s) = P_SRUN" "runq s = n # r"
  shows "schedule s = Some (s\<lparr>runq := r @ [cur s], cur := n\<rparr>)"
proof -
  have "n \<noteq> cur s" using assms by auto
  then show ?thesis using assms
    by (simp add: schedule_def proc_next_def Let_def enqueque_runqueue_def dequeque_runqueue_def task_switch_def
        stat_of_def)
qed

lemma ok_dequeue_cur:
  assumes "queues_ok s" "cur s \<notin> set (runq s) \<or> hd (runq s) = cur s"
  shows "cur s \<notin> set (remove1 (cur s) (runq s))" "distinct (remove1 (cur s) (runq s))"
  using assms by (auto simp: queues_ok_def)

text \<open>The current process leaves the processor: it sleeps or ends.\<close>

lemma leave_queues:
  assumes ok: "queues_ok s" and st: "st \<noteq> P_SRUN" and run: "stat_of s (cur s) = P_SRUN"
    and w: "w = waitq s \<or> (st = P_SSLEEP \<and> w = (waitq s)(q := waitq s q @ [cur s]))"
  shows "queues_ok ((set_stat (cur s) st (dequeque_runqueue (cur s) s))\<lparr>waitq := w\<rparr>)"
proof -
  let ?s = "(set_stat (cur s) st (dequeque_runqueue (cur s) s))\<lparr>waitq := w\<rparr>" and ?c = "cur s"
  have len: "?c < length (procs s)" "length (procs s) = NOPROC" using ok by (auto simp: queues_ok_def)
  have stat: "stat_of ?s i = (if i = ?c then st else stat_of s i)" for i
    using len by (simp add: dequeque_runqueue_def)
  have nw: "?c \<notin> set (waitq s r)" for r using ok run by (auto simp: queues_ok_def proc_defs)
  have eqs: "cur ?s = ?c" "runq ?s = remove1 ?c (runq s)" "waitq ?s = w" "length (procs ?s) = NOPROC"
    using len by (simp_all add: dequeque_runqueue_def)
  have d: "distinct (runq s)" using ok by (simp add: queues_ok_def)
  show ?thesis
    unfolding queues_ok_def eqs stat
  proof (intro conjI)
    show "\<forall>q. distinct (w q) \<and> (\<forall>i\<in>set (w q). i < NOPROC \<and> (if i = ?c then st else stat_of s i) = P_SSLEEP)"
      using ok w nw unfolding queues_ok_def by (auto split: if_splits)
    show "\<forall>q r. q \<noteq> r \<longrightarrow> set (w q) \<inter> set (w r) = {}"
    proof (intro allI impI)
      fix x y :: addr assume "x \<noteq> y"
      moreover from this have "set (waitq s x) \<inter> set (waitq s y) = {}" using ok unfolding queues_ok_def by blast
      ultimately show "set (w x) \<inter> set (w y) = {}" using w nw by (auto split: if_splits)
    qed
  qed (use ok d st in \<open>auto simp: queues_ok_def\<close>)
qed

lemma sleep_queues:
  assumes ok: "queues_ok s" and run: "stat_of s (cur s) = P_SRUN" and sl: "sleep_on q s = Some s'"
    and here: "cur s \<notin> set (runq s) \<or> hd (runq s) = cur s"
  shows "queues_ok s'" and "cur s' \<notin> set (runq s') \<or> hd (runq s') = cur s'" and "waitq s' q = waitq s q @ [cur s]"
    and "stat_of s' (cur s') = P_SRUN"
proof -
  let ?t = "(set_stat (cur s) P_SSLEEP (dequeque_runqueue (cur s) s))\<lparr>waitq := (waitq s)(q := waitq s q @ [cur s])\<rparr>"
  have t: "queues_ok ?t" by (rule leave_queues [OF ok _ run, where q = q]) (simp_all add: proc_defs)
  have sc: "schedule ?t = Some s'" using sl by (simp add: sleep_on_def Let_def dequeque_runqueue_def)
  have here': "cur ?t \<notin> set (runq ?t) \<or> hd (runq ?t) = cur ?t"
    using ok_dequeue_cur [OF ok here] by (simp add: dequeque_runqueue_def)
  note r = schedule_queues [OF t sc here']
  show "queues_ok s'" "cur s' \<notin> set (runq s') \<or> hd (runq s') = cur s'" by (fact r)+
  show "waitq s' q = waitq s q @ [cur s]" using r(3) by simp
  obtain n l where n: "runq ?t = n # l" using sc by (auto simp: schedule_def proc_next_def split: list.splits)
  then have "stat_of ?t n = P_SRUN" using t unfolding queues_ok_def by (metis list.set_intros(1))
  moreover have "cur s' = n"
    using sc n by (auto simp: schedule_def proc_next_def Let_def enqueque_runqueue_def dequeque_runqueue_def
        task_switch_def split: if_splits)
  ultimately show "stat_of s' (cur s') = P_SRUN" using r(2) by (simp add: stat_of_def)
qed

lemma wake_queues:
  assumes ok: "queues_ok s" and w: "wake_up q s = Some s'" and run: "stat_of s (cur s) = P_SRUN"
    and here: "cur s \<notin> set (runq s) \<or> hd (runq s) = cur s"
  shows "queues_ok s'" and "cur s' \<notin> set (runq s') \<or> hd (runq s') = cur s'" and "stat_of s' (cur s') = P_SRUN"
    and "waitq s q = p # ps \<Longrightarrow> p \<in> set (runq s') \<and> waitq s' q = ps"
proof -
  obtain p ps where p: "waitq s q = p # ps" using w by (auto simp: wake_up_def split: list.splits)
  have pn: "p < length (procs s)" "stat_of s p = P_SSLEEP" "p \<notin> set ps" "length (procs s) = NOPROC"
    using ok p unfolding queues_ok_def by (metis list.set_intros(1), metis list.set_intros(1), metis distinct.simps(2), simp)
  have pr: "p \<notin> set (runq s)" "p \<noteq> cur s" using ok pn run by (auto simp: queues_ok_def proc_defs)
  have s': "s' = enqueque_runqueue p (set_stat p P_SRUN (s\<lparr>waitq := (waitq s)(q := ps)\<rparr>))"
    using w p by (simp add: wake_up_def Let_def)
  have stat: "stat_of s' i = (if i = p then P_SRUN else stat_of s i)" for i
    using pn by (simp add: s' enqueque_runqueue_def)
  have eqs: "cur s' = cur s" "runq s' = runq s @ [p]" "waitq s' = (waitq s)(q := ps)" "length (procs s') = NOPROC"
    using pn by (simp_all add: s' enqueque_runqueue_def)
  have po: "p \<notin> set (waitq s r)" if "r \<noteq> q" for r
    using ok p that unfolding queues_ok_def by (metis disjoint_iff list.set_intros(1))
  have d: "distinct (p # ps)" "\<forall>i\<in>set (p # ps). i < NOPROC \<and> stat_of s i = P_SSLEEP"
    "\<And>r. r \<noteq> q \<Longrightarrow> set (p # ps) \<inter> set (waitq s r) = {}"
    using ok p unfolding queues_ok_def by metis+
  show "queues_ok s'"
    unfolding queues_ok_def eqs stat
  proof (intro conjI)
    show "\<forall>r. distinct (((waitq s)(q := ps)) r) \<and>
        (\<forall>i\<in>set (((waitq s)(q := ps)) r). i < NOPROC \<and> (if i = p then P_SRUN else stat_of s i) = P_SSLEEP)"
      using ok d po unfolding queues_ok_def by auto
    show "\<forall>r t. r \<noteq> t \<longrightarrow> set (((waitq s)(q := ps)) r) \<inter> set (((waitq s)(q := ps)) t) = {}"
      using ok d(3) unfolding queues_ok_def by auto
  qed (use ok pr pn d in \<open>auto simp: queues_ok_def\<close>)
  show "cur s' \<notin> set (runq s') \<or> hd (runq s') = cur s'"
    using here pr by (cases "runq s") (auto simp: eqs)
  show "stat_of s' (cur s') = P_SRUN" using stat run eqs by auto
  show "waitq s q = p' # ps' \<Longrightarrow> p' \<in> set (runq s') \<and> waitq s' q = ps'" for p' ps' using p eqs by auto
qed

lemma dealloc_queues [simp]: "queues_ok (dealloc_esp k s) = queues_ok s"
  by (simp add: queues_ok_def dealloc_esp_def)

lemma exit_queues:
  assumes ok: "queues_ok s" and run: "stat_of s (cur s) = P_SRUN" and ex: "exit_cur s = Some s'"
    and here: "cur s \<notin> set (runq s) \<or> hd (runq s) = cur s"
  shows "queues_ok s'" and "cur s' \<notin> set (runq s') \<or> hd (runq s') = cur s'" and "stat_of s' (cur s') = P_SRUN"
    and "procs s' = procs (set_stat (cur s) P_SFREE s)"
    and "used_stacks s' = (used_stacks s)[p_stidx (procs s ! cur s) := False]"
proof -
  let ?u = "set_stat (cur s) P_SFREE (dequeque_runqueue (cur s) s)"
  let ?t = "dealloc_esp (p_stidx (procs s ! cur s)) ?u"
  have t0: "queues_ok (?u\<lparr>waitq := waitq s\<rparr>)" by (rule leave_queues [OF ok _ run]) (simp_all add: proc_defs)
  have "?u\<lparr>waitq := waitq s\<rparr> = ?u" by (simp add: set_stat_def dequeque_runqueue_def)
  then have t: "queues_ok ?t" using t0 by simp
  have sc: "schedule ?t = Some s'" using ex by (simp add: exit_cur_def Let_def)
  have here': "cur ?t \<notin> set (runq ?t) \<or> hd (runq ?t) = cur ?t"
    using ok_dequeue_cur [OF ok here] by (simp add: dequeque_runqueue_def dealloc_esp_def)
  note r = schedule_queues [OF t sc here']
  show "queues_ok s'" "cur s' \<notin> set (runq s') \<or> hd (runq s') = cur s'" by (fact r)+
  obtain n l where n: "runq ?t = n # l" using sc by (auto simp: schedule_def proc_next_def split: list.splits)
  then have "stat_of ?t n = P_SRUN" using t unfolding queues_ok_def by (metis list.set_intros(1))
  moreover have "cur s' = n"
    using sc n by (auto simp: schedule_def proc_next_def Let_def enqueque_runqueue_def dequeque_runqueue_def
        task_switch_def split: if_splits)
  ultimately show "stat_of s' (cur s') = P_SRUN" using r(2) by (simp add: stat_of_def)
  show "procs s' = procs (set_stat (cur s) P_SFREE s)"
    using r(2) by (simp add: dealloc_esp_def set_stat_def dequeque_runqueue_def)
  show "used_stacks s' = (used_stacks s)[p_stidx (procs s ! cur s) := False]"
    using r(5) by (simp add: dealloc_esp_def dequeque_runqueue_def)
qed

lemma exit_stacks:
  assumes "stacks_ok s" "queues_ok s" "stat_of s (cur s) = P_SRUN"
    and p: "procs s' = procs (set_stat (cur s) P_SFREE s)"
    and u: "used_stacks s' = (used_stacks s)[p_stidx (procs s ! cur s) := False]"
  shows "stacks_ok s'"
proof -
  have len: "cur s < length (procs s)" "cur s < NOPROC" using assms(2) by (auto simp: queues_ok_def)
  have st: "stat_of s' i = (if i = cur s then P_SFREE else stat_of s i)" for i
    using len by (simp add: stat_of_def p set_stat_def nth_list_update)
  have idx: "p_stidx (procs s' ! i) = p_stidx (procs s ! i)" for i by (simp add: p)
  have c: "stat_of s (cur s) \<noteq> P_SFREE" using assms(3) by (simp add: proc_defs)
  show ?thesis
    unfolding stacks_ok_def st idx u
  proof (intro conjI allI impI)
    fix i assume i: "i < NOPROC" "(if i = cur s then P_SFREE else stat_of s i) \<noteq> P_SFREE"
    then have "i \<noteq> cur s" "stat_of s i \<noteq> P_SFREE" by (auto split: if_splits)
    then show "p_stidx (procs s ! i) < NOPROC" "(used_stacks s)[p_stidx (procs s ! cur s) := False] ! p_stidx (procs s ! i)"
      using assms(1) i(1) c len(2) unfolding stacks_ok_def by (metis, metis nth_list_update_neq)
  next
    fix k assume k: "k < NOPROC" "(used_stacks s)[p_stidx (procs s ! cur s) := False] ! k"
    then have "k \<noteq> p_stidx (procs s ! cur s)" "used_stacks s ! k"
      using assms(1) by (cases "k = p_stidx (procs s ! cur s)"; auto simp: stacks_ok_def)+
    then show "\<exists>i<NOPROC. (if i = cur s then P_SFREE else stat_of s i) \<noteq> P_SFREE \<and> p_stidx (procs s ! i) = k"
      using assms(1) k(1) unfolding stacks_ok_def by metis
  qed (use assms(1) p in \<open>auto simp: stacks_ok_def split: if_splits\<close>)
qed

lemma stacks_frame:
  assumes "stacks_ok s" "length (procs s') = length (procs s)" "used_stacks s' = used_stacks s"
    and "\<And>i. i < NOPROC \<Longrightarrow> p_stidx (procs s' ! i) = p_stidx (procs s ! i) \<and>
      (stat_of s' i = P_SFREE \<longleftrightarrow> stat_of s i = P_SFREE)"
  shows "stacks_ok s'"
proof -
  have e: "\<forall>i<NOPROC. p_stidx (procs s' ! i) = p_stidx (procs s ! i)" "\<forall>i<NOPROC. (stat_of s' i = P_SFREE) = (stat_of s i = P_SFREE)"
    using assms(4) by auto
  show ?thesis using assms(1-3) e unfolding stacks_ok_def by simp metis
qed

text \<open>A free process slot means a free stack.\<close>

lemma free_stack:
  assumes ok: "stacks_ok s" and i: "i < NOPROC" "stat_of s i = P_SFREE"
  shows "\<exists>k. first_false (used_stacks s) 0 = Some k \<and> k < NOPROC \<and> \<not> used_stacks s ! k"
proof -
  have "\<exists>k<NOPROC. \<not> used_stacks s ! k"
  proof (rule ccontr)
    assume "\<not> ?thesis"
    then have "\<forall>k<NOPROC. \<exists>j<NOPROC. stat_of s j \<noteq> P_SFREE \<and> p_stidx (procs s ! j) = k"
      using ok unfolding stacks_ok_def by blast
    then have "{..<NOPROC} \<subseteq> (\<lambda>j. p_stidx (procs s ! j)) ` {j. j < NOPROC \<and> stat_of s j \<noteq> P_SFREE}"
      by (auto simp: image_iff)
    then have "card {..<NOPROC} \<le> card {j. j < NOPROC \<and> stat_of s j \<noteq> P_SFREE}"
      by (intro surj_card_le) auto
    moreover have "{j. j < NOPROC \<and> stat_of s j \<noteq> P_SFREE} \<subset> {..<NOPROC}" using i by auto
    then have "card {j. j < NOPROC \<and> stat_of s j \<noteq> P_SFREE} < card {..<NOPROC}" by (intro psubset_card_mono) auto
    ultimately show False by simp
  qed
  then show ?thesis using first_false_spec [of "used_stacks s" 0] ok
    by (cases "first_false (used_stacks s) 0") (auto simp: stacks_ok_def)
qed

lemma spawn_step:
  assumes q: "queues_ok s" and st: "stacks_ok s" and sp: "spawn_proc f cs args s = Some s'"
    and run: "stat_of s (cur s) = P_SRUN" and here: "cur s \<notin> set (runq s) \<or> hd (runq s) = cur s"
  shows "queues_ok s'" and "stacks_ok s'" and "cur s' \<notin> set (runq s') \<or> hd (runq s') = cur s'"
    and "stat_of s' (cur s') = P_SRUN"
proof -
  obtain i where fi: "find_freeproc s = Some i"
    using sp by (auto simp: spawn_proc_def alloc_proc_def split: option.splits)
  have len: "length (procs s) = NOPROC" using q by (simp add: queues_ok_def)
  have i: "i < NOPROC" "stat_of s i = P_SFREE"
    using first_false_spec [of "map (\<lambda>p. p_stat p \<noteq> P_SFREE) (procs s)" 0] fi len
    by (auto simp: find_freeproc_def stat_of_def)
  obtain k where k: "first_false (used_stacks s) 0 = Some k" "k < NOPROC" "\<not> used_stacks s ! k"
    using free_stack [OF st i] by blast
  obtain p where p: "p_stidx p = k" "p_stat p = P_SRUN" and s': "s' = s\<lparr>used_stacks := (used_stacks s)[k := True],
      procs := (procs s)[i := p], runq := runq s @ [i]\<rparr>"
  proof (rule that [of "\<lparr>p_stat = P_SRUN, p_stidx = k, p_pid = i, p_ppid = 0, p_addr = f, p_args = args,
      p_esp = k * (STACKSIZ + 1) + bss_end s + HEAP_SIZ - REGS_SIZ, p_cs = cs,
      p_ss = (if cs = CS_U then DS_U else DS_K), p_eflags = 0x202\<rparr>"])
  qed (use sp fi k(1) i(1) len in \<open>auto simp: spawn_proc_def alloc_proc_def alloc_esp_def add_proc_def set_stat_def
      enqueque_runqueue_def Let_def\<close>)
  have stat: "stat_of s' j = (if j = i then P_SRUN else stat_of s j)" for j
    using i len p by (simp add: s' stat_of_def nth_list_update)
  have idx: "p_stidx (procs s' ! j) = (if j = i then k else p_stidx (procs s ! j))" for j
    using i len p by (simp add: s' nth_list_update)
  have eqs: "cur s' = cur s" "runq s' = runq s @ [i]" "waitq s' = waitq s" "length (procs s') = NOPROC"
    "used_stacks s' = (used_stacks s)[k := True]" by (simp_all add: s' len)
  have ni: "i \<notin> set (runq s)" "i \<noteq> cur s" "\<And>r. i \<notin> set (waitq s r)"
    using q i run by (auto simp: queues_ok_def proc_defs)
  have lu: "length (used_stacks s) = NOPROC" using st by (simp add: stacks_ok_def)
  show "queues_ok s'"
    using q ni i unfolding queues_ok_def eqs stat by auto
  show "cur s' \<notin> set (runq s') \<or> hd (runq s') = cur s'" using here ni by (cases "runq s") (auto simp: eqs)
  show "stat_of s' (cur s') = P_SRUN" using run stat eqs by simp
  show "stacks_ok s'"
    unfolding stacks_ok_def eqs stat idx
  proof (intro conjI allI impI)
    fix j assume j: "j < NOPROC" "(if j = i then P_SRUN else stat_of s j) \<noteq> P_SFREE"
    have "p_stidx (procs s ! j) < NOPROC \<and> used_stacks s ! p_stidx (procs s ! j)" if "j \<noteq> i"
      using st j that unfolding stacks_ok_def by simp
    then show "(if j = i then k else p_stidx (procs s ! j)) < NOPROC"
      "(used_stacks s)[k := True] ! (if j = i then k else p_stidx (procs s ! j))"
      using k lu by (auto simp: nth_list_update)
  next
    fix j j' assume j: "j < NOPROC" "j' < NOPROC" "(if j = i then P_SRUN else stat_of s j) \<noteq> P_SFREE \<and>
      (if j' = i then P_SRUN else stat_of s j') \<noteq> P_SFREE \<and> j \<noteq> j'"
    have u: "used_stacks s ! p_stidx (procs s ! h)" if "h < NOPROC" "stat_of s h \<noteq> P_SFREE" for h
      using st that unfolding stacks_ok_def by blast
    show "(if j = i then k else p_stidx (procs s ! j)) \<noteq> (if j' = i then k else p_stidx (procs s ! j'))"
      using st j u k(3) unfolding stacks_ok_def by (cases "j = i"; cases "j' = i") auto
  next
    fix h assume h: "h < NOPROC" "(used_stacks s)[k := True] ! h"
    show "\<exists>j<NOPROC. (if j = i then P_SRUN else stat_of s j) \<noteq> P_SFREE \<and> (if j = i then k else p_stidx (procs s ! j)) = h"
    proof (cases "h = k")
      case True
      then show ?thesis using i by (intro exI [of _ i]) (simp add: proc_defs)
    next
      case False
      then have "used_stacks s ! h" using h by simp
      then obtain j where "j < NOPROC" "stat_of s j \<noteq> P_SFREE" "p_stidx (procs s ! j) = h"
        using st h(1) unfolding stacks_ok_def by blast
      then show ?thesis using i(2) by (intro exI [of _ j]) auto
    qed
  qed (use lu in auto)
qed

section \<open>All steps\<close>

definition sched_inv :: "sched \<Rightarrow> bool" where
  "sched_inv s \<longleftrightarrow> queues_ok s \<and> stacks_ok s \<and> stat_of s (cur s) = P_SRUN \<and>
     (cur s \<notin> set (runq s) \<or> hd (runq s) = cur s)"

inductive sched_step :: "sched \<Rightarrow> sched \<Rightarrow> bool" where
  yield: "schedule s = Some s' \<Longrightarrow> sched_step s s'"
| sleep: "sleep_on q s = Some s' \<Longrightarrow> sched_step s s'"
| wake: "wake_up q s = Some s' \<Longrightarrow> sched_step s s'"
| exit: "exit_cur s = Some s' \<Longrightarrow> sched_step s s'"
| spawn: "spawn_proc f cs args s = Some s' \<Longrightarrow> sched_step s s'"

lemma sched_cur_run: "queues_ok s \<Longrightarrow> stat_of s (cur s) = P_SRUN \<Longrightarrow> schedule s = Some s' \<Longrightarrow> stat_of s' (cur s') = P_SRUN"
proof -
  assume q: "queues_ok s" and sc: "schedule s = Some s'"
  obtain n r where n: "runq s = n # r" using sc by (auto simp: schedule_def proc_next_def split: list.splits)
  then have "stat_of s n = P_SRUN" using q unfolding queues_ok_def by (metis list.set_intros(1))
  moreover have "cur s' = n \<and> procs s' = procs s"
    using sc n by (auto simp: schedule_def proc_next_def Let_def enqueque_runqueue_def dequeque_runqueue_def
        task_switch_def split: if_splits)
  ultimately show ?thesis by (simp add: stat_of_def)
qed

lemma sched_step_inv: "sched_step s s' \<Longrightarrow> sched_inv s \<Longrightarrow> sched_inv s'"
proof (induction rule: sched_step.induct)
  case (yield s s')
  then have i: "queues_ok s" "stacks_ok s" "stat_of s (cur s) = P_SRUN" "cur s \<notin> set (runq s) \<or> hd (runq s) = cur s"
    by (auto simp: sched_inv_def)
  note r = schedule_queues [OF i(1) yield(1) i(4)]
  have "stacks_ok s'" by (rule stacks_frame [OF i(2)]) (use r in \<open>auto simp: stat_of_def\<close>)
  then show ?case using r sched_cur_run [OF i(1,3) yield(1)] by (simp add: sched_inv_def)
next
  case (sleep q s s')
  then have i: "queues_ok s" "stacks_ok s" "stat_of s (cur s) = P_SRUN" "cur s \<notin> set (runq s) \<or> hd (runq s) = cur s"
    by (auto simp: sched_inv_def)
  let ?t = "(set_stat (cur s) P_SSLEEP (dequeque_runqueue (cur s) s))\<lparr>waitq := (waitq s)(q := waitq s q @ [cur s])\<rparr>"
  have t: "queues_ok ?t" by (rule leave_queues [OF i(1) _ i(3), where q = q]) (simp_all add: proc_defs)
  have sc: "schedule ?t = Some s'" using sleep(1) by (simp add: sleep_on_def Let_def dequeque_runqueue_def)
  have here': "cur ?t \<notin> set (runq ?t) \<or> hd (runq ?t) = cur ?t"
    using ok_dequeue_cur [OF i(1,4)] by (simp add: dequeque_runqueue_def)
  note r = schedule_queues [OF t sc here']
  have len: "cur s < length (procs s)" using i(1) by (auto simp: queues_ok_def)
  have "stacks_ok s'"
    by (rule stacks_frame [OF i(2)])
      (use r(2,5) len i(3) in \<open>auto simp: stat_of_def dequeque_runqueue_def set_stat_def nth_list_update proc_defs\<close>)
  then show ?case using sleep_queues [OF i(1,3) sleep(1) i(4)] by (simp add: sched_inv_def)
next
  case (wake q s s')
  then have i: "queues_ok s" "stacks_ok s" "stat_of s (cur s) = P_SRUN" "cur s \<notin> set (runq s) \<or> hd (runq s) = cur s"
    by (auto simp: sched_inv_def)
  obtain p ps where p: "waitq s q = p # ps" using wake(1) by (auto simp: wake_up_def split: list.splits)
  have pn: "stat_of s p = P_SSLEEP" "p < length (procs s)"
    using i(1) p unfolding queues_ok_def by (metis list.set_intros(1))+
  have s': "s' = enqueque_runqueue p (set_stat p P_SRUN (s\<lparr>waitq := (waitq s)(q := ps)\<rparr>))"
    using wake(1) p by (simp add: wake_up_def Let_def)
  have st: "stat_of s' j = (if j = p then P_SRUN else stat_of s j)" for j
    using pn by (simp add: s' enqueque_runqueue_def)
  have ix: "p_stidx (procs s' ! j) = p_stidx (procs s ! j)" for j
    using set_stat_stidx [of p P_SRUN "s\<lparr>waitq := (waitq s)(q := ps)\<rparr>" j] by (simp add: s' enqueque_runqueue_def)
  have "stacks_ok s'"
    by (rule stacks_frame [OF i(2)]) (use pn(1) in \<open>simp_all add: st ix\<close>,
        simp_all add: s' enqueque_runqueue_def proc_defs)
  then show ?case using wake_queues [OF i(1) wake(1) i(3,4)] by (simp add: sched_inv_def)
next
  case (exit s s')
  then have i: "queues_ok s" "stacks_ok s" "stat_of s (cur s) = P_SRUN" "cur s \<notin> set (runq s) \<or> hd (runq s) = cur s"
    by (auto simp: sched_inv_def)
  note r = exit_queues [OF i(1,3) exit(1) i(4)]
  have "stacks_ok s'" by (rule exit_stacks [OF i(2,1,3) r(4,5)])
  then show ?case using r by (simp add: sched_inv_def)
next
  case (spawn f cs args s s')
  then show ?case using spawn_step [of s f cs args s'] by (auto simp: sched_inv_def)
qed

text \<open>A table whose first \<open>n\<close> processes are live, each on the stack of its own index.\<close>

lemma stacks_prefix:
  assumes "length (procs s) = NOPROC" "length (used_stacks s) = NOPROC" "n \<le> NOPROC"
    and st: "\<And>i. i < NOPROC \<Longrightarrow> stat_of s i = (if i < n then P_SRUN else P_SFREE)"
    and ix: "\<And>i. i < n \<Longrightarrow> p_stidx (procs s ! i) = i" and u: "\<And>i. i < NOPROC \<Longrightarrow> used_stacks s ! i = (i < n)"
  shows "stacks_ok s"
proof -
  have live: "i < n" if "i < NOPROC" "stat_of s i \<noteq> P_SFREE" for i using st [OF that(1)] that(2) by (auto split: if_splits)
  have "\<exists>i<NOPROC. stat_of s i \<noteq> P_SFREE \<and> p_stidx (procs s ! i) = k" if "k < NOPROC" "used_stacks s ! k" for k
    using st [OF that(1)] ix [of k] u [OF that(1)] that by (intro exI [of _ k]) (simp add: proc_defs)
  then show ?thesis using assms(1-3) live ix u unfolding stacks_ok_def by simp
qed

definition boot_sched :: "addr \<Rightarrow> proc \<Rightarrow> sched" where
  "boot_sched e p = \<lparr>procs = replicate NOPROC (p\<lparr>p_stat := P_SFREE\<rparr>), used_stacks = replicate NOPROC False,
     runq = [], waitq = \<lambda>_. [], cur = 0, bss_end = e\<rparr>"

lemma boot_sched_inv: "\<exists>s. init_root_proc (boot_sched e p) = Some s \<and> sched_inv s \<and> cur s = 0 \<and> runq s = [0]"
proof -
  have ff: "find_freeproc ((boot_sched e p)\<lparr>runq := []\<rparr>) = Some 0" "first_false (replicate 10 False) 0 = Some 0"
    by (simp_all add: find_freeproc_def boot_sched_def NOPROC_def eval_nat_numeral proc_defs)
  obtain p' where "p_stat p' = P_SRUN" "p_stidx p' = 0" and
    i: "init_root_proc (boot_sched e p) = Some ((boot_sched e p)\<lparr>procs := (procs (boot_sched e p))[0 := p'],
       used_stacks := (replicate 10 False)[0 := True], runq := [0], cur := 0\<rparr>)"
  proof (rule that [of "\<lparr>p_stat = P_SRUN, p_stidx = 0, p_pid = 0, p_ppid = 0, p_addr = 0x9400, p_args = 0,
      p_esp = e + HEAP_SIZ - REGS_SIZ, p_cs = 8, p_ss = DS_K, p_eflags = 0x202\<rparr>"])
  qed (use ff in \<open>auto simp: init_root_proc_def alloc_proc_def alloc_esp_def add_proc_def set_stat_def
      enqueque_runqueue_def Let_def CS_U_def boot_sched_def NOPROC_def\<close>)
  let ?s = "(boot_sched e p)\<lparr>procs := (procs (boot_sched e p))[0 := p'],
       used_stacks := (replicate 10 False)[0 := True], runq := [0], cur := 0\<rparr>"
  have st: "stat_of ?s j = (if j = 0 then P_SRUN else P_SFREE)" if "j < NOPROC" for j
    using that \<open>p_stat p' = P_SRUN\<close> by (simp add: stat_of_def boot_sched_def NOPROC_def nth_list_update)
  have "queues_ok ?s" using st by (auto simp: queues_ok_def boot_sched_def NOPROC_def proc_defs)
  moreover have "stacks_ok ?s"
    by (rule stacks_prefix [where n = 1]) (use st \<open>p_stidx p' = 0\<close> in
      \<open>simp_all add: boot_sched_def NOPROC_def nth_list_update proc_defs\<close>)
  moreover have "stat_of ?s 0 = P_SRUN" using st [of 0] by (simp add: NOPROC_def)
  ultimately have "sched_inv ?s" by (simp add: sched_inv_def)
  then show ?thesis using i by auto
qed

section \<open>Properties\<close>

definition stack_top :: "sched \<Rightarrow> nat \<Rightarrow> addr" where
  "stack_top s i = p_stidx (procs s ! i) * (STACKSIZ + 1) + bss_end s + HEAP_SIZ"


definition no_proc :: proc where
  "no_proc = \<lparr>p_stat = 0, p_stidx = 0, p_pid = 0, p_ppid = 0, p_addr = 0, p_args = 0, p_esp = 0, p_cs = 0, p_ss = 0, p_eflags = 0\<rparr>"


fun yield_n :: "nat \<Rightarrow> sched \<Rightarrow> sched option" where
  "yield_n 0 s = Some s"
| "yield_n (Suc n) s = Option.bind (schedule s) (yield_n n)"

lemma yield_rotates:
  assumes "distinct (cur s # runq s)" "\<forall>i\<in>set (cur s # runq s). stat_of s i = P_SRUN" "runq s \<noteq> []"
  shows "\<exists>s'. yield_n n s = Some s' \<and> cur s' # runq s' = rotate n (cur s # runq s) \<and> procs s' = procs s"
  using assms
proof (induction n arbitrary: s)
  case (Suc n)
  obtain m r where r: "runq s = m # r" using Suc.prems(3) by (cases "runq s") auto
  let ?t = "s\<lparr>runq := r @ [cur s], cur := m\<rparr>"
  have sc: "schedule s = Some ?t" by (rule schedule_round) (use Suc.prems r in auto)
  have rot: "cur ?t # runq ?t = rotate1 (cur s # runq s)" using r by simp
  obtain s' where "yield_n n ?t = Some s'" "cur s' # runq s' = rotate n (cur ?t # runq ?t)" "procs s' = procs ?t"
    using Suc.IH [of ?t] Suc.prems r by auto
  then have "yield_n (Suc n) s = Some s'" "cur s' # runq s' = rotate n (rotate1 (cur s # runq s))" "procs s' = procs s"
    using sc rot r by simp_all
  then show ?case by (metis rotate1_rotate_swap rotate_Suc)
qed simp


definition two_procs :: sched where
  "two_procs = (boot_sched 0x1000 no_proc)\<lparr>procs := (replicate 10 no_proc)[0 := no_proc\<lparr>p_stat := P_SRUN\<rparr>,
     1 := no_proc\<lparr>p_stat := P_SRUN, p_stidx := 1\<rparr>], used_stacks := (replicate 10 False)[0 := True, 1 := True], runq := [1]\<rparr>"

lemma two_procs_inv: "sched_inv two_procs"
proof -
  have st: "stat_of two_procs j = (if j < 2 then P_SRUN else P_SFREE)" if "j < 10" for j
    using that by (auto simp: stat_of_def two_procs_def nth_list_update no_proc_def proc_defs)
  have f: "length (procs two_procs) = 10" "cur two_procs = 0" "runq two_procs = [1]" "waitq two_procs = (\<lambda>_. [])"
    by (simp_all add: two_procs_def boot_sched_def)
  have "i = 0 \<or> i = 1" if "i < 10" "stat_of two_procs i = P_SRUN" for i
  proof -
    have "P_SRUN \<noteq> P_SFREE" by (simp add: proc_defs)
    then have "i < 2" using st [OF that(1)] that(2) by metis
    then show ?thesis by linarith
  qed
  then have "queues_ok two_procs" using st [of 1] unfolding queues_ok_def f NOPROC_def by simp
  moreover have "stacks_ok two_procs"
  proof (rule stacks_prefix [where n = 2])
    show "p_stidx (procs two_procs ! i) = i" if "i < 2" for i
      using that by (auto simp: two_procs_def nth_list_update no_proc_def less_2_cases_iff)
    show "used_stacks two_procs ! i = (i < 2)" if "i < NOPROC" for i
      using that by (auto simp: two_procs_def nth_list_update NOPROC_def)
  qed (use st f in \<open>simp_all add: NOPROC_def two_procs_def\<close>)
  ultimately show ?thesis using st [of 0] f by (simp add: sched_inv_def)
qed


text \<open>Yields (from a system call or the timer) and spawns, as the boot process does them.\<close>

inductive boot_step :: "sched \<Rightarrow> sched \<Rightarrow> bool" where
  boot_yield: "schedule s = Some s' \<Longrightarrow> boot_step s s'"
| boot_spawn: "spawn_proc f cs args s = Some s' \<Longrightarrow> boot_step s s'"

lemma spawn_frame:
  assumes "spawn_proc f cs args s = Some s'"
  shows "cur s' = cur s \<and> (\<exists>i. runq s' = runq s @ [i])"
  using assms by (auto simp: spawn_proc_def alloc_proc_def alloc_esp_def add_proc_def enqueque_runqueue_def Let_def
      split: option.splits)

lemma boot_step_head:
  assumes "boot_step s s'" "\<exists>r. runq s = cur s # r"
  shows "cur s' = cur s \<and> (\<exists>r. runq s' = cur s' # r)"
  using assms
proof cases
  case boot_yield
  then show ?thesis using assms(2) by (auto simp: schedule_def proc_next_def)
next
  case (boot_spawn f cs args)
  from spawn_frame [OF this] show ?thesis using assms(2) by auto
qed

text \<open>The boot process is on the run queue while it runs, at its head, so
  \<^verbatim>\<open>schedule\<close> returns at once: whatever is spawned, no sequence of yields (or timer ticks)
  switches away from it, and a further yield leaves the state as it is.\<close>

theorem boot_not_preempted:
  assumes "init_root_proc (boot_sched e p) = Some s0" "boot_step\<^sup>*\<^sup>* s0 s"
  shows "cur s = cur s0 \<and> schedule s = Some s"
proof -
  have "cur s = cur s0 \<and> (\<exists>r. runq s = cur s # r)"
    using assms(2)
  proof (induction rule: rtranclp_induct)
    case base
    then show ?case using boot_sched_inv [of e p] assms(1) by auto
  next
    case (step t u)
    then show ?case using boot_step_head [OF step(2)] by auto
  qed
  then show ?thesis by (auto simp: schedule_def proc_next_def)
qed

lemma replicate_ten: "replicate 10 x = [x, x, x, x, x, x, x, x, x, x]"
  by (simp add: eval_nat_numeral)

theorem boot_not_preempted_witness:
  "\<exists>s s'. init_root_proc (boot_sched 0x1000 no_proc) = Some s \<and> spawn_proc 0x5000 8 0 s = Some s' \<and>
     runq s' = [0, 1] \<and> schedule s' = Some s'"
proof -
  obtain s where s: "init_root_proc (boot_sched 0x1000 no_proc) = Some s" "runq s = [0]" "cur s = 0"
    using boot_sched_inv by blast
  have "map_option runq (Option.bind (init_root_proc (boot_sched 0x1000 no_proc)) (spawn_proc 0x5000 8 0)) = Some [0, 1]"
    by (simp add: init_root_proc_def alloc_proc_def find_freeproc_def boot_sched_def NOPROC_def replicate_ten
        alloc_esp_def add_proc_def set_stat_def enqueque_runqueue_def spawn_proc_def Let_def no_proc_def proc_defs)
  then obtain s' where s': "spawn_proc 0x5000 8 0 s = Some s'" "runq s' = [0, 1]" using s(1) by auto
  then have "boot_step\<^sup>*\<^sup>* s s'" by (blast intro: boot_spawn)
  from boot_not_preempted [OF s(1) this] show ?thesis using s s' by blast
qed

end
