(* ===== verification/Tty_Line.thy ===== *)
theory Tty_Line
  imports Kern_Prelude
begin

text \<open>
  The terminal line discipline of \<^verbatim>\<open>src/kern/driver/tty/tty.c\<close>: ring buffers, canonical input
  with erase, echo, output processing, \<^verbatim>\<open>read\<close>, \<^verbatim>\<open>write\<close>, \<^verbatim>\<open>ioctl\<close> and the \<^verbatim>\<open>termios\<close>
  functions.  The bytes handed to the device (\<^verbatim>\<open>ops->write\<close>) are collected in \<open>tty_dev\<close>.  A
  write past the end of \<^verbatim>\<open>line_buf\<close> is \<^const>\<open>None\<close>.
\<close>

section \<open>Data\<close>

definition TTYBUFSIZ :: nat where "TTYBUFSIZ = 32"
definition TTYLINESIZ :: nat where "TTYLINESIZ = 32"

definition IGNBRK :: u32 where "IGNBRK = 0x001"
definition BRKINT :: u32 where "BRKINT = 0x002"
definition PARMRK :: u32 where "PARMRK = 0x008"
definition ISTRIP :: u32 where "ISTRIP = 0x020"
definition INLCR :: u32 where "INLCR = 0x040"
definition IGNCR :: u32 where "IGNCR = 0x080"
definition ICRNL :: u32 where "ICRNL = 0x100"
definition IXON :: u32 where "IXON = 0x0400"
definition IXANY :: u32 where "IXANY = 0x800"
definition IMAXBEL :: u32 where "IMAXBEL = 0x2000"
definition OPOST :: u32 where "OPOST = 0x01"
definition ONLCR :: u32 where "ONLCR = 0x00004"
definition XTABS :: u32 where "XTABS = 0x01800"
definition CBAUD :: u32 where "CBAUD = 0x0000100f"
definition CSIZE :: u32 where "CSIZE = 0x00000030"
definition CS7 :: u32 where "CS7 = 0x00000020"
definition CS8 :: u32 where "CS8 = 0x00000030"
definition CREAD :: u32 where "CREAD = 0x00000080"
definition PARENB :: u32 where "PARENB = 0x00000100"
definition HUPCL :: u32 where "HUPCL = 0x00000400"
definition CIBAUD :: u32 where "CIBAUD = 0x100f0000"
definition ISIG :: u32 where "ISIG = 0x00001"
definition ICANON :: u32 where "ICANON = 0x00002"
definition ECHO :: u32 where "ECHO = 0x00008"
definition ECHOE :: u32 where "ECHOE = 0x00010"
definition ECHONL :: u32 where "ECHONL = 0x00040"
definition ECHOCTL :: u32 where "ECHOCTL = 0x00200"
definition ECHOKE :: u32 where "ECHOKE = 0x00800"
definition IEXTEN :: u32 where "IEXTEN = 0x08000"
definition B9600 :: u32 where "B9600 = 0x0000000d"
definition VINTR :: nat where "VINTR = 0"
definition VERASE :: nat where "VERASE = 2"
definition VEOF :: nat where "VEOF = 4"
definition TCGETS :: int where "TCGETS = 0x5401"
definition TCSETS :: int where "TCSETS = 0x5402"
definition TCSETSW :: int where "TCSETSW = 0x5403"
definition TCSETSF :: int where "TCSETSF = 0x5404"

record termios =
  c_iflag :: u32
  c_oflag :: u32
  c_cflag :: u32
  c_lflag :: u32
  c_cc :: "u8 list"

record tty =
  canonbuf :: "u8 list"
  canonr :: nat
  canonw :: nat
  outbuf :: "u8 list"
  outr :: nat
  outw :: nat
  line_buf :: "u8 list"
  line_len :: nat
  tty_ops :: bool          \<comment> \<open>\<^verbatim>\<open>ops && ops->write\<close>\<close>
  termios :: termios
  tty_dev :: "u8 list"     \<comment> \<open>bytes written to the device\<close>

section \<open>Ring buffers\<close>

definition canon_pop :: "tty \<Rightarrow> u8 \<times> tty" where
  "canon_pop t = (canonbuf t ! canonr t, t\<lparr>canonr := (canonr t + 1) mod TTYBUFSIZ\<rparr>)"

definition canon_push :: "u8 \<Rightarrow> tty \<Rightarrow> tty" where
  "canon_push c t = t\<lparr>canonbuf := (canonbuf t)[canonw t := c], canonw := (canonw t + 1) mod TTYBUFSIZ\<rparr>"

definition canon_empty :: "tty \<Rightarrow> bool" where
  "canon_empty t \<longleftrightarrow> canonr t = canonw t"

definition canon_full :: "tty \<Rightarrow> bool" where
  "canon_full t \<longleftrightarrow> (canonw t + 1) mod TTYBUFSIZ = canonr t"

definition out_pop :: "tty \<Rightarrow> u8 \<times> tty" where
  "out_pop t = (outbuf t ! outr t, t\<lparr>outr := (outr t + 1) mod TTYBUFSIZ\<rparr>)"

definition out_push :: "u8 \<Rightarrow> tty \<Rightarrow> tty" where
  "out_push c t = t\<lparr>outbuf := (outbuf t)[outw t := c], outw := (outw t + 1) mod TTYBUFSIZ\<rparr>"

definition out_empty :: "tty \<Rightarrow> bool" where
  "out_empty t \<longleftrightarrow> outr t = outw t"

definition out_full :: "tty \<Rightarrow> bool" where
  "out_full t \<longleftrightarrow> (outw t + 1) mod TTYBUFSIZ = outr t"

section \<open>Output and input\<close>

definition ttydev_write :: "u8 list \<Rightarrow> tty \<Rightarrow> int \<times> tty" where
  "ttydev_write bs t = (if tty_ops t then (int (length bs), t\<lparr>tty_dev := tty_dev t @ bs\<rparr>) else (0, t))"

definition has :: "u32 \<Rightarrow> u32 \<Rightarrow> bool" where
  "has fl k \<longleftrightarrow> fl AND k \<noteq> 0"

definition tty_outputc :: "u8 \<Rightarrow> tty \<Rightarrow> tty" where
  "tty_outputc c t =
     (let t1 = (if has (c_oflag (termios t)) OPOST \<and> has (c_oflag (termios t)) ONLCR \<and> c = 10
                then snd (ttydev_write [13] t) else t)
      in snd (ttydev_write [c] t1))"

text \<open>\<^verbatim>\<open>c == t->c_cc[k]\<close>: a signed character against an unsigned one.\<close>

definition is_cc :: "u8 \<Rightarrow> nat \<Rightarrow> tty \<Rightarrow> bool" where
  "is_cc c k t \<longleftrightarrow> sint c = uint (c_cc (termios t) ! k)"

definition canon_tty :: "u8 \<Rightarrow> tty \<Rightarrow> tty option" where
  "canon_tty c t =
     (if is_cc c VERASE t then
        if line_len t > 0 then
          let t1 = t\<lparr>line_len := line_len t - 1\<rparr>
          in Some (if has (c_lflag (termios t)) ECHO then tty_outputc 8 (tty_outputc 32 (tty_outputc 8 t1)) else t1)
        else Some t
      else if is_cc c VEOF t then Some t
      else if line_len t \<ge> length (line_buf t) then None
      else let t1 = t\<lparr>line_buf := (line_buf t)[line_len t := c], line_len := line_len t + 1\<rparr>;
               t2 = (if c = 10 then (fold canon_push (take (line_len t1) (line_buf t1)) t1)\<lparr>line_len := 0\<rparr> else t1)
           in Some (if has (c_lflag (termios t)) ECHO then tty_outputc c t2 else t2))"

definition tty_inputc :: "u8 \<Rightarrow> tty \<Rightarrow> tty option" where
  "tty_inputc c0 t =
     (let c = (if has (c_iflag (termios t)) ICRNL \<and> c0 = 13 then 10 else c0) in
      if has (c_lflag (termios t)) ISIG \<and> is_cc c VINTR t then Some t
      else if has (c_lflag (termios t)) ICANON then canon_tty c t
      else let t1 = canon_push c t
           in Some (if has (c_lflag (termios t)) ECHO then tty_outputc c t1 else t1))"

section \<open>System calls\<close>

fun read_loop :: "nat \<Rightarrow> tty \<Rightarrow> u8 list \<times> tty" where
  "read_loop 0 t = ([], t)"
| "read_loop (Suc n) t =
     (if canon_empty t then ([], t)
      else let (c, t1) = canon_pop t
           in if has (c_lflag (termios t)) ICANON \<and> c = 10 then ([c], t1)
              else let (cs, t2) = read_loop n t1 in (c # cs, t2))"

text \<open>\<open>tty\<close> is the device's private data, \<^const>\<open>None\<close> if null.\<close>

definition read_tty :: "nat \<Rightarrow> tty option \<Rightarrow> int \<times> u8 list \<times> tty option" where
  "read_tty n t =
     (case t of None \<Rightarrow> (- EFAULT, [], None)
      | Some t \<Rightarrow> if canon_empty t then (- EAGAIN, [], Some t)
                  else let (bs, t') = read_loop n t in (int (length bs), bs, Some t'))"

fun write_loop :: "u8 list \<Rightarrow> nat \<Rightarrow> tty \<Rightarrow> int \<times> tty" where
  "write_loop [] w t = (int w, t)"
| "write_loop (c # cs) w t =
     (if out_full t then (if w \<noteq> 0 then int w else - EAGAIN, t) else write_loop cs (Suc w) (tty_outputc c t))"

definition write_tty :: "u8 list \<Rightarrow> tty option \<Rightarrow> int \<times> tty option" where
  "write_tty bs t =
     (case t of None \<Rightarrow> (- EFAULT, None)
      | Some t \<Rightarrow> let (r, t') = write_loop bs 0 t in (r, Some t'))"

text \<open>The argument of \<^verbatim>\<open>ioctl\<close> is the \<^verbatim>\<open>termios\<close> it points to; the result carries what is stored
  there afterwards.  \<open>upd\<close> is the device's \<^verbatim>\<open>update\<close> function.\<close>

definition ioctl_tty :: "(tty \<Rightarrow> tty) \<Rightarrow> int \<Rightarrow> termios option \<Rightarrow> tty option \<Rightarrow> int \<times> termios option \<times> tty option" where
  "ioctl_tty upd opc arg t =
     (case (t, arg) of
        (None, _) \<Rightarrow> (- EFAULT, arg, t)
      | (Some t, None) \<Rightarrow> (- EFAULT, None, Some t)
      | (Some t, Some a) \<Rightarrow>
          if opc = TCGETS then (0, Some (termios t), Some t)
          else if opc = TCSETS then (0, Some a, Some (upd (t\<lparr>termios := a\<rparr>)))
          else (- EINVAL, Some a, Some t))"

definition tcgetattr :: "(tty \<Rightarrow> tty) \<Rightarrow> termios option \<Rightarrow> tty option \<Rightarrow> int \<times> termios option \<times> tty option" where
  "tcgetattr upd a t = ioctl_tty upd TCGETS a t"

definition tcsetattr :: "(tty \<Rightarrow> tty) \<Rightarrow> int \<Rightarrow> termios option \<Rightarrow> tty option \<Rightarrow> int \<times> termios option \<times> tty option" where
  "tcsetattr upd opc a t =
     (if opc = 0 then ioctl_tty upd TCSETS a t
      else if opc = 1 then ioctl_tty upd TCSETSW a t
      else if opc = 2 then ioctl_tty upd TCSETSF a t
      else (- EINVAL, a, t))"

section \<open>termios\<close>

definition baud_table :: "u32 list" where
  "baud_table = [0, 50, 75, 110, 134, 150, 200, 300, 600, 1200, 1800, 2400, 4800, 9600, 19200, 38400]"

definition b2speed :: "u32 \<Rightarrow> u32" where
  "b2speed baud = (if unat baud < 16 then baud_table ! unat baud else - 1)"

definition speed2b :: "u32 \<Rightarrow> u32" where
  "speed2b speed = (if speed = 0 then 0 else if speed = 9600 then B9600 else - 1)"

definition cfmakeraw :: "termios \<Rightarrow> termios" where
  "cfmakeraw t = t\<lparr>c_iflag := c_iflag t AND NOT (IGNBRK OR BRKINT OR PARMRK OR ISTRIP OR INLCR OR IGNCR OR ICRNL OR IXON),
     c_oflag := c_oflag t AND NOT OPOST,
     c_lflag := c_lflag t AND NOT (ECHO OR ECHONL OR ICANON OR ISIG OR IEXTEN),
     c_cflag := (c_cflag t AND NOT (CSIZE OR PARENB)) OR CS8\<rparr>"

definition cfgetispeed :: "termios \<Rightarrow> u32" where
  "cfgetispeed t = b2speed (drop_bit 16 (c_cflag t AND CIBAUD))"

definition cfgetospeed :: "termios \<Rightarrow> u32" where
  "cfgetospeed t = b2speed (c_cflag t AND CBAUD)"

definition cfsetispeed :: "u32 \<Rightarrow> termios \<Rightarrow> termios" where
  "cfsetispeed speed t = t\<lparr>c_cflag := (c_cflag t AND NOT CIBAUD) OR push_bit 16 (speed2b speed)\<rparr>"

text \<open>The mask is not complemented: all flags but the old speed are dropped.\<close>

definition cfsetospeed :: "u32 \<Rightarrow> termios \<Rightarrow> termios" where
  "cfsetospeed speed t = t\<lparr>c_cflag := (c_cflag t AND CBAUD) OR speed2b speed\<rparr>"

definition cfsetspeed :: "u32 \<Rightarrow> termios \<Rightarrow> termios" where
  "cfsetspeed speed t = cfsetospeed speed (cfsetispeed speed t)"

definition ttydefchars :: "u8 list" where
  "ttydefchars = [3, 28, 8, 21, 4, 0, 1, 0, 17, 19, 26, 0, 18, 15, 127, 22, 0, 0, 0]"

definition TTYDEF_IFLAG :: u32 where "TTYDEF_IFLAG = BRKINT OR ISTRIP OR ICRNL OR IMAXBEL OR IXON OR IXANY"
definition TTYDEF_OFLAG :: u32 where "TTYDEF_OFLAG = OPOST OR ONLCR OR XTABS"
definition TTYDEF_LFLAG :: u32 where "TTYDEF_LFLAG = ECHO OR ICANON OR ISIG OR IEXTEN OR ECHOE OR ECHOKE OR ECHOCTL"
definition TTYDEF_CFLAG :: u32 where "TTYDEF_CFLAG = CREAD OR CS7 OR PARENB OR HUPCL"

definition alloc_tty :: "bool \<Rightarrow> tty" where
  "alloc_tty ops = \<lparr>canonbuf = replicate 32 0, canonr = 0, canonw = 0, outbuf = replicate 32 0, outr = 0, outw = 0,
     line_buf = replicate 32 0, line_len = 0, tty_ops = ops,
     termios = \<lparr>c_iflag = TTYDEF_IFLAG, c_oflag = TTYDEF_OFLAG,
                c_cflag = TTYDEF_CFLAG OR B9600 OR push_bit 16 B9600, c_lflag = TTYDEF_LFLAG, c_cc = ttydefchars\<rparr>,
     tty_dev = []\<rparr>"

section \<open>Ring buffers are bounded queues\<close>

text \<open>What a client of a queue of bytes relies on.\<close>

locale byte_queue =
  fixes qinv :: "'s \<Rightarrow> bool" and qabs :: "'s \<Rightarrow> u8 list" and push :: "u8 \<Rightarrow> 's \<Rightarrow> 's" and pop :: "'s \<Rightarrow> u8 \<times> 's"
    and empty :: "'s \<Rightarrow> bool" and full :: "'s \<Rightarrow> bool" and cap :: nat
  assumes push_ok: "qinv s \<Longrightarrow> length (qabs s) < cap \<Longrightarrow> qinv (push c s) \<and> qabs (push c s) = qabs s @ [c]"
    and pop_ok: "qinv s \<Longrightarrow> qabs s = c # q \<Longrightarrow> fst (pop s) = c \<and> qinv (snd (pop s)) \<and> qabs (snd (pop s)) = q"
    and empty_ok: "qinv s \<Longrightarrow> empty s \<longleftrightarrow> qabs s = []"
    and full_ok: "qinv s \<Longrightarrow> full s \<longleftrightarrow> length (qabs s) = cap"
    and cap_ok: "qinv s \<Longrightarrow> length (qabs s) \<le> cap"
begin

lemma push_all:
  "qinv s \<Longrightarrow> length (qabs s) + length cs \<le> cap \<Longrightarrow> qinv (fold push cs s) \<and> qabs (fold push cs s) = qabs s @ cs"
  by (induction cs arbitrary: s) (simp_all add: push_ok)

lemma push_not_full: "qinv s \<Longrightarrow> \<not> full s \<Longrightarrow> qinv (push c s) \<and> qabs (push c s) = qabs s @ [c]"
  using push_ok [of s c] full_ok [of s] cap_ok [of s] by simp

lemma push_pop: "qinv s \<Longrightarrow> empty s \<Longrightarrow> 0 < cap \<Longrightarrow> fst (pop (push c s)) = c \<and> empty (snd (pop (push c s)))"
  using push_ok [of s c] pop_ok [of "push c s" c "[]"] empty_ok [of s] empty_ok [of "snd (pop (push c s))"] by simp

end

definition rq :: "u8 list \<Rightarrow> nat \<Rightarrow> nat \<Rightarrow> u8 list" where
  "rq b r w = map (\<lambda>i. b ! ((r + i) mod 32)) [0..<(w + 32 - r) mod 32]"

definition ring_ok :: "u8 list \<Rightarrow> nat \<Rightarrow> nat \<Rightarrow> bool" where
  "ring_ok b r w \<longleftrightarrow> length b = 32 \<and> r < 32 \<and> w < 32"

lemma mod32: "(x::nat) < 64 \<Longrightarrow> x mod 32 = (if x < 32 then x else x - 32)"
  by (simp add: mod_if)

lemma suc32: "(w::nat) < 32 \<Longrightarrow> (w + 1) mod 32 = (if w = 31 then 0 else w + 1)"
  using mod32 [of "w + 1"] by auto

lemma ring_count: "(r::nat) < 32 \<Longrightarrow> w < 32 \<Longrightarrow> (w + 32 - r) mod 32 = (if r \<le> w then w - r else w + 32 - r)"
  using mod32 [of "w + 32 - r"] by auto

lemma ring_grow:
  assumes "(r::nat) < 32" "w < 32" "(w + 32 - r) mod 32 < 31"
  shows "((w + 1) mod 32 + 32 - r) mod 32 = Suc ((w + 32 - r) mod 32)"
proof (cases "w = 31")
  case True
  then have "0 < r" using assms(3) ring_count [of r 31] assms(1) by auto
  then show ?thesis using True assms ring_count [of r 31] ring_count [of r 0] by simp
next
  case False
  then have "(w + 1) mod 32 = w + 1" "w + 1 < 32" using assms by (simp_all add: suc32)
  then show ?thesis using assms ring_count [of r "w + 1"] ring_count [of r w] by (cases "r \<le> w"; cases "r = w + 1") auto
qed

lemma ring_at: "(r::nat) < 32 \<Longrightarrow> w < 32 \<Longrightarrow> (r + (w + 32 - r) mod 32) mod 32 = w"
  using ring_count [of r w] mod32 [of "r + (w + 32 - r) mod 32"] by (cases "r \<le> w") auto

lemma ring_before: "(r::nat) < 32 \<Longrightarrow> w < 32 \<Longrightarrow> i < (w + 32 - r) mod 32 \<Longrightarrow> (r + i) mod 32 \<noteq> w"
  using ring_count [of r w] mod32 [of "r + i"] by (cases "r \<le> w") auto

lemma ring_shrink:
  assumes "(r::nat) < 32" "w < 32" "(w + 32 - r) mod 32 = Suc n"
  shows "(w + 32 - (r + 1) mod 32) mod 32 = n"
proof (cases "r = 31")
  case True
  then show ?thesis using assms by (cases "w = 31") (auto simp: ring_count)
next
  case False
  then have "(r + 1) mod 32 = r + 1" "r + 1 < 32" using assms by (simp_all add: suc32)
  then show ?thesis using assms ring_count [of "r + 1" w] ring_count [of r w] by (cases "r \<le> w") auto
qed

lemma rq_len: "length (rq b r w) = (w + 32 - r) mod 32"
  by (simp add: rq_def)

lemma rq_push:
  assumes "ring_ok b r w" "length (rq b r w) < 31"
  shows "rq (b[w := c]) r ((w + 1) mod 32) = rq b r w @ [c]"
proof -
  define n where "n = (w + 32 - r) mod 32"
  have n: "n < 31" "r < 32" "w < 32" "length b = 32" using assms by (auto simp: rq_len n_def ring_ok_def)
  have e: "((w + 1) mod 32 + 32 - r) mod 32 = Suc n" "(r + n) mod 32 = w"
    using n ring_grow [of r w] ring_at [of r w] by (simp_all add: n_def)
  have "b[w := c] ! ((r + i) mod 32) = b ! ((r + i) mod 32)" if "i < n" for i
    by (rule nth_list_update_neq) (use ring_before [of r w i] that n in \<open>auto simp: n_def\<close>)
  then have "map (\<lambda>i. b[w := c] ! ((r + i) mod 32)) [0..<n] = map (\<lambda>i. b ! ((r + i) mod 32)) [0..<n]"
    by (intro map_cong refl) auto
  then show ?thesis using e n unfolding rq_def n_def [symmetric] by simp
qed

lemma rq_pop:
  assumes "ring_ok b r w" "rq b r w = c # q"
  shows "b ! r = c" "rq b ((r + 1) mod 32) w = q"
proof -
  define n where "n = (w + 32 - r) mod 32"
  have r: "r < 32" "w < 32" using assms(1) by (auto simp: ring_ok_def)
  have "length (rq b r w) = Suc (length q)" using assms(2) by simp
  then have n: "n = Suc (length q)" by (simp add: rq_len n_def)
  have e: "(w + 32 - (r + 1) mod 32) mod 32 = n - 1" using ring_shrink [OF r, of "n - 1"] n by (simp add: n_def)
  have "map (\<lambda>i. b ! ((r + i) mod 32)) [0..<Suc (n - 1)] = c # q"
    using assms(2) n by (simp add: rq_def n_def [symmetric] del: upt_Suc)
  then have "b ! r = c \<and> map (\<lambda>i. b ! ((r + Suc i) mod 32)) [0..<n - 1] = q"
    using r by (simp only: map_upt_Suc list.inject add_0_right mod_less)
  moreover have "(Suc r mod 32 + i) mod 32 = (r + Suc i) mod 32" for i by (simp add: mod_add_left_eq)
  ultimately show "b ! r = c" "rq b ((r + 1) mod 32) w = q" using e by (simp_all add: rq_def)
qed

lemma rq_empty: "ring_ok b r w \<Longrightarrow> r = w \<longleftrightarrow> rq b r w = []"
  using ring_count [of r w] by (auto simp: rq_def ring_ok_def split: if_splits)

lemma rq_full: "ring_ok b r w \<Longrightarrow> (w + 1) mod 32 = r \<longleftrightarrow> length (rq b r w) = 31"
  using ring_count [of r w] mod32 [of "w + 1"] by (auto simp: rq_len ring_ok_def split: if_splits)

lemma rq_cap: "length (rq b r w) \<le> 31"
  using mod_less_divisor [of 32 "w + 32 - r"] by (simp add: rq_len)

definition cq :: "tty \<Rightarrow> u8 list" where "cq t = rq (canonbuf t) (canonr t) (canonw t)"
definition cq_ok :: "tty \<Rightarrow> bool" where "cq_ok t \<longleftrightarrow> ring_ok (canonbuf t) (canonr t) (canonw t)"
definition oq :: "tty \<Rightarrow> u8 list" where "oq t = rq (outbuf t) (outr t) (outw t)"
definition oq_ok :: "tty \<Rightarrow> bool" where "oq_ok t \<longleftrightarrow> ring_ok (outbuf t) (outr t) (outw t)"

interpretation canon: byte_queue cq_ok cq canon_push canon_pop canon_empty canon_full 31
proof unfold_locales
  fix t c q
  show "cq_ok t \<Longrightarrow> length (cq t) < 31 \<Longrightarrow> cq_ok (canon_push c t) \<and> cq (canon_push c t) = cq t @ [c]"
    using rq_push [of "canonbuf t" "canonr t" "canonw t" c]
    by (simp add: cq_ok_def cq_def canon_push_def TTYBUFSIZ_def ring_ok_def)
  show "cq_ok t \<Longrightarrow> cq t = c # q \<Longrightarrow> fst (canon_pop t) = c \<and> cq_ok (snd (canon_pop t)) \<and> cq (snd (canon_pop t)) = q"
    using rq_pop [of "canonbuf t" "canonr t" "canonw t" c q]
    by (simp add: cq_ok_def cq_def canon_pop_def TTYBUFSIZ_def ring_ok_def)
  show "cq_ok t \<Longrightarrow> canon_empty t = (cq t = [])" using rq_empty by (simp add: cq_ok_def cq_def canon_empty_def)
  show "cq_ok t \<Longrightarrow> canon_full t = (length (cq t) = 31)"
    using rq_full by (simp add: cq_ok_def cq_def canon_full_def TTYBUFSIZ_def)
  show "cq_ok t \<Longrightarrow> length (cq t) \<le> 31" by (simp add: cq_def rq_cap)
qed

interpretation out: byte_queue oq_ok oq out_push out_pop out_empty out_full 31
proof unfold_locales
  fix t c q
  show "oq_ok t \<Longrightarrow> length (oq t) < 31 \<Longrightarrow> oq_ok (out_push c t) \<and> oq (out_push c t) = oq t @ [c]"
    using rq_push [of "outbuf t" "outr t" "outw t" c]
    by (simp add: oq_ok_def oq_def out_push_def TTYBUFSIZ_def ring_ok_def)
  show "oq_ok t \<Longrightarrow> oq t = c # q \<Longrightarrow> fst (out_pop t) = c \<and> oq_ok (snd (out_pop t)) \<and> oq (snd (out_pop t)) = q"
    using rq_pop [of "outbuf t" "outr t" "outw t" c q]
    by (simp add: oq_ok_def oq_def out_pop_def TTYBUFSIZ_def ring_ok_def)
  show "oq_ok t \<Longrightarrow> out_empty t = (oq t = [])" using rq_empty by (simp add: oq_ok_def oq_def out_empty_def)
  show "oq_ok t \<Longrightarrow> out_full t = (length (oq t) = 31)"
    using rq_full by (simp add: oq_ok_def oq_def out_full_def TTYBUFSIZ_def)
  show "oq_ok t \<Longrightarrow> length (oq t) \<le> 31" by (simp add: oq_def rq_cap)
qed

section \<open>Input\<close>

definition ln :: "tty \<Rightarrow> u8 list" where
  "ln t = take (line_len t) (line_buf t)"

definition tty_ok :: "tty \<Rightarrow> bool" where
  "tty_ok t \<longleftrightarrow> cq_ok t \<and> length (line_buf t) = 32 \<and> line_len t \<le> 32"

text \<open>The line discipline on abstract state: the completed input and the line being edited.\<close>

definition ldisc :: "tty \<Rightarrow> u8 \<Rightarrow> u8 list \<times> u8 list \<Rightarrow> u8 list \<times> u8 list" where
  "ldisc t c0 s =
     (let (q, l) = s; c = (if has (c_iflag (termios t)) ICRNL \<and> c0 = 13 then 10 else c0) in
      if has (c_lflag (termios t)) ISIG \<and> is_cc c VINTR t then (q, l)
      else if \<not> has (c_lflag (termios t)) ICANON then (q @ [c], l)
      else if is_cc c VERASE t then (q, butlast l)
      else if is_cc c VEOF t then (q, l)
      else if c = 10 then (q @ l @ [10], [])
      else (q, l @ [c]))"

definition room :: "tty \<Rightarrow> u8 \<Rightarrow> u8 list \<times> u8 list \<Rightarrow> bool" where
  "room t c s \<longleftrightarrow> length (snd s) < 32 \<and> length (fst (ldisc t c s)) \<le> 31"

definition same_ctl :: "tty \<Rightarrow> tty \<Rightarrow> bool" where
  "same_ctl t t' \<longleftrightarrow> termios t' = termios t \<and> tty_ops t' = tty_ops t \<and> outbuf t' = outbuf t \<and> outr t' = outr t \<and> outw t' = outw t"

lemma tty_outputc_simps [simp]:
  "cq (tty_outputc c t) = cq t" "cq_ok (tty_outputc c t) = cq_ok t" "ln (tty_outputc c t) = ln t"
  "tty_ok (tty_outputc c t) = tty_ok t" "same_ctl u (tty_outputc c t) = same_ctl u t" "termios (tty_outputc c t) = termios t"
  by (simp_all add: tty_outputc_def ttydev_write_def Let_def cq_def cq_ok_def ln_def tty_ok_def same_ctl_def)

lemma canon_push_frame [simp]:
  "line_buf (canon_push c t) = line_buf t" "line_len (canon_push c t) = line_len t"
  "same_ctl u (canon_push c t) = same_ctl u t" "termios (canon_push c t) = termios t"
  by (simp_all add: canon_push_def same_ctl_def)

lemma push_all_frame [simp]:
  "line_buf (fold canon_push cs t) = line_buf t" "same_ctl u (fold canon_push cs t) = same_ctl u t"
  by (induction cs arbitrary: t) simp_all

lemma line_len_simps [simp]:
  "cq (t\<lparr>line_len := n\<rparr>) = cq t" "cq_ok (t\<lparr>line_len := n\<rparr>) = cq_ok t" "same_ctl u (t\<lparr>line_len := n\<rparr>) = same_ctl u t"
  "cq (t\<lparr>line_buf := b, line_len := n\<rparr>) = cq t" "cq_ok (t\<lparr>line_buf := b, line_len := n\<rparr>) = cq_ok t"
  "same_ctl u (t\<lparr>line_buf := b, line_len := n\<rparr>) = same_ctl u t"
  "cq (t\<lparr>line_buf := b\<rparr>) = cq t" "cq_ok (t\<lparr>line_buf := b\<rparr>) = cq_ok t" "same_ctl u (t\<lparr>line_buf := b\<rparr>) = same_ctl u t"
  by (simp_all add: cq_def cq_ok_def same_ctl_def)

lemma canon_tty_step:
  assumes ok: "tty_ok t" and l: "length (ln t) < 32" and q: "c = 10 \<and> \<not> is_cc c VERASE t \<and> \<not> is_cc c VEOF t \<longrightarrow> length (cq t) + length (ln t) + 1 \<le> 31"
  shows "\<exists>t'. canon_tty c t = Some t' \<and> tty_ok t' \<and> same_ctl t t' \<and>
    (cq t', ln t') = (if is_cc c VERASE t then (cq t, butlast (ln t)) else if is_cc c VEOF t then (cq t, ln t)
       else if c = 10 then (cq t @ ln t @ [10], []) else (cq t, ln t @ [c]))"
proof -
  have n: "line_len t < 32" "length (line_buf t) = 32" "cq_ok t" using ok l by (auto simp: tty_ok_def ln_def)
  let ?t1 = "t\<lparr>line_buf := (line_buf t)[line_len t := c], line_len := Suc (line_len t)\<rparr>"
  have l1: "take (Suc (line_len t)) ((line_buf t)[line_len t := c]) = ln t @ [c]"
    using n by (simp add: ln_def take_Suc_conv_app_nth)
  have sc: "same_ctl t t" by (simp add: same_ctl_def)
  have er: "take (line_len t - 1) (line_buf t) = butlast (ln t)" using n by (simp add: ln_def butlast_take)
  have nl: "cq_ok (fold canon_push (ln t @ [c]) ?t1) \<and> cq (fold canon_push (ln t @ [c]) ?t1) = cq t @ ln t @ [c]"
    if "c = 10" "\<not> is_cc c VERASE t" "\<not> is_cc c VEOF t"
    using canon.push_all [of ?t1 "ln t @ [c]"] n q that by simp
  consider "is_cc c VERASE t" | "\<not> is_cc c VERASE t" "is_cc c VEOF t" | "\<not> is_cc c VERASE t" "\<not> is_cc c VEOF t" by blast
  then show ?thesis
  proof cases
    case 1
    have t1: "tty_ok (t\<lparr>line_len := line_len t - 1\<rparr>)" "ln (t\<lparr>line_len := line_len t - 1\<rparr>) = butlast (ln t)"
      using n ok er by (auto simp: tty_ok_def ln_def)
    have "ln t = []" if "line_len t = 0" using that by (simp add: ln_def)
    then show ?thesis using 1 ok sc t1 by (auto simp: canon_tty_def Let_def)
  next
    case 2
    then show ?thesis using ok sc by (simp add: canon_tty_def)
  next
    case 3
    have "tty_ok ?t1" "ln ?t1 = ln t @ [c]" using n l1 by (auto simp: tty_ok_def ln_def)
    moreover have "tty_ok ((fold canon_push (ln t @ [c]) ?t1)\<lparr>line_len := 0\<rparr>)"
      "ln ((fold canon_push (ln t @ [c]) ?t1)\<lparr>line_len := 0\<rparr>) = []" if "c = 10"
      using nl [OF that 3] n by (simp_all add: tty_ok_def ln_def)
    ultimately show ?thesis using 3 n sc nl l1 by (auto simp: canon_tty_def Let_def)
  qed
qed

lemma tty_input_step:
  assumes ok: "tty_ok t" and r: "room t c (cq t, ln t)"
  shows "\<exists>t'. tty_inputc c t = Some t' \<and> tty_ok t' \<and> same_ctl t t' \<and> (cq t', ln t') = ldisc t c (cq t, ln t)"
proof -
  define k where "k = (if has (c_iflag (termios t)) ICRNL \<and> c = 13 then 10 else c)"
  let ?sig = "has (c_lflag (termios t)) ISIG \<and> is_cc k VINTR t" and ?can = "has (c_lflag (termios t)) ICANON"
  have e: "tty_inputc c t = (if ?sig then Some t else if ?can then canon_tty k t
      else Some (if has (c_lflag (termios t)) ECHO then tty_outputc k (canon_push k t) else canon_push k t))"
    by (simp only: tty_inputc_def Let_def k_def)
  have d: "ldisc t c (cq t, ln t) = (if ?sig then (cq t, ln t) else if \<not> ?can then (cq t @ [k], ln t)
      else if is_cc k VERASE t then (cq t, butlast (ln t)) else if is_cc k VEOF t then (cq t, ln t)
      else if k = 10 then (cq t @ ln t @ [10], []) else (cq t, ln t @ [k]))"
    by (simp only: ldisc_def Let_def k_def prod.case)
  have l: "length (ln t) < 32" "length (fst (ldisc t c (cq t, ln t))) \<le> 31" using r by (auto simp: room_def)
  have sc: "same_ctl t t" by (simp add: same_ctl_def)
  show ?thesis
  proof (cases "?sig \<or> ?can")
    case True
    then show ?thesis using e d ok sc l canon_tty_step [OF ok l(1), of k] by auto
  next
    case False
    then have "length (cq t) < 31" using l(2) d by auto
    then have "cq_ok (canon_push k t) \<and> cq (canon_push k t) = cq t @ [k]" using canon.push_ok ok by (simp add: tty_ok_def)
    moreover have "ln (canon_push k t) = ln t" by (simp add: ln_def)
    moreover have "tty_ok (canon_push k t)" using calculation ok by (simp add: tty_ok_def)
    ultimately show ?thesis using False e d sc by auto
  qed
qed

lemma ldisc_cong: "same_ctl t t' \<Longrightarrow> ldisc t' = ldisc t"
  by (auto simp: fun_eq_iff ldisc_def same_ctl_def is_cc_def)

fun tty_inputs :: "u8 list \<Rightarrow> tty \<Rightarrow> tty option" where
  "tty_inputs [] t = Some t"
| "tty_inputs (c # cs) t = Option.bind (tty_inputc c t) (tty_inputs cs)"

fun room_all :: "tty \<Rightarrow> u8 list \<Rightarrow> u8 list \<times> u8 list \<Rightarrow> bool" where
  "room_all t [] s = True"
| "room_all t (c # cs) s = (room t c s \<and> room_all t cs (ldisc t c s))"

lemma room_cong: "same_ctl t t' \<Longrightarrow> room_all t' cs s = room_all t cs s"
  by (induction cs arbitrary: s) (simp_all add: room_def ldisc_cong)

lemma tty_inputs_refine:
  assumes "tty_ok t" "room_all t cs (cq t, ln t)"
  shows "\<exists>t'. tty_inputs cs t = Some t' \<and> tty_ok t' \<and> same_ctl t t' \<and> (cq t', ln t') = fold (ldisc t) cs (cq t, ln t)"
  using assms
proof (induction cs arbitrary: t)
  case Nil
  then show ?case by (simp add: same_ctl_def)
next
  case (Cons c cs)
  then obtain t1 where t1: "tty_inputc c t = Some t1" "tty_ok t1" "same_ctl t t1" "(cq t1, ln t1) = ldisc t c (cq t, ln t)"
    using tty_input_step [of t c] by auto
  then have "room_all t1 cs (cq t1, ln t1)" using Cons.prems room_cong [OF t1(3)] by simp
  from Cons.IH [OF t1(2) this] obtain t' where "tty_inputs cs t1 = Some t'" "tty_ok t'" "same_ctl t1 t'"
    "(cq t', ln t') = fold (ldisc t1) cs (cq t1, ln t1)" by blast
  then show ?case using t1 ldisc_cong [OF t1(3)] by (auto simp: same_ctl_def)
qed

section \<open>Reading\<close>

fun line_take :: "bool \<Rightarrow> nat \<Rightarrow> u8 list \<Rightarrow> u8 list" where
  "line_take can 0 q = []"
| "line_take can (Suc n) [] = []"
| "line_take can (Suc n) (c # q) = (if can \<and> c = 10 then [c] else c # line_take can n q)"

lemma canon_pop_frame:
  "line_buf (snd (canon_pop t)) = line_buf t" "line_len (snd (canon_pop t)) = line_len t" "termios (snd (canon_pop t)) = termios t"
  by (simp_all add: canon_pop_def)

lemma read_loop_correct:
  assumes "tty_ok t"
  shows "\<exists>t'. read_loop n t = (line_take (has (c_lflag (termios t)) ICANON) n (cq t), t') \<and> tty_ok t' \<and> ln t' = ln t \<and>
    cq t' = drop (length (line_take (has (c_lflag (termios t)) ICANON) n (cq t))) (cq t)"
  using assms
proof (induction n arbitrary: t)
  case (Suc n)
  show ?case
  proof (cases "cq t")
    case Nil
    then show ?thesis using Suc.prems canon.empty_ok by (auto simp: tty_ok_def)
  next
    case (Cons c q)
    let ?t1 = "snd (canon_pop t)"
    have p: "fst (canon_pop t) = c" "cq_ok ?t1" "cq ?t1 = q" "\<not> canon_empty t"
      using canon.pop_ok [OF _ Cons] canon.empty_ok [of t] Suc.prems Cons by (auto simp: tty_ok_def)
    have t1: "tty_ok ?t1" "ln ?t1 = ln t" using p Suc.prems by (simp_all add: tty_ok_def canon_pop_frame ln_def)
    obtain t' where "read_loop n ?t1 = (line_take (has (c_lflag (termios t)) ICANON) n q, t')" "tty_ok t'" "ln t' = ln t"
      "cq t' = drop (length (line_take (has (c_lflag (termios t)) ICANON) n q)) q"
      using Suc.IH [OF t1(1)] p t1 by (auto simp: canon_pop_frame)
    then show ?thesis using p t1 Cons by (auto simp: split_beta)
  qed
qed simp

text \<open>C21. The line discipline: whatever is typed (as long as the edited line and the queue of
  completed input do not overflow), the queue and the line are those of the abstract line
  discipline: CR becomes NL, erase removes the last character of the line, NL hands the line
  over, the interrupt and end-of-file characters are dropped.  A following \<^verbatim>\<open>read\<close> returns the
  completed input in order, at most what was asked for and in canonical mode at most one line,
  and leaves the rest; with nothing completed it returns \<^verbatim>\<open>EAGAIN\<close>.\<close>

theorem tty_refines_ldisc:
  assumes "tty_ok t" "room_all t cs (cq t, ln t)"
  shows "\<exists>t'. tty_inputs cs t = Some t' \<and> tty_ok t' \<and> (cq t', ln t') = fold (ldisc t) cs (cq t, ln t) \<and>
    (\<forall>n. if cq t' = [] then read_tty n (Some t') = (- EAGAIN, [], Some t')
         else \<exists>t''. let got = line_take (has (c_lflag (termios t)) ICANON) n (cq t')
                    in read_tty n (Some t') = (int (length got), got, Some t'') \<and> tty_ok t'' \<and>
                       cq t'' = drop (length got) (cq t') \<and> ln t'' = ln t')"
proof -
  obtain t' where t': "tty_inputs cs t = Some t'" "tty_ok t'" "same_ctl t t'" "(cq t', ln t') = fold (ldisc t) cs (cq t, ln t)"
    using tty_inputs_refine [OF assms] by blast
  have "canon_empty t' \<longleftrightarrow> cq t' = []" using canon.empty_ok t'(2) by (simp add: tty_ok_def)
  moreover have "termios t' = termios t" using t'(3) by (simp add: same_ctl_def)
  ultimately have "if cq t' = [] then read_tty n (Some t') = (- EAGAIN, [], Some t')
         else \<exists>t''. let got = line_take (has (c_lflag (termios t)) ICANON) n (cq t')
                    in read_tty n (Some t') = (int (length got), got, Some t'') \<and> tty_ok t'' \<and>
                       cq t'' = drop (length got) (cq t') \<and> ln t'' = ln t'" for n
    using read_loop_correct [OF t'(2), of n] by (auto simp: read_tty_def Let_def split_beta)
  then show ?thesis using t' by blast
qed

text \<open>Typing \<^verbatim>\<open>ab\<close>, backspace, \<^verbatim>\<open>c\<close> and return gives the line \<^verbatim>\<open>ac\<close>.\<close>

theorem tty_refines_ldisc_witness:
  "\<exists>t' t''. tty_inputs [97, 98, 8, 99, 13] (alloc_tty True) = Some t' \<and> read_tty 20 (Some t') = (3, [97, 99, 10], Some t'')"
proof -
  let ?t = "alloc_tty True"
  have ok: "tty_ok ?t" "cq ?t = []" "ln ?t = []"
    by (simp_all add: alloc_tty_def tty_ok_def cq_ok_def ring_ok_def cq_def rq_def ln_def)
  have fl: "has (c_iflag (termios ?t)) ICRNL" "has (c_lflag (termios ?t)) ICANON" "c_cc (termios ?t) = ttydefchars"
    by (simp_all add: alloc_tty_def has_def TTYDEF_IFLAG_def TTYDEF_LFLAG_def BRKINT_def ISTRIP_def ICRNL_def IMAXBEL_def
        IXON_def IXANY_def ECHO_def ICANON_def ISIG_def IEXTEN_def ECHOE_def ECHOKE_def ECHOCTL_def)
  have ld: "ldisc ?t 97 (q, l) = (q, l @ [97])" "ldisc ?t 98 (q, l) = (q, l @ [98])" "ldisc ?t 99 (q, l) = (q, l @ [99])"
    "ldisc ?t 8 (q, l) = (q, butlast l)" "ldisc ?t 13 (q, l) = (q @ l @ [10], [])" for q l
    by (simp_all add: ldisc_def Let_def fl is_cc_def ttydefchars_def VINTR_def VERASE_def VEOF_def)
  have "room_all ?t [97, 98, 8, 99, 13] ([], [])" by (simp add: room_def ld)
  then obtain t' where t': "tty_inputs [97, 98, 8, 99, 13] ?t = Some t'" "(cq t', ln t') = fold (ldisc ?t) [97, 98, 8, 99, 13] ([], [])"
    "\<forall>n. if cq t' = [] then read_tty n (Some t') = (- EAGAIN, [], Some t')
         else \<exists>t''. let got = line_take (has (c_lflag (termios ?t)) ICANON) n (cq t')
                    in read_tty n (Some t') = (int (length got), got, Some t'') \<and> tty_ok t'' \<and>
                       cq t'' = drop (length got) (cq t') \<and> ln t'' = ln t'"
    using tty_refines_ldisc [OF ok(1), of "[97, 98, 8, 99, 13]"] unfolding ok by blast
  have lt: "line_take True 20 [97, 99, 10] = [97, 99, 10]"
  proof -
    have "20 = Suc (Suc (Suc 17))" by simp
    then show ?thesis by (simp only: line_take.simps) simp
  qed
  have "cq t' = [97, 99, 10]" using t'(2) by (simp add: ld)
  then have "\<exists>t''. read_tty 20 (Some t') = (3, [97, 99, 10], Some t'')"
    using t'(3) [THEN spec, of 20] fl(2) lt by (auto simp: Let_def)
  then show ?thesis using t'(1) by blast
qed

section \<open>Writing\<close>

definition cook :: "tty \<Rightarrow> u8 \<Rightarrow> u8 list" where
  "cook t c = (if has (c_oflag (termios t)) OPOST \<and> has (c_oflag (termios t)) ONLCR \<and> c = 10 then [13, c] else [c])"

lemma tty_outputc_dev: "tty_ops t \<Longrightarrow> tty_outputc c t = t\<lparr>tty_dev := tty_dev t @ cook t c\<rparr>"
  by (simp add: tty_outputc_def ttydev_write_def cook_def Let_def)

lemma write_tty_correct:
  assumes "tty_ops t" "\<not> out_full t"
  shows "write_tty bs (Some t) = (int (length bs), Some (t\<lparr>tty_dev := tty_dev t @ concat (map (cook t) bs)\<rparr>))"
proof -
  have "write_loop bs w t = (int (w + length bs), t\<lparr>tty_dev := tty_dev t @ concat (map (cook t) bs)\<rparr>)"
    if "tty_ops t" "\<not> out_full t" for w t
    using that
  proof (induction bs arbitrary: w t)
    case (Cons c bs)
    have "cook (t\<lparr>tty_dev := x\<rparr>) = cook t" "out_full (t\<lparr>tty_dev := x\<rparr>) = out_full t" for x
      by (auto simp: cook_def fun_eq_iff out_full_def)
    then show ?case using Cons by (simp add: tty_outputc_dev)
  qed simp
  then show ?thesis using assms by (simp add: write_tty_def)
qed

end
