(* ===== verification/Tty_Term.thy ===== *)
theory Tty_Term
  imports Lib_String
begin

text \<open>
  The text console: \<^verbatim>\<open>src/kern/driver/tty/terminal.c\<close> (cursor, scroll-back buffer),
  \<^verbatim>\<open>vga_text.c\<close> (the VGA text memory and cursor registers) and \<^verbatim>\<open>vt.c\<close> (escape sequences).
  \<^verbatim>\<open>vga_cops\<close> is the only \<^verbatim>\<open>console_ops\<close>; \<open>t_cops\<close> says whether the terminal has it.  The
  VGA words are a function of the index from \<^verbatim>\<open>0xb8000\<close>, \<open>crtc\<close> is the cursor location
  register pair.  An access outside \<^verbatim>\<open>cbuf\<close> or \<^verbatim>\<open>params\<close> is \<^const>\<open>None\<close>.
\<close>

section \<open>Data\<close>

record cell =
  ce_ch :: u8
  ce_fg :: u8
  ce_bg :: u8

record terminal =
  cursor_x :: int
  cursor_y :: int
  t_width :: int
  t_height :: int
  dheight :: int
  scroll_top :: int
  cbuf :: "cell list"
  t_cops :: bool
  t_fg :: u8
  t_bg :: u8
  vga :: "int \<Rightarrow> u16"
  crtc :: u16

definition zero_cell :: cell where "zero_cell = \<lparr>ce_ch = 0, ce_fg = 0, ce_bg = 0\<rparr>"

section \<open>VGA text memory\<close>

definition vga_setcursor :: "int \<Rightarrow> int \<Rightarrow> terminal \<Rightarrow> terminal" where
  "vga_setcursor x y t = t\<lparr>crtc := of_int (y * t_width t + x)\<rparr>"

definition vga_readcursor :: "terminal \<Rightarrow> int \<times> int" where
  "vga_readcursor t = (uint (crtc t) mod t_width t, uint (crtc t) div t_width t)"

definition vga_attr :: "u8 \<Rightarrow> u8 \<Rightarrow> u8 \<Rightarrow> u16" where
  "vga_attr ch fg bg = ucast ch OR ((push_bit 8 (ucast fg) AND 0x0f00) OR (push_bit 12 (ucast bg) AND 0xf000))"

definition vga_putc :: "int \<Rightarrow> int \<Rightarrow> cell \<Rightarrow> terminal \<Rightarrow> terminal" where
  "vga_putc x y c t = t\<lparr>vga := (vga t)(y * t_width t + x := vga_attr (ce_ch c) (t_fg t) (t_bg t))\<rparr>"

text \<open>\<^verbatim>\<open>cbuf[k]\<close>\<close>

definition cell_in :: "terminal \<Rightarrow> int \<Rightarrow> bool" where
  "cell_in t k \<longleftrightarrow> 0 \<le> k \<and> k < int (length (cbuf t))"

text \<open>The inner loop of \<^verbatim>\<open>vga_flush\<close> ends at the last row of the buffer.\<close>

fun flush_col :: "nat \<Rightarrow> int \<Rightarrow> int \<Rightarrow> terminal \<Rightarrow> terminal option" where
  "flush_col 0 i j t = Some t"
| "flush_col (Suc n) i j t =
     (if j + scroll_top t \<ge> t_height t then Some t
      else let k = (j + scroll_top t) * t_width t + i in
      if \<not> cell_in t k then None
      else let c = cbuf t ! nat k
           in flush_col n i (j + 1) (t\<lparr>vga := (vga t)(j * t_width t + i := vga_attr (ce_ch c) (ce_fg c) (ce_bg c))\<rparr>))"

fun flush_cols :: "nat \<Rightarrow> int \<Rightarrow> terminal \<Rightarrow> terminal option" where
  "flush_cols 0 i t = Some t"
| "flush_cols (Suc n) i t = Option.bind (flush_col (nat (dheight t + 1)) i 0 t) (flush_cols n (i + 1))"

definition vga_flush :: "terminal \<Rightarrow> terminal option" where
  "vga_flush t = flush_cols (nat (t_width t)) 0 t"

definition vga_clear :: "terminal \<Rightarrow> terminal" where
  "vga_clear t =
     (let t1 = vga_setcursor 0 0 (t\<lparr>cursor_x := 0, cursor_y := 0, scroll_top := 0\<rparr>);
          seen = nat (min (dheight t) (t_height t) * t_width t)
      in t1\<lparr>vga := (\<lambda>k. if 0 \<le> k \<and> k < 2000 then 0x0f00 else vga t k),
            cbuf := map (\<lambda>k. if k < seen then zero_cell\<lparr>ce_fg := 0x0f\<rparr> else zero_cell) [0..<length (cbuf t)]\<rparr>)"

definition vga_uncell :: "u16 \<Rightarrow> cell" where
  "vga_uncell v = \<lparr>ce_ch = ucast v, ce_fg = ucast (drop_bit 8 v AND 0x0f), ce_bg = ucast (drop_bit 12 v AND 0x0f)\<rparr>"

text \<open>\<^verbatim>\<open>vga_reflush\<close> reads the visible rows back into the buffer.\<close>

definition vga_reflush :: "terminal \<Rightarrow> terminal" where
  "vga_reflush t =
     t\<lparr>cbuf := map (\<lambda>k. let r = int k div t_width t - scroll_top t; x = int k mod t_width t
                         in if 0 \<le> r \<and> r < dheight t \<and> int k div t_width t < t_height t
                            then vga_uncell (vga t (r * t_width t + x)) else cbuf t ! k) [0..<length (cbuf t)]\<rparr>"

section \<open>The terminal\<close>

definition term_set_cursor :: "int \<Rightarrow> int \<Rightarrow> terminal \<Rightarrow> terminal" where
  "term_set_cursor x y t =
     (if x > t_width t then t else if y - scroll_top t > dheight t then t else if y < scroll_top t then t
      else let t1 = t\<lparr>cursor_x := x, cursor_y := y\<rparr>
           in if t_cops t then vga_setcursor x (y - scroll_top t) t1 else t1)"

text \<open>\<^verbatim>\<open>term_scroll_absolute\<close> moves \<^verbatim>\<open>height\<close> rows from row 1 on and clears row \<^verbatim>\<open>height\<close>: both
  reach one row past a buffer of \<^verbatim>\<open>height\<close> rows.\<close>

definition term_scroll_absolute :: "terminal \<Rightarrow> terminal option" where
  "term_scroll_absolute t =
     (let w = nat (t_width t); n = nat (t_width t * t_height t) in
      if length (cbuf t) < n + w then None
      else let t1 = t\<lparr>cbuf := take n (drop w (cbuf t)) @ replicate w zero_cell @ drop (n + w) (cbuf t)\<rparr>
           in if t_cops t then vga_flush t1 else Some t1)"

definition term_scroll_up :: "terminal \<Rightarrow> terminal option" where
  "term_scroll_up t =
     (if scroll_top t + dheight t \<ge> t_height t then
        map_option (\<lambda>t1. term_set_cursor (cursor_x t1) (cursor_y t1) t1) (term_scroll_absolute t)
      else let t1 = t\<lparr>scroll_top := scroll_top t + 1\<rparr>
           in if t_cops t then map_option (\<lambda>t2. term_set_cursor (cursor_x t2) (cursor_y t2) t2) (vga_flush t1)
              else Some t1)"

definition term_scroll_down :: "terminal \<Rightarrow> terminal option" where
  "term_scroll_down t =
     (if scroll_top t \<le> 0 then Some t
      else let t1 = t\<lparr>scroll_top := scroll_top t - 1\<rparr>
           in if t_cops t then map_option (\<lambda>t2. term_set_cursor (cursor_x t2) (cursor_y t2) t2) (vga_flush t1)
              else Some t1)"

definition term_put_here :: "u8 \<Rightarrow> terminal \<Rightarrow> terminal option" where
  "term_put_here ch t =
     (let cc = \<lparr>ce_ch = ch, ce_fg = t_fg t, ce_bg = t_bg t\<rparr>;
          t1 = vga_putc (cursor_x t) (cursor_y t - scroll_top t) cc t;
          k = cursor_y t * t_width t + cursor_x t
      in if \<not> cell_in t k then None
         else Some (t1\<lparr>cbuf := (cbuf t)[nat k := cc], cursor_x := cursor_x t + 1\<rparr>))"

definition term_putc_raw :: "u8 \<Rightarrow> terminal \<Rightarrow> terminal option" where
  "term_putc_raw ch t =
     (if \<not> t_cops t then Some t
      else if cursor_x t \<ge> t_width t then
        let t1 = (if cursor_y t \<ge> t_height t then t\<lparr>cursor_y := cursor_y t - 1\<rparr> else t)
        in Option.bind (if cursor_y t1 - scroll_top t1 \<ge> dheight t1
                        then map_option (\<lambda>u. u\<lparr>cursor_y := cursor_y u - 1\<rparr>) (term_scroll_up t1) else Some t1) (\<lambda>t2.
             term_put_here ch (t2\<lparr>cursor_x := 0, cursor_y := cursor_y t2 + 1\<rparr>))
      else term_put_here ch t)"

definition term_newline :: "terminal \<Rightarrow> terminal option" where
  "term_newline t =
     map_option (\<lambda>u. u\<lparr>cursor_y := cursor_y u + 1\<rparr>)
       (if cursor_y t - scroll_top t \<ge> dheight t then term_scroll_up t else Some t)"

definition term_bkspace :: "terminal \<Rightarrow> terminal" where
  "term_bkspace t =
     (if cursor_x t \<le> 0 then t
      else let t1 = t\<lparr>cursor_x := cursor_x t - 1\<rparr>
           in if t_cops t then vga_setcursor (cursor_x t1) (cursor_y t1) t1 else t1)"

definition clr_scr :: "terminal \<Rightarrow> terminal" where
  "clr_scr t = (if t_cops t then vga_clear t else t)"

text \<open>\<^verbatim>\<open>cops\<close> is used without a test at the end.\<close>

definition term_putc :: "u8 \<Rightarrow> terminal \<Rightarrow> terminal option" where
  "term_putc ch t =
     Option.bind (if ch = 10 then term_newline t else if ch = 13 then Some (t\<lparr>cursor_x := 0\<rparr>)
                  else if ch = 8 then Some (term_bkspace t) else term_putc_raw ch t)
       (\<lambda>t1. if t_cops t1 then Some (vga_setcursor (cursor_x t1) (cursor_y t1) t1) else None)"

section \<open>Escape sequences\<close>

datatype vt_state = GROUND | ESCAPE | CSI_PARAM

record vt =
  vt_s :: vt_state
  vt_t :: terminal
  vt_params :: "int list"
  param_count :: nat
  vt_cur :: int

definition vt_vt2col :: "int \<Rightarrow> int" where
  "vt_vt2col col = (if col = 1 then 4 else if col = 3 then 14 else if col = 4 then 1 else if col = 6 then 3 else col)"

fun attr_scan :: "int list \<Rightarrow> u8 \<times> u8 \<times> bool \<Rightarrow> u8 \<times> u8 \<times> bool" where
  "attr_scan [] s = s"
| "attr_scan (p # ps) (fg, bg, br) =
     attr_scan ps (if p \<ge> 30 \<and> p \<le> 37 then of_int (p mod 10) else fg,
                   if p \<ge> 40 \<and> p \<le> 47 then of_int (p mod 10) else bg, br \<or> p = 1)"

text \<open>\<open>junk\<close> are the values of the two uninitialised variables.\<close>

definition vt_setattr :: "u8 \<times> u8 \<Rightarrow> vt \<Rightarrow> vt" where
  "vt_setattr junk v =
     (if vt_params v ! 0 = 0 then v\<lparr>vt_t := (vt_t v)\<lparr>t_bg := 0, t_fg := 7\<rparr>\<rparr>
      else let (fg, bg, br) = attr_scan (take (param_count v) (vt_params v)) (fst junk, snd junk, False);
               fg1 = of_int (vt_vt2col (uint fg)); bg1 = of_int (vt_vt2col (uint bg))
           in v\<lparr>vt_t := (vt_t v)\<lparr>t_fg := (if br then fg1 OR 8 else fg1), t_bg := (if br then bg1 OR 8 else bg1)\<rparr>\<rparr>)"

definition vt_scroll :: "int \<Rightarrow> vt \<Rightarrow> vt option" where
  "vt_scroll n v =
     (if n = 5 then map_option (\<lambda>t. v\<lparr>vt_t := t\<rparr>) (term_scroll_down (vt_t v))
      else if n = 6 then map_option (\<lambda>t. v\<lparr>vt_t := t\<rparr>) (term_scroll_up (vt_t v))
      else Some v)"

definition vt_dispatch :: "u8 \<times> u8 \<Rightarrow> u8 \<Rightarrow> vt \<Rightarrow> vt option" where
  "vt_dispatch junk ch v =
     (if ch = 109 then Some (vt_setattr junk v)
      else if ch = 126 then vt_scroll (vt_params v ! 0) v
      else if ch = 72 then Some (v\<lparr>vt_t := term_set_cursor 0 0 (vt_t v)\<rparr>)
      else Some v)"

definition vt_param :: "vt \<Rightarrow> vt option" where
  "vt_param v =
     (if param_count v \<ge> 8 then None
      else Some (v\<lparr>vt_params := (vt_params v)[param_count v := vt_cur v], param_count := param_count v + 1\<rparr>))"

text \<open>Signed overflow of \<^verbatim>\<open>cur\<close> is \<^const>\<open>None\<close>.\<close>

definition vt_process :: "u8 \<times> u8 \<Rightarrow> u8 \<Rightarrow> vt \<Rightarrow> vt option" where
  "vt_process junk ch v =
     (case vt_s v of
        GROUND \<Rightarrow> if ch = 27 then Some (v\<lparr>vt_s := ESCAPE\<rparr>)
                  else map_option (\<lambda>t. v\<lparr>vt_t := t\<rparr>) (term_putc ch (vt_t v))
      | ESCAPE \<Rightarrow> if ch = 91 then Some (v\<lparr>vt_s := CSI_PARAM, param_count := 0, vt_cur := 0\<rparr>)
                  else Some (v\<lparr>vt_s := GROUND\<rparr>)
      | CSI_PARAM \<Rightarrow>
          if isdigit ch then
            let n = vt_cur v * 10 + (uint ch - 48)
            in if n < 2 ^ 31 then Some (v\<lparr>vt_cur := n\<rparr>) else None
          else if ch = 59 then map_option (\<lambda>v1. v1\<lparr>vt_cur := 0\<rparr>) (vt_param v)
          else Option.bind (vt_param v) (\<lambda>v1. map_option (\<lambda>v2. v2\<lparr>vt_s := GROUND\<rparr>) (vt_dispatch junk ch v1)))"

fun vga_ttywrite :: "u8 \<times> u8 \<Rightarrow> u8 list \<Rightarrow> vt \<Rightarrow> vt option" where
  "vga_ttywrite junk [] v = Some v"
| "vga_ttywrite junk (c # cs) v = Option.bind (vt_process junk c v) (vga_ttywrite junk cs)"

text \<open>The console part of \<^verbatim>\<open>vgatext_init\<close>: \<open>m\<close> and \<open>cur\<close> are what the firmware left.\<close>

definition vgatext_init :: "(int \<Rightarrow> u16) \<Rightarrow> u16 \<Rightarrow> vt" where
  "vgatext_init m cr =
     (let t0 = \<lparr>cursor_x = 0, cursor_y = 0, t_width = 80, t_height = 50, dheight = 24, scroll_top = 0,
                cbuf = replicate 4000 zero_cell, t_cops = True, t_fg = 0, t_bg = 0, vga = m, crtc = cr\<rparr>;
          (x, y) = vga_readcursor t0;
          t1 = vga_reflush (t0\<lparr>cursor_x := x, cursor_y := y\<rparr>)
      in \<lparr>vt_s = GROUND, vt_t = t1\<lparr>t_fg := 0x0f, t_bg := 0\<rparr>, vt_params = replicate 8 0, param_count = 0, vt_cur = 0\<rparr>)"

section \<open>What the screen shows\<close>

text \<open>The word that belongs at index \<open>k\<close> of the VGA memory.\<close>

definition shown :: "terminal \<Rightarrow> int \<Rightarrow> u16" where
  "shown t k = (let c = cbuf t ! nat (k + scroll_top t * t_width t) in vga_attr (ce_ch c) (ce_fg c) (ce_bg c))"

definition in_sync :: "int \<Rightarrow> terminal \<Rightarrow> bool" where
  "in_sync n t \<longleftrightarrow> (\<forall>k. 0 \<le> k \<and> k < n * t_width t \<longrightarrow> vga t k = shown t k)"

definition geom_ok :: "terminal \<Rightarrow> bool" where
  "geom_ok t \<longleftrightarrow> t_cops t \<and> 0 < t_width t \<and> 0 < dheight t \<and> int (length (cbuf t)) = t_height t * t_width t \<and>
     0 \<le> scroll_top t \<and> scroll_top t + dheight t < t_height t"

definition term_ok :: "terminal \<Rightarrow> bool" where
  "term_ok t \<longleftrightarrow> geom_ok t \<and> 0 \<le> cursor_x t \<and> cursor_x t \<le> t_width t \<and>
     scroll_top t \<le> cursor_y t \<and> cursor_y t \<le> scroll_top t + dheight t"

lemma row_index: "(0::int) < w \<Longrightarrow> 0 \<le> x \<Longrightarrow> x < w \<Longrightarrow> 0 \<le> y \<Longrightarrow> y < h \<Longrightarrow> 0 \<le> y * w + x \<and> y * w + x < h * w"
proof -
  assume a: "0 < w" "0 \<le> x" "x < w" "0 \<le> y" "y < h"
  then have "(y + 1) * w \<le> h * w" by (intro mult_right_mono) auto
  then show ?thesis using a by (simp add: distrib_right)
qed

lemma row_inj: "(0::int) \<le> x \<Longrightarrow> x < w \<Longrightarrow> 0 \<le> x' \<Longrightarrow> x' < w \<Longrightarrow> y * w + x = y' * w + x' \<longleftrightarrow> y = y' \<and> x = x'"
proof
  assume a: "0 \<le> x" "x < w" "0 \<le> x'" "x' < w" "y * w + x = y' * w + x'"
  have "(y * w + x) div w = y" "(y' * w + x') div w = y'" using a(1-4) by simp_all
  then have "y = y'" using a(5) by simp
  then show "y = y' \<and> x = x'" using a(5) by simp
qed simp

lemma cell_in_row: "geom_ok t \<Longrightarrow> 0 \<le> x \<Longrightarrow> x < t_width t \<Longrightarrow> 0 \<le> y \<Longrightarrow> y < t_height t \<Longrightarrow> cell_in t (y * t_width t + x)"
  using row_index [of "t_width t" x y "t_height t"] by (simp add: cell_in_def geom_ok_def)

lemma flush_col_eq:
  assumes "geom_ok t" "0 \<le> i" "i < t_width t" "0 \<le> j" "j + int n \<le> dheight t + 1"
  shows "flush_col n i j t =
    Some (t\<lparr>vga := \<lambda>k. if k mod t_width t = i \<and> j \<le> k div t_width t \<and> k div t_width t < j + int n then shown t k else vga t k\<rparr>)"
  using assms
proof (induction n arbitrary: j t)
  case 0
  have "(\<lambda>k. if k mod t_width t = i \<and> j \<le> k div t_width t \<and> k div t_width t < j then shown t k else vga t k) = vga t" by (intro ext) auto
  then show ?case by simp
next
  case (Suc n)
  let ?w = "t_width t" and ?p = "j * t_width t + i"
  let ?t = "t\<lparr>vga := (vga t)(?p := shown t ?p)\<rparr>"
  have w: "0 < ?w" and top: "j + scroll_top t < t_height t" using Suc.prems by (auto simp: geom_ok_def)
  have c: "cell_in t ((j + scroll_top t) * ?w + i)"
    by (rule cell_in_row) (use Suc.prems top in \<open>auto simp: geom_ok_def\<close>)
  have e: "(j + scroll_top t) * ?w + i = ?p + scroll_top t * ?w" by (simp add: algebra_simps)
  have "flush_col (Suc n) i j t = flush_col n i (j + 1) ?t"
    using c top by (simp add: Let_def shown_def e)
  also have "\<dots> = Some (?t\<lparr>vga := \<lambda>k. if k mod ?w = i \<and> j + 1 \<le> k div ?w \<and> k div ?w < j + 1 + int n then shown ?t k else vga ?t k\<rparr>)"
    using Suc.prems by (subst Suc.IH) (auto simp: geom_ok_def)
  also have "(\<lambda>k. if k mod ?w = i \<and> j + 1 \<le> k div ?w \<and> k div ?w < j + 1 + int n then shown ?t k else vga ?t k) =
      (\<lambda>k. if k mod ?w = i \<and> j \<le> k div ?w \<and> k div ?w < j + int (Suc n) then shown t k else vga t k)"
  proof
    fix k
    have s: "shown ?t k = shown t k" by (simp add: shown_def)
    have p: "?p mod ?w = i" "?p div ?w = j" using Suc.prems w by simp_all
    have "k = ?p \<longleftrightarrow> k mod ?w = i \<and> k div ?w = j"
      using p div_mult_mod_eq [of k ?w] by auto
    then show "(if k mod ?w = i \<and> j + 1 \<le> k div ?w \<and> k div ?w < j + 1 + int n then shown ?t k else vga ?t k) =
        (if k mod ?w = i \<and> j \<le> k div ?w \<and> k div ?w < j + int (Suc n) then shown t k else vga t k)"
      unfolding s by auto
  qed
  finally show ?case by simp
qed

lemma flush_cols_eq:
  assumes "geom_ok t" "0 \<le> i" "i + int n \<le> t_width t"
  shows "\<exists>v. flush_cols n i t = Some (t\<lparr>vga := v\<rparr>) \<and>
    (\<forall>k. 0 \<le> k div t_width t \<and> k div t_width t \<le> dheight t \<and> i \<le> k mod t_width t \<and> k mod t_width t < i + int n \<longrightarrow> v k = shown t k) \<and>
    (\<forall>k. k mod t_width t < i \<longrightarrow> v k = vga t k)"
  using assms
proof (induction n arbitrary: i t)
  case 0
  then show ?case by (intro exI [of _ "vga t"]) auto
next
  case (Suc n)
  let ?w = "t_width t"
  let ?v = "\<lambda>k. if k mod ?w = i \<and> 0 \<le> k div ?w \<and> k div ?w < 0 + int (nat (dheight t + 1)) then shown t k else vga t k"
  let ?t = "t\<lparr>vga := ?v\<rparr>"
  have f: "flush_col (nat (dheight t + 1)) i 0 t = Some ?t"
    by (rule flush_col_eq) (use Suc.prems in \<open>auto simp: geom_ok_def\<close>)
  have g: "geom_ok ?t" using Suc.prems by (simp add: geom_ok_def)
  have sh: "shown ?t = shown t" by (auto simp: shown_def)
  obtain v where v: "flush_cols n (i + 1) ?t = Some (?t\<lparr>vga := v\<rparr>)"
    "\<forall>k. 0 \<le> k div ?w \<and> k div ?w \<le> dheight t \<and> i + 1 \<le> k mod ?w \<and> k mod ?w < i + 1 + int n \<longrightarrow> v k = shown t k"
    "\<forall>k. k mod ?w < i + 1 \<longrightarrow> v k = ?v k"
    using Suc.IH [OF g, of "i + 1"] Suc.prems unfolding sh by auto
  have "v k = shown t k" if "0 \<le> k div ?w" "k div ?w \<le> dheight t" "i \<le> k mod ?w" "k mod ?w < i + int (Suc n)" for k
    using v(2,3) that by (cases "k mod ?w = i") auto
  moreover have "v k = vga t k" if "k mod ?w < i" for k using v(3) that by auto
  ultimately show ?case using f v(1) by (intro exI [of _ v]) auto
qed

lemma vga_flush_sync:
  assumes "geom_ok t"
  shows "\<exists>v. vga_flush t = Some (t\<lparr>vga := v\<rparr>) \<and> (\<forall>n\<le>dheight t + 1. in_sync n (t\<lparr>vga := v\<rparr>))"
proof -
  have w: "0 < t_width t" using assms by (simp add: geom_ok_def)
  obtain v where v: "vga_flush t = Some (t\<lparr>vga := v\<rparr>)"
    "\<forall>k. 0 \<le> k div t_width t \<and> k div t_width t \<le> dheight t \<and> k mod t_width t < t_width t \<longrightarrow> v k = shown t k"
    using flush_cols_eq [OF assms, of 0 "nat (t_width t)"] w unfolding vga_flush_def by auto
  have "v k = shown t k" if "0 \<le> k" "k < n * t_width t" "n \<le> dheight t + 1" for n k
  proof -
    have "k div t_width t * t_width t \<le> k" using div_mult_mod_eq [of k "t_width t"] pos_mod_sign [OF w, of k] by linarith
    then have "k div t_width t * t_width t < n * t_width t" using that by simp
    then have "k div t_width t < n" using w by simp
    then show ?thesis using v(2) that w by (simp add: pos_imp_zdiv_nonneg_iff)
  qed
  then show ?thesis using v(1) by (auto simp: in_sync_def shown_def)
qed

section \<open>Printing text\<close>

text \<open>The abstract screen: cursor, first visible row and the cells.  A character at the end of a
  row goes to the next row; on the last visible row the screen scrolls and the row is written
  again from its start (the cursor row is decremented after the scroll).\<close>

type_synonym screen = "int \<times> int \<times> int \<times> (int \<Rightarrow> int \<Rightarrow> cell)"

definition grid :: "terminal \<Rightarrow> int \<Rightarrow> int \<Rightarrow> cell" where
  "grid t y x = (if 0 \<le> x \<and> x < t_width t \<and> 0 \<le> y \<and> y < t_height t then cbuf t ! nat (y * t_width t + x) else zero_cell)"

definition screen_of :: "terminal \<Rightarrow> screen" where
  "screen_of t = (cursor_x t, cursor_y t, scroll_top t, grid t)"

definition put_cell :: "cell \<Rightarrow> screen \<Rightarrow> screen" where
  "put_cell c = (\<lambda>(x, y, top, g). (x + 1, y, top, g(y := (g y)(x := c))))"

definition screen_step :: "terminal \<Rightarrow> u8 \<Rightarrow> screen \<Rightarrow> screen" where
  "screen_step t ch = (\<lambda>(x, y, top, g).
     let c = \<lparr>ce_ch = ch, ce_fg = t_fg t, ce_bg = t_bg t\<rparr>; bottom = (y - top \<ge> dheight t) in
     if ch = 10 then (x, y + 1, if bottom then top + 1 else top, g)
     else if ch = 13 then (0, y, top, g)
     else if ch = 8 then (if x \<le> 0 then x else x - 1, y, top, g)
     else if x \<ge> t_width t then put_cell c (0, if bottom then y else y + 1, if bottom then top + 1 else top, g)
     else put_cell c (x, y, top, g))"

definition row_of :: "screen \<Rightarrow> int" where "row_of S = fst (snd S)"

fun term_puts :: "u8 list \<Rightarrow> terminal \<Rightarrow> terminal option" where
  "term_puts [] t = Some t"
| "term_puts (c # cs) t = Option.bind (term_putc c t) (term_puts cs)"

definition same_geom :: "terminal \<Rightarrow> terminal \<Rightarrow> bool" where
  "same_geom t u \<longleftrightarrow> t_width u = t_width t \<and> t_height u = t_height t \<and> dheight u = dheight t \<and> t_fg u = t_fg t \<and> t_bg u = t_bg t"

lemma grid_cong: "cbuf u = cbuf t \<Longrightarrow> t_width u = t_width t \<Longrightarrow> t_height u = t_height t \<Longrightarrow> grid u = grid t"
  by (intro ext) (simp add: grid_def)

lemma sync_cong:
  "cbuf u = cbuf t \<Longrightarrow> t_width u = t_width t \<Longrightarrow> scroll_top u = scroll_top t \<Longrightarrow> vga u = vga t \<Longrightarrow> in_sync n u = in_sync n t"
  by (simp add: in_sync_def shown_def)

lemma grid_upd:
  assumes "geom_ok t" "0 \<le> x" "x < t_width t" "0 \<le> y" "y < t_height t"
  shows "grid (t\<lparr>cbuf := (cbuf t)[nat (y * t_width t + x) := c]\<rparr>) = (grid t)(y := (grid t y)(x := c))"
proof (intro ext)
  fix y' x'
  let ?w = "t_width t"
  have k: "0 \<le> y * ?w + x" "nat (y * ?w + x) < length (cbuf t)"
    using cell_in_row [OF assms] by (auto simp: cell_in_def)
  have "nat (y * ?w + x) = nat (y' * ?w + x') \<longleftrightarrow> y = y' \<and> x = x'" if "0 \<le> x'" "x' < ?w" "0 \<le> y'" "y' < t_height t"
  proof -
    have "0 \<le> y' * ?w + x'" using cell_in_row [OF assms(1) that] by (simp add: cell_in_def)
    then show ?thesis using k row_inj [of x ?w x' y y'] that assms by (simp add: eq_nat_nat_iff)
  qed
  then show "grid (t\<lparr>cbuf := (cbuf t)[nat (y * ?w + x) := c]\<rparr>) y' x' = ((grid t)(y := (grid t y)(x := c))) y' x'"
    using k assms by (auto simp: grid_def nth_list_update)
qed

text \<open>Writing at the cursor keeps the picture in step with the buffer.\<close>

lemma put_here:
  assumes "geom_ok t" "0 \<le> cursor_x t" "cursor_x t < t_width t" "scroll_top t \<le> cursor_y t" "cursor_y t < t_height t"
  shows "\<exists>u. term_put_here ch t = Some u \<and> geom_ok u \<and> same_geom t u \<and>
    screen_of u = put_cell \<lparr>ce_ch = ch, ce_fg = t_fg t, ce_bg = t_bg t\<rparr> (screen_of t) \<and> (\<forall>n. in_sync n t \<longrightarrow> in_sync n u)"
proof -
  let ?c = "\<lparr>ce_ch = ch, ce_fg = t_fg t, ce_bg = t_bg t\<rparr>" and ?w = "t_width t"
  let ?k = "cursor_y t * ?w + cursor_x t" and ?p = "(cursor_y t - scroll_top t) * ?w + cursor_x t"
  let ?u = "t\<lparr>vga := (vga t)(?p := vga_attr ch (t_fg t) (t_bg t)), cbuf := (cbuf t)[nat ?k := ?c], cursor_x := cursor_x t + 1\<rparr>"
  have y0: "0 \<le> cursor_y t" using assms by (simp add: geom_ok_def)
  have ci: "cell_in t ?k" by (rule cell_in_row) (use assms y0 in auto)
  have r: "term_put_here ch t = Some ?u" using ci by (simp add: term_put_here_def vga_putc_def Let_def)
  have "grid ?u = grid (t\<lparr>cbuf := (cbuf t)[nat ?k := ?c]\<rparr>)" by (rule grid_cong) simp_all
  then have s: "screen_of ?u = put_cell ?c (screen_of t)"
    using grid_upd [OF assms(1-3) y0 assms(5), of ?c] by (simp add: screen_of_def put_cell_def)
  have "in_sync n ?u" if n: "in_sync n t" for n
    unfolding in_sync_def
  proof (intro allI impI)
    fix k assume k: "0 \<le> k \<and> k < n * t_width ?u"
    have top: "0 \<le> scroll_top t * ?w" using assms(1) by (simp add: geom_ok_def)
    have "k = ?p \<longleftrightarrow> k + scroll_top t * ?w = ?k" by (auto simp: algebra_simps)
    also have "\<dots> \<longleftrightarrow> nat (k + scroll_top t * ?w) = nat ?k" using k top ci by (auto simp: cell_in_def)
    finally have "k = ?p \<longleftrightarrow> nat (k + scroll_top t * ?w) = nat ?k" .
    then show "vga ?u k = shown ?u k"
      using n k ci by (auto simp: in_sync_def shown_def Let_def cell_in_def nth_list_update)
  qed
  then show ?thesis using r s assms(1) by (intro exI [of _ ?u]) (simp add: geom_ok_def same_geom_def)
qed

lemma scroll_ok:
  assumes "geom_ok t" "scroll_top t + dheight t + 1 < t_height t" "cursor_x t \<le> t_width t" "cursor_y t = scroll_top t + dheight t"
  shows "\<exists>v cr. term_scroll_up t = Some (t\<lparr>scroll_top := scroll_top t + 1, vga := v, crtc := cr\<rparr>) \<and>
    (\<forall>n\<le>dheight t + 1. in_sync n (t\<lparr>scroll_top := scroll_top t + 1, vga := v, crtc := cr\<rparr>))"
proof -
  let ?t = "t\<lparr>scroll_top := scroll_top t + 1\<rparr>"
  have "geom_ok ?t" using assms by (simp add: geom_ok_def)
  from vga_flush_sync [OF this] obtain v where v: "vga_flush ?t = Some (?t\<lparr>vga := v\<rparr>)"
    "\<forall>n\<le>dheight t + 1. in_sync n (?t\<lparr>vga := v\<rparr>)" by auto
  let ?cr = "of_int (dheight t - 1) * of_int (t_width t) + of_int (cursor_x t) :: u16"
  let ?u = "?t\<lparr>vga := v, crtc := ?cr\<rparr>"
  have "term_scroll_up t = Some ?u"
    using assms v(1) by (simp add: term_scroll_up_def term_set_cursor_def vga_setcursor_def geom_ok_def)
  moreover have "in_sync n ?u" if "n \<le> dheight t + 1" for n
    using v(2) that sync_cong [of ?u "?t\<lparr>vga := v\<rparr>" n] by simp
  ultimately show ?thesis by (intro exI [of _ v] exI [of _ ?cr]) simp
qed

definition fits :: "terminal \<Rightarrow> screen \<Rightarrow> bool" where
  "fits t S \<longleftrightarrow> fst (snd (snd S)) + dheight t < t_height t"

lemma putc_raw_step:
  assumes "term_ok t" "ch \<notin> {8, 10, 13}" "fits t (screen_step t ch (screen_of t))"
  shows "\<exists>u. term_putc_raw ch t = Some u \<and> term_ok u \<and> same_geom t u \<and> screen_of u = screen_step t ch (screen_of t) \<and>
    (\<forall>n\<le>dheight t + 1. in_sync n t \<longrightarrow> in_sync n u)"
proof -
  have g: "geom_ok t" and y: "scroll_top t \<le> cursor_y t" "cursor_y t \<le> scroll_top t + dheight t" "cursor_y t < t_height t"
    using assms(1) by (auto simp: term_ok_def geom_ok_def)
  note defs = term_putc_raw_def screen_step_def screen_of_def fits_def put_cell_def Let_def
  have cops: "t_cops t" using g by (simp add: geom_ok_def)
  have ok: "term_ok u" if "geom_ok u" "same_geom t v" "same_geom v u" "screen_of u = put_cell c (screen_of v)"
    "0 \<le> cursor_x v" "cursor_x v < t_width v" "scroll_top v \<le> cursor_y v" "cursor_y v \<le> scroll_top v + dheight v" for u v c
    using that by (auto simp: term_ok_def same_geom_def screen_of_def put_cell_def)
  show ?thesis
  proof (cases "cursor_x t \<ge> t_width t")
    case False
    then obtain u where "term_put_here ch t = Some u" "geom_ok u" "same_geom t u"
      "screen_of u = put_cell \<lparr>ce_ch = ch, ce_fg = t_fg t, ce_bg = t_bg t\<rparr> (screen_of t)" "\<forall>n. in_sync n t \<longrightarrow> in_sync n u"
      using put_here [OF g _ _ y(1,3), of ch] assms(1) by (auto simp: term_ok_def)
    then show ?thesis using False cops assms ok [of u t] by (auto simp: defs term_ok_def same_geom_def)
  next
    case wrap: True
    show ?thesis
    proof (cases "cursor_y t - scroll_top t \<ge> dheight t")
      case True
      then have b: "cursor_y t = scroll_top t + dheight t" using y by simp
      have f: "scroll_top t + dheight t + 1 < t_height t" using assms wrap True by (simp add: defs)
      obtain v cr where v: "term_scroll_up t = Some (t\<lparr>scroll_top := scroll_top t + 1, vga := v, crtc := cr\<rparr>)"
        "\<forall>n\<le>dheight t + 1. in_sync n (t\<lparr>scroll_top := scroll_top t + 1, vga := v, crtc := cr\<rparr>)"
        using scroll_ok [OF g f _ b] assms(1) by (auto simp: term_ok_def)
      let ?t = "t\<lparr>scroll_top := scroll_top t + 1, vga := v, crtc := cr, cursor_x := 0\<rparr>"
      have g1: "geom_ok ?t" using g f by (simp add: geom_ok_def)
      have gr: "grid ?t = grid t" by (rule grid_cong) simp_all
      have sy: "in_sync n ?t" if "n \<le> dheight t + 1" for n
        using v(2) that sync_cong [of ?t "t\<lparr>scroll_top := scroll_top t + 1, vga := v, crtc := cr\<rparr>" n] by simp
      obtain u where u: "term_put_here ch ?t = Some u" "geom_ok u" "same_geom ?t u"
        "screen_of u = put_cell \<lparr>ce_ch = ch, ce_fg = t_fg t, ce_bg = t_bg t\<rparr> (screen_of ?t)" "\<forall>n. in_sync n ?t \<longrightarrow> in_sync n u"
        using put_here [OF g1, of ch] b f g by (auto simp: geom_ok_def)
      have "term_putc_raw ch t = Some u"
        using u(1) v(1) wrap True y cops by (simp add: term_putc_raw_def Let_def)
      moreover have "term_ok u" using ok [OF u(2) _ u(3,4)] b g by (simp add: same_geom_def geom_ok_def)
      moreover have "screen_of u = screen_step t ch (screen_of t)" using u(4) wrap True assms(2) gr by (simp add: defs)
      ultimately show ?thesis using u sy by (auto simp: same_geom_def)
    next
      case False
      let ?t = "t\<lparr>cursor_x := 0, cursor_y := cursor_y t + 1\<rparr>"
      have g1: "geom_ok ?t" using g by (simp add: geom_ok_def)
      have gr: "grid ?t = grid t" by (rule grid_cong) simp_all
      have sy: "in_sync n ?t = in_sync n t" for n by (rule sync_cong) simp_all
      obtain u where u: "term_put_here ch ?t = Some u" "geom_ok u" "same_geom ?t u"
        "screen_of u = put_cell \<lparr>ce_ch = ch, ce_fg = t_fg t, ce_bg = t_bg t\<rparr> (screen_of ?t)" "\<forall>n. in_sync n ?t \<longrightarrow> in_sync n u"
        using put_here [OF g1, of ch] y False g by (auto simp: geom_ok_def)
      have "term_putc_raw ch t = Some u" using u(1) wrap False y cops by (simp add: term_putc_raw_def Let_def)
      moreover have "term_ok u" using ok [OF u(2) _ u(3,4)] y False g by (simp add: same_geom_def geom_ok_def)
      moreover have "screen_of u = screen_step t ch (screen_of t)" using u(4) wrap False assms(2) gr by (simp add: defs)
      ultimately show ?thesis using u sy by (auto simp: same_geom_def)
    qed
  qed
qed

lemma newline_step:
  assumes "term_ok t" "fits t (screen_step t 10 (screen_of t))"
  shows "\<exists>u. term_newline t = Some u \<and> term_ok u \<and> same_geom t u \<and> screen_of u = screen_step t 10 (screen_of t) \<and>
    (\<forall>n\<le>dheight t + 1. in_sync n t \<longrightarrow> in_sync n u)"
proof (cases "cursor_y t - scroll_top t \<ge> dheight t")
  case True
  note defs = screen_step_def screen_of_def fits_def term_ok_def Let_def
  have g: "geom_ok t" and b: "cursor_y t = scroll_top t + dheight t" and f: "scroll_top t + dheight t + 1 < t_height t"
    using assms True by (auto simp: defs)
  obtain v cr where v: "term_scroll_up t = Some (t\<lparr>scroll_top := scroll_top t + 1, vga := v, crtc := cr\<rparr>)"
    "\<forall>n\<le>dheight t + 1. in_sync n (t\<lparr>scroll_top := scroll_top t + 1, vga := v, crtc := cr\<rparr>)"
    using scroll_ok [OF g f _ b] assms(1) by (auto simp: term_ok_def)
  let ?t = "t\<lparr>scroll_top := scroll_top t + 1, vga := v, crtc := cr, cursor_y := cursor_y t + 1\<rparr>"
  have "grid ?t = grid t" by (rule grid_cong) simp_all
  moreover have "in_sync n ?t" if "n \<le> dheight t + 1" for n
    using v(2) that sync_cong [of ?t "t\<lparr>scroll_top := scroll_top t + 1, vga := v, crtc := cr\<rparr>" n] by simp
  ultimately show ?thesis using v(1) True assms f b
    by (intro exI [of _ ?t]) (simp add: term_newline_def defs same_geom_def geom_ok_def)
next
  case False
  let ?t = "t\<lparr>cursor_y := cursor_y t + 1\<rparr>"
  have "grid ?t = grid t" "in_sync n ?t = in_sync n t" for n by (rule grid_cong sync_cong; simp)+
  then show ?thesis using False assms
    by (intro exI [of _ ?t]) (simp add: term_newline_def screen_step_def screen_of_def term_ok_def same_geom_def geom_ok_def)
qed

lemma frame_crtc:
  "term_ok (t\<lparr>crtc := k\<rparr>) = term_ok t" "screen_of (t\<lparr>crtc := k\<rparr>) = screen_of t" "in_sync n (t\<lparr>crtc := k\<rparr>) = in_sync n t"
  "same_geom t' (t\<lparr>crtc := k\<rparr>) = same_geom t' t"
proof -
  have "grid (t\<lparr>crtc := k\<rparr>) = grid t" by (rule grid_cong) simp_all
  then show "screen_of (t\<lparr>crtc := k\<rparr>) = screen_of t" by (simp add: screen_of_def)
qed (simp_all add: term_ok_def geom_ok_def same_geom_def in_sync_def shown_def)

lemma putc_step:
  assumes "term_ok t" "fits t (screen_step t ch (screen_of t))"
  shows "\<exists>u. term_putc ch t = Some u \<and> term_ok u \<and> same_geom t u \<and> screen_of u = screen_step t ch (screen_of t) \<and>
    (\<forall>n\<le>dheight t + 1. in_sync n t \<longrightarrow> in_sync n u)"
proof -
  let ?P = "\<lambda>u. term_ok u \<and> same_geom t u \<and> screen_of u = screen_step t ch (screen_of t) \<and>
    (\<forall>n\<le>dheight t + 1. in_sync n t \<longrightarrow> in_sync n u)"
  let ?r = "if ch = 10 then term_newline t else if ch = 13 then Some (t\<lparr>cursor_x := 0\<rparr>)
            else if ch = 8 then Some (term_bkspace t) else term_putc_raw ch t"
  have mv: "?P u" if "u = t\<lparr>cursor_x := x, crtc := k\<rparr>" "0 \<le> x" "x \<le> t_width t"
    "screen_step t ch (screen_of t) = (x, cursor_y t, scroll_top t, grid t)" for x k u
  proof -
    have "grid u = grid t" using that(1) by (intro grid_cong) simp_all
    moreover have "in_sync n u = in_sync n t" for n using that(1) by (intro sync_cong) simp_all
    ultimately show ?thesis using that assms(1) by (simp add: term_ok_def geom_ok_def same_geom_def screen_of_def)
  qed
  have "\<exists>u. ?r = Some u \<and> ?P u"
  proof (cases "ch = 10 \<or> ch \<notin> {8, 10, 13}")
    case True
    then show ?thesis using newline_step [OF assms(1)] putc_raw_step [OF assms(1) _ assms(2)] assms(2) by auto
  next
    case False
    then consider "ch = 13" | "ch = 8" "cursor_x t \<le> 0" | "ch = 8" "cursor_x t > 0" by fastforce
    then show ?thesis
    proof cases
      case 1
      then show ?thesis using assms(1) mv [where u = "t\<lparr>cursor_x := 0\<rparr>" and x = 0 and k = "crtc t"]
        by (auto simp: screen_step_def screen_of_def term_ok_def geom_ok_def)
    next
      case 2
      then show ?thesis using assms(1) mv [where u = t and x = "cursor_x t" and k = "crtc t"]
        by (auto simp: screen_step_def screen_of_def term_ok_def term_bkspace_def)
    next
      case 3
      let ?k = "of_int (cursor_y t * t_width t + (cursor_x t - 1)) :: u16"
      have "term_bkspace t = t\<lparr>cursor_x := cursor_x t - 1, crtc := ?k\<rparr>"
        using 3 assms(1) by (simp add: term_bkspace_def vga_setcursor_def term_ok_def geom_ok_def)
      then have "?P (term_bkspace t)"
        by (rule mv) (use 3 assms(1) in \<open>simp_all add: screen_step_def screen_of_def term_ok_def\<close>)
      then show ?thesis using 3 by simp
    qed
  qed
  then obtain u where u: "?r = Some u" "?P u" by blast
  have c: "t_cops u" using u(2) by (simp add: term_ok_def geom_ok_def)
  have "term_putc ch t = Some (vga_setcursor (cursor_x u) (cursor_y u) u)"
    unfolding term_putc_def u(1) using c by simp
  then show ?thesis using u(2) by (simp add: vga_setcursor_def frame_crtc)
qed

lemma screen_cong:
  assumes "same_geom t u"
  shows "screen_step u = screen_step t" "fits u = fits t"
proof -
  show "screen_step u = screen_step t" using assms by (intro ext) (simp add: same_geom_def screen_step_def Let_def split: prod.split)
  show "fits u = fits t" using assms by (intro ext) (simp add: same_geom_def fits_def)
qed

lemma puts_steps:
  assumes "term_ok t" "\<forall>k\<le>length cs. fits t (fold (screen_step t) (take k cs) (screen_of t))"
  shows "\<exists>u. term_puts cs t = Some u \<and> term_ok u \<and> same_geom t u \<and> screen_of u = fold (screen_step t) cs (screen_of t) \<and>
    (\<forall>n\<le>dheight t + 1. in_sync n t \<longrightarrow> in_sync n u)"
  using assms
proof (induction cs arbitrary: t)
  case Nil
  then show ?case by (simp add: same_geom_def)
next
  case (Cons c cs)
  have "fits t (screen_step t c (screen_of t))" using Cons.prems(2) [rule_format, of 1] by simp
  from putc_step [OF Cons.prems(1) this] obtain u where u: "term_putc c t = Some u" "term_ok u" "same_geom t u"
    "screen_of u = screen_step t c (screen_of t)" "\<forall>n\<le>dheight t + 1. in_sync n t \<longrightarrow> in_sync n u" by blast
  have "fits t (fold (screen_step t) (take k cs) (screen_of u))" if "k \<le> length cs" for k
    using Cons.prems(2) [rule_format, of "Suc k"] that u(4) by simp
  then obtain v where "term_puts cs u = Some v" "term_ok v" "same_geom u v"
    "screen_of v = fold (screen_step t) cs (screen_of u)" "\<forall>n\<le>dheight u + 1. in_sync n u \<longrightarrow> in_sync n v"
    using Cons.IH [OF u(2)] screen_cong [OF u(3)] by auto
  then show ?case using u by (intro exI [of _ v]) (auto simp: same_geom_def)
qed

text \<open>Plain text goes through the escape parser unchanged.\<close>

lemma ttywrite_plain:
  "vt_s v = GROUND \<Longrightarrow> 27 \<notin> set cs \<Longrightarrow> vga_ttywrite junk cs v = map_option (\<lambda>t. v\<lparr>vt_t := t\<rparr>) (term_puts cs (vt_t v))"
proof (induction cs arbitrary: v)
  case (Cons c cs)
  then show ?case by (cases "term_putc c (vt_t v)") (auto simp: vt_process_def option.map_comp comp_def)
qed simp

lemma puts_append: "term_puts (cs @ ds) t = Option.bind (term_puts cs t) (term_puts ds)"
proof (induction cs arbitrary: t)
  case (Cons c cs)
  then show ?case by (cases "term_putc c t") simp_all
qed simp

text \<open>Below the last row of the buffer a character is out of bounds.\<close>

lemma same_vga: "\<exists>v. t = t\<lparr>vga := v\<rparr>"
  by (rule exI [of _ "vga t"]) simp

lemma flush_col_frame: "flush_col n i j t = Some u \<Longrightarrow> \<exists>v. u = t\<lparr>vga := v\<rparr>"
proof (induction n arbitrary: j t)
  case 0
  then show ?case using same_vga by auto
next
  case (Suc n)
  show ?case
  proof (cases "j + scroll_top t \<ge> t_height t")
    case True
    then show ?thesis using Suc.prems same_vga by auto
  next
    case False
    then obtain v where "flush_col n i (j + 1) (t\<lparr>vga := v\<rparr>) = Some u" using Suc.prems by (auto simp: Let_def split: if_splits)
    from Suc.IH [OF this] show ?thesis by auto
  qed
qed

lemma flush_cols_frame: "flush_cols n i t = Some u \<Longrightarrow> \<exists>v. u = t\<lparr>vga := v\<rparr>"
proof (induction n arbitrary: i t)
  case 0
  then show ?case using same_vga by auto
next
  case (Suc n)
  then obtain t1 where t1: "flush_col (nat (dheight t + 1)) i 0 t = Some t1" "flush_cols n (i + 1) t1 = Some u"
    by (auto simp: bind_eq_Some_conv)
  show ?case using flush_col_frame [OF t1(1)] Suc.IH [OF t1(2)] by auto
qed

lemma newline_off_end:
  assumes "term_ok t" "cursor_y t + 1 = t_height t" "cursor_x t < t_width t" "ch \<notin> {8, 10, 13}"
  shows "Option.bind (term_putc 10 t) (term_putc ch) = None"
proof (cases "term_putc 10 t")
  case (Some u)
  have b: "cursor_y t = scroll_top t + dheight t" "0 < dheight t" and c: "t_cops t" "scroll_top t + dheight t < t_height t"
    using assms by (auto simp: term_ok_def geom_ok_def)
  then have n: "u = vga_setcursor (cursor_x n) (cursor_y n) n \<and> t_cops n" if "term_newline t = Some n" for n
    using Some that by (auto simp: term_putc_def split: if_splits)
  obtain x where x: "term_newline t = Some x" using Some by (auto simp: term_putc_def bind_eq_Some_conv)
  then obtain v where v: "vga_flush (t\<lparr>scroll_top := scroll_top t + 1\<rparr>) = Some (t\<lparr>scroll_top := scroll_top t + 1, vga := v\<rparr>)"
    using b c flush_cols_frame [of _ 0 "t\<lparr>scroll_top := scroll_top t + 1\<rparr>"]
    by (fastforce simp: term_newline_def term_scroll_up_def vga_flush_def)
  have "cursor_y u = t_height u" "cursor_x u = cursor_x t" "t_width u = t_width t" "cbuf u = cbuf t" "t_height u = t_height t" "t_cops u"
    using n [OF x] x v b c assms(2)
    by (auto simp: term_newline_def term_scroll_up_def term_set_cursor_def vga_setcursor_def Let_def)
  then show ?thesis using Some assms
    by (auto simp: term_putc_def term_putc_raw_def term_put_here_def cell_in_def term_ok_def geom_ok_def Let_def)
qed simp

section \<open>Escape sequences are parsed\<close>

lemma csi_digits:
  "vt_s v = CSI_PARAM \<Longrightarrow> list_all isdigit ds \<Longrightarrow> 0 \<le> vt_cur v \<Longrightarrow> foldl dec_step (vt_cur v) ds < 2 ^ 31 \<Longrightarrow>
   vga_ttywrite junk (ds @ cs) v = vga_ttywrite junk cs (v\<lparr>vt_cur := foldl dec_step (vt_cur v) ds\<rparr>)"
proof (induction ds arbitrary: v)
  case (Cons d ds)
  let ?n = "dec_step (vt_cur v) d"
  have n: "0 \<le> ?n" "?n \<le> foldl dec_step ?n ds"
    using dec_step_ge [of d "vt_cur v"] dec_fold_mono [of ds ?n] Cons.prems by auto
  then have "vt_process junk d v = Some (v\<lparr>vt_cur := ?n\<rparr>)"
    using Cons.prems by (simp add: vt_process_def Let_def dec_step_def [symmetric])
  then show ?case using Cons n by simp
qed simp

lemma ttywrite_Nil: "vga_ttywrite junk [] = Some"
  by (rule ext) simp

lemma take_snoc_upd: "n < length xs \<Longrightarrow> take (Suc n) (xs[n := x]) = take n xs @ [x]"
  by (simp add: take_Suc_conv_app_nth)

lemma csi_params:
  assumes "vt_s v = CSI_PARAM" "vt_cur v = 0" "length (vt_params v) = 8" "pss \<noteq> []"
    and "\<forall>ds\<in>set pss. list_all isdigit ds \<and> dec_val ds < 2 ^ 31" "\<not> isdigit c" "c \<noteq> 59"
  shows "vga_ttywrite junk (joinc 59 pss @ [c]) v =
    (if param_count v + length pss \<le> 8 then
       map_option (\<lambda>u. u\<lparr>vt_s := GROUND\<rparr>) (vt_dispatch junk c
         (v\<lparr>vt_cur := dec_val (last pss),
            vt_params := take (param_count v) (vt_params v) @ map dec_val pss @ drop (param_count v + length pss) (vt_params v),
            param_count := param_count v + length pss\<rparr>))
     else None)"
  using assms
proof (induction "59 :: u8" pss arbitrary: v rule: joinc.induct)
  case (2 s)
  let ?v = "v\<lparr>vt_cur := dec_val s\<rparr>"
  have "vga_ttywrite junk (s @ [c]) v = vga_ttywrite junk [c] ?v"
    using 2 csi_digits [of v s junk "[c]"] by (simp add: dec_val_def)
  moreover have "(vt_params v)[param_count v := dec_val s] =
      take (param_count v) (vt_params v) @ dec_val s # drop (Suc (param_count v)) (vt_params v)" if "param_count v < 8"
    using that 2 by (simp add: upd_conv_take_nth_drop)
  ultimately show ?case using 2
    by (cases "param_count v < 8") (auto simp: vt_process_def vt_param_def ttywrite_Nil)
next
  case (3 s t ss)
  let ?v = "v\<lparr>vt_cur := dec_val s\<rparr>"
  have r: "vga_ttywrite junk (joinc 59 (s # t # ss) @ [c]) v = vga_ttywrite junk (59 # joinc 59 (t # ss) @ [c]) ?v"
    using 3 csi_digits [of v s junk "59 # joinc 59 (t # ss) @ [c]"] by (simp add: dec_val_def)
  have d: "\<not> isdigit 59" by (simp add: isdigit_iff)
  show ?case
  proof (cases "param_count v < 8")
    case True
    let ?p = "(vt_params v)[param_count v := dec_val s]"
    let ?u = "v\<lparr>vt_params := ?p, param_count := param_count v + 1, vt_cur := 0\<rparr>"
    have "vt_process junk 59 ?v = Some ?u" using True 3 d by (simp add: vt_process_def vt_param_def)
    moreover have "take (Suc (param_count v)) ?p = take (param_count v) (vt_params v) @ [dec_val s]"
      using True 3 by (simp add: take_snoc_upd)
    ultimately show ?thesis using 3(1) [of ?u] 3(2-) r by simp
  next
    case False
    then show ?thesis using r d 3 by (simp add: vt_process_def vt_param_def)
  qed
qed simp

section \<open>Booting the console\<close>

lemma vga_attr_uncell: "vga_attr (ce_ch (vga_uncell v)) (ce_fg (vga_uncell v)) (ce_bg (vga_uncell v)) = v"
proof (rule bit_word_eqI)
  fix n assume "n < LENGTH(16)"
  then have "n \<in> {0, 1, 2, 3, 4, 5, 6, 7, 8, 9, 10, 11, 12, 13, 14, 15}" by simp arith
  then show "bit (vga_attr (ce_ch (vga_uncell v)) (ce_fg (vga_uncell v)) (ce_bg (vga_uncell v))) n = bit v n"
    by (elim insertE emptyE; simp add: vga_attr_def vga_uncell_def bit_simps)
qed

lemma reflush_simps:
  "length (cbuf (vga_reflush t)) = length (cbuf t)" "cursor_x (vga_reflush t) = cursor_x t" "cursor_y (vga_reflush t) = cursor_y t"
  "t_width (vga_reflush t) = t_width t" "t_height (vga_reflush t) = t_height t" "dheight (vga_reflush t) = dheight t"
  "scroll_top (vga_reflush t) = scroll_top t" "t_cops (vga_reflush t) = t_cops t" "vga (vga_reflush t) = vga t"
  by (simp_all add: vga_reflush_def)

lemma reflush_sync:
  assumes "geom_ok t"
  shows "in_sync (dheight t) (vga_reflush t)"
  unfolding in_sync_def reflush_simps
proof (intro allI impI)
  fix k assume k: "0 \<le> k \<and> k < dheight t * t_width t"
  let ?w = "t_width t"
  let ?k = "k + scroll_top t * ?w"
  have w: "0 < ?w" and top: "0 \<le> scroll_top t" "scroll_top t + dheight t < t_height t" using assms by (auto simp: geom_ok_def)
  have kw: "k div ?w * ?w \<le> k" using div_mult_mod_eq [of k ?w] pos_mod_sign [OF w, of k] by linarith
  then have "k div ?w * ?w < dheight t * ?w" using k by linarith
  then have d: "k div ?w < dheight t" "0 \<le> k div ?w" using w k by (simp_all add: pos_imp_zdiv_nonneg_iff)
  have q: "?k div ?w = k div ?w + scroll_top t" "?k mod ?w = k mod ?w" using w by simp_all
  have "(dheight t + scroll_top t) * ?w < t_height t * ?w" using w top by simp
  then have "?k < int (length (cbuf t))" "0 \<le> ?k" using k assms w top by (auto simp: geom_ok_def distrib_right)
  then have "nat ?k < length (cbuf t)" by linarith
  then show "vga t k = shown (vga_reflush t) k"
    using d q top \<open>0 \<le> ?k\<close> by (simp add: shown_def vga_reflush_def Let_def vga_attr_uncell)
qed

lemma vgatext_init_ok:
  assumes "uint cr < 2000"
  shows "vt_s (vgatext_init m cr) = GROUND" "term_ok (vt_t (vgatext_init m cr))" "in_sync 24 (vt_t (vgatext_init m cr))"
    "length (vt_params (vgatext_init m cr)) = 8"
proof -
  have y: "uint cr div 80 < 25" "0 \<le> uint cr mod 80" "uint cr mod 80 < 80" "0 \<le> uint cr div 80"
    using assms by (simp_all add: pos_imp_zdiv_nonneg_iff)
  show "vt_s (vgatext_init m cr) = GROUND" "length (vt_params (vgatext_init m cr)) = 8"
    unfolding vgatext_init_def Let_def split_beta by (simp_all only: vt.simps length_replicate)
  let ?t = "\<lparr>cursor_x = uint cr mod 80, cursor_y = uint cr div 80, t_width = 80, t_height = 50, dheight = 24, scroll_top = 0,
     cbuf = replicate 4000 zero_cell, t_cops = True, t_fg = 0, t_bg = 0, vga = m, crtc = cr\<rparr>"
  have t: "vt_t (vgatext_init m cr) = (vga_reflush ?t)\<lparr>t_fg := 0x0f, t_bg := 0\<rparr>"
    unfolding vgatext_init_def Let_def split_beta vga_readcursor_def by (simp only: vt.simps terminal.simps fst_conv snd_conv)
  have g: "geom_ok ?t" by (simp add: geom_ok_def)
  show "term_ok (vt_t (vgatext_init m cr))"
    unfolding t using y by (simp add: term_ok_def geom_ok_def reflush_simps)
  show "in_sync 24 (vt_t (vgatext_init m cr))"
    unfolding t using reflush_sync [OF g] by (simp add: in_sync_def shown_def)
qed

section \<open>Properties\<close>

text \<open>C22. Printing plain text (no escape character) on the console, as long as the scroll-back
  buffer has rows left: \<^verbatim>\<open>vga_ttywrite\<close> never leaves the buffer, cursor, scroll position and cells
  are those of the abstract screen, and the VGA memory shows exactly the visible rows of the
  buffer.  At the last row of the buffer a line feed followed by a printable character writes
  outside the buffer.\<close>

theorem console_text_correct:
  assumes "vt_s v = GROUND" "27 \<notin> set cs" "term_ok (vt_t v)"
    and "\<forall>k\<le>length cs. fits (vt_t v) (fold (screen_step (vt_t v)) (take k cs) (screen_of (vt_t v)))"
  shows "\<exists>u. vga_ttywrite junk cs v = Some (v\<lparr>vt_t := u\<rparr>) \<and> term_ok u \<and>
    screen_of u = fold (screen_step (vt_t v)) cs (screen_of (vt_t v)) \<and>
    (\<forall>n\<le>dheight (vt_t v) + 1. in_sync n (vt_t v) \<longrightarrow> in_sync n u) \<and>
    (cursor_y u + 1 = t_height u \<and> cursor_x u < t_width u \<longrightarrow>
      (\<forall>ch. ch \<notin> {8, 10, 13, 27} \<longrightarrow> vga_ttywrite junk (cs @ [10, ch]) v = None))"
proof -
  obtain u where u: "term_puts cs (vt_t v) = Some u" "term_ok u" "same_geom (vt_t v) u"
    "screen_of u = fold (screen_step (vt_t v)) cs (screen_of (vt_t v))" "\<forall>n\<le>dheight (vt_t v) + 1. in_sync n (vt_t v) \<longrightarrow> in_sync n u"
    using puts_steps [OF assms(3,4)] by blast
  have "term_puts (cs @ [10, ch]) (vt_t v) = Option.bind (term_putc 10 u) (term_putc ch)" for ch
    using u(1) by (auto simp: puts_append split: Option.bind_splits)
  then have "vga_ttywrite junk (cs @ [10, ch]) v = None"
    if "cursor_y u + 1 = t_height u" "cursor_x u < t_width u" "ch \<notin> {8, 10, 13, 27}" for ch
    using newline_off_end [OF u(2) that(1,2), of ch] that(3) assms(1,2) ttywrite_plain [of v "cs @ [10, ch]" junk] by simp
  then show ?thesis using u ttywrite_plain [OF assms(1,2), of junk] by auto
qed

text \<open>Escape sequences: after \<^verbatim>\<open>ESC [\<close>, one to eight decimal parameters below \<open>2 ^ 31\<close>
  separated by semicolons and a final character, the parser has dispatched the final character
  once with exactly these parameters and is back in the ground state, whatever was parsed
  before; a ninth parameter is written outside the array.\<close>

theorem csi_sequence_parsed:
  assumes "vt_s v = GROUND" "length (vt_params v) = 8" "pss \<noteq> []"
    and "\<forall>ds\<in>set pss. list_all isdigit ds \<and> dec_val ds < 2 ^ 31" "\<not> isdigit c" "c \<noteq> 59"
  shows "vga_ttywrite junk ([27, 91] @ joinc 59 pss @ [c]) v =
    (if length pss \<le> 8 then
       map_option (\<lambda>u. u\<lparr>vt_s := GROUND\<rparr>) (vt_dispatch junk c
         (v\<lparr>vt_s := CSI_PARAM, vt_cur := dec_val (last pss), vt_params := map dec_val pss @ drop (length pss) (vt_params v),
            param_count := length pss\<rparr>))
     else None)"
proof -
  let ?v = "v\<lparr>vt_s := CSI_PARAM, param_count := 0, vt_cur := 0\<rparr>"
  have "vga_ttywrite junk ([27, 91] @ joinc 59 pss @ [c]) v = vga_ttywrite junk (joinc 59 pss @ [c]) ?v"
    using assms(1) by (simp add: vt_process_def)
  then show ?thesis using csi_params [of ?v pss c junk] assms(2-) by simp
qed

text \<open>\<^verbatim>\<open>hi\<close> and a line feed on the booted console.\<close>

theorem console_text_correct_witness:
  "\<exists>u. vga_ttywrite (0, 0) [104, 105, 10] (vgatext_init (\<lambda>_. 0x720) 0) = Some u \<and> cursor_x (vt_t u) = 2 \<and> cursor_y (vt_t u) = 1 \<and>
     ce_ch (grid (vt_t u) 0 0) = 104 \<and> ce_ch (grid (vt_t u) 0 1) = 105 \<and> in_sync 24 (vt_t u)"
proof -
  let ?v = "vgatext_init (\<lambda>_. 0x720) 0"
  have i: "vt_s ?v = GROUND" "term_ok (vt_t ?v)" "in_sync 24 (vt_t ?v)" using vgatext_init_ok [of 0] by simp_all
  have f: "cursor_x (vt_t ?v) = 0" "cursor_y (vt_t ?v) = 0" "scroll_top (vt_t ?v) = 0" "dheight (vt_t ?v) = 24"
    "t_height (vt_t ?v) = 50" "t_width (vt_t ?v) = 80"
    unfolding vgatext_init_def Let_def split_beta vga_readcursor_def by (simp_all add: reflush_simps)
  have "\<forall>k\<le>length [104 :: u8, 105, 10]. fits (vt_t ?v) (fold (screen_step (vt_t ?v)) (take k [104, 105, 10]) (screen_of (vt_t ?v)))"
  proof (intro allI impI)
    fix k assume "k \<le> length [104 :: u8, 105, 10]"
    then have "k = 0 \<or> k = 1 \<or> k = 2 \<or> k = 3" by auto
    then show "fits (vt_t ?v) (fold (screen_step (vt_t ?v)) (take k [104, 105, 10]) (screen_of (vt_t ?v)))"
      using f by (elim disjE) (simp_all add: fits_def screen_of_def screen_step_def put_cell_def)
  qed
  then obtain u where u: "vga_ttywrite (0, 0) [104, 105, 10] ?v = Some (?v\<lparr>vt_t := u\<rparr>)" "term_ok u"
    "screen_of u = fold (screen_step (vt_t ?v)) [104, 105, 10] (screen_of (vt_t ?v))" "\<forall>n\<le>dheight (vt_t ?v) + 1. in_sync n (vt_t ?v) \<longrightarrow> in_sync n u"
    using console_text_correct [OF i(1) _ i(2), of "[104, 105, 10]" "(0, 0)"] by auto
  then show ?thesis using u i(3) f by (auto simp: screen_of_def screen_step_def put_cell_def)
qed

text \<open>\<^verbatim>\<open>ESC [1;31m\<close> selects bright red.\<close>

theorem csi_sequence_parsed_witness:
  "\<exists>u. vga_ttywrite (0, 0) [27, 91, 49, 59, 51, 49, 109] (vgatext_init (\<lambda>_. 0) 0) = Some u \<and> t_fg (vt_t u) = 12 \<and> vt_s u = GROUND"
proof -
  let ?v = "vgatext_init (\<lambda>_. 0) 0"
  have i: "vt_s ?v = GROUND" "length (vt_params ?v) = 8" using vgatext_init_ok [of 0] by simp_all
  have "\<forall>ds\<in>set [[49], [51, 49 :: u8]]. list_all isdigit ds \<and> dec_val ds < 2 ^ 31" "\<not> isdigit 109"
    by (simp_all add: isdigit_iff dec_val_def dec_step_def)
  from csi_sequence_parsed [OF i _ this, of "(0, 0)"]
  show ?thesis by (simp add: vt_dispatch_def vt_setattr_def dec_val_def dec_step_def vt_vt2col_def)
qed

end
