(* ===== verification/Cpu_Io.thy ===== *)
theory Cpu_Io
  imports Kern_Prelude "HOL-Library.State_Monad"
begin

text \<open>
  Port I/O (\<^verbatim>\<open>src/kern/cpu/io.c\<close>, \<^verbatim>\<open>include/io.h\<close>).  The devices behind the ports are not part of
  the program: \<open>'h ports\<close> is a parameter that says what each \<^verbatim>\<open>in\<close> and \<^verbatim>\<open>out\<close> instruction does
  to a hardware state \<open>'h\<close>, and a driver is a computation in the state monad over it.
\<close>

record 'h ports =
  p_inb :: "u16 \<Rightarrow> 'h \<Rightarrow> u8 \<times> 'h"
  p_inw :: "u16 \<Rightarrow> 'h \<Rightarrow> u16 \<times> 'h"
  p_inl :: "u16 \<Rightarrow> 'h \<Rightarrow> u32 \<times> 'h"
  p_outb :: "u16 \<Rightarrow> u8 \<Rightarrow> 'h \<Rightarrow> 'h"
  p_outw :: "u16 \<Rightarrow> u16 \<Rightarrow> 'h \<Rightarrow> 'h"
  p_outl :: "u16 \<Rightarrow> u32 \<Rightarrow> 'h \<Rightarrow> 'h"

definition inb :: "'h ports \<Rightarrow> u16 \<Rightarrow> ('h, u8) state" where "inb p a = State (p_inb p a)"
definition inw :: "'h ports \<Rightarrow> u16 \<Rightarrow> ('h, u16) state" where "inw p a = State (p_inw p a)"
definition inl :: "'h ports \<Rightarrow> u16 \<Rightarrow> ('h, u32) state" where "inl p a = State (p_inl p a)"
definition outb :: "'h ports \<Rightarrow> u16 \<Rightarrow> u8 \<Rightarrow> ('h, unit) state" where "outb p a d = State (\<lambda>h. ((), p_outb p a d h))"
definition outw :: "'h ports \<Rightarrow> u16 \<Rightarrow> u16 \<Rightarrow> ('h, unit) state" where "outw p a d = State (\<lambda>h. ((), p_outw p a d h))"
definition outl :: "'h ports \<Rightarrow> u16 \<Rightarrow> u32 \<Rightarrow> ('h, unit) state" where "outl p a d = State (\<lambda>h. ((), p_outl p a d h))"

definition io_wait :: "'h ports \<Rightarrow> ('h, unit) state" where "io_wait p = outb p 0x80 0"

section \<open>Running a driver\<close>

named_theorems run_simps "running computations on the hardware state"

lemma run_bind [run_simps]: "run_state (State_Monad.bind m f) h = (case run_state m h of (x, h') \<Rightarrow> run_state (f x) h')"
  by (cases m) (simp add: State_Monad.bind_def)

lemma run_return [run_simps]: "run_state (State_Monad.return x) h = (x, h)"
  by (simp add: State_Monad.return_def)

lemma run_io [run_simps]:
  "run_state (inb p a) h = p_inb p a h" "run_state (inw p a) h = p_inw p a h" "run_state (inl p a) h = p_inl p a h"
  "run_state (outb p a b) h = ((), p_outb p a b h)" "run_state (outw p a w) h = ((), p_outw p a w h)"
  "run_state (outl p a l) h = ((), p_outl p a l h)"
  by (simp_all add: inb_def inw_def inl_def outb_def outw_def outl_def)

end
