(* ===== verification/Drv_Time.thy ===== *)
theory Drv_Time
  imports Lib_String Cpu_Io "HOL-Library.Signed_Division"
begin

text \<open>
  The clock, \<^verbatim>\<open>src/kern/driver/time.c\<close>: the CMOS real-time clock, the tick counter of the
  interval timer and \<^verbatim>\<open>mktime\<close>.  \<^verbatim>\<open>print_time\<close> only prints.  A signed overflow or an index
  outside \<^verbatim>\<open>month\<close> is \<^const>\<open>None\<close>.
\<close>

section \<open>The real-time clock\<close>

definition CMOS_ADDR :: u16 where "CMOS_ADDR = 0x70"
definition CMOS_DATA :: u16 where "CMOS_DATA = 0x71"
definition RTC_SEC :: u8 where "RTC_SEC = 0x00"
definition RTC_MIN :: u8 where "RTC_MIN = 0x02"
definition RTC_HOR :: u8 where "RTC_HOR = 0x04"
definition RTC_DAY :: u8 where "RTC_DAY = 0x07"
definition RTC_MON :: u8 where "RTC_MON = 0x08"
definition RTC_JHR :: u8 where "RTC_JHR = 0x09"
definition RTC_STB :: u8 where "RTC_STB = 0x0B"
definition NMI_DISABLE :: u8 where "NMI_DISABLE = 0x80"

record tm =
  tm_sec :: int
  tm_min :: int
  tm_hour :: int
  tm_mday :: int
  tm_mon :: int
  tm_year :: int
  tm_wday :: int
  tm_yday :: int
  tm_isdst :: int

definition read_cmos :: "'h ports \<Rightarrow> u8 \<Rightarrow> ('h, u8) state" where
  "read_cmos p a = do { outb p CMOS_ADDR (NMI_DISABLE OR a); io_wait p; inb p CMOS_DATA }"

definition normal :: "u8 \<Rightarrow> u8" where
  "normal bcd = drop_bit 1 (bcd AND 0xF0) + drop_bit 3 (bcd AND 0xF0) + (bcd AND 0x0F)"

text \<open>The two branches differ in the conversion only.\<close>

definition read_fields :: "'h ports \<Rightarrow> (u8 \<Rightarrow> u8) \<Rightarrow> tm \<Rightarrow> ('h, tm) state" where
  "read_fields p conv t = do {
     sec \<leftarrow> read_cmos p RTC_SEC; mi \<leftarrow> read_cmos p RTC_MIN; hor \<leftarrow> read_cmos p RTC_HOR;
     day \<leftarrow> read_cmos p RTC_DAY; mon \<leftarrow> read_cmos p RTC_MON; jhr \<leftarrow> read_cmos p RTC_JHR;
     State_Monad.return (t\<lparr>tm_sec := uint (conv sec), tm_min := uint (conv mi), tm_hour := uint (conv hor),
       tm_yday := uint (conv day), tm_mon := uint (conv mon), tm_year := uint (conv jhr)\<rparr>) }"

definition read_time :: "'h ports \<Rightarrow> tm \<Rightarrow> ('h, tm) state" where
  "read_time p t = do {
     b \<leftarrow> read_cmos p RTC_STB;
     if b AND 1 \<noteq> 0 then read_fields p (\<lambda>x. x) t else read_fields p normal t }"

section \<open>The interval timer\<close>

definition PIT_DATA :: u16 where "PIT_DATA = 0x40"
definition PIT_COMM :: u16 where "PIT_COMM = 0x43"
definition PIT_FREQ :: u32 where "PIT_FREQ = 1193182"

record clock =
  pit_freq :: u32
  counter :: u32

text \<open>\<^verbatim>\<open>timer_handler\<close> counts the tick, acknowledges the interrupt (\<open>eoi\<close>) and reschedules (\<open>sched\<close>).\<close>

definition timer_handler :: "('s \<Rightarrow> 's) \<Rightarrow> ('s \<Rightarrow> 's) \<Rightarrow> clock \<times> 's \<Rightarrow> clock \<times> 's" where
  "timer_handler eoi sched = (\<lambda>(c, s). (c\<lparr>counter := counter c + 1\<rparr>, sched (eoi s)))"

definition gettime :: "clock \<Rightarrow> u32 \<times> u32" where
  "gettime c = (let secs = counter c div pit_freq c in (secs, counter c * 1000 div pit_freq c - secs * 1000))"

definition init_pit :: "'h ports \<Rightarrow> u32 \<Rightarrow> ('h, clock) state" where
  "init_pit p freq =
     (let dv = PIT_FREQ div freq; big = (dv > 0xffff); dv' = (if big then 0xffff else dv);
          f = (if big then PIT_FREQ div dv' else freq)
      in do { outb p PIT_COMM 0x36; outb p PIT_DATA (ucast (dv' AND 0xff));
              outb p PIT_DATA (ucast (drop_bit 8 dv' AND 0xff));
              State_Monad.return \<lparr>pit_freq = f, counter = 0\<rparr> })"

section \<open>\<^verbatim>\<open>mktime\<close>\<close>

definition MINUTE :: int where "MINUTE = 60"
definition HOUR :: int where "HOUR = 60 * MINUTE"
definition DAY :: int where "DAY = 24 * HOUR"
definition YEAR :: int where "YEAR = 365 * DAY"

definition month :: "int list" where
  "month = [0, DAY * 31, DAY * (31 + 29), DAY * (31 + 29 + 31), DAY * (31 + 29 + 31 + 30), DAY * (31 + 29 + 31 + 30 + 31),
     DAY * (31 + 29 + 31 + 30 + 31 + 30), DAY * (31 + 29 + 31 + 30 + 31 + 30 + 31), DAY * (31 + 29 + 31 + 30 + 31 + 30 + 31 + 31),
     DAY * (31 + 29 + 31 + 30 + 31 + 30 + 31 + 31 + 30), DAY * (31 + 29 + 31 + 30 + 31 + 30 + 31 + 31 + 30 + 31),
     DAY * (31 + 29 + 31 + 30 + 31 + 30 + 31 + 31 + 30 + 31 + 30)]"

definition mktime :: "tm \<Rightarrow> int option" where
  "mktime t =
     (let year = tm_year t - 70;
          r1 = YEAR * year + DAY * ((year + 1) sdiv 4) in
      if tm_mon t < 0 \<or> tm_mon t \<ge> 12 then None
      else
      let r2 = r1 + month ! nat (tm_mon t);
          r3 = (if tm_mon t > 1 \<and> (year + 2) mod 4 \<noteq> 0 then r2 - DAY else r2);
          r4 = r3 + DAY * (tm_mday t - 1);
          r5 = r4 + HOUR * tm_hour t;
          r6 = r5 + MINUTE * tm_min t;
          r7 = r6 + tm_sec t
      in if list_all int_ok [year, YEAR * year, DAY * ((year + 1) sdiv 4), r1, r2, r3, tm_mday t - 1, DAY * (tm_mday t - 1), r4,
           HOUR * tm_hour t, r5, MINUTE * tm_min t, r6, r7] then Some r7 else None)"

section \<open>The calendar\<close>

definition leap :: "int \<Rightarrow> bool" where "leap y \<longleftrightarrow> y mod 4 = 0 \<and> (y mod 100 \<noteq> 0 \<or> y mod 400 = 0)"

definition month_days :: "int \<Rightarrow> nat \<Rightarrow> int" where
  "month_days y m = (if m = 1 then if leap y then 29 else 28 else if m \<in> {3, 5, 8, 10} then 30 else 31)"

text \<open>Days from 1 January 1970 to 1 January of \<open>1970 + n\<close>.\<close>

definition days_before_year :: "nat \<Rightarrow> int" where
  "days_before_year n = (\<Sum>k<n. \<Sum>m<12. month_days (1970 + int k) m)"

definition seconds_since_1970 :: "nat \<Rightarrow> nat \<Rightarrow> int \<Rightarrow> int \<Rightarrow> int \<Rightarrow> int \<Rightarrow> int" where
  "seconds_since_1970 n m d h mi s =
     ((days_before_year n + (\<Sum>k<m. month_days (1970 + int n) k) + (d - 1)) * 24 + h) * 3600 + mi * 60 + s"

lemma sum_12: "(\<Sum>m<12. f m) = f 0 + f 1 + f 2 + f 3 + f 4 + f 5 + f 6 + f 7 + f 8 + f 9 + f 10 + (f (11::nat) :: int)"
  by (simp add: numeral_eq_Suc)

lemma year_days: "(\<Sum>m<12. month_days y m) = (if leap y then 366 else 365)"
  unfolding sum_12 by (simp add: month_days_def)

lemma leap_1970: "n < 130 \<Longrightarrow> leap (1970 + int n) \<longleftrightarrow> (int n + 2) mod 4 = 0"
proof -
  assume n: "n < 130"
  have "(1970 + int n) mod 4 = (int n + 2) mod 4" by presburger
  moreover have "(1970 + int n) mod 400 = 0" if "(1970 + int n) mod 100 = 0"
  proof -
    have q: "1970 + int n = 100 * ((1970 + int n) div 100)" using that mult_div_mod_eq [of 100 "1970 + int n"] by linarith
    then have "(1970 + int n) div 100 = 20" using n by linarith
    then have "1970 + int n = 2000" using q by linarith
    then show ?thesis by simp
  qed
  ultimately show ?thesis by (auto simp: leap_def)
qed

lemma days_before_year_eq: "n \<le> 130 \<Longrightarrow> days_before_year n = 365 * int n + (int n + 1) div 4"
proof (induction n)
  case (Suc n)
  have "days_before_year (Suc n) = days_before_year n + (if (int n + 2) mod 4 = 0 then 366 else 365)"
    using Suc.prems by (simp add: days_before_year_def year_days leap_1970)
  also have "\<dots> = 365 * int (Suc n) + (int (Suc n) + 1) div 4" using Suc by auto presburger+
  finally show ?case .
qed (simp add: days_before_year_def)

lemma month_prefix:
  assumes "m < 12" "n < 130"
  shows "month ! m - (if 1 < m \<and> (int n + 2) mod 4 \<noteq> 0 then DAY else 0) = DAY * (\<Sum>k<m. month_days (1970 + int n) k)"
proof -
  have "m \<in> {0, 1, 2, 3, 4, 5, 6, 7, 8, 9, 10, 11}" using assms(1) by simp arith
  then show ?thesis using leap_1970 [OF assms(2)]
    by (elim insertE emptyE; simp add: month_def month_days_def numeral_eq_Suc DAY_def HOUR_def MINUTE_def)
qed

text \<open>Packed decimal digits are converted to their value.\<close>

lemma normal_bcd: "n < 100 \<Longrightarrow> normal (of_nat (16 * (n div 10) + n mod 10)) = of_nat n"
proof -
  assume n: "n < 100"
  have "list_all (\<lambda>n. normal (of_nat (16 * (n div 10) + n mod 10)) = of_nat n) [0..<100]" by code_simp
  then show ?thesis using n by (simp add: list_all_iff)
qed

text \<open>C25. \<^verbatim>\<open>mktime\<close> of a date from 1970 to 2037 (\<^verbatim>\<open>tm_year\<close> from 1900, \<^verbatim>\<open>tm_mon\<close> from 0, \<^verbatim>\<open>tm_mday\<close>
  from 1) is the number of seconds since 1 January 1970 in the Gregorian calendar, with no
  overflow; a month outside 0 to 11, such as December as \<^verbatim>\<open>read_time\<close> reports it, reads past
  the table.\<close>

theorem mktime_correct:
  assumes "n \<le> 67" "m < 12" "1 \<le> d" "d \<le> month_days (1970 + int n) m" "0 \<le> h" "h < 24" "0 \<le> mi" "mi < 60" "0 \<le> sc" "sc < 60"
    and "tm_year t = 70 + int n" "tm_mon t = int m" "tm_mday t = d" "tm_hour t = h" "tm_min t = mi" "tm_sec t = sc"
  shows "mktime t = Some (seconds_since_1970 n m d h mi sc) \<and> mktime (t\<lparr>tm_mon := 12\<rparr>) = None"
proof -
  let ?n = "int n"
  let ?r1 = "YEAR * ?n + DAY * ((?n + 1) div 4)"
  let ?adj = "if 1 < m \<and> (?n + 2) mod 4 \<noteq> 0 then DAY else 0"
  let ?ms = "DAY * (\<Sum>k<m. month_days (1970 + ?n) k)"
  have sd: "(?n + 1) sdiv 4 = (?n + 1) div 4" by (simp add: signed_divide_int_def sgn_if)
  have q: "0 \<le> (?n + 1) div 4" "(?n + 1) div 4 \<le> 17" "?n \<le> 67" using assms(1) by auto
  have mp: "month ! m = ?ms + ?adj" using month_prefix [of m n] assms(1,2) by simp
  have "list_all (\<lambda>x. 0 \<le> x \<and> x \<le> 335 * 86400) month" by (simp add: month_def DAY_def HOUR_def MINUTE_def)
  then have mb: "0 \<le> month ! m" "month ! m \<le> 335 * 86400" using assms(2) by (auto simp: list_all_length month_def)
  have db: "d \<le> 31" using assms(4) by (auto simp: month_days_def split: if_splits)
  have r3: "(if tm_mon t > 1 \<and> (tm_year t - 70 + 2) mod 4 \<noteq> 0 then x - DAY else x) = x - ?adj" for x using assms by simp
  have ms: "0 \<le> ?ms" "?ms \<le> 335 * 86400"
    using mb mp by (auto simp: month_days_def DAY_def HOUR_def MINUTE_def intro!: sum_nonneg split: if_splits)
  have "mktime t = Some (?r1 + ?ms + DAY * (d - 1) + HOUR * h + MINUTE * mi + sc)"
    unfolding mktime_def Let_def r3 using assms(2,3,5-) sd q mb mp db ms
    by (simp add: YEAR_def DAY_def HOUR_def MINUTE_def int_ok_def)
  moreover have "days_before_year n = 365 * ?n + (?n + 1) div 4" using assms(1) by (intro days_before_year_eq) simp
  ultimately show ?thesis
    by (simp add: seconds_since_1970_def YEAR_def DAY_def HOUR_def MINUTE_def algebra_simps mktime_def Let_def)
qed

text \<open>Noon of 29 February 2024.\<close>

theorem mktime_correct_witness:
  "mktime \<lparr>tm_sec = 0, tm_min = 0, tm_hour = 12, tm_mday = 29, tm_mon = 1, tm_year = 124, tm_wday = 0, tm_yday = 0, tm_isdst = 0\<rparr>
     = Some 1709208000"
proof -
  have y: "days_before_year 54 = 19723" by (simp add: days_before_year_eq)
  have m: "month_days 2024 0 = 31" "month_days 2024 1 = 29" by (simp_all add: month_days_def leap_def)
  then show ?thesis using y mktime_correct [of 54 1 29 12 0 0
      "\<lparr>tm_sec = 0, tm_min = 0, tm_hour = 12, tm_mday = 29, tm_mon = 1, tm_year = 124, tm_wday = 0, tm_yday = 0, tm_isdst = 0\<rparr>"]
    by (simp add: seconds_since_1970_def)
qed

end
