(* ===== verification/Drv_Ata.thy ===== *)
theory Drv_Ata
  imports Fs_Ext2 Cpu_Io
begin

text \<open>
  The ATA disk driver, \<^verbatim>\<open>src/kern/driver/disk/ide.c\<close>, on the ports of a drive in PIO mode.  The
  drive is not part of the program: \<open>ata_drive\<close> states what the driver relies on (registers,
  the read command, the data port, and that the drive is busy for fewer polls than the
  driver's time-out).  \<^verbatim>\<open>buf\<close> is the caller's buffer of at least the requested sectors.
\<close>

section \<open>Registers and commands\<close>

definition ATA_PRIMARY_BASE :: u16 where "ATA_PRIMARY_BASE = 0x1F0"
definition ATA_PRIMARY_CTRL :: u16 where "ATA_PRIMARY_CTRL = 0x3F6"
definition ATA_REG_DATA :: u16 where "ATA_REG_DATA = 0x00"
definition ATA_REG_SECCOUNT :: u16 where "ATA_REG_SECCOUNT = 0x02"
definition ATA_REG_LBA_LO :: u16 where "ATA_REG_LBA_LO = 0x03"
definition ATA_REG_LBA_MID :: u16 where "ATA_REG_LBA_MID = 0x04"
definition ATA_REG_LBA_HI :: u16 where "ATA_REG_LBA_HI = 0x05"
definition ATA_REG_HDDEVSEL :: u16 where "ATA_REG_HDDEVSEL = 0x06"
definition ATA_REG_STATUS :: u16 where "ATA_REG_STATUS = 0x07"
definition ATA_REG_COMMAND :: u16 where "ATA_REG_COMMAND = 0x07"
definition ATA_SELECT_MASTER :: u8 where "ATA_SELECT_MASTER = 0xA0"
definition ATA_SELECT_SLAVE :: u8 where "ATA_SELECT_SLAVE = 0xB0"
definition ATA_LBA_MASTER :: u32 where "ATA_LBA_MASTER = 0xE0"
definition ATA_SR_BSY :: u8 where "ATA_SR_BSY = 0x80"
definition ATA_SR_DRQ :: u8 where "ATA_SR_DRQ = 0x08"
definition ATA_SR_ERR :: u8 where "ATA_SR_ERR = 0x01"
definition ATA_CMD_IDENTIFY :: u8 where "ATA_CMD_IDENTIFY = 0xEC"
definition ATA_CMD_READ_PIO :: u8 where "ATA_CMD_READ_PIO = 0x20"
definition ATA_CMD_WRITE_PIO :: u8 where "ATA_CMD_WRITE_PIO = 0x30"
definition ATA_CMD_FLUSH :: u8 where "ATA_CMD_FLUSH = 0xE7"

lemmas ata_regs = ATA_PRIMARY_BASE_def ATA_PRIMARY_CTRL_def ATA_REG_DATA_def ATA_REG_SECCOUNT_def ATA_REG_LBA_LO_def
  ATA_REG_LBA_MID_def ATA_REG_LBA_HI_def ATA_REG_HDDEVSEL_def ATA_REG_STATUS_def ATA_REG_COMMAND_def

section \<open>The driver\<close>

definition ata_delay :: "'h ports \<Rightarrow> ('h, unit) state" where
  "ata_delay p = do { _ \<leftarrow> inb p ATA_PRIMARY_CTRL; _ \<leftarrow> inb p ATA_PRIMARY_CTRL;
     _ \<leftarrow> inb p ATA_PRIMARY_CTRL; _ \<leftarrow> inb p ATA_PRIMARY_CTRL; State_Monad.return () }"

fun poll_bsy :: "'h ports \<Rightarrow> nat \<Rightarrow> ('h, int) state" where
  "poll_bsy p 0 = State_Monad.return (- 1)"
| "poll_bsy p (Suc timeout) = do {
     st \<leftarrow> inb p (ATA_PRIMARY_BASE + ATA_REG_STATUS);
     if st AND ATA_SR_ERR \<noteq> 0 then State_Monad.return (- 1)
     else if st AND ATA_SR_BSY = 0 then State_Monad.return 0 else poll_bsy p timeout }"

definition ata_poll_bsy :: "'h ports \<Rightarrow> ('h, int) state" where
  "ata_poll_bsy p = do { ata_delay p; poll_bsy p 100000 }"

fun poll_drq :: "'h ports \<Rightarrow> nat \<Rightarrow> ('h, int) state" where
  "poll_drq p 0 = State_Monad.return (- 1)"
| "poll_drq p (Suc timeout) = do {
     st \<leftarrow> inb p (ATA_PRIMARY_BASE + ATA_REG_STATUS);
     if st AND ATA_SR_ERR \<noteq> 0 then State_Monad.return (- 1)
     else if st AND ATA_SR_DRQ \<noteq> 0 then State_Monad.return 0 else poll_drq p timeout }"

definition ata_poll_drq :: "'h ports \<Rightarrow> ('h, int) state" where
  "ata_poll_drq p = poll_drq p 100000"

fun read_words :: "'h ports \<Rightarrow> nat \<Rightarrow> ('h, u16 list) state" where
  "read_words p 0 = State_Monad.return []"
| "read_words p (Suc n) = do {
     w \<leftarrow> inw p (ATA_PRIMARY_BASE + ATA_REG_DATA); ws \<leftarrow> read_words p n; State_Monad.return (w # ws) }"

definition ata_check_drive :: "'h ports \<Rightarrow> bool \<Rightarrow> ('h, int) state" where
  "ata_check_drive p slave = do {
     outb p (ATA_PRIMARY_BASE + ATA_REG_HDDEVSEL) (if slave then ATA_SELECT_SLAVE else ATA_SELECT_MASTER);
     ata_delay p;
     outb p (ATA_PRIMARY_BASE + ATA_REG_SECCOUNT) 0;
     outb p (ATA_PRIMARY_BASE + ATA_REG_LBA_LO) 0;
     outb p (ATA_PRIMARY_BASE + ATA_REG_LBA_MID) 0;
     outb p (ATA_PRIMARY_BASE + ATA_REG_LBA_HI) 0;
     outb p (ATA_PRIMARY_BASE + ATA_REG_COMMAND) ATA_CMD_IDENTIFY;
     ata_delay p;
     st \<leftarrow> inb p (ATA_PRIMARY_BASE + ATA_REG_STATUS);
     if st = 0 then State_Monad.return 0
     else do {
       r \<leftarrow> ata_poll_bsy p;
       if r \<noteq> 0 then State_Monad.return 0
       else do {
         mid \<leftarrow> inb p (ATA_PRIMARY_BASE + ATA_REG_LBA_MID);
         hi \<leftarrow> inb p (ATA_PRIMARY_BASE + ATA_REG_LBA_HI);
         if mid \<noteq> 0 \<or> hi \<noteq> 0 then State_Monad.return 0
         else do {
           d \<leftarrow> ata_poll_drq p;
           if d \<noteq> 0 then State_Monad.return 0
           else do { _ \<leftarrow> read_words p 256; State_Monad.return 1 } } } } }"

text \<open>The register writes before a transfer.\<close>

definition ata_setup :: "'h ports \<Rightarrow> u32 \<Rightarrow> nat \<Rightarrow> u8 \<Rightarrow> ('h, unit) state" where
  "ata_setup p lba n cmd = do {
     outb p (ATA_PRIMARY_BASE + ATA_REG_HDDEVSEL) (ucast (ATA_LBA_MASTER OR (drop_bit 24 lba AND 0x0F)));
     ata_delay p;
     outb p (ATA_PRIMARY_BASE + ATA_REG_SECCOUNT) (of_nat n);
     outb p (ATA_PRIMARY_BASE + ATA_REG_LBA_LO) (ucast lba);
     outb p (ATA_PRIMARY_BASE + ATA_REG_LBA_MID) (ucast (drop_bit 8 lba));
     outb p (ATA_PRIMARY_BASE + ATA_REG_LBA_HI) (ucast (drop_bit 16 lba));
     outb p (ATA_PRIMARY_BASE + ATA_REG_COMMAND) cmd }"

definition word_bytes :: "u16 list \<Rightarrow> u8 list" where
  "word_bytes ws = concat (map (\<lambda>w. [ucast w, ucast (drop_bit 8 w)]) ws)"

text \<open>\<open>n\<close> sectors from number \<open>s\<close> of the buffer on; the flag says whether the loop ended.\<close>

fun ata_read_loop :: "'h ports \<Rightarrow> nat \<Rightarrow> nat \<Rightarrow> u8 list \<Rightarrow> ('h, bool \<times> u8 list) state" where
  "ata_read_loop p 0 s buf = State_Monad.return (True, buf)"
| "ata_read_loop p (Suc n) s buf = do {
     r \<leftarrow> ata_poll_bsy p;
     if r \<noteq> 0 then State_Monad.return (False, buf)
     else do {
       d \<leftarrow> ata_poll_drq p;
       if d \<noteq> 0 then State_Monad.return (False, buf)
       else do {
         ws \<leftarrow> read_words p 256;
         ata_read_loop p n (s + 1) (take (s * 512) buf @ word_bytes ws @ drop ((s + 1) * 512) buf) } } }"

definition ata_read_sectors :: "'h ports \<Rightarrow> u32 \<Rightarrow> nat \<Rightarrow> u8 list \<Rightarrow> ('h, int \<times> u8 list) state" where
  "ata_read_sectors p lba n buf = do {
     r \<leftarrow> ata_poll_bsy p;
     if r \<noteq> 0 then State_Monad.return (- 1, buf)
     else do {
       ata_setup p lba n ATA_CMD_READ_PIO;
       x \<leftarrow> ata_read_loop p n 0 buf;
       State_Monad.return (if fst x then int n else - 1, snd x) } }"

fun write_words :: "'h ports \<Rightarrow> u8 list \<Rightarrow> nat \<Rightarrow> nat \<Rightarrow> ('h, unit) state" where
  "write_words p buf k 0 = State_Monad.return ()"
| "write_words p buf k (Suc n) = do {
     outw p (ATA_PRIMARY_BASE + ATA_REG_DATA) (ucast (buf ! (2 * k)) OR push_bit 8 (ucast (buf ! (2 * k + 1))));
     write_words p buf (k + 1) n }"

fun ata_write_loop :: "'h ports \<Rightarrow> nat \<Rightarrow> nat \<Rightarrow> u8 list \<Rightarrow> ('h, int) state" where
  "ata_write_loop p 0 s buf = State_Monad.return 0"
| "ata_write_loop p (Suc n) s buf = do {
     r \<leftarrow> ata_poll_bsy p;
     if r \<noteq> 0 then State_Monad.return (- 1)
     else do {
       d \<leftarrow> ata_poll_drq p;
       if d \<noteq> 0 then State_Monad.return (- 1)
       else do {
         write_words p buf (s * 256) 256;
         outb p (ATA_PRIMARY_BASE + ATA_REG_COMMAND) ATA_CMD_FLUSH;
         b \<leftarrow> ata_poll_bsy p;
         if b \<noteq> 0 then State_Monad.return (- 1) else ata_write_loop p n (s + 1) buf } } }"

definition ata_write_sectors :: "'h ports \<Rightarrow> u32 \<Rightarrow> nat \<Rightarrow> u8 list \<Rightarrow> ('h, int) state" where
  "ata_write_sectors p lba n buf = do {
     r \<leftarrow> ata_poll_bsy p;
     if r \<noteq> 0 then State_Monad.return (- 1)
     else do { ata_setup p lba n ATA_CMD_WRITE_PIO; ata_write_loop p n 0 buf } }"

section \<open>The block device \<^verbatim>\<open>/dev/sda\<close>\<close>

definition dsk_read :: "block_dev option \<Rightarrow> u32 \<Rightarrow> nat \<Rightarrow> u8 list \<Rightarrow> int \<times> u8 list" where
  "dsk_read bd sect len buf =
     (case bd of None \<Rightarrow> (- 1, buf) | Some b \<Rightarrow> (case bd_read b of None \<Rightarrow> (- 1, buf) | Some rd \<Rightarrow> rd sect len buf))"

text \<open>The loop reads the same sector each time.\<close>

fun devread_loop :: "block_dev \<Rightarrow> u32 \<Rightarrow> nat \<Rightarrow> nat \<Rightarrow> nat \<Rightarrow> u8 list \<Rightarrow> u8 list \<Rightarrow> u8 list \<times> u8 list" where
  "devread_loop bd sect off 0 i buff buf = (buff, buf)"
| "devread_loop bd sect off (Suc n) i buff buf =
     (let buff1 = snd (dsk_read (Some bd) sect 1 buff)
      in devread_loop bd sect 0 n (i + 1) buff1
           (take (i * 512) buf @ drop off buff1 @ drop (i * 512 + (512 - off)) buf))"

text \<open>The last copy reads past the sector buffer when the piece crosses a sector boundary: \<^const>\<open>None\<close>.\<close>

definition ata_devread :: "block_dev \<Rightarrow> nat \<Rightarrow> nat \<Rightarrow> u8 list \<Rightarrow> (int \<times> u8 list \<times> nat) option" where
  "ata_devread bd off cnt buf =
     (let sect = bd_start bd + of_nat (off div 512); o1 = off mod 512; n = cnt div 512;
          (buff, buf1) = devread_loop bd sect o1 n 0 (replicate 512 0) buf;
          o2 = (if n = 0 then o1 else 0);
          buff2 = snd (dsk_read (Some bd) (sect + of_nat n) 1 buff)
      in if o2 + cnt mod 512 > 512 then None
         else Some (int cnt, take (n * 512) buf1 @ take (cnt mod 512) (drop o2 buff2) @ drop cnt buf1, off + cnt))"

section \<open>What the driver relies on\<close>

text \<open>The view of a drive: its sectors (256 words each), the task file registers, the number of
  status reads for which it stays busy and the words it has ready for the data port.\<close>

record ata_view =
  av_disk :: "nat \<Rightarrow> u16 list"
  av_sel :: u8
  av_cnt :: u8
  av_lo :: u8
  av_mid :: u8
  av_hi :: u8
  av_busy :: nat
  av_q :: "u16 list"

definition av_lba :: "ata_view \<Rightarrow> nat" where
  "av_lba v = unat (av_lo v) + 2 ^ 8 * unat (av_mid v) + 2 ^ 16 * unat (av_hi v) + 2 ^ 24 * (unat (av_sel v) mod 16)"

definition av_num :: "ata_view \<Rightarrow> nat" where
  "av_num v = (if av_cnt v = 0 then 256 else unat (av_cnt v))"

text \<open>\<open>reg a f\<close>: a write to port \<open>a\<close> of an idle drive changes the view by \<open>f\<close>.\<close>

definition ata_reg :: "'h ports \<Rightarrow> ('h \<Rightarrow> ata_view) \<Rightarrow> u16 \<Rightarrow> (u8 \<Rightarrow> ata_view \<Rightarrow> ata_view) \<Rightarrow> bool" where
  "ata_reg p view a f \<longleftrightarrow> (\<forall>h b. av_busy (view h) = 0 \<longrightarrow> view (p_outb p a b h) = f b (view h))"

definition ata_status :: "'h ports \<Rightarrow> ('h \<Rightarrow> ata_view) \<Rightarrow> bool" where
  "ata_status p view \<longleftrightarrow>
     (\<forall>h. let v = view h; (st, h') = p_inb p 0x1F7 h
          in st AND ATA_SR_ERR = 0 \<and> (st AND ATA_SR_BSY = 0 \<longleftrightarrow> av_busy v = 0) \<and>
             (av_busy v = 0 \<longrightarrow> (st AND ATA_SR_DRQ \<noteq> 0 \<longleftrightarrow> av_q v \<noteq> [])) \<and> view h' = v\<lparr>av_busy := av_busy v - 1\<rparr>) \<and>
     (\<forall>h. \<exists>k\<le>av_busy (view h). view (snd (p_inb p 0x3F6 h)) = (view h)\<lparr>av_busy := k\<rparr>)"

definition ata_transfer :: "'h ports \<Rightarrow> ('h \<Rightarrow> ata_view) \<Rightarrow> bool" where
  "ata_transfer p view \<longleftrightarrow>
     (\<forall>h. av_busy (view h) = 0 \<longrightarrow> (\<exists>k<100000. view (p_outb p 0x1F7 ATA_CMD_READ_PIO h) =
        (view h)\<lparr>av_q := concat (map (av_disk (view h)) [av_lba (view h)..<av_lba (view h) + av_num (view h)]), av_busy := k\<rparr>)) \<and>
     (\<forall>h w ws. av_busy (view h) = 0 \<and> av_q (view h) = w # ws \<longrightarrow> fst (p_inw p 0x1F0 h) = w \<and>
        (\<exists>k<100000. view (snd (p_inw p 0x1F0 h)) = (view h)\<lparr>av_q := ws, av_busy := if length ws mod 256 = 0 then k else 0\<rparr>))"

definition ata_drive :: "'h ports \<Rightarrow> ('h \<Rightarrow> ata_view) \<Rightarrow> bool" where
  "ata_drive p view \<longleftrightarrow> ata_status p view \<and> ata_transfer p view \<and>
     ata_reg p view 0x1F2 (\<lambda>b v. v\<lparr>av_cnt := b\<rparr>) \<and> ata_reg p view 0x1F3 (\<lambda>b v. v\<lparr>av_lo := b\<rparr>) \<and>
     ata_reg p view 0x1F4 (\<lambda>b v. v\<lparr>av_mid := b\<rparr>) \<and> ata_reg p view 0x1F5 (\<lambda>b v. v\<lparr>av_hi := b\<rparr>) \<and>
     ata_reg p view 0x1F6 (\<lambda>b v. v\<lparr>av_sel := b\<rparr>) \<and> (\<forall>h k. length (av_disk (view h) k) = 256)"

section \<open>Polling\<close>

lemma status_read:
  assumes "ata_drive p view"
  obtains st h' where "p_inb p 0x1F7 h = (st, h')" "st AND ATA_SR_ERR = 0" "st AND ATA_SR_BSY = 0 \<longleftrightarrow> av_busy (view h) = 0"
    "av_busy (view h) = 0 \<longrightarrow> (st AND ATA_SR_DRQ \<noteq> 0 \<longleftrightarrow> av_q (view h) \<noteq> [])" "view h' = (view h)\<lparr>av_busy := av_busy (view h) - 1\<rparr>"
proof -
  obtain st h' where e: "p_inb p 0x1F7 h = (st, h')" by fastforce
  have "ata_status p view" using assms by (simp add: ata_drive_def)
  then have "let v = view h; (st, h') = p_inb p 0x1F7 h
          in st AND ATA_SR_ERR = 0 \<and> (st AND ATA_SR_BSY = 0 \<longleftrightarrow> av_busy v = 0) \<and>
             (av_busy v = 0 \<longrightarrow> (st AND ATA_SR_DRQ \<noteq> 0 \<longleftrightarrow> av_q v \<noteq> [])) \<and> view h' = v\<lparr>av_busy := av_busy v - 1\<rparr>"
    unfolding ata_status_def by blast
  then show ?thesis using that [OF e] e by (simp add: Let_def)
qed

lemma alt_status: "ata_drive p view \<Longrightarrow> \<exists>k\<le>av_busy (view h). view (snd (p_inb p 0x3F6 h)) = (view h)\<lparr>av_busy := k\<rparr>"
  unfolding ata_drive_def ata_status_def by blast

lemma delay_view:
  assumes "ata_drive p view"
  shows "\<exists>k\<le>av_busy (view h). view (snd (run_state (ata_delay p) h)) = (view h)\<lparr>av_busy := k\<rparr>"
proof -
  let ?f = "\<lambda>h. snd (p_inb p 0x3F6 h)"
  have "run_state (ata_delay p) h = ((), ?f (?f (?f (?f h))))"
    by (simp add: ata_delay_def ata_regs run_simps split_beta)
  moreover have "\<exists>k\<le>av_busy (view h). view ((?f ^^ n) h) = (view h)\<lparr>av_busy := k\<rparr>" for n :: nat
  proof (induction n)
    case 0
    show ?case by (rule exI [of _ "av_busy (view h)"]) simp
  next
    case (Suc n)
    then obtain k where k: "k \<le> av_busy (view h)" "view ((?f ^^ n) h) = (view h)\<lparr>av_busy := k\<rparr>" by blast
    from alt_status [OF assms, of "(?f ^^ n) h"] obtain j where "j \<le> k" "view (?f ((?f ^^ n) h)) = (view h)\<lparr>av_busy := j\<rparr>"
      using k(2) by auto
    then show ?case using k(1) by (intro exI [of _ j]) simp
  qed
  then have "\<exists>k\<le>av_busy (view h). view ((?f ^^ 4) h) = (view h)\<lparr>av_busy := k\<rparr>" .
  ultimately show ?thesis by (simp add: numeral_eq_Suc)
qed

lemma poll_bsy_view:
  "ata_drive p view \<Longrightarrow> av_busy (view h) < n \<Longrightarrow>
   \<exists>h'. run_state (poll_bsy p n) h = (0, h') \<and> view h' = (view h)\<lparr>av_busy := 0\<rparr>"
proof (induction n arbitrary: h)
  case (Suc n)
  obtain st h' where st: "p_inb p 0x1F7 h = (st, h')" "st AND ATA_SR_ERR = 0" "st AND ATA_SR_BSY = 0 \<longleftrightarrow> av_busy (view h) = 0"
    "view h' = (view h)\<lparr>av_busy := av_busy (view h) - 1\<rparr>" by (rule status_read [OF Suc.prems(1)])
  show ?case
  proof (cases "av_busy (view h) = 0")
    case True
    then show ?thesis using st by (simp add: ata_regs run_simps)
  next
    case False
    then have "av_busy (view h') < n" using st(4) Suc.prems(2) by simp
    from Suc.IH [OF Suc.prems(1) this] st False show ?thesis by (auto simp: ata_regs run_simps)
  qed
qed simp

lemma ata_poll_bsy_view:
  assumes "ata_drive p view" "av_busy (view h) < 100000"
  shows "\<exists>h'. run_state (ata_poll_bsy p) h = (0, h') \<and> view h' = (view h)\<lparr>av_busy := 0\<rparr>"
proof -
  obtain k where k: "k \<le> av_busy (view h)" "view (snd (run_state (ata_delay p) h)) = (view h)\<lparr>av_busy := k\<rparr>"
    using delay_view [OF assms(1)] by blast
  then have "av_busy (view (snd (run_state (ata_delay p) h))) < 100000" using assms(2) by simp
  from poll_bsy_view [OF assms(1) this] k show ?thesis by (auto simp: ata_poll_bsy_def run_simps split_beta)
qed

lemma ata_poll_drq_view:
  assumes "ata_drive p view" "av_busy (view h) = 0" "av_q (view h) \<noteq> []"
  shows "\<exists>h'. run_state (ata_poll_drq p) h = (0, h') \<and> view h' = view h"
proof -
  obtain st h' where "p_inb p 0x1F7 h = (st, h')" "st AND ATA_SR_ERR = 0"
    "av_busy (view h) = 0 \<longrightarrow> (st AND ATA_SR_DRQ \<noteq> 0 \<longleftrightarrow> av_q (view h) \<noteq> [])" "view h' = (view h)\<lparr>av_busy := av_busy (view h) - 1\<rparr>"
    by (rule status_read [OF assms(1)])
  then have "\<exists>h'. run_state (poll_drq p (Suc n)) h = (0, h') \<and> view h' = view h" for n
    using assms(2,3) by (auto simp: ata_regs run_simps)
  from this [of 99999] show ?thesis by (simp add: ata_poll_drq_def del: poll_drq.simps)
qed

section \<open>Reading\<close>

lemma data_read:
  assumes "ata_drive p view" "av_busy (view h) = 0" "av_q (view h) = w # ws"
  obtains h' k where "p_inw p 0x1F0 h = (w, h')" "k < 100000"
    "view h' = (view h)\<lparr>av_q := ws, av_busy := if length ws mod 256 = 0 then k else 0\<rparr>"
proof -
  have "ata_transfer p view" using assms(1) by (simp add: ata_drive_def)
  then have "fst (p_inw p 0x1F0 h) = w \<and> (\<exists>k<100000. view (snd (p_inw p 0x1F0 h)) =
      (view h)\<lparr>av_q := ws, av_busy := if length ws mod 256 = 0 then k else 0\<rparr>)"
    using assms(2,3) unfolding ata_transfer_def by blast
  then show ?thesis using that by (metis prod.collapse)
qed

lemma read_words_view:
  assumes "ata_drive p view" "av_busy (view h) = 0" "av_q (view h) = ws @ rest" "length ws \<le> 256" "length rest mod 256 = 0" "ws \<noteq> []"
  shows "\<exists>h' k. run_state (read_words p (length ws)) h = (ws, h') \<and> k < 100000 \<and> view h' = (view h)\<lparr>av_q := rest, av_busy := k\<rparr>"
  using assms(2-)
proof (induction ws arbitrary: h)
  case (Cons w ws)
  then obtain h' k where h': "p_inw p 0x1F0 h = (w, h')" "k < 100000"
    "view h' = (view h)\<lparr>av_q := ws @ rest, av_busy := if length (ws @ rest) mod 256 = 0 then k else 0\<rparr>"
    using data_read [OF assms(1), of h w "ws @ rest"] by auto
  show ?case
  proof (cases "ws = []")
    case True
    then show ?thesis using h' Cons.prems(4) by (auto simp: ata_regs run_simps)
  next
    case False
    then have "(length ws + length rest) mod 256 = length ws"
      using Cons.prems(3,4) by (metis add.right_neutral length_Cons less_eq_Suc_le mod_add_right_eq mod_less)
    then have "view h' = (view h)\<lparr>av_q := ws @ rest, av_busy := 0\<rparr>" using h'(3) False by simp
    then show ?thesis using Cons.IH [of h'] Cons.prems h'(1) False by (auto simp: ata_regs run_simps)
  qed
qed simp

definition disk_bytes :: "(nat \<Rightarrow> u16 list) \<Rightarrow> nat \<Rightarrow> nat \<Rightarrow> u8 list" where
  "disk_bytes dsk lba n = concat (map (\<lambda>k. word_bytes (dsk k)) [lba..<lba + n])"

lemma word_bytes_length: "length (word_bytes ws) = 2 * length ws"
  by (induction ws) (simp_all add: word_bytes_def)

lemma concat_sectors_mod: "\<forall>k. length (dsk k) = 256 \<Longrightarrow> length (concat (map dsk ks)) mod 256 = 0"
  by (induction ks) auto

lemma read_loop_view:
  assumes "ata_drive p view" "av_busy (view h) < 100000" "av_q (view h) = concat (map (av_disk (view h)) [l..<l + n])"
    and "length buf = 512 * (s + n)"
  shows "\<exists>h' k. run_state (ata_read_loop p n s buf) h = ((True, take (512 * s) buf @ disk_bytes (av_disk (view h)) l n), h') \<and>
    k < 100000 \<and> view h' = (view h)\<lparr>av_q := [], av_busy := k\<rparr>"
  using assms(2-)
proof (induction n arbitrary: h l s buf)
  case 0
  then show ?case by (auto simp: run_simps disk_bytes_def intro!: exI [of _ "av_busy (view h)"])
next
  case (Suc n)
  let ?d = "av_disk (view h)"
  have len: "\<forall>k. length (?d k) = 256" using assms(1) by (simp add: ata_drive_def)
  have up: "[l..<l + Suc n] = l # [Suc l..<Suc l + n]" by (simp add: upt_conv_Cons)
  obtain h1 where h1: "run_state (ata_poll_bsy p) h = (0, h1)" "view h1 = (view h)\<lparr>av_busy := 0\<rparr>"
    using ata_poll_bsy_view [OF assms(1) Suc.prems(1)] by blast
  have q1: "av_q (view h1) = ?d l @ concat (map ?d [Suc l..<Suc l + n])" using h1(2) Suc.prems(2) by (simp only: up) simp
  have "?d l \<noteq> []" using len by (metis list.size(3) zero_neq_numeral)
  then obtain h2 where h2: "run_state (ata_poll_drq p) h1 = (0, h2)" "view h2 = view h1"
    using ata_poll_drq_view [OF assms(1), of h1] h1(2) q1 by auto
  obtain h3 k where h3: "run_state (read_words p 256) h2 = (?d l, h3)" "k < 100000"
    "view h3 = (view h)\<lparr>av_q := concat (map ?d [Suc l..<Suc l + n]), av_busy := k\<rparr>"
    using read_words_view [OF assms(1), of h2 "?d l"] h1 h2 q1 len concat_sectors_mod [OF len] \<open>?d l \<noteq> []\<close> by auto
  let ?b = "take (s * 512) buf @ word_bytes (?d l) @ drop ((s + 1) * 512) buf"
  have lb: "length ?b = 512 * (s + 1 + n)" using Suc.prems(3) len by (simp add: word_bytes_length)
  have tk: "take (512 * (s + 1)) ?b = take (512 * s) buf @ word_bytes (?d l)"
    using Suc.prems(3) len by (simp add: word_bytes_length mult.commute)
  from Suc.IH [of h3 "Suc l" ?b "s + 1"] h3 lb obtain h' j where
    "run_state (ata_read_loop p n (s + 1) ?b) h3 = ((True, take (512 * (s + 1)) ?b @ disk_bytes ?d (Suc l) n), h')"
    and j: "j < 100000" "view h' = (view h)\<lparr>av_q := [], av_busy := j\<rparr>" by auto
  then have "run_state (ata_read_loop p n (s + 1) ?b) h3 =
      ((True, take (512 * s) buf @ word_bytes (?d l) @ disk_bytes ?d (Suc l) n), h')" unfolding tk by simp
  moreover have "word_bytes (?d l) @ disk_bytes ?d (Suc l) n = disk_bytes ?d l (Suc n)"
    unfolding disk_bytes_def up by simp
  ultimately show ?case using h1(1) h2(1) h3(1) j by (auto simp: run_simps)
qed

lemma bytes_of_nat: "x mod 256 + 256 * (x div 256 mod 256) + 65536 * (x div 65536 mod 256) + 16777216 * (x div 16777216) = (x :: nat)"
proof -
  let ?a = "x div 256"
  have e: "x div 65536 = ?a div 256" "x div 16777216 = ?a div 256 div 256" by (simp_all flip: div_mult2_eq)
  show ?thesis unfolding e
    using mult_div_mod_eq [of 256 x] mult_div_mod_eq [of 256 ?a] mult_div_mod_eq [of 256 "?a div 256"] by linarith
qed

lemma lba_bytes:
  assumes "unat lba < 2 ^ 28"
  shows "unat (ucast lba :: u8) + 2 ^ 8 * unat (ucast (drop_bit 8 lba) :: u8) + 2 ^ 16 * unat (ucast (drop_bit 16 lba) :: u8) +
    2 ^ 24 * (unat (ucast (ATA_LBA_MASTER OR (drop_bit 24 lba AND 0x0F)) :: u8) mod 16) = unat (lba :: u32)"
proof -
  let ?l = "unat lba"
  have d: "unat (drop_bit n lba) = ?l div 2 ^ n" for n by (simp only: unat_drop_bit_eq) (simp only: drop_bit_eq_div)
  have b: "unat (ucast (drop_bit n lba) :: u8) = ?l div 2 ^ n mod 256" for n
    by (simp add: unsigned_ucast_eq d) (simp add: take_bit_eq_mod)
  have low: "x AND 0x0F = take_bit 4 x" for x :: "'a::len word" by (simp add: take_bit_eq_mask mask_eq_exp_minus_1)
  have "(ucast (ATA_LBA_MASTER OR (drop_bit 24 lba AND 0x0F)) :: u8) AND 0x0F = ucast (drop_bit 24 lba AND 0x0F)"
  proof (rule bit_word_eqI)
    fix n assume "n < LENGTH(8)"
    then have "n \<in> {0, 1, 2, 3, 4, 5, 6, 7}" by simp arith
    then show "bit ((ucast (ATA_LBA_MASTER OR (drop_bit 24 lba AND 0x0F)) :: u8) AND 0x0F) n = bit (ucast (drop_bit 24 lba AND 0x0F) :: u8) n"
      by (elim insertE emptyE; simp add: ATA_LBA_MASTER_def bit_simps)
  qed
  moreover have "unat (x AND 0x0F :: u8) = unat x mod 16" for x
    unfolding low by (simp only: unsigned_take_bit_eq) (simp add: take_bit_eq_mod)
  moreover have "unat (ucast (drop_bit 24 lba AND 0x0F) :: u8) = ?l div 2 ^ 24 mod 16"
    unfolding low by (simp add: unsigned_ucast_eq unsigned_take_bit_eq d) (simp add: take_bit_eq_mod)
  ultimately have s: "unat (ucast (ATA_LBA_MASTER OR (drop_bit 24 lba AND 0x0F)) :: u8) mod 16 = ?l div 2 ^ 24 mod 16" by metis
  have "unat (ucast lba :: u8) = ?l mod 256" using b [of 0] by simp
  then show ?thesis using b [of 8] b [of 16] s assms bytes_of_nat [of ?l] by simp
qed

lemma read_command:
  "ata_drive p view \<Longrightarrow> av_busy (view h) = 0 \<Longrightarrow> \<exists>k<100000. view (p_outb p 0x1F7 ATA_CMD_READ_PIO h) =
     (view h)\<lparr>av_q := concat (map (av_disk (view h)) [av_lba (view h)..<av_lba (view h) + av_num (view h)]), av_busy := k\<rparr>"
  unfolding ata_drive_def ata_transfer_def by blast

lemma setup_view:
  assumes "ata_drive p view" "av_busy (view h) = 0" "unat lba < 2 ^ 28" "0 < n" "n \<le> 256"
  shows "\<exists>h' v k. run_state (ata_setup p lba n ATA_CMD_READ_PIO) h = ((), h') \<and> k < 100000 \<and> av_disk v = av_disk (view h) \<and>
    view h' = v\<lparr>av_q := concat (map (av_disk (view h)) [unat lba..<unat lba + n]), av_busy := k\<rparr>"
proof -
  have reg: "ata_reg p view 0x1F2 (\<lambda>b v. v\<lparr>av_cnt := b\<rparr>)" "ata_reg p view 0x1F3 (\<lambda>b v. v\<lparr>av_lo := b\<rparr>)"
    "ata_reg p view 0x1F4 (\<lambda>b v. v\<lparr>av_mid := b\<rparr>)" "ata_reg p view 0x1F5 (\<lambda>b v. v\<lparr>av_hi := b\<rparr>)"
    "ata_reg p view 0x1F6 (\<lambda>b v. v\<lparr>av_sel := b\<rparr>)" using assms(1) by (simp_all add: ata_drive_def)
  let ?sel = "ucast (ATA_LBA_MASTER OR (drop_bit 24 lba AND 0x0F)) :: u8"
  let ?h1 = "p_outb p 0x1F6 ?sel h"
  let ?h2 = "snd (run_state (ata_delay p) ?h1)"
  let ?h6 = "p_outb p 0x1F5 (ucast (drop_bit 16 lba)) (p_outb p 0x1F4 (ucast (drop_bit 8 lba))
    (p_outb p 0x1F3 (ucast lba) (p_outb p 0x1F2 (of_nat n) ?h2)))"
  have v1: "view ?h1 = (view h)\<lparr>av_sel := ?sel\<rparr>" using reg(5) assms(2) by (simp add: ata_reg_def)
  have v2: "view ?h2 = (view h)\<lparr>av_sel := ?sel, av_busy := 0\<rparr>" using delay_view [OF assms(1), of ?h1] v1 assms(2) by auto
  have v6: "view ?h6 = (view h)\<lparr>av_sel := ?sel, av_busy := 0, av_cnt := of_nat n, av_lo := ucast lba,
      av_mid := ucast (drop_bit 8 lba), av_hi := ucast (drop_bit 16 lba)\<rparr>"
    using reg(1-4) v2 by (simp add: ata_reg_def)
  have "av_lba (view ?h6) = unat lba" unfolding v6 using lba_bytes [OF assms(3)] by (simp add: av_lba_def)
  moreover have "av_num (view ?h6) = n"
  proof (cases "n = 256")
    case True
    have "av_cnt (view ?h6) = of_nat n" unfolding v6 by simp
    then show ?thesis unfolding av_num_def using True by simp
  next
    case False
    then have "unat (of_nat n :: u8) = n" using assms(5) by (simp add: unat_of_nat)
    moreover from this have "(of_nat n :: u8) \<noteq> 0" using assms(4) by (metis unat_0 less_irrefl)
    ultimately show ?thesis unfolding v6 by (simp add: av_num_def)
  qed
  moreover have d6: "av_disk (view ?h6) = av_disk (view h)" "av_busy (view ?h6) = 0" unfolding v6 by simp_all
  ultimately obtain k where "k < 100000" "view (p_outb p 0x1F7 ATA_CMD_READ_PIO ?h6) =
      (view ?h6)\<lparr>av_q := concat (map (av_disk (view h)) [unat lba..<unat lba + n]), av_busy := k\<rparr>"
    using read_command [OF assms(1), of ?h6] by auto
  moreover have "run_state (ata_setup p lba n ATA_CMD_READ_PIO) h = ((), p_outb p 0x1F7 ATA_CMD_READ_PIO ?h6)"
    by (simp add: ata_setup_def ata_regs run_simps split_beta)
  ultimately show ?thesis using d6(1) by blast
qed


text \<open>A drive that is never busy; \<open>sim_view\<close> pads its sectors to their length.\<close>

definition sim_view :: "ata_view \<Rightarrow> ata_view" where
  "sim_view v = v\<lparr>av_busy := 0, av_disk := \<lambda>k. take 256 (av_disk v k @ replicate 256 0)\<rparr>"

definition sim_drive :: "ata_view ports" where
  "sim_drive = \<lparr>p_inb = (\<lambda>a v. (if av_q v = [] then 0x40 else 0x48, v)),
     p_inw = (\<lambda>a v. (hd (av_q v), v\<lparr>av_q := tl (av_q v)\<rparr>)), p_inl = (\<lambda>a v. (0, v)),
     p_outb = (\<lambda>a b v. if a = 0x1F2 then v\<lparr>av_cnt := b\<rparr> else if a = 0x1F3 then v\<lparr>av_lo := b\<rparr> else if a = 0x1F4 then v\<lparr>av_mid := b\<rparr>
        else if a = 0x1F5 then v\<lparr>av_hi := b\<rparr> else if a = 0x1F6 then v\<lparr>av_sel := b\<rparr>
        else if a = 0x1F7 \<and> b = ATA_CMD_READ_PIO
             then v\<lparr>av_q := concat (map (av_disk (sim_view v)) [av_lba v..<av_lba v + av_num v])\<rparr> else v),
     p_outw = (\<lambda>_ _ v. v), p_outl = (\<lambda>_ _ v. v)\<rparr>"

lemma sim_drive_ok: "ata_drive sim_drive sim_view"
proof -
  have "ata_status sim_drive sim_view"
    by (simp add: ata_status_def sim_drive_def sim_view_def ATA_SR_ERR_def ATA_SR_BSY_def ATA_SR_DRQ_def)
  moreover have "av_lba (sim_view v) = av_lba v" "av_num (sim_view v) = av_num v" for v
    by (simp_all add: av_lba_def av_num_def sim_view_def)
  then have "ata_transfer sim_drive sim_view"
    by (auto simp: ata_transfer_def sim_drive_def sim_view_def intro!: exI [of _ 0])
  moreover have "ata_reg sim_drive sim_view 0x1F2 (\<lambda>b v. v\<lparr>av_cnt := b\<rparr>)" "ata_reg sim_drive sim_view 0x1F3 (\<lambda>b v. v\<lparr>av_lo := b\<rparr>)"
    "ata_reg sim_drive sim_view 0x1F4 (\<lambda>b v. v\<lparr>av_mid := b\<rparr>)" "ata_reg sim_drive sim_view 0x1F5 (\<lambda>b v. v\<lparr>av_hi := b\<rparr>)"
    "ata_reg sim_drive sim_view 0x1F6 (\<lambda>b v. v\<lparr>av_sel := b\<rparr>)"
    by (simp_all add: ata_reg_def sim_drive_def sim_view_def)
  moreover have "length (av_disk (sim_view h) k) = 256" for h k by (simp add: sim_view_def)
  ultimately show ?thesis unfolding ata_drive_def by blast
qed


end
