(* ===== verification/Drv_Kbd.thy ===== *)
theory Drv_Kbd
  imports Tty_Line Crypt_Hash Cpu_Io
begin

text \<open>
  The PS/2 keyboard, \<^verbatim>\<open>src/kern/driver/keyboard.c\<close>: scan codes to characters, the interrupt handler
  that feeds the terminal, and \<^verbatim>\<open>kgets\<close>.  A read outside the scan code tables is \<^const>\<open>None\<close>.
  \<^verbatim>\<open>init_tty\<close> sets up an unused console and is not modelled.
\<close>

section \<open>Scan codes\<close>

definition K_SPECIAl :: u8 where "K_SPECIAl = 0xe0"
definition K_S_PGDOWN :: u8 where "K_S_PGDOWN = 0x51"
definition K_S_PGUP :: u8 where "K_S_PGUP = 0x49"
definition K_BKSPACE :: u8 where "K_BKSPACE = 0x0e"
definition K_TAB :: u8 where "K_TAB = 0x0f"
definition K_ENTER :: u8 where "K_ENTER = 0x1c"
definition K_LCTRL :: u8 where "K_LCTRL = 0x1d"
definition K_LSHIFT :: u8 where "K_LSHIFT = 0x2A"
definition K_RSHIFT :: u8 where "K_RSHIFT = 0x36"

definition scancode_map :: "u8 list" where
  "scancode_map = [0, 0, 49, 50, 51, 52, 53, 54, 55, 56, 57, 48, 45, 61, 0, 0, 113, 119, 101, 114, 116, 121, 117, 105, 111, 112,
     91, 93, 0, 0, 97, 115, 100, 102, 103, 104, 106, 107, 108, 59, 39, 96, 0, 92, 122, 120, 99, 118, 98, 110, 109, 44, 46, 47,
     0, 42, 0, 32, 0]"

definition scancode_map_shift :: "u8 list" where
  "scancode_map_shift = [0, 0, 33, 64, 35, 36, 37, 94, 38, 42, 40, 41, 95, 43, 0, 0, 81, 87, 69, 82, 84, 89, 85, 73, 79, 80,
     123, 125, 0, 0, 65, 83, 68, 70, 71, 72, 74, 75, 76, 58, 34, 126, 0, 124, 90, 88, 67, 86, 66, 78, 77, 60, 62, 63,
     0, 42, 0, 32, 0]"

record kbd_ctrl =
  k_shift :: u8
  k_ctrl :: u8
  k_spcl :: u8

definition special_press :: "u8 \<Rightarrow> bool" where
  "special_press scan \<longleftrightarrow> scan = K_S_PGDOWN \<or> scan = K_S_PGUP"

definition tab_at :: "u8 list \<Rightarrow> u8 \<Rightarrow> u8 option" where
  "tab_at tab scan = (if unat scan < length tab then Some (tab ! unat scan) else None)"

text \<open>The \<^verbatim>\<open>switch\<close> and the table look-ups after it; a released key falls through every case.\<close>

definition plain_char :: "u8 \<Rightarrow> bool \<Rightarrow> kbd_ctrl \<Rightarrow> (u8 \<times> kbd_ctrl) option" where
  "plain_char scan press k =
     (if scan = K_LSHIFT \<or> scan = K_RSHIFT then Some (0, k\<lparr>k_shift := of_bool press\<rparr>)
      else if scan = K_LCTRL then Some (0, k\<lparr>k_ctrl := of_bool press\<rparr>)
      else if scan = K_ENTER \<and> press then Some (10, k)
      else if scan = K_BKSPACE \<and> press then Some (8, k)
      else if scan = K_TAB \<and> press then Some (32, k)
      else if \<not> press then Some (0, k)
      else if k_shift k \<noteq> 0 then map_option (\<lambda>c. (c, k)) (tab_at scancode_map_shift scan)
      else if k_ctrl k \<noteq> 0 then map_option (\<lambda>c. (c - 65 + 1, k)) (tab_at scancode_map_shift scan)
      else map_option (\<lambda>c. (c, k)) (tab_at scancode_map scan))"

text \<open>The result, the new modifiers and the characters sent to the terminal.\<close>

definition parse_char :: "u8 \<Rightarrow> kbd_ctrl \<Rightarrow> (u8 \<times> kbd_ctrl \<times> u8 list) option" where
  "parse_char scan0 k =
     (if scan0 = K_SPECIAl then Some (0, k\<lparr>k_spcl := k_spcl k + 1\<rparr>, [])
      else
      let press = (scan0 AND 0x80 = 0); scan = scan0 AND 0x7f in
      if unat scan > length scancode_map \<and> \<not> special_press scan then Some (0, k, [])
      else if k_spcl k \<noteq> 0 then
        let k1 = k\<lparr>k_spcl := 0\<rparr> in
        if \<not> press then Some (0, k1, [])
        else if scan = 0x49 then Some (0, k1, [27, 91, 53, 126])
        else if scan = 0x51 then Some (0, k1, [27, 91, 54, 126])
        else map_option (\<lambda>(c, k2). (c, k2, [])) (plain_char scan press k1)
      else map_option (\<lambda>(c, k2). (c, k2, [])) (plain_char scan press k))"

section \<open>The interrupt handler\<close>

definition key_event :: "u8 \<Rightarrow> kbd_ctrl \<times> tty \<Rightarrow> (kbd_ctrl \<times> tty) option" where
  "key_event scan s =
     (case parse_char scan (fst s) of None \<Rightarrow> None
      | Some (ch, k, outs) \<Rightarrow>
          let t = fold tty_outputc outs (snd s)
          in if ch \<noteq> 0 then map_option (\<lambda>t'. (k, t')) (tty_inputc ch t) else Some (k, t))"

definition kbd_handler :: "'h ports \<Rightarrow> blake2s_ctx \<Rightarrow> u32 \<Rightarrow> ((kbd_ctrl \<times> tty) \<times> u8 list) \<times> 'h \<Rightarrow> (((kbd_ctrl \<times> tty) \<times> u8 list) \<times> 'h) option" where
  "kbd_handler p ctx0 eip = (\<lambda>((s, pool), h).
     Option.bind (insert_ent ctx0 pool eip) (\<lambda>pool'.
       let (scan, h') = run_state (inb p 0x60) h
       in map_option (\<lambda>s'. ((s', pool'), h')) (key_event scan s)))"

fun key_events :: "u8 list \<Rightarrow> kbd_ctrl \<times> tty \<Rightarrow> (kbd_ctrl \<times> tty) option" where
  "key_events [] s = Some s"
| "key_events (x # xs) s = Option.bind (key_event x s) (key_events xs)"

section \<open>The controller\<close>

fun inb_times :: "'h ports \<Rightarrow> u16 \<Rightarrow> nat \<Rightarrow> ('h, unit) state" where
  "inb_times p a 0 = State_Monad.return ()"
| "inb_times p a (Suc n) = do { _ \<leftarrow> inb p a; inb_times p a n }"

text \<open>\<^verbatim>\<open>init_ps2\<close>; \<^const>\<open>False\<close> when the self test fails and the kernel stops.\<close>

definition init_ps2 :: "'h ports \<Rightarrow> ('h, bool) state" where
  "init_ps2 p = do {
     outb p 0x64 0xad; outb p 0x64 0xa7;
     inb_times p 0x60 10;
     outb p 0x64 0x20;
     _ \<leftarrow> inb p 0x60;
     outb p 0x64 0x60; outb p 0x60 0x44;
     outb p 0x64 0xaa;
     ret \<leftarrow> inb p 0x60;
     if ret \<noteq> 0x55 then do { _ \<leftarrow> inb p 0x60; State_Monad.return False }
     else do {
       outb p 0x64 0xae; outb p 0x64 0xa8;
       outb p 0x64 0x60; outb p 0x60 0x45;
       State_Monad.return True } }"

section \<open>\<^verbatim>\<open>kgets\<close>\<close>

text \<open>The characters come from \<^verbatim>\<open>getch\<close>, which waits for each; \<^const>\<open>None\<close>: still waiting.  The
  buffer needs room for \<^verbatim>\<open>siz + 1\<close> bytes.\<close>

definition EOF :: u8 where "EOF = 0x04"

fun kgets :: "nat \<Rightarrow> u8 list \<Rightarrow> u8 list \<Rightarrow> (u8 list \<times> u8 list) option" where
  "kgets siz [] s = None"
| "kgets siz (c # cs) s =
     (if c = 10 \<or> c = EOF then Some (s, cs)
      else if length s \<ge> siz then Some (s, cs)
      else if c \<noteq> 8 then kgets siz cs (s @ [c])
      else kgets siz cs (butlast s))"

lemma kgets_line: "10 \<notin> set l \<Longrightarrow> EOF \<notin> set l \<Longrightarrow> 8 \<notin> set l \<Longrightarrow> length s + length l \<le> siz \<Longrightarrow> kgets siz (l @ 10 # rest) s = Some (s @ l, rest)"
  by (induction l arbitrary: s) auto

section \<open>Typing\<close>

text \<open>A key stroke: the number of a key and whether shift is held.\<close>

type_synonym stroke = "nat \<times> bool"

definition tap :: "nat \<Rightarrow> u8 list" where "tap n = [of_nat n, of_nat n OR 0x80]"

definition stroke_keys :: "stroke \<Rightarrow> u8 list" where
  "stroke_keys = (\<lambda>(n, sh). if sh then K_LSHIFT # tap n @ [K_LSHIFT OR 0x80] else tap n)"

definition stroke_char :: "stroke \<Rightarrow> u8" where
  "stroke_char = (\<lambda>(n, sh). (if sh then scancode_map_shift else scancode_map) ! n)"

definition stroke_ok :: "stroke \<Rightarrow> bool" where
  "stroke_ok x \<longleftrightarrow> fst x < 59 \<and> stroke_char x \<noteq> 0"

definition no_keys :: kbd_ctrl where "no_keys = \<lparr>k_shift = 0, k_ctrl = 0, k_spcl = 0\<rparr>"

lemma tab_len: "length scancode_map = 59" "length scancode_map_shift = 59"
  by (simp_all add: scancode_map_def scancode_map_shift_def)

lemma scan_bits:
  assumes "n < 128"
  shows "(of_nat n :: u8) AND 0x80 = 0" "(of_nat n :: u8) AND 0x7f = of_nat n" "(of_nat n OR 0x80 :: u8) AND 0x80 \<noteq> 0"
    "(of_nat n OR 0x80 :: u8) AND 0x7f = of_nat n"
proof -
  have m: "x AND 0x7f = take_bit 7 x" for x :: u8 by (simp add: take_bit_eq_mask mask_eq_exp_minus_1)
  have t: "take_bit 7 (of_nat n :: u8) = of_nat n" using assms by (simp add: take_bit_of_nat take_bit_nat_eq_self)
  then show l: "(of_nat n :: u8) AND 0x7f = of_nat n" unfolding m .
  have "(of_nat n AND 0x7f :: u8) AND 0x80 = 0" by (simp add: and.assoc)
  then show "(of_nat n :: u8) AND 0x80 = 0" unfolding l .
  have "(of_nat n OR 0x80 :: u8) AND 0x80 = 0x80" by (simp add: bit.conj_disj_distrib2 and.commute or.commute)
  then show "(of_nat n OR 0x80 :: u8) AND 0x80 \<noteq> 0" by simp
  show "(of_nat n OR 0x80 :: u8) AND 0x7f = of_nat n" using l by (simp add: bit.conj_disj_distrib2)
qed

lemma key_no: "n < 128 \<Longrightarrow> (of_nat n :: u8) = c \<longleftrightarrow> n = unat c"
  by (auto simp: word_unat_eq_iff unat_of_nat)

lemma stroke_no_modifier: "stroke_ok (n, sh) \<Longrightarrow> n \<notin> {14, 15, 28, 29, 42, 54}"
  by (auto simp: stroke_ok_def stroke_char_def scancode_map_def scancode_map_shift_def split: if_splits)

lemma press_char:
  assumes "stroke_ok (n, k_shift k \<noteq> 0)" "k_spcl k = 0" "k_ctrl k = 0"
  shows "parse_char (of_nat n) k = Some (stroke_char (n, k_shift k \<noteq> 0), k, [])"
proof -
  have n: "n < 59" using assms(1) by (simp add: stroke_ok_def)
  then have u: "unat (of_nat n :: u8) = n" by (simp add: unat_of_nat)
  have no: "(of_nat n :: u8) \<noteq> K_SPECIAl" "(of_nat n :: u8) \<noteq> K_LSHIFT" "(of_nat n :: u8) \<noteq> K_RSHIFT" "(of_nat n :: u8) \<noteq> K_LCTRL"
    "(of_nat n :: u8) \<noteq> K_ENTER" "(of_nat n :: u8) \<noteq> K_BKSPACE" "(of_nat n :: u8) \<noteq> K_TAB"
    using n stroke_no_modifier [OF assms(1)]
    by (simp_all add: key_no K_SPECIAl_def K_LSHIFT_def K_RSHIFT_def K_LCTRL_def K_ENTER_def K_BKSPACE_def K_TAB_def)
  show ?thesis using n u no assms scan_bits [of n]
    by (simp add: parse_char_def Let_def plain_char_def tab_at_def tab_len stroke_char_def)
qed

lemma release_char:
  assumes "n < 59" "n \<notin> {29, 42, 54}" "k_spcl k = 0"
  shows "parse_char (of_nat n OR 0x80) k = Some (0, k, [])"
proof -
  have sp: "(of_nat n OR 0x80 :: u8) \<noteq> K_SPECIAl"
  proof
    assume "(of_nat n OR 0x80 :: u8) = K_SPECIAl"
    then have "(of_nat n :: u8) = 0x60" using scan_bits(4) [of n] assms(1) by (simp add: K_SPECIAl_def)
    then show False using assms(1) by (simp add: key_no)
  qed
  have no: "(of_nat n :: u8) \<noteq> K_LSHIFT" "(of_nat n :: u8) \<noteq> K_RSHIFT" "(of_nat n :: u8) \<noteq> K_LCTRL"
    using assms by (simp_all add: key_no K_LSHIFT_def K_RSHIFT_def K_LCTRL_def)
  have "unat (of_nat n :: u8) = n" using assms(1) by (simp add: unat_of_nat)
  then show ?thesis using sp no assms scan_bits [of n]
    by (simp add: parse_char_def Let_def plain_char_def tab_len)
qed

lemma shift_keys:
  "parse_char K_LSHIFT no_keys = Some (0, no_keys\<lparr>k_shift := 1\<rparr>, [])"
  "parse_char (K_LSHIFT OR 0x80) (no_keys\<lparr>k_shift := 1\<rparr>) = Some (0, no_keys, [])"
  "parse_char K_ENTER no_keys = Some (10, no_keys, [])" "parse_char (K_ENTER OR 0x80) no_keys = Some (0, no_keys, [])"
  by (simp_all add: parse_char_def plain_char_def no_keys_def tab_len K_LSHIFT_def K_RSHIFT_def K_SPECIAl_def K_LCTRL_def
      K_ENTER_def K_BKSPACE_def K_TAB_def)

lemma key_events_append: "key_events (xs @ ys) s = Option.bind (key_events xs s) (key_events ys)"
proof (induction xs arbitrary: s)
  case (Cons x xs)
  then show ?case by (cases "key_event x s") simp_all
qed simp

lemma tap_event:
  assumes "stroke_ok (n, k_shift k \<noteq> 0)" "k_spcl k = 0" "k_ctrl k = 0"
  shows "key_events (tap n) (k, t) = map_option (Pair k) (tty_inputc (stroke_char (n, k_shift k \<noteq> 0)) t)"
proof -
  have n: "n < 59" "n \<notin> {29, 42, 54}" "stroke_char (n, k_shift k \<noteq> 0) \<noteq> 0"
    using assms(1) stroke_no_modifier [OF assms(1)] by (auto simp: stroke_ok_def)
  show ?thesis using n press_char [OF assms] release_char [OF n(1,2) assms(2)]
    by (cases "tty_inputc (stroke_char (n, k_shift k \<noteq> 0)) t") (simp_all add: tap_def key_event_def)
qed

lemma stroke_event:
  assumes "stroke_ok x"
  shows "key_events (stroke_keys x) (no_keys, t) = map_option (Pair no_keys) (tty_inputc (stroke_char x) t)"
proof (cases "snd x")
  case True
  let ?k = "no_keys\<lparr>k_shift := 1\<rparr>"
  have x: "x = (fst x, True)" using True by (simp add: prod_eq_iff)
  have "key_events (tap (fst x)) (?k, t) = map_option (Pair ?k) (tty_inputc (stroke_char x) t)"
    using tap_event [of "fst x" ?k t] assms x by (simp add: no_keys_def)
  then show ?thesis
    by (subst x, cases "tty_inputc (stroke_char x) t") (simp_all add: stroke_keys_def key_events_append key_event_def shift_keys)
next
  case False
  then have x: "x = (fst x, False)" by (simp add: prod_eq_iff)
  have "stroke_keys x = tap (fst x)" using False by (simp add: stroke_keys_def split_beta)
  then show ?thesis using tap_event [of "fst x" no_keys t] assms x by (simp add: no_keys_def)
qed

lemma strokes_events:
  "\<forall>x\<in>set xs. stroke_ok x \<Longrightarrow>
   key_events (concat (map stroke_keys xs) @ [K_ENTER, K_ENTER OR 0x80]) (no_keys, t) =
     map_option (Pair no_keys) (tty_inputs (map stroke_char xs @ [10]) t)"
proof (induction xs arbitrary: t)
  case Nil
  then show ?case by (cases "tty_inputc 10 t") (simp_all add: key_event_def shift_keys)
next
  case (Cons x xs)
  then show ?case by (cases "tty_inputc (stroke_char x) t") (simp_all add: key_events_append stroke_event)
qed

section \<open>From the keys to the reader\<close>

lemma stroke_range: "stroke_ok x \<Longrightarrow> 32 \<le> unat (stroke_char x) \<and> unat (stroke_char x) < 127"
proof -
  assume x: "stroke_ok x"
  have "list_all (\<lambda>c. c \<noteq> 0 \<longrightarrow> 32 \<le> unat c \<and> unat c < 127) (scancode_map @ scancode_map_shift)" by code_simp
  moreover have "stroke_char x \<in> set (scancode_map @ scancode_map_shift)"
    using x by (auto simp: stroke_ok_def stroke_char_def tab_len split: prod.splits)
  ultimately show ?thesis using x by (auto simp: list_all_iff stroke_ok_def)
qed

lemma default_flags:
  assumes "termios t = termios (alloc_tty True)"
  shows "has (c_iflag (termios t)) ICRNL" "has (c_lflag (termios t)) ICANON" "c_cc (termios t) = ttydefchars"
  by (simp_all add: assms alloc_tty_def has_def TTYDEF_IFLAG_def TTYDEF_LFLAG_def BRKINT_def ISTRIP_def ICRNL_def IMAXBEL_def
      IXON_def IXANY_def ECHO_def ICANON_def ISIG_def IEXTEN_def ECHOE_def ECHOKE_def ECHOCTL_def)

lemma sint_small:
  assumes "unat (c :: u8) < 128"
  shows "sint c = uint c"
proof -
  have "int (unat c) < int 128" using assms by linarith
  then have "uint c < 128" by simp
  moreover have "- 128 \<le> uint c" using uint_ge_0 [of c] by linarith
  ultimately have "signed_take_bit 7 (uint c) = uint c" by (intro signed_take_bit_int_eq_self) simp_all
  then show ?thesis by (simp add: sint_uint)
qed

lemma ldisc_plain:
  assumes "termios t = termios (alloc_tty True)" "32 \<le> unat c" "unat c < 127"
  shows "ldisc t c (q, l) = (q, l @ [c])"
proof -
  have "sint c = uint c" using assms(3) by (intro sint_small) simp
  moreover have "int 32 \<le> int (unat c)" using assms(2) by linarith
  moreover have "c \<noteq> 13" "c \<noteq> 10" using assms(2) by auto
  ultimately show ?thesis using assms(2) default_flags [OF assms(1)]
    by (simp add: ldisc_def Let_def is_cc_def ttydefchars_def VINTR_def VERASE_def VEOF_def)
qed

lemma ldisc_line:
  assumes "termios t = termios (alloc_tty True)" "\<forall>c\<in>set cs. 32 \<le> unat c \<and> unat c < 127"
  shows "fold (ldisc t) cs (q, l) = (q, l @ cs)"
    "length l + length cs < 32 \<Longrightarrow> length q + length l + length cs < 31 \<Longrightarrow> room_all t (cs @ [10]) (q, l)"
proof -
  have nl: "ldisc t 10 (q, l) = (q @ l @ [10], [])" for q l
    using default_flags [OF assms(1)] by (simp add: ldisc_def Let_def is_cc_def ttydefchars_def VINTR_def VERASE_def VEOF_def)
  show "fold (ldisc t) cs (q, l) = (q, l @ cs)" using assms(2)
    by (induction cs arbitrary: l) (simp_all add: ldisc_plain [OF assms(1)])
  show "length l + length cs < 32 \<Longrightarrow> length q + length l + length cs < 31 \<Longrightarrow> room_all t (cs @ [10]) (q, l)" using assms(2)
    by (induction cs arbitrary: l) (simp_all add: room_def ldisc_plain [OF assms(1)] nl)
qed

lemma line_take_line: "10 \<notin> set l \<Longrightarrow> length l < n \<Longrightarrow> line_take True n (l @ 10 # q) = l @ [10]"
proof (induction l arbitrary: n)
  case Nil
  then show ?case by (cases n) simp_all
next
  case (Cons c l)
  then show ?case by (cases n) auto
qed

text \<open>C24. From the keyboard to the reader: on an empty terminal with the default settings, pressing
  and releasing the keys of at most 30 characters (with shift where needed) and Enter leaves the
  keyboard with no modifier pressed, and a \<^verbatim>\<open>read\<close> with room for the line returns exactly the
  characters of the keys and a line feed and empties the terminal.\<close>

theorem typed_line_is_read:
  assumes "\<forall>x\<in>set xs. stroke_ok x" "length xs \<le> 30" "length xs < n"
    and "tty_ok t" "cq t = []" "ln t = []" "termios t = termios (alloc_tty True)"
  shows "\<exists>t' t''. key_events (concat (map stroke_keys xs) @ [K_ENTER, K_ENTER OR 0x80]) (no_keys, t) = Some (no_keys, t') \<and>
    read_tty n (Some t') = (int (length xs + 1), map stroke_char xs @ [10], Some t'') \<and> cq t'' = [] \<and> ln t'' = []"
proof -
  let ?cs = "map stroke_char xs"
  have c: "\<forall>c\<in>set ?cs. 32 \<le> unat c \<and> unat c < 127" using assms(1) stroke_range by auto
  have r: "room_all t (?cs @ [10]) (cq t, ln t)" unfolding assms(5,6) using ldisc_line(2) [OF assms(7) c] assms(2) by simp
  obtain t' where t': "tty_inputs (?cs @ [10]) t = Some t'" "tty_ok t'" "same_ctl t t'" "(cq t', ln t') = fold (ldisc t) (?cs @ [10]) ([], [])"
    using tty_inputs_refine [OF assms(4) r] assms(5,6) by auto
  have "ldisc t 10 ([], ?cs) = (?cs @ [10], [])"
    using default_flags [OF assms(7)] by (simp add: ldisc_def Let_def is_cc_def ttydefchars_def VINTR_def VERASE_def VEOF_def)
  then have q: "cq t' = ?cs @ [10]" "ln t' = []" using t'(4) ldisc_line(1) [OF assms(7) c, of "[]" "[]"] by simp_all
  have "10 \<notin> set ?cs" using c by auto
  then have l: "line_take (has (c_lflag (termios t')) ICANON) n (cq t') = ?cs @ [10]"
    using line_take_line [of ?cs n "[]"] assms(3) q(1) t'(3) default_flags(2) [OF assms(7)] by (simp add: same_ctl_def)
  obtain t'' where "read_loop n t' = (?cs @ [10], t'')" "ln t'' = ln t'" "cq t'' = []"
    using read_loop_correct [OF t'(2), of n, unfolded l] q(1) by auto
  moreover have "\<not> canon_empty t'" using canon.empty_ok t'(2) q(1) by (simp add: tty_ok_def)
  ultimately show ?thesis using strokes_events [OF assms(1), of t] t'(1) q(2) by (simp add: read_tty_def)
qed

text \<open>Typing \<^verbatim>\<open>Hi!\<close> and Enter.\<close>

theorem typed_line_is_read_witness:
  "\<exists>t' t''. key_events (concat (map stroke_keys [(35, True), (23, False), (2, True)]) @ [K_ENTER, K_ENTER OR 0x80]) (no_keys, alloc_tty True)
     = Some (no_keys, t') \<and> read_tty 80 (Some t') = (4, [72, 105, 33, 10], Some t'')"
proof -
  have "tty_ok (alloc_tty True)" "cq (alloc_tty True) = []" "ln (alloc_tty True) = []"
    by (simp_all add: alloc_tty_def tty_ok_def cq_ok_def ring_ok_def cq_def rq_def ln_def)
  moreover have ch: "map stroke_char [(35, True), (23, False), (2, True)] = [72, 105, 33]"
    by (simp add: stroke_char_def scancode_map_def scancode_map_shift_def)
  moreover have "\<forall>x\<in>set [(35, True), (23, False), (2, True)]. stroke_ok x" using ch by (simp add: stroke_ok_def)
  ultimately show ?thesis
    using typed_line_is_read [of "[(35, True), (23, False), (2, True)]" 80 "alloc_tty True"] by auto
qed

end
