(* ===== verification/Sys_Call.thy ===== *)
theory Sys_Call
  imports Vfs_Refs Proc_Sched
begin

text \<open>
  System calls, \<^verbatim>\<open>src/kern/syscall/syscall.c\<close>: the handlers, their table and the dispatcher, over the
  models of the virtual file system and the scheduler.  The
  \<^verbatim>\<open>struct stat\<close> objects that \<^verbatim>\<open>fstat\<close> fills in are a store of their own; the file systems and
  fresh addresses are the parameter \<open>sysenv\<close>.  \<^const>\<open>None\<close> is a fault.
\<close>

section \<open>Handlers\<close>

record sysenv =
  e_ops :: fsops
  e_al :: "icache \<Rightarrow> addr"
  e_alf :: "vfs \<Rightarrow> addr"

record kernel =
  k_mem :: mem
  k_stat :: "addr \<Rightarrow> stat option"
  k_vfs :: vfs
  k_sched :: sched
  sys_rval :: u32

record regs =
  r_eax :: u32
  r_ebx :: u32
  r_ecx :: u32
  r_edx :: u32
  r_esi :: u32
  r_edi :: u32
  r_ebp :: u32

type_synonym syshand = "u32 \<Rightarrow> u32 \<Rightarrow> u32 \<Rightarrow> kernel \<Rightarrow> (u32 \<times> kernel) option"

text \<open>A C string and a buffer in memory.\<close>

definition str_at :: "mem \<Rightarrow> u32 \<Rightarrow> u8 list option" where
  "str_at m p = map_option (\<lambda>n. map (\<lambda>i. m (unat p + i)) [0..<n]) (strlen m (unat p))"

definition buf_at :: "mem \<Rightarrow> u32 \<Rightarrow> u32 \<Rightarrow> u8 list" where
  "buf_at m p n = map (\<lambda>i. m (unat p + i)) [0..<unat n]"

definition store_bytes :: "u32 \<Rightarrow> u8 list \<Rightarrow> mem \<Rightarrow> mem" where
  "store_bytes p bs m = (\<lambda>a. if unat p \<le> a \<and> a < unat p + length bs then bs ! (a - unat p) else m a)"

definition ret_vfs :: "kernel \<Rightarrow> (int \<times> vfs) option \<Rightarrow> (u32 \<times> kernel) option" where
  "ret_vfs k = map_option (\<lambda>(r, v). (of_int r, k\<lparr>k_vfs := v\<rparr>))"

definition ret_data :: "u32 \<Rightarrow> kernel \<Rightarrow> (int \<times> u8 list \<times> vfs) option \<Rightarrow> (u32 \<times> kernel) option" where
  "ret_data p k = map_option (\<lambda>(r, bs, v). (of_int r, k\<lparr>k_vfs := v, k_mem := store_bytes p bs (k_mem k)\<rparr>))"

definition sys_read :: "sysenv \<Rightarrow> syshand" where
  "sys_read e a1 a2 a3 k = ret_data a2 k (fsys_read (e_ops e) (sint a1) (unat a3) (k_vfs k))"

definition sys_write :: "sysenv \<Rightarrow> syshand" where
  "sys_write e a1 a2 a3 k = ret_vfs k (fsys_write (e_ops e) (sint a1) (buf_at (k_mem k) a2 a3) (k_vfs k))"

definition sys_open :: "sysenv \<Rightarrow> syshand" where
  "sys_open e a1 a2 a3 k =
     Option.bind (str_at (k_mem k) a1) (\<lambda>path. ret_vfs k (fsys_open (e_ops e) (e_al e) (e_alf e) path a2 (k_vfs k)))"

definition sys_close :: "sysenv \<Rightarrow> syshand" where
  "sys_close e a1 a2 a3 k = ret_vfs k (fsys_close (e_ops e) (sint a1) (k_vfs k))"

definition sys_chdir :: "sysenv \<Rightarrow> syshand" where
  "sys_chdir e a1 a2 a3 k =
     (if a1 = 0 then ret_vfs k (fsys_chdir (e_ops e) (e_al e) None (k_vfs k))
      else Option.bind (str_at (k_mem k) a1) (\<lambda>path. ret_vfs k (fsys_chdir (e_ops e) (e_al e) (Some path) (k_vfs k))))"

definition sys_mkdir :: "sysenv \<Rightarrow> syshand" where
  "sys_mkdir e a1 a2 a3 k =
     Option.bind (str_at (k_mem k) a1) (\<lambda>path. ret_vfs k (Some (fsys_mkdir path a2 (k_vfs k))))"

definition sys_unlink :: "sysenv \<Rightarrow> syshand" where
  "sys_unlink e a1 a2 a3 k =
     Option.bind (str_at (k_mem k) a1) (\<lambda>path. ret_vfs k (fsys_unlink (e_ops e) (e_al e) path (k_vfs k)))"

definition sys_yield :: "sysenv \<Rightarrow> syshand" where
  "sys_yield e a1 a2 a3 k = map_option (\<lambda>s. (0, k\<lparr>k_sched := s\<rparr>)) (schedule (k_sched k))"

definition sys_ioctl :: "sysenv \<Rightarrow> syshand" where
  "sys_ioctl e a1 a2 a3 k = map_option (\<lambda>r. (of_int r, k)) (fsys_ioctl (e_ops e) (sint a1) a2 (unat a3) (k_vfs k))"

definition sys_dup :: "sysenv \<Rightarrow> syshand" where
  "sys_dup e a1 a2 a3 k = ret_vfs k (fsys_dup (e_ops e) (sint a1) (k_vfs k))"

definition sys_dup2 :: "sysenv \<Rightarrow> syshand" where
  "sys_dup2 e a1 a2 a3 k = ret_vfs k (fsys_dup2 (e_ops e) (sint a1) (sint a2) (k_vfs k))"

definition sys_fstat :: "sysenv \<Rightarrow> syshand" where
  "sys_fstat e a1 a2 a3 k = map_option (\<lambda>(r, st). (of_int r,
     case st of None \<Rightarrow> k | Some x \<Rightarrow> k\<lparr>k_stat := (k_stat k)(unat a2 := Some x)\<rparr>)) (fsys_fstat (sint a1) (k_vfs k))"

definition sys_getdents :: "sysenv \<Rightarrow> syshand" where
  "sys_getdents e a1 a2 a3 k = ret_data a2 k (fsys_getdents (e_ops e) (sint a1) (unat a3) (k_vfs k))"

section \<open>The dispatcher\<close>

definition NSYS :: nat where "NSYS = 50"

definition systab :: "sysenv \<Rightarrow> syshand option list" where
  "systab e = [None, None, None, Some (sys_read e), Some (sys_write e), Some (sys_open e), Some (sys_close e), None, Some (sys_yield e),
     Some (sys_chdir e), Some (sys_mkdir e), Some (sys_unlink e), None, None, None, Some (sys_ioctl e), Some (sys_dup e),
     Some (sys_dup2 e), Some (sys_fstat e), Some (sys_getdents e)] @ replicate (NSYS - 20) None"

datatype sysres = Returned kernel | Halted

text \<open>The entry is read before the number is tested.\<close>

definition sys_hand :: "sysenv \<Rightarrow> regs \<Rightarrow> kernel \<Rightarrow> sysres option" where
  "sys_hand e r k =
     (if unat (r_eax r) \<ge> length (systab e) then None
      else case systab e ! unat (r_eax r) of
        Some h \<Rightarrow> if push_bit 2 (r_eax r) \<le> of_nat (4 * NSYS)
                  then map_option (\<lambda>(v, k'). Returned (k'\<lparr>sys_rval := v\<rparr>)) (h (r_ebx r) (r_ecx r) (r_edx r) k)
                  else Some Halted
      | None \<Rightarrow> Some Halted)"

section \<open>Every call keeps the table of open files\<close>

definition env_ok :: "sysenv \<Rightarrow> bool" where
  "env_ok e \<longleftrightarrow> fs_driver (e_ops e) \<and> fresh_alloc (e_al e) \<and> (\<forall>w. e_alf e w \<noteq> NULL \<and> e_alf e w \<notin> open_files w)"

definition root_ok :: "vfs \<Rightarrow> bool" where
  "root_ok v \<longleftrightarrow> root_mnt v \<noteq> NULL \<and> i_sb (inodes (ic v) (s_root (supers (ic v) (mnt_sb (ic v) (root_mnt v))))) \<noteq> NULL"

text \<open>At most one reference is lost.\<close>

definition kept :: "vfs \<Rightarrow> addr multiset \<Rightarrow> bool" where
  "kept v X \<longleftrightarrow> vfs_inv v X \<or> (\<exists>b. vfs_inv v (add_mset b X))"

lemma vfs_inv_cong: "ic w = ic v \<Longrightarrow> files w = files v \<Longrightarrow> ofile w = ofile v \<Longrightarrow> vfs_inv w X = vfs_inv v X"
  by (simp add: vfs_inv_def open_files_def file_refs_def)

lemma lookup_kept:
  assumes inv: "vfs_inv v X" and al: "fresh_alloc al" and rt: "root_ok v" and X: "size X + 6 < 2 ^ 16 - 1"
    and lk: "lookup_vfs_i ops al (root_mnt v) pth (ic v) = Some (a, s)"
  shows "\<exists>b. vfs_inv (v\<lparr>ic := s\<rparr>) (add_mset b X)" "a \<noteq> NULL \<Longrightarrow> vfs_inv (v\<lparr>ic := iput a s\<rparr>) X"
proof -
  have len: "length (ofile v) = 5" and i: "iref_inv (ic v) (file_refs v + X)" using inv by (auto simp: vfs_inv_def)
  have "size (file_refs v + X) + 1 < 2 ^ 16 - 1" using file_refs_size [OF len] X by simp
  from lookup_refs [OF al i this, of "root_mnt v" ops pth] rt lk obtain b where
    b: "iref_inv s (add_mset b (file_refs v + X))" "a = NULL \<or> a = b" by (auto simp: root_ok_def)
  show "\<exists>b. vfs_inv (v\<lparr>ic := s\<rparr>) (add_mset b X)"
    using inv b(1) by (intro exI [of _ b]) (simp add: vfs_inv_def file_refs_def open_files_def)
  show "vfs_inv (v\<lparr>ic := iput a s\<rparr>) X" if "a \<noteq> NULL"
    using inv iref_put [OF b(1), of b] b(2) that by (simp add: vfs_inv_def file_refs_def open_files_def)
qed

lemma open_kept:
  assumes "vfs_inv v X" "env_ok e" "root_ok v" "size X + 6 < 2 ^ 16 - 1"
    and r: "fsys_open (e_ops e) (e_al e) (e_alf e) path flags v = Some (r, v')"
  shows "kept v' X"
proof (cases "\<exists>pth. path_canon (Some (cwd v)) (Some path) = Some (Some pth)")
  case True
  then obtain pth where "path_canon (Some (cwd v)) (Some path) = Some (Some pth)" by blast
  from fs_driver.open_inv [OF _ assms(1) _ _ assms(4) _ _ this, of "e_ops e" "e_al e" "e_alf e" flags] assms(2,3) r
  show ?thesis by (auto simp: env_ok_def root_ok_def kept_def)
next
  case False
  then have "lookup_vfs (e_ops e) (e_al e) v path = None" by (auto simp: lookup_vfs_def lookup_vfs_r_def split: option.split)
  then show ?thesis using r assms(1) by (auto simp: fsys_open_def kept_def split: if_splits)
qed

lemma chdir_kept:
  assumes "vfs_inv v X" "fresh_alloc al" "root_ok v" "size X + 6 < 2 ^ 16 - 1" "fsys_chdir ops al path v = Some (r, v')"
  shows "kept v' X"
proof (cases path)
  case None
  then show ?thesis using assms by (auto simp: fsys_chdir_def kept_def)
next
  case (Some pa)
  then obtain a pth v1 where l: "lookup_vfs_r ops al v pa = Some (a, pth, v1)" using assms(5) by (auto simp: fsys_chdir_def bind_eq_Some_conv)
  then obtain s where s: "lookup_vfs_i ops al (root_mnt v) pth (ic v) = Some (a, s)" "v1 = v\<lparr>ic := s\<rparr>"
    by (auto simp: lookup_vfs_r_def split: option.splits)
  note k = lookup_kept [OF assms(1-4) s(1)]
  have "vfs_inv (v\<lparr>cwd := pth, ic := iput a s\<rparr>) X" if "a \<noteq> NULL"
    using k(2) [OF that] vfs_inv_cong [of "v\<lparr>cwd := pth, ic := iput a s\<rparr>" "v\<lparr>ic := iput a s\<rparr>"] by simp
  then show ?thesis using k(1) assms(5) Some l s(2) by (auto simp: fsys_chdir_def kept_def split: if_splits)
qed

lemma unlink_kept:
  assumes "vfs_inv v X" "fresh_alloc al" "root_ok v" "size X + 6 < 2 ^ 16 - 1" "fsys_unlink ops al path v = Some (r, v')"
  shows "kept v' X"
proof -
  obtain a nam v1 where l: "look_bs ops al v path = Some (a, nam, v1)" using assms(5) by (auto simp: fsys_unlink_def bind_eq_Some_conv)
  then obtain pth s where s: "lookup_vfs_i ops al (root_mnt v) pth (ic v) = Some (a, s)" "v1 = v\<lparr>ic := s\<rparr>"
    by (auto simp: look_bs_def bind_eq_Some_conv)
  show ?thesis using lookup_kept [OF assms(1-4) s(1)] assms(5) l s(2) by (auto simp: fsys_unlink_def kept_def split: if_splits)
qed

lemma close_kept: "vfs_inv v X \<Longrightarrow> fsys_close ops fd v = Some (r, v') \<Longrightarrow> kept v' X"
proof (cases "0 \<le> fd \<and> fd < 5")
  case True
  assume "vfs_inv v X" "fsys_close ops fd v = Some (r, v')"
  then show ?thesis using fsys_close_inv [of v X fd ops] True by (auto simp: kept_def)
next
  case False
  assume "vfs_inv v X" "fsys_close ops fd v = Some (r, v')"
  then show ?thesis using False by (auto simp: fsys_close_def fd_get_def NOFILE_def kept_def split: if_splits)
qed

lemma dup2_kept:
  assumes inv: "vfs_inv v X" and ne: "new \<noteq> old" and r: "fsys_dup2 ops old new v = Some (r, v')"
  shows "kept v' X"
proof -
  have len: "length (ofile v) = 5" using inv by (simp add: vfs_inv_def)
  have out: "check_fd v fd = (if fd > 5 then Some (- EBADF, NULL) else None)" if "\<not> (0 \<le> fd \<and> fd < 5)" for fd
    using that len by (auto simp: check_fd_def NOFILE_def fd_get_def)
  have old: "kept v' X" if "\<not> (0 \<le> old \<and> old < 5)"
    using r out [OF that] inv by (auto simp: fsys_dup2_def kept_def EBADF_def split: if_splits)
  have "kept v' X" if o: "0 \<le> old" "old < 5"
  proof (cases "ofile v ! nat old = NULL")
    case True
    then show ?thesis using r check_fd_inv [OF inv o] inv by (simp add: fsys_dup2_def kept_def EBADF_def)
  next
    case False
    have "0 \<le> new \<and> new < 5"
    proof (rule ccontr)
      assume n: "\<not> (0 \<le> new \<and> new < 5)"
      then show False using r check_fd_inv [OF inv o] False out [OF n] len
        by (auto simp: fsys_dup2_def EBADF_def fd_set_def Let_def split: if_splits)
    qed
    then show ?thesis using fsys_dup2_inv [OF inv o False, of new ops] ne r by (auto simp: kept_def)
  qed
  then show ?thesis using old by blast
qed

lemma dup_kept:
  assumes inv: "vfs_inv v X" and r: "fsys_dup ops old v = Some (r, v')"
  shows "kept v' X"
proof (cases "findfreefd v = - 1")
  case True
  then show ?thesis using assms by (auto simp: fsys_dup_def kept_def)
next
  case False
  then obtain n where n: "n < 5" "findfreefd v = int n" "ofile v ! n = NULL" using findfreefd_spec [OF inv] by auto
  obtain r' where d: "fsys_dup2 ops old (int n) v = Some (r', v')" using r n(2) by (auto simp: fsys_dup_def Let_def)
  show ?thesis
  proof (cases "old = int n")
    case True
    then show ?thesis using d check_fd_inv [OF inv, of "int n"] n inv by (auto simp: fsys_dup2_def kept_def EBADF_def)
  next
    case False
    then show ?thesis using dup2_kept [OF inv _ d] by simp
  qed
qed

section \<open>Dispatch\<close>

lemmas sys_defs = sys_read_def sys_write_def sys_open_def sys_close_def sys_chdir_def sys_mkdir_def sys_unlink_def sys_yield_def
  sys_ioctl_def sys_dup_def sys_dup2_def sys_fstat_def sys_getdents_def ret_vfs_def ret_data_def bind_eq_Some_conv

lemma systab_entry:
  assumes "n < length (systab e)" "systab e ! n = Some h"
  shows "n = 3 \<and> h = sys_read e \<or> n = 4 \<and> h = sys_write e \<or> n = 5 \<and> h = sys_open e \<or> n = 6 \<and> h = sys_close e \<or>
    n = 8 \<and> h = sys_yield e \<or> n = 9 \<and> h = sys_chdir e \<or> n = 10 \<and> h = sys_mkdir e \<or> n = 11 \<and> h = sys_unlink e \<or>
    n = 15 \<and> h = sys_ioctl e \<or> n = 16 \<and> h = sys_dup e \<or> n = 17 \<and> h = sys_dup2 e \<or> n = 18 \<and> h = sys_fstat e \<or>
    n = 19 \<and> h = sys_getdents e"
proof -
  have "n < 20"
  proof (rule ccontr)
    assume "\<not> n < 20"
    then have "systab e ! n = None" using assms(1) by (simp add: systab_def NSYS_def nth_append)
    then show False using assms(2) by simp
  qed
  then have "n \<in> {0, 1, 2, 3, 4, 5, 6, 7, 8, 9, 10, 11, 12, 13, 14, 15, 16, 17, 18, 19}" by simp arith
  then show ?thesis using assms(2) by (elim insertE emptyE; simp add: systab_def)
qed

lemma handler_keeps:
  assumes inv: "vfs_inv (k_vfs k) X" "env_ok e" "root_ok (k_vfs k)" "size X + 6 < 2 ^ 16 - 1"
    and n: "n < length (systab e)" "systab e ! n = Some h" "n = 17 \<longrightarrow> a1 \<noteq> a2" and r: "h a1 a2 a3 k = Some (v, k')"
  shows "kept (k_vfs k') X \<and> (n \<noteq> 8 \<longrightarrow> k_sched k' = k_sched k) \<and> (n = 8 \<longrightarrow> k_vfs k' = k_vfs k \<and> schedule (k_sched k) = Some (k_sched k'))"
proof -
  have drv: "fs_driver (e_ops e)" and al: "fresh_alloc (e_al e)" using inv(2) by (auto simp: env_ok_def)
  note rd = fs_driver.read_inv [OF drv inv(1)] fs_driver.write_inv [OF drv inv(1)] fs_driver.getdents_inv [OF drv inv(1)]
  note op = open_kept [OF inv] chdir_kept [OF inv(1) al inv(3,4)] unlink_kept [OF inv(1) al inv(3,4)]
    close_kept [OF inv(1)] dup_kept [OF inv(1)]
  have same: "kept (k_vfs k) X" using inv(1) by (simp add: kept_def)
  from systab_entry [OF n(1,2)] show ?thesis
  proof (elim disjE conjE)
    assume "n = 3" "h = sys_read e"
    then show ?thesis using r rd(1) by (auto simp: sys_defs kept_def)
  next
    assume "n = 4" "h = sys_write e"
    then show ?thesis using r rd(2) by (auto simp: sys_defs kept_def)
  next
    assume "n = 5" "h = sys_open e"
    then show ?thesis using r op(1) by (auto simp: sys_defs)
  next
    assume "n = 6" "h = sys_close e"
    then show ?thesis using r op(4) by (auto simp: sys_defs)
  next
    assume "n = 8" "h = sys_yield e"
    then show ?thesis using r same by (auto simp: sys_defs)
  next
    assume "n = 9" "h = sys_chdir e"
    then show ?thesis using r op(2) by (auto simp: sys_defs split: if_splits)
  next
    assume "n = 10" "h = sys_mkdir e"
    then show ?thesis using r same by (auto simp: sys_defs fsys_mkdir_def)
  next
    assume "n = 11" "h = sys_unlink e"
    then show ?thesis using r op(3) by (auto simp: sys_defs)
  next
    assume "n = 15" "h = sys_ioctl e"
    then show ?thesis using r same by (auto simp: sys_defs)
  next
    assume "n = 16" "h = sys_dup e"
    then show ?thesis using r op(5) by (auto simp: sys_defs)
  next
    assume d: "n = 17" "h = sys_dup2 e"
    then have "sint a2 \<noteq> sint a1" using n(3) by (metis signed_word_eqI)
    then show ?thesis using r d dup2_kept [OF inv(1)] by (auto simp: sys_defs)
  next
    assume "n = 18" "h = sys_fstat e"
    then show ?thesis using r same by (auto simp: sys_defs split: option.splits)
  next
    assume "n = 19" "h = sys_getdents e"
    then show ?thesis using r rd(3) by (auto simp: sys_defs kept_def)
  qed
qed

text \<open>A call on a descriptor within the table never faults.\<close>

lemma fd_calls_return:
  assumes inv: "vfs_inv (k_vfs k) X" and fd: "0 \<le> sint a1" "sint a1 < 5"
    and n: "n \<in> {3, 4, 6, 15, 16, 18, 19}" "systab e ! n = Some h"
  shows "h a1 a2 a3 k \<noteq> None"
proof -
  let ?v = "k_vfs k" and ?fd = "sint a1"
  have g: "fd_get ?v ?fd = Some (ofile ?v ! nat ?fd)" by (rule vfs_fd(1) [OF inv fd])
  note c = check_fd_inv [OF inv fd]
  have sb: "i_sb (inodes (ic ?v) (f_inode (files ?v (ofile ?v ! nat ?fd)))) \<noteq> NULL" if "ofile ?v ! nat ?fd \<noteq> NULL"
  proof -
    have "ofile ?v ! nat ?fd \<in> open_files ?v" by (rule vfs_fd(3) [OF inv fd that])
    then have "f_inode (files ?v (ofile ?v ! nat ?fd)) \<in># file_refs ?v + X"
      using finite_open [of ?v] by (auto simp: file_refs_def)
    then show ?thesis using iref_held inv by (auto simp: vfs_inv_def)
  qed
  have rw: "fsys_read ops ?fd m ?v \<noteq> None" "fsys_write ops ?fd bs ?v \<noteq> None" "fsys_ioctl ops ?fd opc arg ?v \<noteq> None"
    "fsys_fstat ?fd ?v \<noteq> None" "fsys_getdents ops ?fd m ?v \<noteq> None" for ops m bs opc arg
    using g c sb by (auto simp: fsys_read_def fsys_write_def fsys_ioctl_def fsys_fstat_def fsys_getdents_def Let_def split_beta
        split: if_splits option.splits)
  have cl: "fsys_close ops ?fd ?v \<noteq> None" for ops using fsys_close_inv [OF inv fd, of ops] by auto
  have du: "fsys_dup ops ?fd ?v \<noteq> None" for ops
  proof (cases "ofile ?v ! nat ?fd = NULL \<or> findfreefd ?v = - 1")
    case True
    then show ?thesis using c by (auto simp: fsys_dup_def Let_def fsys_dup2_def EBADF_def)
  next
    case False
    then obtain m where "m < 5" "findfreefd ?v = int m" "ofile ?v ! m = NULL" using findfreefd_spec [OF inv] by auto
    moreover from this have "int m \<noteq> ?fd" using False by (metis nat_int)
    ultimately show ?thesis using fsys_dup2_inv [OF inv fd, of "int m" ops] False by (auto simp: fsys_dup_def Let_def)
  qed
  show ?thesis using n rw cl du by (elim insertE emptyE) (auto simp: systab_def sys_defs)
qed

text \<open>C10. System calls keep the kernel consistent: whatever a process asks for (except
  \<^verbatim>\<open>dup2(fd, fd)\<close>), when the dispatcher returns, every open file's count is still the number of descriptors that name
  it and every cached inode's count the number of references, of which at most one has been
  lost; the scheduler's invariant holds, and only \<^verbatim>\<open>sched_yield\<close> reschedules.  Numbers without
  a handler stop the kernel; numbers from 50 on read past the table.  A call on a descriptor
  from 0 to 4 always returns.\<close>

theorem syscalls_keep_invariants:
  assumes "vfs_inv (k_vfs k) X" "sched_inv (k_sched k)" "env_ok e" "root_ok (k_vfs k)" "size X + 6 < 2 ^ 16 - 1"
    and "r_eax r = 17 \<longrightarrow> r_ebx r \<noteq> r_ecx r"
  shows "case sys_hand e r k of
      None \<Rightarrow> \<not> (r_eax r \<in> {3, 4, 6, 15, 16, 18, 19} \<and> 0 \<le> sint (r_ebx r) \<and> sint (r_ebx r) < 5)
    | Some Halted \<Rightarrow> unat (r_eax r) < NSYS \<and> systab e ! unat (r_eax r) = None
    | Some (Returned k') \<Rightarrow> unat (r_eax r) < NSYS \<and> kept (k_vfs k') X \<and> sched_inv (k_sched k') \<and>
        (k_sched k' \<noteq> k_sched k \<longrightarrow> r_eax r = 8)"
proof -
  let ?n = "unat (r_eax r)"
  have len: "length (systab e) = NSYS" by (simp add: systab_def NSYS_def)
  have nr: "r_eax r = 17 \<longleftrightarrow> ?n = 17" "r_eax r = 8 \<longleftrightarrow> ?n = 8" by (simp_all add: word_unat_eq_iff)
  show ?thesis
  proof (cases "?n < NSYS")
    case True
    have sh: "push_bit 2 (r_eax r) \<le> of_nat (4 * NSYS)"
    proof -
      have "unat (push_bit 2 (r_eax r)) = ?n * 4" using True by (simp add: push_bit_eq_mult unat_word_ariths NSYS_def)
      then show ?thesis using True by (simp add: word_le_nat_alt NSYS_def)
    qed
    show ?thesis
    proof (cases "systab e ! ?n")
      case None
      then show ?thesis using True len by (simp add: sys_hand_def)
    next
      case (Some h)
      show ?thesis
      proof (cases "h (r_ebx r) (r_ecx r) (r_edx r) k")
        case None
        then have "\<not> (?n \<in> {3, 4, 6, 15, 16, 18, 19} \<and> 0 \<le> sint (r_ebx r) \<and> sint (r_ebx r) < 5)"
          using fd_calls_return [OF assms(1) _ _ _ Some] by blast
        then show ?thesis using Some True len sh None by (auto simp: sys_hand_def word_unat_eq_iff)
      next
        case res: (Some x)
        obtain v k' where x: "x = (v, k')" by fastforce
        have "kept (k_vfs k') X \<and> (?n \<noteq> 8 \<longrightarrow> k_sched k' = k_sched k) \<and>
            (?n = 8 \<longrightarrow> k_vfs k' = k_vfs k \<and> schedule (k_sched k) = Some (k_sched k'))"
          using handler_keeps [OF assms(1,3-5) _ Some _ res [unfolded x]] True len assms(6) nr by simp
        moreover from this have "sched_inv (k_sched k')"
          using assms(2) sched_step_inv [OF sched_step.yield] by (cases "?n = 8") auto
        ultimately show ?thesis using Some True len sh res x nr(2) by (auto simp: sys_hand_def)
      qed
    qed
  next
    case False
    then show ?thesis using len by (auto simp: sys_hand_def NSYS_def)
  qed
qed

text \<open>Closing descriptor 0 of a process with one open file.\<close>

theorem syscalls_keep_invariants_witness:
  "\<exists>s. init_root_proc (boot_sched 0 no_proc) = Some s \<and>
     (\<exists>k'. sys_hand \<lparr>e_ops = no_ops, e_al = sample_al, e_alf = sample_alf\<rparr>
        \<lparr>r_eax = 6, r_ebx = 0, r_ecx = 0, r_edx = 0, r_esi = 0, r_edi = 0, r_ebp = 0\<rparr>
        \<lparr>k_mem = (\<lambda>_. 0), k_stat = (\<lambda>_. None), k_vfs = sample_vfs, k_sched = s, sys_rval = 0\<rparr> = Some (Returned k') \<and> kept (k_vfs k') {#})"
proof -
  obtain s where s: "init_root_proc (boot_sched 0 no_proc) = Some s" "sched_inv s" using boot_sched_inv by blast
  let ?e = "\<lparr>e_ops = no_ops, e_al = sample_al, e_alf = sample_alf\<rparr>"
  let ?r = "\<lparr>r_eax = 6, r_ebx = 0, r_ecx = 0, r_edx = 0, r_esi = 0, r_edi = 0, r_ebp = 0\<rparr>"
  let ?k = "\<lparr>k_mem = (\<lambda>_. 0), k_stat = (\<lambda>_. None), k_vfs = sample_vfs, k_sched = s, sys_rval = 0\<rparr>"
  have "env_ok ?e" "root_ok (k_vfs ?k)" "vfs_inv (k_vfs ?k) {#}" "sched_inv (k_sched ?k)"
    using no_ops_driver sample_al_fresh sample_alf_fresh sample_root sample_vfs_inv s(2) by (simp_all add: env_ok_def root_ok_def)
  from syscalls_keep_invariants [OF this(3,4,1,2), of ?r]
  have "case sys_hand ?e ?r ?k of None \<Rightarrow> False | Some Halted \<Rightarrow> systab ?e ! 6 = None | Some (Returned k') \<Rightarrow> kept (k_vfs k') {#}"
    by (auto split: option.splits sysres.splits)
  then show ?thesis using s(1) by (auto simp: systab_def split: option.splits sysres.splits)
qed

end
