(* ===== verification/Sys_Wrap.thy ===== *)
theory Sys_Wrap
  imports Sys_Call
begin

text \<open>
  The library side of system calls: \<^verbatim>\<open>syscall\<close> (\<^verbatim>\<open>syscall/sysc.asm\<close>), which traps into the dispatcher and turns a negative
  result into \<^verbatim>\<open>-1\<close> and \<^verbatim>\<open>errno\<close>, the wrappers (\<^verbatim>\<open>syscall/sys_wrap.c\<close>), and the error messages
  (\<^verbatim>\<open>lib/errno.c\<close>).
\<close>

section \<open>Error messages\<close>

definition estr :: "string list" where
  "estr =
    [''ok'', ''Operation not permitted'', ''No such file or directory'', ''No such process'', ''Interrupted system call'',
     ''Input/output error'', ''No such device or address'', ''Argument list too long'', ''Exec format error'',
     ''Bad file descriptor'', ''No child processes'', ''Resource temporarily unavailable'', ''Cannot allocate memory'',
     ''Permission denied'', ''Bad address'', ''Block device required'', ''Device or resource busy'', ''File exists'',
     ''Invalid cross-device link'', ''No such device'', ''Not a directory'', ''Is a directory'', ''Invalid argument'',
     ''Too many open files in system'', ''Too many open files'', ''Inappropriate ioctl for device'', ''Text file busy'',
     ''File too large'', ''No space left on device'', ''Illegal seek'', ''Read-only file system'', ''Too many links'',
     ''Broken pipe'', ''Numerical argument out of domain'', ''Numerical result out of range'',
     ''Resource deadlock avoided'', ''File name too long'', ''No locks available'', ''Function not implemented'',
     ''Directory not empty'']"

definition strerror :: "u32 \<Rightarrow> string option" where
  "strerror err = (if unat err < length estr then Some (estr ! unat err) else None)"

text \<open>\<^verbatim>\<open>perror\<close>: what is printed; a number without a message prints as nothing (the formatter skips a null string).\<close>

definition perror :: "string \<Rightarrow> u32 \<Rightarrow> string" where
  "perror s errno =
     (if s = [] then [] else s @ '': '' @ (case strerror errno of Some t \<Rightarrow> t | None \<Rightarrow> []) @ [CHR 0x0A])"

section \<open>The trap\<close>

record user =
  u_errno :: u32
  u_k :: kernel

text \<open>A call comes back with a value, or the kernel stops.\<close>

datatype outcome = Stopped | Back int user

definition syscall :: "sysenv \<Rightarrow> u32 \<Rightarrow> u32 \<Rightarrow> u32 \<Rightarrow> u32 \<Rightarrow> user \<Rightarrow> outcome option" where
  "syscall e nr a b c u =
    (case sys_hand e \<lparr>r_eax = nr, r_ebx = a, r_ecx = b, r_edx = c, r_esi = 0, r_edi = 0, r_ebp = 0\<rparr> (u_k u) of
       None \<Rightarrow> None
     | Some Halted \<Rightarrow> Some Stopped
     | Some (Returned k) \<Rightarrow>
         let eax = sys_rval k in
         Some (if sint eax < 0 then Back (- 1) \<lparr>u_errno = - eax, u_k = k\<rparr>
               else Back (sint eax) \<lparr>u_errno = u_errno u, u_k = k\<rparr>))"

section \<open>The wrappers\<close>

definition SYS_RSYS :: u32 where "SYS_RSYS = 0"
definition SYS_EXIT :: u32 where "SYS_EXIT = 1"
definition SYS_FORK :: u32 where "SYS_FORK = 2"
definition SYS_READ :: u32 where "SYS_READ = 3"
definition SYS_WRITE :: u32 where "SYS_WRITE = 4"
definition SYS_OPEN :: u32 where "SYS_OPEN = 5"
definition SYS_CLOSE :: u32 where "SYS_CLOSE = 6"
definition SYS_WAITPID :: u32 where "SYS_WAITPID = 7"
definition SYS_YIELD :: u32 where "SYS_YIELD = 8"
definition SYS_CHDIR :: u32 where "SYS_CHDIR = 9"
definition SYS_MKDIR :: u32 where "SYS_MKDIR = 10"
definition SYS_UNLINK :: u32 where "SYS_UNLINK = 11"
definition SYS_PIPE :: u32 where "SYS_PIPE = 14"
definition SYS_IOCTL :: u32 where "SYS_IOCTL = 15"
definition SYS_DUP :: u32 where "SYS_DUP = 16"
definition SYS_DUP2 :: u32 where "SYS_DUP2 = 17"
definition SYS_FSTAT :: u32 where "SYS_FSTAT = 18"
definition SYS_GETDENTS :: u32 where "SYS_GETDENTS = 19"

lemmas sys_nrs = SYS_RSYS_def SYS_EXIT_def SYS_FORK_def SYS_READ_def SYS_WRITE_def SYS_OPEN_def SYS_CLOSE_def SYS_WAITPID_def
  SYS_YIELD_def SYS_CHDIR_def SYS_MKDIR_def SYS_UNLINK_def SYS_PIPE_def SYS_IOCTL_def SYS_DUP_def SYS_DUP2_def SYS_FSTAT_def
  SYS_GETDENTS_def

definition w_restart_syscall :: "sysenv \<Rightarrow> user \<Rightarrow> outcome option" where
  "w_restart_syscall e = syscall e SYS_RSYS 0 0 0"
definition w_exit :: "sysenv \<Rightarrow> u32 \<Rightarrow> user \<Rightarrow> outcome option" where
  "w_exit e status = syscall e SYS_EXIT status 0 0"
definition w_fork :: "sysenv \<Rightarrow> user \<Rightarrow> outcome option" where
  "w_fork e = syscall e SYS_FORK 0 0 0"
definition w_read :: "sysenv \<Rightarrow> u32 \<Rightarrow> u32 \<Rightarrow> u32 \<Rightarrow> user \<Rightarrow> outcome option" where
  "w_read e fd buf n u = (if n = 0 then Some (Back 0 u) else syscall e SYS_READ fd buf n u)"
definition w_write :: "sysenv \<Rightarrow> u32 \<Rightarrow> u32 \<Rightarrow> u32 \<Rightarrow> user \<Rightarrow> outcome option" where
  "w_write e fd buf n u = (if n = 0 then Some (Back 0 u) else syscall e SYS_WRITE fd buf n u)"
definition w_open :: "sysenv \<Rightarrow> u32 \<Rightarrow> u32 \<Rightarrow> user \<Rightarrow> outcome option" where
  "w_open e path flags = syscall e SYS_OPEN path flags 0"
definition w_close :: "sysenv \<Rightarrow> u32 \<Rightarrow> user \<Rightarrow> outcome option" where
  "w_close e fd = syscall e SYS_CLOSE fd 0 0"
definition w_waitpid :: "sysenv \<Rightarrow> u32 \<Rightarrow> u32 \<Rightarrow> u32 \<Rightarrow> user \<Rightarrow> outcome option" where
  "w_waitpid e pid st opts = syscall e SYS_WAITPID pid st opts"
definition w_sched_yield :: "sysenv \<Rightarrow> user \<Rightarrow> outcome option" where
  "w_sched_yield e = syscall e SYS_YIELD 0 0 0"
definition w_chdir :: "sysenv \<Rightarrow> u32 \<Rightarrow> user \<Rightarrow> outcome option" where
  "w_chdir e path = syscall e SYS_CHDIR path 0 0"
definition w_mkdir :: "sysenv \<Rightarrow> u32 \<Rightarrow> u32 \<Rightarrow> user \<Rightarrow> outcome option" where
  "w_mkdir e path mode = syscall e SYS_MKDIR path mode 0"
definition w_unlink :: "sysenv \<Rightarrow> u32 \<Rightarrow> user \<Rightarrow> outcome option" where
  "w_unlink e path = syscall e SYS_UNLINK path 0 0"
definition w_pipe :: "sysenv \<Rightarrow> u32 \<Rightarrow> user \<Rightarrow> outcome option" where
  "w_pipe e fds = syscall e SYS_PIPE fds 0 0"
definition w_ioctl :: "sysenv \<Rightarrow> u32 \<Rightarrow> u32 \<Rightarrow> u32 \<Rightarrow> user \<Rightarrow> outcome option" where
  "w_ioctl e fd opc arg = syscall e SYS_IOCTL fd opc arg"
definition w_dup :: "sysenv \<Rightarrow> u32 \<Rightarrow> user \<Rightarrow> outcome option" where
  "w_dup e fd = syscall e SYS_DUP fd 0 0"
definition w_dup2 :: "sysenv \<Rightarrow> u32 \<Rightarrow> u32 \<Rightarrow> user \<Rightarrow> outcome option" where
  "w_dup2 e fd nfd = syscall e SYS_DUP2 fd nfd 0"
definition w_fstat :: "sysenv \<Rightarrow> u32 \<Rightarrow> u32 \<Rightarrow> user \<Rightarrow> outcome option" where
  "w_fstat e fd buf = syscall e SYS_FSTAT fd buf 0"
definition w_getdents :: "sysenv \<Rightarrow> u32 \<Rightarrow> u32 \<Rightarrow> u32 \<Rightarrow> user \<Rightarrow> outcome option" where
  "w_getdents e fd buf n = syscall e SYS_GETDENTS fd buf n"

lemmas wrapper_defs = w_restart_syscall_def w_exit_def w_fork_def w_read_def w_write_def w_open_def w_close_def w_waitpid_def
  w_sched_yield_def w_chdir_def w_mkdir_def w_unlink_def w_pipe_def w_ioctl_def w_dup_def w_dup2_def w_fstat_def w_getdents_def

section \<open>What a caller sees\<close>

lemma systab_len: "length (systab e) = 50"
  by (simp add: systab_def NSYS_def)

lemma syscall_number: "unat nr < 50 \<Longrightarrow> push_bit 2 (nr :: u32) \<le> of_nat (4 * NSYS)"
proof -
  assume n: "unat nr < 50"
  then have "unat (push_bit 2 nr) = unat nr * 4" by (simp add: push_bit_eq_mult unat_word_ariths)
  then show ?thesis using n by (simp add: word_le_nat_alt NSYS_def)
qed

text \<open>A call whose handler returns \<open>v\<close>.\<close>

lemma syscall_handled:
  assumes "unat nr < 50" "systab e ! unat nr = Some h" "h a b c (u_k u) = Some (v, k)"
  shows "syscall e nr a b c u =
    Some (if sint v < 0 then Back (- 1) \<lparr>u_errno = - v, u_k = k\<lparr>sys_rval := v\<rparr>\<rparr>
          else Back (sint v) \<lparr>u_errno = u_errno u, u_k = k\<lparr>sys_rval := v\<rparr>\<rparr>)"
  using assms syscall_number [OF assms(1)] by (simp add: syscall_def sys_hand_def systab_len Let_def)

lemma syscall_missing:
  "unat nr < 50 \<Longrightarrow> systab e ! unat nr = None \<Longrightarrow> syscall e nr a b c u = Some Stopped"
  by (simp add: syscall_def sys_hand_def systab_len)

lemma syscall_error:
  assumes "unat nr < 50" "systab e ! unat nr = Some h" "h a b c (u_k u) = Some (of_int (- err), u_k u)" "0 < err" "err < 2 ^ 31"
  shows "\<exists>u'. syscall e nr a b c u = Some (Back (- 1) u') \<and> u_errno u' = of_int err \<and> k_vfs (u_k u') = k_vfs (u_k u) \<and> k_mem (u_k u') = k_mem (u_k u)"
proof -
  have "sint (of_int (- err) :: u32) = - err"
    using assms(4,5) by (subst sint_sbintrunc') (simp add: signed_take_bit_int_eq_self)
  then show ?thesis using syscall_handled [OF assms(1-3)] assms(4) by simp
qed

text \<open>Every operation on a descriptor refuses an empty slot with \<^verbatim>\<open>EBADF\<close> and changes nothing.\<close>

lemma empty_slot_calls:
  assumes inv: "vfs_inv (k_vfs k) X" and fd: "0 \<le> sint fd" "sint fd < 5" "ofile (k_vfs k) ! nat (sint fd) = NULL"
  shows "n \<noteq> 0 \<Longrightarrow> sys_read e fd b n k = Some (of_int (- EBADF), k)"
    and "n \<noteq> 0 \<Longrightarrow> sys_write e fd b n k = Some (of_int (- EBADF), k)"
    and "sys_close e fd b n k = Some (of_int (- EBADF), k)"
    and "sys_dup2 e fd b n k = Some (of_int (- EBADF), k)"
    and "n \<noteq> 0 \<Longrightarrow> sys_ioctl e fd b n k = Some (of_int (- EBADF), k)"
proof -
  have g: "fd_get (k_vfs k) (sint fd) = Some NULL" using vfs_fd(1) [OF inv fd(1,2)] fd(3) by simp
  have st: "store_bytes b [] m = m" for b m by (rule ext) (auto simp: store_bytes_def)
  have un: "n \<noteq> 0 \<Longrightarrow> unat n \<noteq> 0" for n :: u32 by (simp add: unat_eq_0)
  show "sys_read e fd b n k = Some (of_int (- EBADF), k)" if "n \<noteq> 0"
    using g fd(2) un [OF that] by (simp add: sys_read_def ret_data_def fsys_read_def NOFILE_def st)
  show "sys_write e fd b n k = Some (of_int (- EBADF), k)" if "n \<noteq> 0"
    using g fd(2) un [OF that] by (simp add: sys_write_def ret_vfs_def fsys_write_def NOFILE_def buf_at_def)
  show "sys_close e fd b n k = Some (of_int (- EBADF), k)"
    using g fd(2) by (simp add: sys_close_def ret_vfs_def fsys_close_def NOFILE_def)
  show "sys_dup2 e fd b n k = Some (of_int (- EBADF), k)"
    using g fd(2) by (simp add: sys_dup2_def ret_vfs_def fsys_dup2_def check_fd_def NOFILE_def EBADF_def)
  show "sys_ioctl e fd b n k = Some (of_int (- EBADF), k)" if "n \<noteq> 0"
    using g fd(2) un [OF that] by (simp add: sys_ioctl_def fsys_ioctl_def NOFILE_def)
qed



end
