(* ===== verification/Cpu_Lock.thy ===== *)
theory Cpu_Lock
  imports Kern_Prelude
begin

text \<open>
  The spin lock (\<^verbatim>\<open>src/kern/cpu/spinlock.c\<close>): an integer that processors exchange atomically, with
  the interrupt flag saved and cleared around it.  Each atomic access is one step of the
  processor that makes it; \<open>lock_step\<close> interleaves any number of processors that take and release
  the lock over and over.
\<close>

section \<open>The lock and its atomic accesses\<close>

record spinlock = locked :: int

definition atomic_exchange_n :: "int \<Rightarrow> spinlock \<Rightarrow> int \<times> spinlock" where
  "atomic_exchange_n v l = (locked l, l\<lparr>locked := v\<rparr>)"
definition atomic_load_n :: "spinlock \<Rightarrow> int" where
  "atomic_load_n l = locked l"
definition atomic_store_n :: "int \<Rightarrow> spinlock \<Rightarrow> spinlock" where
  "atomic_store_n v l = l\<lparr>locked := v\<rparr>"

definition EF_IF :: u32 where "EF_IF = 0x200"

text \<open>Where a processor is: outside; at the exchange or at the inner load of \<^verbatim>\<open>spin_lock\<close>; holding
  the lock; about to restore its flags.  The Boolean tells the \<^verbatim>\<open>irqsave\<close> variants.\<close>

datatype lock_pc = Outside | At_xchg bool | At_load bool | Held bool | At_restore

record lock_state =
  lk :: spinlock
  pcs :: "nat \<Rightarrow> lock_pc"
  eflags :: "nat \<Rightarrow> u32"
  saved :: "nat \<Rightarrow> u32"

section \<open>The operations\<close>

definition set_pc :: "nat \<Rightarrow> lock_pc \<Rightarrow> lock_state \<Rightarrow> lock_state" where
  "set_pc t c s = s\<lparr>pcs := (pcs s)(t := c)\<rparr>"

text \<open>\<^verbatim>\<open>irq_save\<close>: push the flags, pop them into the result, clear the interrupt flag.\<close>

definition irq_save :: "nat \<Rightarrow> lock_state \<Rightarrow> u32 \<times> lock_state" where
  "irq_save t s = (eflags s t, s\<lparr>eflags := (eflags s)(t := eflags s t AND NOT EF_IF)\<rparr>)"

definition irq_restore :: "nat \<Rightarrow> u32 \<Rightarrow> lock_state \<Rightarrow> lock_state" where
  "irq_restore t f s = s\<lparr>eflags := (eflags s)(t := f)\<rparr>"

definition spin_lock_step :: "nat \<Rightarrow> lock_state \<Rightarrow> lock_state option" where
  "spin_lock_step t s =
    (case pcs s t of
       At_xchg q \<Rightarrow>
         (let (old, l) = atomic_exchange_n 1 (lk s); s1 = s\<lparr>lk := l\<rparr>
          in Some (set_pc t (if old \<noteq> 0 then At_load q else Held q) s1))
     | At_load q \<Rightarrow> Some (set_pc t (if atomic_load_n (lk s) \<noteq> 0 then At_load q else At_xchg q) s)
     | _ \<Rightarrow> None)"

definition spin_unlock :: "lock_state \<Rightarrow> lock_state" where
  "spin_unlock s = s\<lparr>lk := atomic_store_n 0 (lk s)\<rparr>"

definition spin_lock_call :: "nat \<Rightarrow> lock_state \<Rightarrow> lock_state" where
  "spin_lock_call t s = set_pc t (At_xchg False) s"

definition spin_lock_irqsave_call :: "nat \<Rightarrow> lock_state \<Rightarrow> lock_state" where
  "spin_lock_irqsave_call t s =
    (let (f, s1) = irq_save t s in set_pc t (At_xchg True) (s1\<lparr>saved := (saved s1)(t := f)\<rparr>))"

definition spin_unlock_ret :: "nat \<Rightarrow> lock_state \<Rightarrow> lock_state" where
  "spin_unlock_ret t s = set_pc t (if pcs s t = Held True then At_restore else Outside) (spin_unlock s)"

definition irqrestore_ret :: "nat \<Rightarrow> lock_state \<Rightarrow> lock_state" where
  "irqrestore_ret t s = set_pc t Outside (irq_restore t (saved s t) s)"

inductive lock_step :: "lock_state \<Rightarrow> lock_state \<Rightarrow> bool" where
  lock_call: "pcs s t = Outside \<Longrightarrow> lock_step s (spin_lock_call t s)"
| irqsave_call: "pcs s t = Outside \<Longrightarrow> lock_step s (spin_lock_irqsave_call t s)"
| lock_access: "spin_lock_step t s = Some s' \<Longrightarrow> lock_step s s'"
| unlock: "pcs s t = Held q \<Longrightarrow> lock_step s (spin_unlock_ret t s)"
| restore: "pcs s t = At_restore \<Longrightarrow> lock_step s (irqrestore_ret t s)"

definition lock_init :: "(nat \<Rightarrow> u32) \<Rightarrow> lock_state" where
  "lock_init ef = \<lparr>lk = \<lparr>locked = 0\<rparr>, pcs = (\<lambda>_. Outside), eflags = ef, saved = (\<lambda>_. 0)\<rparr>"

definition lock_reachable :: "(nat \<Rightarrow> u32) \<Rightarrow> lock_state \<Rightarrow> bool" where
  "lock_reachable ef s = lock_step\<^sup>*\<^sup>* (lock_init ef) s"

section \<open>The invariant\<close>

fun in_cs :: "lock_pc \<Rightarrow> bool" where
  "in_cs (Held _) = True" | "in_cs _ = False"

fun irqs_off :: "lock_pc \<Rightarrow> bool" where
  "irqs_off (At_xchg q) = q" | "irqs_off (At_load q) = q" | "irqs_off (Held q) = q"
| "irqs_off At_restore = True" | "irqs_off Outside = False"

definition holders :: "lock_state \<Rightarrow> nat set" where
  "holders s = {t. in_cs (pcs s t)}"

text \<open>A free lock has no holder, a taken one exactly one; a processor in an \<^verbatim>\<open>irqsave\<close> section runs
  with interrupts off and its saved flags are those it came with, any other runs with its own flags.\<close>

definition lock_inv :: "(nat \<Rightarrow> u32) \<Rightarrow> lock_state \<Rightarrow> bool" where
  "lock_inv ef s \<longleftrightarrow>
     (if locked (lk s) = 0 then holders s = {} else locked (lk s) = 1 \<and> (\<exists>t. holders s = {t})) \<and>
     (\<forall>t. if irqs_off (pcs s t) then saved s t = ef t \<and> eflags s t = ef t AND NOT EF_IF
          else eflags s t = ef t)"

lemmas lock_defs = spin_lock_call_def spin_lock_irqsave_call_def spin_lock_step_def spin_unlock_ret_def spin_unlock_def
  irqrestore_ret_def irq_save_def irq_restore_def set_pc_def atomic_exchange_n_def atomic_load_n_def atomic_store_n_def

lemma in_cs_iff: "in_cs c \<longleftrightarrow> (\<exists>q. c = Held q)"
  by (cases c) auto

lemma holders_set_pc:
  "holders (set_pc t c s) = (if in_cs c then insert t (holders s) else holders s - {t})"
  by (auto simp: holders_def set_pc_def)

lemma holders_cong [simp]:
  "holders (s\<lparr>lk := l\<rparr>) = holders s" "holders (s\<lparr>eflags := e\<rparr>) = holders s" "holders (s\<lparr>saved := v\<rparr>) = holders s"
  by (simp_all add: holders_def)

lemma lock_inv_wait:
  assumes "lock_inv ef s" "t \<notin> holders s" "irqs_off c = irqs_off (pcs s t)" "\<not> in_cs c"
  shows "lock_inv ef (set_pc t c s)"
proof -
  have "holders (set_pc t c s) = holders s" using assms by (simp add: holders_set_pc)
  then show ?thesis using assms by (auto simp: lock_inv_def set_pc_def)
qed

lemma lock_inv_enter:
  assumes "lock_inv ef s" "locked (lk s) = 0" "irqs_off c = irqs_off (pcs s t)" "in_cs c"
  shows "lock_inv ef (set_pc t c (s\<lparr>lk := lk s\<lparr>locked := 1\<rparr>\<rparr>))"
proof -
  have "holders (set_pc t c (s\<lparr>lk := lk s\<lparr>locked := 1\<rparr>\<rparr>)) = {t}" using assms
    by (simp add: holders_set_pc lock_inv_def)
  then show ?thesis using assms by (auto simp: lock_inv_def set_pc_def)
qed

lemma lock_inv_init: "lock_inv ef (lock_init ef)"
  by (simp add: lock_inv_def lock_init_def holders_def)

lemma lock_inv_step:
  assumes "lock_step s s'" and "lock_inv ef s"
  shows "lock_inv ef s'"
  using assms
proof (induction rule: lock_step.induct)
  case (lock_call s t)
  then show ?case by (simp add: spin_lock_call_def lock_inv_wait holders_def)
next
  case (irqsave_call s t)
  then have "t \<notin> holders s" by (simp add: holders_def)
  with irqsave_call show ?case
    by (simp add: lock_inv_def spin_lock_irqsave_call_def irq_save_def holders_set_pc) (auto simp: set_pc_def split: if_splits)
next
  case (lock_access t s s')
  then have t: "t \<notin> holders s" by (auto simp: holders_def spin_lock_step_def split: lock_pc.splits)
  have same: "locked (lk s) \<noteq> 0 \<Longrightarrow> s\<lparr>lk := lk s\<lparr>locked := 1\<rparr>\<rparr> = s"
    using lock_access.prems by (simp add: lock_inv_def)
  show ?case
  proof (cases "pcs s t")
    case (At_xchg q)
    with lock_access t same show ?thesis
      by (cases "locked (lk s) = 0") (auto simp: spin_lock_step_def atomic_exchange_n_def Let_def intro: lock_inv_enter lock_inv_wait)
  next
    case (At_load q)
    with lock_access t show ?thesis
      by (cases "locked (lk s) = 0") (auto simp: spin_lock_step_def atomic_load_n_def intro: lock_inv_wait)
  qed (use lock_access in \<open>simp_all add: spin_lock_step_def\<close>)
next
  case (unlock s t q)
  then have "t \<in> holders s" by (simp add: holders_def)
  with unlock have "holders s = {t}" by (auto simp: lock_inv_def split: if_splits)
  with unlock show ?case
    by (simp add: lock_inv_def spin_unlock_ret_def spin_unlock_def atomic_store_n_def holders_set_pc)
      (auto simp: set_pc_def split: if_splits)
next
  case (restore s t)
  then have "t \<notin> holders s" by (simp add: holders_def)
  moreover have "saved s t = ef t" using restore by (auto simp: lock_inv_def)
  ultimately show ?case using restore
    by (simp add: lock_inv_def irqrestore_ret_def irq_restore_def holders_set_pc) (auto simp: set_pc_def split: if_splits)
qed

lemma lock_inv_reachable: "lock_reachable ef s \<Longrightarrow> lock_inv ef s"
  unfolding lock_reachable_def
  by (induction rule: rtranclp_induct) (auto intro: lock_inv_init lock_inv_step)

section \<open>Properties\<close>

text \<open>C26. From a free lock, however any number of processors interleave their atomic accesses: at
  most one processor is between \<^verbatim>\<open>spin_lock\<close> and \<^verbatim>\<open>spin_unlock\<close>, the lock word is zero exactly when
  nobody is, a processor that took it with \<^verbatim>\<open>spin_lock_irqsave\<close> holds it with interrupts off, and every
  processor outside runs with the flags it started with.  A processor that waits for a
  free lock and runs undisturbed gets it at the latest with its second access.\<close>

theorem spinlock_mutual_exclusion:
  assumes "lock_reachable ef s"
  shows "(\<forall>t u p q. pcs s t = Held p \<longrightarrow> pcs s u = Held q \<longrightarrow> t = u) \<and>
    (locked (lk s) = 0 \<longleftrightarrow> (\<forall>t q. pcs s t \<noteq> Held q)) \<and>
    (\<forall>t. pcs s t = Held True \<longrightarrow> eflags s t AND EF_IF = 0) \<and>
    (\<forall>t. pcs s t = Outside \<longrightarrow> eflags s t = ef t) \<and>
    (\<forall>t q. locked (lk s) = 0 \<longrightarrow> pcs s t = At_load q \<longrightarrow>
       (\<exists>s1 s2. spin_lock_step t s = Some s1 \<and> spin_lock_step t s1 = Some s2 \<and> pcs s2 t = Held q))"
proof -
  have i: "lock_inv ef s" using assms by (rule lock_inv_reachable)
  have hold: "pcs s t = Held q \<Longrightarrow> t \<in> holders s" for t q by (simp add: holders_def)
  have one: "pcs s t = Held p \<Longrightarrow> pcs s u = Held q \<Longrightarrow> t = u" for t u p q
    using i hold[of t p] hold[of u q] by (auto simp: lock_inv_def split: if_splits)
  have zero: "locked (lk s) = 0 \<longleftrightarrow> (\<forall>t q. pcs s t \<noteq> Held q)"
    using i by (simp add: lock_inv_def holders_def set_eq_iff in_cs_iff split: if_splits)
  have ifl: "pcs s t = Held True \<Longrightarrow> eflags s t = ef t AND NOT EF_IF" for t
    using i unfolding lock_inv_def by (metis irqs_off.simps(3))
  have out: "pcs s t = Outside \<Longrightarrow> eflags s t = ef t" for t
    using i unfolding lock_inv_def by (metis irqs_off.simps(5))
  have off: "(x AND NOT EF_IF) AND EF_IF = 0" for x :: u32
    by (simp add: bit_eq_iff bit_and_iff bit_not_iff)
  have get: "locked (lk s) = 0 \<Longrightarrow> pcs s t = At_load q \<Longrightarrow>
     \<exists>s1 s2. spin_lock_step t s = Some s1 \<and> spin_lock_step t s1 = Some s2 \<and> pcs s2 t = Held q" for t q
    by (simp add: lock_defs)
  show ?thesis using one zero ifl out off get by metis
qed

theorem spinlock_mutual_exclusion_witness:
  "pcs (the (spin_lock_step 0 (spin_lock_irqsave_call 0 (lock_init (\<lambda>_. 0x202))))) 0 = Held True \<and>
   {u. \<exists>q. pcs (the (spin_lock_step 0 (spin_lock_irqsave_call 0 (lock_init (\<lambda>_. 0x202))))) u = Held q} = {0}"
proof -
  let ?s1 = "spin_lock_irqsave_call 0 (lock_init (\<lambda>_. 0x202))"
  let ?s2 = "the (spin_lock_step 0 ?s1)"
  have "lock_step (lock_init (\<lambda>_. 0x202)) ?s1" by (rule lock_step.irqsave_call) (simp add: lock_init_def)
  moreover have "lock_step ?s1 ?s2" by (rule lock_step.lock_access [of 0]) (simp add: lock_defs lock_init_def)
  ultimately have "lock_reachable (\<lambda>_. 0x202) ?s2" unfolding lock_reachable_def by simp
  note spinlock_mutual_exclusion [OF this]
  moreover have "pcs ?s2 0 = Held True" by (simp add: lock_defs lock_init_def)
  ultimately show ?thesis by blast
qed

end
