(* ===== verification/Cpu_Desc.thy ===== *)
theory Cpu_Desc
  imports Kern_Prelude
begin

text \<open>
  Segments and interrupt gates (\<^verbatim>\<open>src/kern/cpu/gdt.c\<close>, \<^verbatim>\<open>src/kern/cpu/idt.c\<close>): the tables the kernel
  builds for the processor, and the dispatch of exceptions.  \<open>seg_base\<close>, \<open>seg_limit\<close>, \<open>gate_offset\<close> and
  \<open>gate_dpl\<close> read descriptors the way the processor does.
\<close>

section \<open>The global descriptor table\<close>

record gdtr =
  g_lim :: u16
  g_addr :: u32

record segdesc =
  lim :: u16
  base_lo :: u16
  base_ll :: u8
  access :: u8
  sflag :: u8
  base_h :: u8

record tss =
  t_link :: u32
  esp0 :: u32
  ss0 :: u32
  esp1 :: u32
  ss1 :: u32
  esp2 :: u32
  ss2 :: u32
  t_cr3 :: u32
  t_eip :: u32
  t_eflags :: u32
  t_eax :: u32
  t_ecx :: u32
  t_edx :: u32
  t_ebx :: u32
  t_esp :: u32
  t_ebp :: u32
  t_esi :: u32
  t_edi :: u32
  t_es :: u32
  t_cs :: u32
  t_ss :: u32
  t_ds :: u32
  t_fs :: u32
  t_gs :: u32
  t_ldtr :: u32
  t_iopb :: u32
  t_ssp :: u32

definition TSS_SIZ :: nat where "TSS_SIZ = 27 * 4"

definition CS_K :: u16 where "CS_K = 0x0008"
definition DS_K :: u16 where "DS_K = 0x0010"
definition CS_U :: u16 where "CS_U = 0x001B"
definition DS_U :: u16 where "DS_U = 0x0023"

definition SEGDESC_G_NULL :: "64 word" where "SEGDESC_G_NULL = 0x0000000000000000"
definition SEGDESC_K_CODE :: "64 word" where "SEGDESC_K_CODE = 0x00cf9a000000ffff"
definition SEGDESC_K_DATA :: "64 word" where "SEGDESC_K_DATA = 0x00cf92000000ffff"
definition SEGDESC_U_CODE :: "64 word" where "SEGDESC_U_CODE = 0x00cffa000000ffff"
definition SEGDESC_U_DATA :: "64 word" where "SEGDESC_U_DATA = 0x00cff2000000ffff"

definition fill_seg :: "u16 \<Rightarrow> u32 \<Rightarrow> u8 \<Rightarrow> u8 \<Rightarrow> segdesc" where
  "fill_seg l b flg ab =
     \<lparr>lim = l, base_lo = ucast (b AND 0xffff), base_ll = ucast (drop_bit 16 b AND 0xff), access = ab,
      sflag = push_bit 4 flg OR 0x0f, base_h = ucast (drop_bit 24 b AND 0xff)\<rparr>"

definition zero_seg :: segdesc where
  "zero_seg = \<lparr>lim = 0, base_lo = 0, base_ll = 0, access = 0, sflag = 0, base_h = 0\<rparr>"

record gdt =
  sd :: "segdesc list"
  gdtr_s :: gdtr
  glob_tss :: tss

text \<open>\<^verbatim>\<open>set_gdt\<close>, with the addresses the linker gives to \<^verbatim>\<open>sd\<close>, \<^verbatim>\<open>glob_tss\<close> and \<^verbatim>\<open>__bss_end__\<close>.\<close>

definition HEAP_SIZ :: u32 where "HEAP_SIZ = 1024"

definition set_gdt :: "u32 \<Rightarrow> u32 \<Rightarrow> u32 \<Rightarrow> gdt \<Rightarrow> gdt" where
  "set_gdt sd_addr tss_addr bss_end g =
    (let sd1 = (sd g)[1 := fill_seg 0xffff 0 0x0c 0x9a, 2 := fill_seg 0xffff 0 0x0c 0x92,
                      3 := fill_seg 0xffff 0 0x0c 0xfa, 4 := fill_seg 0xffff 0 0x0c 0xf2];
         tss1 = (glob_tss g)\<lparr>ss0 := ucast DS_K, esp0 := bss_end + HEAP_SIZ\<rparr>;
         sd2 = sd1[5 := fill_seg (of_nat TSS_SIZ) tss_addr 0x00 0x89]
     in \<lparr>sd = sd2, gdtr_s = \<lparr>g_lim = of_nat (8 * length sd2 - 1), g_addr = sd_addr\<rparr>, glob_tss = tss1\<rparr>)"

subsection \<open>How the processor reads a descriptor\<close>

definition seg_raw :: "segdesc \<Rightarrow> 64 word" where
  "seg_raw s = ucast (lim s) OR push_bit 16 (ucast (base_lo s)) OR push_bit 32 (ucast (base_ll s)) OR
     push_bit 40 (ucast (access s)) OR push_bit 48 (ucast (sflag s)) OR push_bit 56 (ucast (base_h s))"

definition seg_base :: "segdesc \<Rightarrow> u32" where
  "seg_base s = ucast (base_lo s) OR push_bit 16 (ucast (base_ll s)) OR push_bit 24 (ucast (base_h s))"

definition seg_limit :: "segdesc \<Rightarrow> nat" where
  "seg_limit s = (let l = unat (lim s) + 2 ^ 16 * unat (sflag s AND 0x0f)
                  in if bit (sflag s) 7 then 4096 * l + 4095 else l)"

definition seg_dpl :: "segdesc \<Rightarrow> u8" where
  "seg_dpl s = drop_bit 5 (access s) AND 3"

section \<open>The interrupt descriptor table\<close>

record idtr =
  i_siz :: u16
  i_addr :: u32

record idt_gate =
  offsetlow :: u16
  seg :: u16
  res :: u8
  gflag :: u8
  offsethi :: u16

definition EX_U :: u8 where "EX_U = 0xEE"
definition NGATES :: nat where "NGATES = 50"

definition zero_gate :: idt_gate where
  "zero_gate = \<lparr>offsetlow = 0, seg = 0, res = 0, gflag = 0, offsethi = 0\<rparr>"

text \<open>The assignments go to one gate of the array; an index outside it is a memory fault.\<close>

definition set_g :: "u32 \<Rightarrow> u8 \<Rightarrow> u8 \<Rightarrow> idt_gate list \<Rightarrow> idt_gate list option" where
  "set_g a idx flg t =
    (let i = unat idx in
     if i < length t then
       Some (t[i := (t ! i)\<lparr>gflag := flg, seg := 0x08, offsetlow := ucast (a AND 0xffff),
                            offsethi := ucast (drop_bit 16 a AND 0xffff)\<rparr>])
     else None)"

fun fill_idt_from :: "nat \<Rightarrow> u32 list \<Rightarrow> idt_gate list \<Rightarrow> idt_gate list option" where
  "fill_idt_from i [] t = Some t"
| "fill_idt_from i (a # as) t =
     (case set_g a (of_nat i) EX_U t of None \<Rightarrow> None | Some t' \<Rightarrow> fill_idt_from (Suc i) as t')"

definition fill_idt :: "u32 list \<Rightarrow> idt_gate list \<Rightarrow> idt_gate list option" where
  "fill_idt itab t = fill_idt_from 0 itab t"

definition set_idtr :: "u32 list \<Rightarrow> u32 \<Rightarrow> idt_gate list \<Rightarrow> (idtr \<times> idt_gate list) option" where
  "set_idtr itab addr t =
     map_option (\<lambda>t'. (\<lparr>i_siz = of_nat (8 * length t' - 1), i_addr = addr\<rparr>, t')) (fill_idt itab t)"

definition gate_offset :: "idt_gate \<Rightarrow> u32" where
  "gate_offset g = ucast (offsetlow g) OR push_bit 16 (ucast (offsethi g))"

definition gate_present :: "idt_gate \<Rightarrow> bool" where "gate_present g = bit (gflag g) 7"
definition gate_dpl :: "idt_gate \<Rightarrow> u8" where "gate_dpl g = drop_bit 5 (gflag g) AND 3"

text \<open>A vector beyond the limit of the table is a general protection fault.\<close>

definition gate_of :: "idtr \<Rightarrow> idt_gate list \<Rightarrow> nat \<Rightarrow> idt_gate option" where
  "gate_of r t n = (if 8 * n + 7 \<le> unat (i_siz r) \<and> gate_present (t ! n) then Some (t ! n) else None)"

section \<open>Exceptions\<close>

type_synonym isr_hand = addr

definition register_ex :: "isr_hand \<Rightarrow> u8 \<Rightarrow> isr_hand list \<Rightarrow> isr_hand list option" where
  "register_ex r no t = (if unat no < length t then Some (t[unat no := r]) else None)"

datatype isr_out = Halted string | Calls isr_hand

definition excname :: "string list" where
  "excname = [''div err'', ''debug'', ''nmi'', ''breakdown'', ''overflow'', ''bound range err'', ''invalid opcode'',
     ''invalid device'', ''double fault'', ''coproc seg overrun'', ''invalid tss'', ''segment not presnt'',
     ''stack segment'', ''general protection fault'', ''page fault'', ''res'', ''x87 float exc'', ''alignment check'',
     ''machine check'', ''simd float exc'', ''virtualization exc'', ''control protection exc'']"

text \<open>Without a handler the code prints the name and halts with interrupts disabled.\<close>

definition isr_handler :: "isr_hand list \<Rightarrow> u32 \<Rightarrow> isr_out option" where
  "isr_handler t int_no =
    (let n = unat int_no in
     if length t \<le> n then None
     else if t ! n = NULL then Some (Halted (if n < length excname then excname ! n else ''out of bounds''))
     else Some (Calls (t ! n)))"

section \<open>Descriptors read back\<close>

lemma u32_bytes:
  "ucast (ucast (b AND 0xffff :: u32) :: u16) OR push_bit 16 (ucast (ucast (drop_bit 16 b AND 0xff) :: u8)) OR
   push_bit 24 (ucast (ucast (drop_bit 24 b AND 0xff) :: u8)) = (b :: u32)"
proof -
  have m: "(0xffff :: u32) = mask 16" "(0xff :: u32) = mask 8" by (simp_all add: mask_numeral)
  show ?thesis unfolding m
  proof (rule bit_word_eqI)
    fix n assume "n < LENGTH(32)"
    then show "bit (ucast (ucast (b AND mask 16) :: u16) OR push_bit 16 (ucast (ucast (drop_bit 16 b AND mask 8) :: u8)) OR
        push_bit 24 (ucast (ucast (drop_bit 24 b AND mask 8) :: u8)) :: u32) n = bit b n"
      by (cases "n < 24") (auto simp: bit_or_iff bit_and_iff bit_push_bit_iff bit_unsigned_iff bit_mask_iff bit_drop_bit_eq)
  qed
qed

lemma u32_halves:
  "ucast (ucast (a AND 0xffff :: u32) :: u16) OR push_bit 16 (ucast (ucast (drop_bit 16 a AND 0xffff) :: u16)) = (a :: u32)"
proof -
  have m: "(0xffff :: u32) = mask 16" by (simp add: mask_numeral)
  show ?thesis unfolding m
    by (auto simp: bit_eq_iff bit_or_iff bit_and_iff bit_push_bit_iff bit_unsigned_iff bit_mask_iff bit_drop_bit_eq
        not_less not_le dest: bit_imp_le_length)
qed

lemma seg_base_fill: "seg_base (fill_seg l b flg ab) = b"
  by (simp add: seg_base_def fill_seg_def u32_bytes)

lemma fill_idt_from_gates:
  assumes "i + length as \<le> length t" "length t \<le> 256"
  shows "\<exists>t'. fill_idt_from i as t = Some t' \<and> length t' = length t \<and>
    (\<forall>k<length t. if i \<le> k \<and> k < i + length as
       then gate_offset (t' ! k) = as ! (k - i) \<and> seg (t' ! k) = 8 \<and> gflag (t' ! k) = EX_U else t' ! k = t ! k)"
  using assms
proof (induction as arbitrary: i t)
  case (Cons a as)
  have u: "unat (of_nat i :: u8) = i" using Cons.prems by (simp add: unat_of_nat)
  let ?g = "(t ! i)\<lparr>gflag := EX_U, seg := 0x08, offsetlow := ucast (a AND 0xffff), offsethi := ucast (drop_bit 16 a AND 0xffff)\<rparr>"
  have s: "set_g a (of_nat i) EX_U t = Some (t[i := ?g])" using Cons.prems u by (simp add: set_g_def Let_def)
  have "gate_offset ?g = a" by (simp add: gate_offset_def u32_halves)
  moreover from Cons.IH [of "Suc i" "t[i := ?g]"] Cons.prems obtain t' where
    t': "fill_idt_from (Suc i) as (t[i := ?g]) = Some t'" "length t' = length t"
    "\<forall>k<length t. if Suc i \<le> k \<and> k < Suc i + length as
       then gate_offset (t' ! k) = as ! (k - Suc i) \<and> seg (t' ! k) = 8 \<and> gflag (t' ! k) = EX_U else t' ! k = t[i := ?g] ! k"
    by auto
  ultimately show ?case using s Cons.prems
    by (intro exI [of _ t']) (auto simp: nth_Cons' Suc_le_eq nth_list_update)
qed auto

lemma set_gdt_sd:
  assumes "sd g = replicate 6 zero_seg"
  shows "sd (set_gdt sda tssa bss g) =
    [zero_seg, fill_seg 0xffff 0 0x0c 0x9a, fill_seg 0xffff 0 0x0c 0x92, fill_seg 0xffff 0 0x0c 0xfa,
     fill_seg 0xffff 0 0x0c 0xf2, fill_seg 0x6c tssa 0x00 0x89]"
  and "g_lim (gdtr_s (set_gdt sda tssa bss g)) = 47"
proof -
  have "replicate 6 zero_seg = [zero_seg, zero_seg, zero_seg, zero_seg, zero_seg, zero_seg]" by (simp add: eval_nat_numeral)
  then show "sd (set_gdt sda tssa bss g) =
    [zero_seg, fill_seg 0xffff 0 0x0c 0x9a, fill_seg 0xffff 0 0x0c 0x92, fill_seg 0xffff 0 0x0c 0xfa,
     fill_seg 0xffff 0 0x0c 0xf2, fill_seg 0x6c tssa 0x00 0x89]" "g_lim (gdtr_s (set_gdt sda tssa bss g)) = 47"
    using assms by (simp_all add: set_gdt_def Let_def TSS_SIZ_def eval_nat_numeral)
qed

lemma fill_idt_gates:
  assumes "length itab = 49"
  shows "\<exists>r t. set_idtr itab ia (replicate NGATES zero_gate) = Some (r, t) \<and>
    (\<forall>n. case gate_of r t n of
       None \<Rightarrow> 49 \<le> n
     | Some q \<Rightarrow> n < 49 \<and> gate_offset q = itab ! n \<and> seg q = CS_K \<and> gate_dpl q = 3)"
proof -
  from fill_idt_from_gates [of 0 itab "replicate 50 zero_gate"] assms obtain t where
    t: "fill_idt_from 0 itab (replicate 50 zero_gate) = Some t" "length t = 50"
      "\<forall>k<50. if k < 49 then gate_offset (t ! k) = itab ! k \<and> seg (t ! k) = 8 \<and> gflag (t ! k) = EX_U
               else t ! k = replicate 50 zero_gate ! k" by auto
  let ?r = "\<lparr>i_siz = 399, i_addr = ia\<rparr> :: idtr"
  have s: "set_idtr itab ia (replicate NGATES zero_gate) = Some (?r, t)"
    using t by (simp add: set_idtr_def fill_idt_def NGATES_def)
  have "case gate_of ?r t n of None \<Rightarrow> 49 \<le> n
     | Some q \<Rightarrow> n < 49 \<and> gate_offset q = itab ! n \<and> seg q = CS_K \<and> gate_dpl q = 3" for n
  proof -
    consider "n < 49" | "n = 49" | "50 \<le> n" by linarith
    then show ?thesis
    proof cases
      case 1
      with t(3) have "gate_offset (t ! n) = itab ! n" "seg (t ! n) = 8" "gflag (t ! n) = EX_U" by auto
      then show ?thesis using 1 by (simp add: gate_of_def gate_present_def gate_dpl_def EX_U_def CS_K_def)
    next
      case 2
      then have "t ! n = zero_gate" using t(3) by simp
      then show ?thesis using 2 by (simp add: gate_of_def gate_present_def zero_gate_def)
    next
      case 3
      then show ?thesis by (simp add: gate_of_def)
    qed
  qed
  with s show ?thesis by blast
qed

section \<open>Properties\<close>

text \<open>C27. The descriptor tables.  A descriptor written by \<^verbatim>\<open>fill_seg\<close> reads back with exactly the base it was
  given.  After \<^verbatim>\<open>set_gdt\<close> the null, kernel and user descriptors are bit for bit the values documented in
  \<^verbatim>\<open>gdt.h\<close>, every selector the kernel loads (with the task register's \<^verbatim>\<open>5*8\<close>) lies within the table's
  limit and has the privilege it names, and the task state segment starts at \<^verbatim>\<open>glob_tss\<close>; its limit, though, is
  \<^verbatim>\<open>0xf006c\<close> and not the last byte of the structure, since \<^verbatim>\<open>fill_seg\<close> sets limit bits 16 to 19 of every
  descriptor.  After \<^verbatim>\<open>set_idtr\<close> each vector below 49 has a present gate that leads through the kernel's code
  segment to its entry of \<^verbatim>\<open>itab\<close> and is open to user mode, vectors from 49 on have none.\<close>

theorem descriptor_tables_correct:
  fixes g :: gdt and sda tssa bss ia :: u32 and itab :: "u32 list"
  defines "g' \<equiv> set_gdt sda tssa bss g"
  assumes "sd g = replicate 6 zero_seg" and "length itab = 49"
  shows "(\<forall>l b flg ab. seg_base (fill_seg l b flg ab) = b) \<and>
    map seg_raw (take 5 (sd g')) = [SEGDESC_G_NULL, SEGDESC_K_CODE, SEGDESC_K_DATA, SEGDESC_U_CODE, SEGDESC_U_DATA] \<and>
    list_all (\<lambda>s. 8 * (unat s div 8) + 7 \<le> unat (g_lim (gdtr_s g')) \<and>
        seg_dpl (sd g' ! (unat s div 8)) = ucast (s AND 3)) [CS_K, DS_K, CS_U, DS_U, 5 * 8] \<and>
    seg_base (sd g' ! 5) = tssa \<and> seg_limit (sd g' ! 5) = 0xf006c \<and>
    (\<exists>r t. set_idtr itab ia (replicate NGATES zero_gate) = Some (r, t) \<and>
       (\<forall>n. case gate_of r t n of
          None \<Rightarrow> 49 \<le> n
        | Some q \<Rightarrow> n < 49 \<and> gate_offset q = itab ! n \<and> seg q = CS_K \<and> gate_dpl q = 3))"
proof -
  note g = set_gdt_sd [OF assms(2), of sda tssa bss, folded g'_def]
  have "map seg_raw (take 5 (sd g')) = [SEGDESC_G_NULL, SEGDESC_K_CODE, SEGDESC_K_DATA, SEGDESC_U_CODE, SEGDESC_U_DATA]"
    by (simp add: g seg_raw_def fill_seg_def zero_seg_def SEGDESC_G_NULL_def SEGDESC_K_CODE_def SEGDESC_K_DATA_def
        SEGDESC_U_CODE_def SEGDESC_U_DATA_def)
  moreover have "list_all (\<lambda>s. 8 * (unat s div 8) + 7 \<le> unat (g_lim (gdtr_s g')) \<and>
        seg_dpl (sd g' ! (unat s div 8)) = ucast (s AND 3)) [CS_K, DS_K, CS_U, DS_U, 5 * 8]"
    by (simp add: g seg_dpl_def fill_seg_def CS_K_def DS_K_def CS_U_def DS_U_def)
  moreover have "seg_base (sd g' ! 5) = tssa" by (simp add: g seg_base_fill)
  moreover have "seg_limit (sd g' ! 5) = 0xf006c" by (simp add: g seg_limit_def fill_seg_def Let_def)
  ultimately show ?thesis using fill_idt_gates [OF assms(3), of ia] by (simp add: seg_base_fill)
qed

definition boot_gdt :: gdt where
  "boot_gdt = \<lparr>sd = replicate 6 zero_seg, gdtr_s = \<lparr>g_lim = 0, g_addr = 0\<rparr>,
     glob_tss = \<lparr>t_link = 0, esp0 = 0, ss0 = 0, esp1 = 0, ss1 = 0, esp2 = 0, ss2 = 0, t_cr3 = 0, t_eip = 0, t_eflags = 0,
       t_eax = 0, t_ecx = 0, t_edx = 0, t_ebx = 0, t_esp = 0, t_ebp = 0, t_esi = 0, t_edi = 0, t_es = 0, t_cs = 0, t_ss = 0,
       t_ds = 0, t_fs = 0, t_gs = 0, t_ldtr = 0, t_iopb = 0, t_ssp = 0\<rparr>\<rparr>"

theorem descriptor_tables_correct_witness:
  "seg_limit (sd (set_gdt 0x108000 0x109000 0x110000 boot_gdt) ! 5) = 0xf006c \<and>
   (\<exists>r t. set_idtr (map of_nat [0..<49]) 0 (replicate NGATES zero_gate) = Some (r, t))"
proof -
  have "sd boot_gdt = replicate 6 zero_seg" "length (map of_nat [0..<49] :: u32 list) = 49" by (simp_all add: boot_gdt_def)
  from descriptor_tables_correct [OF this] show ?thesis by blast
qed

end
