(* ===== verification/Mem_Acpi.thy ===== *)
theory Mem_Acpi
  imports Lib_String
begin

text \<open>
  Firmware tables in memory: the search for the ACPI root pointer and for a table by its signature
  (\<^verbatim>\<open>src/kern/mem/acpi.c\<close>), and the walk over the SMBIOS structures (\<^verbatim>\<open>src/kern/mem/smbios.c\<close>).  The
  contents of memory are what the firmware left there.
\<close>

section \<open>ACPI\<close>

definition rd16 :: "mem \<Rightarrow> addr \<Rightarrow> nat" where
  "rd16 m a = unat (m a) + 2 ^ 8 * unat (m (a + 1))"

definition ascii :: "string \<Rightarrow> u8 list" where
  "ascii s = map of_char s"

text \<open>\<^verbatim>\<open>!memcmp(a, s, n)\<close> for a literal \<^verbatim>\<open>s\<close> of \<^verbatim>\<open>n\<close> bytes.\<close>

definition has_sig :: "mem \<Rightarrow> addr \<Rightarrow> u8 list \<Rightarrow> bool" where
  "has_sig m a s \<longleftrightarrow> map m [a..<a + length s] = s"

definition ACPI_HEADER_SIZ :: nat where "ACPI_HEADER_SIZ = 36"

fun get_tab_from :: "mem \<Rightarrow> u8 list \<Rightarrow> addr \<Rightarrow> nat \<Rightarrow> nat \<Rightarrow> addr" where
  "get_tab_from m sg r i 0 = NULL"
| "get_tab_from m sg r i (Suc n) =
     (let g = rd32 m (r + ACPI_HEADER_SIZ + 4 * i) in if has_sig m g sg then g else get_tab_from m sg r (Suc i) n)"

definition get_tab :: "mem \<Rightarrow> u8 list \<Rightarrow> addr \<Rightarrow> addr" where
  "get_tab m sg r =
    (let len = rd32 m (r + 4); tables = (len + 2 ^ 32 - ACPI_HEADER_SIZ) mod 2 ^ 32 div 4
     in get_tab_from m sg r 0 tables)"

text \<open>Both search loops advance by 16 bytes; \<open>n\<close> counts the addresses still to be tried.\<close>

fun find16 :: "mem \<Rightarrow> u8 list \<Rightarrow> addr \<Rightarrow> nat \<Rightarrow> addr option" where
  "find16 m sg a 0 = None"
| "find16 m sg a (Suc n) = (if has_sig m a sg then Some a else find16 m sg (a + 16) n)"

definition RSDP_SIG :: "u8 list" where "RSDP_SIG = ascii ''RSD PTR ''"

definition scan_acpi :: "mem \<Rightarrow> addr" where
  "scan_acpi m =
    (let ebda = rd16 m 0x40e * 16;
         r = (case find16 m RSDP_SIG ebda (1024 * 1024 div 16) of
                Some a \<Rightarrow> a
              | None \<Rightarrow> (case find16 m RSDP_SIG 0xe0000 8192 of Some a \<Rightarrow> a | None \<Rightarrow> 0x100000))
     in rd32 m (r + 16))"

definition get_acpitab :: "mem \<Rightarrow> addr \<Rightarrow> u8 list \<Rightarrow> addr \<times> addr" where
  "get_acpitab m rsdt sg =
    (let rsdt1 = (if rsdt = NULL then scan_acpi m else rsdt) in (rsdt1, get_tab m sg rsdt1))"

section \<open>SMBIOS\<close>

definition SMB_START :: addr where "SMB_START = 0x000f0000"
definition SMB_END :: addr where "SMB_END = 0x00ffffff"

partial_function (option) smb_strings_end :: "mem \<Rightarrow> addr \<Rightarrow> nat \<Rightarrow> nat option" where
  "smb_strings_end m strtab i =
     (if m (strtab + i - 1) \<noteq> 0 \<or> m (strtab + i) \<noteq> 0 then smb_strings_end m strtab (i + 1) else Some i)"

definition smbios_headlen :: "mem \<Rightarrow> addr \<Rightarrow> nat option" where
  "smbios_headlen m h =
    (let len = unat (m (h + 1))
     in map_option (\<lambda>i. len + i + 1) (smb_strings_end m (h + len) 1))"

partial_function (option) getstr_loop :: "mem \<Rightarrow> addr \<Rightarrow> u32 \<Rightarrow> addr option" where
  "getstr_loop m strtab idx =
     (if idx = 0 then Some strtab
      else case strlen m strtab of None \<Rightarrow> None | Some l \<Rightarrow> getstr_loop m (strtab + l + 1) (idx - 1))"

definition getstr :: "mem \<Rightarrow> addr \<Rightarrow> u32 \<Rightarrow> addr option" where
  "getstr m c idx = getstr_loop m (c + unat (m (c + 1))) (idx - 1)"

partial_function (option) print_smbinfo :: "mem \<Rightarrow> addr \<Rightarrow> addr option" where
  "print_smbinfo m cur =
     (if m cur = 127 then Some cur
      else case smbios_headlen m cur of None \<Rightarrow> None | Some k \<Rightarrow> print_smbinfo m (cur + k))"

definition smb_sum :: "mem \<Rightarrow> addr \<Rightarrow> nat \<Rightarrow> u8" where
  "smb_sum m a n = sum_list (map m [a..<a + n])"

text \<open>\<^verbatim>\<open>smbios_scan\<close>: the entry point found (or that there is none) and where the walk ended.\<close>

fun smbios_scan_from :: "mem \<Rightarrow> addr \<Rightarrow> nat \<Rightarrow> (addr \<times> addr) option option" where
  "smbios_scan_from m eps 0 = Some None"
| "smbios_scan_from m eps (Suc n) =
     (if has_sig m eps (ascii ''_SM3_'') \<and> smb_sum m eps (unat (m (eps + 6))) = 0
      then map_option (\<lambda>e. Some (eps, e)) (print_smbinfo m (rd32 m (eps + 16)))
      else smbios_scan_from m (eps + 16) n)"

definition smbios_scan :: "mem \<Rightarrow> (addr \<times> addr) option option" where
  "smbios_scan m = smbios_scan_from m SMB_START ((SMB_END - SMB_START) div 16 + 1)"

section \<open>What the searches find\<close>

lemma find16_find: "find16 m sg a n = find (\<lambda>x. has_sig m x sg) (map (\<lambda>k. a + 16 * k) [0..<n])"
proof (induction n arbitrary: a)
  case (Suc n)
  have "map (\<lambda>k. a + 16 * k) [0..<Suc n] = a # map (\<lambda>k. (a + 16) + 16 * k) [0..<n]"
    by (simp add: upt_conv_Cons map_Suc_upt [symmetric] del: upt_Suc)
  then show ?case using Suc.IH [of "a + 16"] by (simp del: upt_Suc)
qed simp

lemma get_tab_from_find:
  "get_tab_from m sg r i n =
     (case find (\<lambda>g. has_sig m g sg) (map (\<lambda>k. rd32 m (r + ACPI_HEADER_SIZ + 4 * k)) [i..<i + n]) of
        Some g \<Rightarrow> g | None \<Rightarrow> NULL)"
proof (induction n arbitrary: i)
  case (Suc n)
  have "[i..<i + Suc n] = i # [Suc i..<Suc i + n]" by (simp add: upt_conv_Cons)
  then show ?case using Suc.IH [of "Suc i"] by (simp add: Let_def del: upt_Suc)
qed simp

text \<open>The addresses tried for the root pointer, in the order of the two loops.\<close>

definition rsdp_addrs :: "mem \<Rightarrow> addr list" where
  "rsdp_addrs m = map (\<lambda>k. rd16 m 0x40e * 16 + 16 * k) [0..<65536] @ map (\<lambda>k. 0xe0000 + 16 * k) [0..<8192]"

lemma scan_acpi_find:
  "scan_acpi m = rd32 m ((case find (\<lambda>a. has_sig m a RSDP_SIG) (rsdp_addrs m) of Some a \<Rightarrow> a | None \<Rightarrow> 0x100000) + 16)"
  by (simp add: scan_acpi_def find16_find rsdp_addrs_def find_append Let_def split: option.split)

lemma get_tab_find:
  assumes "rd32 m (r + 4) = 36 + 4 * length ts" "\<forall>i<length ts. rd32 m (r + 36 + 4 * i) = ts ! i"
  shows "get_tab m sg r = (case find (\<lambda>g. has_sig m g sg) ts of Some g \<Rightarrow> g | None \<Rightarrow> NULL)"
proof -
  have "36 + 4 * length ts < 2 ^ 32" using rd32_bound [of m "r + 4"] assms(1) by simp
  then have "(36 + 4 * length ts + 2 ^ 32 - 36) mod 2 ^ 32 div 4 = length ts" by simp
  moreover have "map (\<lambda>k. rd32 m (r + 36 + 4 * k)) [0..<length ts] = ts"
    using assms(2) by (intro nth_equalityI) auto
  ultimately show ?thesis
    using assms(1) by (simp add: get_tab_def get_tab_from_find ACPI_HEADER_SIZ_def Let_def)
qed

section \<open>The SMBIOS structures\<close>

text \<open>A structure as the firmware lays it out: header, formatted area, strings, end mark.\<close>

record smb =
  smb_typ :: u8
  smb_handle :: "u8 \<times> u8"
  smb_data :: "u8 list"
  smb_strs :: "u8 list list"

definition smb_ok :: "smb \<Rightarrow> bool" where
  "smb_ok s \<longleftrightarrow> length (smb_data s) < 252 \<and> list_all (\<lambda>c. c \<noteq> [] \<and> 0 \<notin> set c) (smb_strs s)"

definition smb_tail :: "u8 list list \<Rightarrow> u8 list" where
  "smb_tail ss = (if ss = [] then [0] else concat (map (\<lambda>c. c @ [0]) ss)) @ [0]"

definition smb_bytes :: "smb \<Rightarrow> u8 list" where
  "smb_bytes s = [smb_typ s, of_nat (4 + length (smb_data s)), fst (smb_handle s), snd (smb_handle s)] @
     smb_data s @ smb_tail (smb_strs s)"

lemma smb_strings_end_step:
  "\<not> (m (t + i - 1) = 0 \<and> m (t + i) = 0) \<Longrightarrow> smb_strings_end m t i = smb_strings_end m t (i + 1)"
  by (subst smb_strings_end.simps) auto

lemma smb_strings_end_stop: "m (t + i - 1) = 0 \<Longrightarrow> m (t + i) = 0 \<Longrightarrow> smb_strings_end m t i = Some i"
  by (subst smb_strings_end.simps) auto

text \<open>Over a string the scan advances to the byte after its end mark.\<close>

lemma smb_scan_string:
  "bytes_at m (t + i) (c @ [0]) \<Longrightarrow> 0 \<notin> set c \<Longrightarrow> c \<noteq> [] \<Longrightarrow>
   smb_strings_end m t (Suc i) = smb_strings_end m t (Suc i + length c)"
proof (induction c arbitrary: i)
  case (Cons x c)
  then have x: "m (t + i) = x" "x \<noteq> 0" "bytes_at m (t + Suc i) (c @ [0])" by (auto simp: bytes_at_Cons)
  have "smb_strings_end m t (Suc i) = smb_strings_end m t (Suc (Suc i))"
    using smb_strings_end_step [of m t "Suc i"] x by simp
  then show ?case using Cons.IH [OF x(3)] Cons.prems by (cases c) auto
qed simp

lemma smb_scan_strings:
  "bytes_at m (t + i) (concat (map (\<lambda>c. c @ [0]) ss) @ [0]) \<Longrightarrow> list_all (\<lambda>c. c \<noteq> [] \<and> 0 \<notin> set c) ss \<Longrightarrow> ss \<noteq> [] \<Longrightarrow>
   smb_strings_end m t (Suc i) = Some (i + length (concat (map (\<lambda>c. c @ [0]) ss)))"
proof (induction ss arbitrary: i)
  case (Cons c ss)
  have c: "bytes_at m (t + i) (c @ [0])" "0 \<notin> set c" "c \<noteq> []" using Cons.prems by (auto simp: bytes_at_append bytes_at_Cons)
  let ?j = "i + length c"
  have z: "m (t + ?j) = 0" using c(1) by (simp add: bytes_at_append bytes_at_Cons add.assoc)
  have rest: "bytes_at m (t + Suc ?j) (concat (map (\<lambda>c. c @ [0]) ss) @ [0])"
    using Cons.prems(1) by (simp add: bytes_at_append bytes_at_Cons add.assoc)
  have s1: "smb_strings_end m t (Suc i) = smb_strings_end m t (Suc ?j)" using smb_scan_string [OF c] by simp
  show ?case
  proof (cases "ss = []")
    case True
    then have "m (t + Suc ?j) = 0" using rest by (simp add: bytes_at_Cons)
    then show ?thesis using s1 z True smb_strings_end_stop [of m t "Suc ?j"] by simp
  next
    case False
    then obtain d ds where ss: "ss = d # ds" by (cases ss) auto
    have "m (t + Suc ?j) \<noteq> 0" using rest Cons.prems(2) by (cases d) (auto simp: ss bytes_at_Cons)
    then have "smb_strings_end m t (Suc ?j) = smb_strings_end m t (Suc (Suc ?j))"
      using smb_strings_end_step [of m t "Suc ?j"] by simp
    also have "\<dots> = Some (Suc ?j + length (concat (map (\<lambda>c. c @ [0]) ss)))"
      using Cons.IH [of "Suc ?j"] rest Cons.prems(2) False by simp
    finally show ?thesis using s1 by simp
  qed
qed simp

lemma smbios_headlen_struct:
  assumes "smb_ok s" "bytes_at m a (smb_bytes s)"
  shows "smbios_headlen m a = Some (length (smb_bytes s))"
proof -
  let ?n = "4 + length (smb_data s)"
  have "?n < 2 ^ 8" using assms(1) by (simp add: smb_ok_def)
  then have "unat (of_nat ?n :: u8) = ?n" by (simp add: unat_of_nat del: of_nat_add)
  moreover have "m (a + 1) = of_nat ?n" using assms(2) by (simp add: smb_bytes_def bytes_at_Cons)
  ultimately have n: "unat (m (a + 1)) = ?n" by simp
  have t: "bytes_at m (a + ?n) (smb_tail (smb_strs s))"
    using assms(2) by (simp add: smb_bytes_def bytes_at_append bytes_at_Cons add.commute [of 4] eval_nat_numeral)
  have "smb_strings_end m (a + ?n) (Suc 0) = Some (length (smb_tail (smb_strs s)) - 1)"
  proof (cases "smb_strs s = []")
    case True
    then have "m (a + ?n) = 0" "m (Suc (a + ?n)) = 0" using t by (simp_all add: smb_tail_def bytes_at_Cons)
    then show ?thesis using True smb_strings_end_stop [of m "a + ?n" "Suc 0"]
      by (simp only: smb_tail_def add_Suc_right add_0_right diff_Suc_1) (simp add: smb_tail_def)
  next
    case False
    then show ?thesis using smb_scan_strings [of m "a + ?n" 0 "smb_strs s"] t assms(1)
      by (simp add: smb_tail_def smb_ok_def)
  qed
  moreover have "0 < length (smb_tail (smb_strs s))" by (simp add: smb_tail_def)
  ultimately show ?thesis using n by (simp add: smbios_headlen_def smb_bytes_def)
qed

lemma smbios_walk:
  "list_all (\<lambda>s. smb_ok s \<and> smb_typ s \<noteq> 127) ss \<Longrightarrow> bytes_at m a (concat (map smb_bytes ss) @ [127]) \<Longrightarrow>
   print_smbinfo m a = Some (a + length (concat (map smb_bytes ss)))"
proof (induction ss arbitrary: a)
  case Nil
  then show ?case by (subst print_smbinfo.simps) (simp add: bytes_at_Cons)
next
  case (Cons s ss)
  have s: "bytes_at m a (smb_bytes s)" "bytes_at m (a + length (smb_bytes s)) (concat (map smb_bytes ss) @ [127])"
    using Cons.prems(2) by (simp_all add: bytes_at_append add.assoc)
  have "m a \<noteq> 127" using s(1) Cons.prems(1) by (simp add: smb_bytes_def bytes_at_Cons)
  then show ?case using smbios_headlen_struct [OF _ s(1)] Cons.IH [OF _ s(2)] Cons.prems(1)
    by (subst print_smbinfo.simps) (simp add: add.assoc)
qed

lemma getstr_loop_nth:
  "bytes_at m t (concat (map (\<lambda>c. c @ [0]) ss)) \<Longrightarrow> list_all (\<lambda>c. c \<noteq> [] \<and> 0 \<notin> set c) ss \<Longrightarrow> k < length ss \<Longrightarrow> k < 2 ^ 32 \<Longrightarrow>
   \<exists>p. getstr_loop m t (of_nat k) = Some p \<and> cstr m p (ss ! k)"
proof (induction ss arbitrary: t k)
  case (Cons c ss)
  have cs: "cstr m t c" if "bytes_at m t (c @ [0])" "0 \<notin> set c" for c t
    using that by (induction c arbitrary: t) (auto simp: bytes_at_Cons)
  have c: "cstr m t c" using Cons.prems by (intro cs) (auto simp: bytes_at_append bytes_at_Cons)
  show ?case
  proof (cases k)
    case 0
    then show ?thesis using c by (subst getstr_loop.simps) simp
  next
    case (Suc j)
    have "(of_nat k :: u32) \<noteq> 0" using Suc Cons.prems(4) by (simp add: word_of_nat_eq_0_iff nat_dvd_not_less del: of_nat_Suc)
    moreover have "of_nat k - 1 = (of_nat j :: u32)" using Suc by simp
    moreover have "bytes_at m (t + length c + 1) (concat (map (\<lambda>c. c @ [0]) ss))"
      using Cons.prems(1) by (simp add: bytes_at_append bytes_at_Cons add.assoc)
    ultimately show ?thesis using Cons.IH [of "t + length c + 1" j] Cons.prems Suc strlen_cstr [OF c]
      by (subst getstr_loop.simps) auto
  qed
qed simp

lemma bytes_at_nth_struct:
  assumes "n < length ss" "bytes_at m a (concat (map f ss) @ r)"
  shows "bytes_at m (a + length (concat (map f (take n ss)))) (f (ss ! n))"
proof -
  have "concat (map f ss) = concat (map f (take n ss)) @ f (ss ! n) @ concat (map f (drop (Suc n) ss))"
    by (subst id_take_nth_drop [OF assms(1)]) simp
  then show ?thesis using assms(2) by (simp only: append_assoc bytes_at_append)
qed

lemma getstr_nth:
  assumes "smb_ok s" "bytes_at m a (smb_bytes s)" "k < length (smb_strs s)" "k < 2 ^ 32"
  shows "\<exists>p. getstr m a (of_nat k + 1) = Some p \<and> cstr m p (smb_strs s ! k)"
proof -
  let ?n = "4 + length (smb_data s)"
  have "?n < 2 ^ 8" using assms(1) by (simp add: smb_ok_def)
  then have "unat (of_nat ?n :: u8) = ?n" by (simp add: unat_of_nat del: of_nat_add)
  moreover have "m (a + 1) = of_nat ?n" using assms(2) by (simp add: smb_bytes_def bytes_at_Cons)
  ultimately have "getstr m a (of_nat k + 1) = getstr_loop m (a + ?n) (of_nat k)" by (simp add: getstr_def)
  moreover have "bytes_at m (a + ?n) (smb_tail (smb_strs s))"
    using assms(2) by (simp add: smb_bytes_def bytes_at_append bytes_at_Cons add.commute [of 4] eval_nat_numeral)
  then have "bytes_at m (a + ?n) (concat (map (\<lambda>c. c @ [0]) (smb_strs s)))"
    using assms(3) by (auto simp: smb_tail_def bytes_at_append split: if_splits)
  ultimately show ?thesis using getstr_loop_nth [of m "a + ?n" "smb_strs s" k] assms by (simp add: smb_ok_def)
qed

text \<open>C30. On any table of well-formed SMBIOS structures that ends with the end-of-table type the walk
  of \<^verbatim>\<open>print_smbinfo\<close> ends exactly at that structure; at the start of each structure \<^verbatim>\<open>smbios_headlen\<close> is its length with
  all its strings, and \<^verbatim>\<open>getstr\<close> of a string number, counted from 1, points to that string.\<close>

theorem smbios_walk_ends:
  assumes "list_all (\<lambda>s. smb_ok s \<and> smb_typ s \<noteq> 127) ss" "bytes_at m a (concat (map smb_bytes ss) @ [127])"
  shows "print_smbinfo m a = Some (a + length (concat (map smb_bytes ss))) \<and>
    (\<forall>n<length ss. let b = a + length (concat (map smb_bytes (take n ss))) in
       smbios_headlen m b = Some (length (smb_bytes (ss ! n))) \<and>
       (\<forall>k<length (smb_strs (ss ! n)). k < 2 ^ 32 \<longrightarrow>
          (\<exists>p. getstr m b (of_nat k + 1) = Some p \<and> cstr m p (smb_strs (ss ! n) ! k))))"
proof -
  have "smb_ok (ss ! n)" if "n < length ss" for n using assms(1) that by (simp add: list_all_length)
  then show ?thesis using smbios_walk [OF assms] bytes_at_nth_struct [OF _ assms(2)] smbios_headlen_struct getstr_nth
    by (simp add: Let_def)
qed

theorem smbios_walk_ends_witness:
  "print_smbinfo ((\<lambda>_. 0)(0 := 0, 1 := 5, 4 := 1, 5 := 65, 8 := 127)) 0 = Some 8"
proof -
  let ?s = "\<lparr>smb_typ = 0, smb_handle = (0, 0), smb_data = [1], smb_strs = [[65]]\<rparr> :: smb"
  let ?m = "(\<lambda>_. 0)(0 := 0, 1 := 5, 4 := 1, 5 := 65, 8 := 127) :: mem"
  have "list_all (\<lambda>s. smb_ok s \<and> smb_typ s \<noteq> 127) [?s]" by (simp add: smb_ok_def)
  moreover have "bytes_at ?m 0 (concat (map smb_bytes [?s]) @ [127])"
    by (simp add: smb_bytes_def smb_tail_def bytes_at_Cons)
  ultimately show ?thesis using smbios_walk_ends [of "[?s]" ?m 0] by (simp add: smb_bytes_def smb_tail_def)
qed

end
