(* ===== verification/Cpu_Irq.thy ===== *)
theory Cpu_Irq
  imports Mem_Acpi Cpu_Desc Cpu_Io
begin

text \<open>
  Interrupt routing (\<^verbatim>\<open>src/kern/cpu/irq.c\<close>, \<^verbatim>\<open>src/kern/cpu/apic.c\<close>): the legacy controllers are masked, the
  I/O controller's address and the interrupt overrides are read from the firmware's MADT, and
  registering a handler programs one redirection entry.  Registers of the controllers are memory
  mapped: \<open>'h mmio\<close> says what 32-bit loads and stores do to the hardware, \<open>ioapic_dev\<close> is the
  documented behaviour of the I/O controller's index and data registers.
\<close>

record 'h mmio =
  mm_rd :: "addr \<Rightarrow> 'h \<Rightarrow> u32 \<times> 'h"
  mm_wr :: "addr \<Rightarrow> u32 \<Rightarrow> 'h \<Rightarrow> 'h"
  rdmsr :: "u32 \<Rightarrow> 'h \<Rightarrow> u32 \<times> u32"
  wrmsr :: "u32 \<Rightarrow> u32 \<times> u32 \<Rightarrow> 'h \<Rightarrow> 'h"

section \<open>The legacy controllers\<close>

definition PIC1_COMMAND :: u16 where "PIC1_COMMAND = 0x20"
definition PIC1_DATA :: u16 where "PIC1_DATA = 0x21"
definition PIC2_COMMAND :: u16 where "PIC2_COMMAND = 0xA0"
definition PIC2_DATA :: u16 where "PIC2_DATA = 0xA1"
definition ICW1_ICW4 :: u8 where "ICW1_ICW4 = 0x01"
definition ICW1_INIT :: u8 where "ICW1_INIT = 0x10"
definition ICW4_8086 :: u8 where "ICW4_8086 = 0x01"

definition pic_remap :: "'h ports \<Rightarrow> u8 \<Rightarrow> u8 \<Rightarrow> ('h, unit) state" where
  "pic_remap p offset1 offset2 = do {
     outb p PIC1_COMMAND (ICW1_INIT OR ICW1_ICW4);
     io_wait p;
     outb p PIC2_COMMAND (ICW1_INIT OR ICW1_ICW4);
     io_wait p;
     outb p PIC1_DATA offset1;
     io_wait p;
     outb p PIC2_DATA offset2;
     io_wait p;
     outb p PIC1_DATA (push_bit 2 1);
     io_wait p;
     outb p PIC2_DATA 2;
     io_wait p;
     outb p PIC1_DATA ICW4_8086;
     io_wait p;
     outb p PIC2_DATA ICW4_8086;
     io_wait p;
     outb p PIC1_DATA 0xff;
     outb p PIC2_DATA 0xff
   }"

definition pic_disable :: "'h ports \<Rightarrow> ('h, unit) state" where
  "pic_disable p = do { outb p PIC1_DATA 0xff; outb p PIC2_DATA 0xff }"

definition init_pic :: "'h ports \<Rightarrow> ('h, unit) state" where
  "init_pic p = pic_remap p 0x20 0x28"

section \<open>The interrupt controller's description\<close>

record int_override =
  o_bus :: u8
  o_source :: u8
  o_flg :: u8
  o_gsi :: u32

record apic =
  ioapic_addr :: addr
  gsi_base :: addr
  lapic_id :: u8
  irq_overrides :: "int_override list"

definition MAX_OVERRIDE :: nat where "MAX_OVERRIDE = 20"
definition OVERRIDE_EXISTS :: u8 where "OVERRIDE_EXISTS = 0x80"
definition LAPIC_ID_NONE :: u8 where "LAPIC_ID_NONE = 0xde"
definition MENTRY_LAPIC :: u8 where "MENTRY_LAPIC = 0"
definition MENTRY_IOPIC :: u8 where "MENTRY_IOPIC = 1"
definition MENTRY_IOVERRIDE :: u8 where "MENTRY_IOVERRIDE = 2"

lemmas apic_consts = MAX_OVERRIDE_def OVERRIDE_EXISTS_def LAPIC_ID_NONE_def MENTRY_LAPIC_def MENTRY_IOPIC_def MENTRY_IOVERRIDE_def

text \<open>One entry: type, length, data.  An override of an interrupt beyond the array is a memory fault.\<close>

definition madt_entry :: "mem \<Rightarrow> addr \<Rightarrow> apic \<Rightarrow> apic option" where
  "madt_entry m p s =
    (let d = p + 2 in
     if m p = MENTRY_LAPIC then
       Some (if lapic_id s = LAPIC_ID_NONE then s\<lparr>lapic_id := m (d + 1)\<rparr> else s)
     else if m p = MENTRY_IOPIC then
       Some (s\<lparr>ioapic_addr := rd32 m (d + 2), gsi_base := rd32 m (d + 6)\<rparr>)
     else if m p = MENTRY_IOVERRIDE then
       (let i = unat (m (d + 1)) in
        if i < length (irq_overrides s) then
          Some (s\<lparr>irq_overrides := (irq_overrides s)[i :=
            \<lparr>o_bus = m d, o_source = m (d + 1), o_flg = of_nat (rd16 m (d + 6)) OR OVERRIDE_EXISTS,
             o_gsi = of_nat (rd32 m (d + 2))\<rparr>]\<rparr>)
        else None)
     else Some s)"

partial_function (option) madt_loop :: "mem \<Rightarrow> addr \<Rightarrow> addr \<Rightarrow> apic \<Rightarrow> apic option" where
  "madt_loop m e p s =
     (if p < e then (case madt_entry m p s of None \<Rightarrow> None | Some s' \<Rightarrow> madt_loop m e (p + unat (m (p + 1))) s')
      else Some s)"

definition MADT_SIG :: "u8 list" where "MADT_SIG = ascii ''APIC''"

definition parse_madt :: "mem \<Rightarrow> addr \<Rightarrow> apic \<Rightarrow> (addr \<times> apic) option" where
  "parse_madt m rsdt s =
    (let (rsdt', tab) = get_acpitab m rsdt MADT_SIG in
     if tab = NULL then Some (rsdt', s)
     else map_option (\<lambda>s'. (rsdt', s')) (madt_loop m (tab + rd32 m (tab + 4)) (tab + 44) s))"

definition irq2gsi :: "apic \<Rightarrow> nat \<Rightarrow> u32 option" where
  "irq2gsi s irq =
    (if irq < length (irq_overrides s) then
       (let ov = irq_overrides s ! irq in Some (if o_flg ov AND OVERRIDE_EXISTS \<noteq> 0 then o_gsi ov else of_nat irq))
     else None)"

definition irq2flg :: "apic \<Rightarrow> nat \<Rightarrow> u8 option" where
  "irq2flg s irq =
    (if irq < length (irq_overrides s) then
       (let ov = irq_overrides s ! irq in Some (if o_flg ov AND OVERRIDE_EXISTS \<noteq> 0 then o_flg ov AND 0xF else 0))
     else None)"

section \<open>Memory-mapped registers\<close>

definition ioapic_read :: "'h mmio \<Rightarrow> apic \<Rightarrow> u8 \<Rightarrow> 'h \<Rightarrow> u32 \<times> 'h" where
  "ioapic_read mm s reg h = mm_rd mm (ioapic_addr s + 0x10) (mm_wr mm (ioapic_addr s) (ucast reg) h)"

definition ioapic_write :: "'h mmio \<Rightarrow> apic \<Rightarrow> u8 \<Rightarrow> u32 \<Rightarrow> 'h \<Rightarrow> 'h" where
  "ioapic_write mm s reg v h = mm_wr mm (ioapic_addr s + 0x10) v (mm_wr mm (ioapic_addr s) (ucast reg) h)"

text \<open>The register number is passed as a byte.\<close>

definition ioapic_set_irq :: "'h mmio \<Rightarrow> apic \<Rightarrow> nat \<Rightarrow> u32 \<Rightarrow> 'h \<Rightarrow> 'h option" where
  "ioapic_set_irq mm s irq vect h =
    (case irq2gsi s irq of
       None \<Rightarrow> None
     | Some gsi \<Rightarrow>
         let entry = (ucast vect :: 64 word) OR push_bit 56 (ucast (lapic_id s));
             h1 = ioapic_write mm s (ucast (0x10 + gsi * 2)) (ucast entry) h
         in Some (ioapic_write mm s (ucast (0x10 + gsi * 2 + 1)) (ucast (drop_bit 32 entry)) h1))"

definition APIC_MSR_BASE :: u32 where "APIC_MSR_BASE = 0x1B"
definition APIC_MSR_EN :: u32 where "APIC_MSR_EN = 0x800"
definition LAPIC_EOI :: nat where "LAPIC_EOI = 0xb0"

definition get_apic_base :: "'h mmio \<Rightarrow> 'h \<Rightarrow> u32" where
  "get_apic_base mm h = fst (rdmsr mm APIC_MSR_BASE h) AND 0xfffff000"

definition set_apic_base :: "'h mmio \<Rightarrow> u32 \<Rightarrow> 'h \<Rightarrow> 'h" where
  "set_apic_base mm a h = wrmsr mm APIC_MSR_BASE ((a AND 0xfffff000) OR APIC_MSR_EN, 0) h"

definition lapic_write :: "'h mmio \<Rightarrow> u32 \<Rightarrow> nat \<Rightarrow> u32 \<Rightarrow> 'h \<Rightarrow> 'h" where
  "lapic_write mm b reg v h = snd (mm_rd mm (unat b + 0x20) (mm_wr mm (unat b + reg div 4 * 4) v h))"

definition lapic_read :: "'h mmio \<Rightarrow> u32 \<Rightarrow> nat \<Rightarrow> 'h \<Rightarrow> u32 \<times> 'h" where
  "lapic_read mm b reg h = mm_rd mm (unat b + reg div 4 * 4) h"

definition lapic_eoi :: "'h mmio \<Rightarrow> u32 \<Rightarrow> 'h \<Rightarrow> 'h" where
  "lapic_eoi mm b h = lapic_write mm b LAPIC_EOI 0 h"

definition set_apic :: "'h mmio \<Rightarrow> 'h \<Rightarrow> u32 \<times> 'h" where
  "set_apic mm h =
    (let h1 = set_apic_base mm (get_apic_base mm h) h;
         b = get_apic_base mm h1;
         (v, h2) = lapic_read mm b 0xf0 h1
     in (b, lapic_write mm b 0xf0 (v OR 0x100) h2))"

section \<open>Handlers\<close>

record irq_desc =
  d_irq :: u32
  d_count :: u32
  d_flg :: u8
  d_name :: string
  d_chipname :: string

record irqs =
  apic_s :: apic
  irq_hand :: "isr_hand list"
  irq_descs :: "irq_desc list"

definition MAX_DESC :: nat where "MAX_DESC = 40"
definition DESC_EXISTS :: u8 where "DESC_EXISTS = 0x80"

datatype irq_out = Irq_ignored | Irq_unhandled | Irq_calls isr_hand

text \<open>The descriptor is indexed, and its count increased, before the vector is checked.\<close>

definition irq_handler :: "u32 \<Rightarrow> irqs \<Rightarrow> (irq_out \<times> irqs) option" where
  "irq_handler int_no k =
    (let i = unat (int_no - 32) in
     if length (irq_descs k) \<le> i then None
     else
       let d = irq_descs k ! i;
           k1 = (if d_flg d AND DESC_EXISTS \<noteq> 0
                 then k\<lparr>irq_descs := (irq_descs k)[i := d\<lparr>d_count := d_count d + 1\<rparr>]\<rparr> else k)
       in if int_no < 32 \<or> 48 \<le> int_no then Some (Irq_ignored, k1)
          else if length (irq_hand k1) \<le> i then None
          else if irq_hand k1 ! i = NULL then Some (Irq_unhandled, k1)
          else Some (Irq_calls (irq_hand k1 ! i), k1))"

definition register_irq :: "'h mmio \<Rightarrow> isr_hand \<Rightarrow> u8 \<Rightarrow> string \<Rightarrow> irqs \<times> 'h \<Rightarrow> (irqs \<times> 'h) option" where
  "register_irq mm r no name kh =
    (let (k, h) = kh; n = unat no in
     case ioapic_set_irq mm (apic_s k) n (ucast no + 32) h of
       None \<Rightarrow> None
     | Some h1 \<Rightarrow>
         (case (irq2flg (apic_s k) n, irq2gsi (apic_s k) n) of
            (Some f, Some g) \<Rightarrow>
              if n < length (irq_descs k) \<and> n < length (irq_hand k) then
                Some (k\<lparr>irq_descs := (irq_descs k)[n := \<lparr>d_irq = g, d_count = 0, d_flg = f OR DESC_EXISTS,
                          d_name = name, d_chipname = ''IO-APIC''\<rparr>],
                        irq_hand := (irq_hand k)[n := r]\<rparr>, h1)
              else None
          | _ \<Rightarrow> None))"

definition getflow :: "u8 \<Rightarrow> string" where
  "getflow flg =
    (let a = flg AND 0x0c in
     if a = 0x0c then ''level'' else if a = 0x04 then ''edge'' else if a = 0 then ''edge'' else ''idk'')"

definition getpol :: "u8 \<Rightarrow> char" where
  "getpol flg = (let a = flg AND 3 in if a = 0 \<or> a = 1 then CHR ''+'' else if a = 3 then CHR ''-'' else CHR '' '')"

definition ioapic_init :: "'h ports \<Rightarrow> 'h mmio \<Rightarrow> mem \<Rightarrow> addr \<Rightarrow> apic \<times> 'h \<Rightarrow> (addr \<times> apic \<times> 'h) option" where
  "ioapic_init p mm m rsdt sh =
    (let (s, h) = sh in
     case parse_madt m rsdt s of
       None \<Rightarrow> None
     | Some (rsdt', s1) \<Rightarrow>
         let h1 = snd (run_state (pic_disable p) h) in
         case ioapic_set_irq mm s1 0 32 h1 of None \<Rightarrow> None | Some h2 \<Rightarrow>
         (case ioapic_set_irq mm s1 1 33 h2 of None \<Rightarrow> None | Some h3 \<Rightarrow>
         (case ioapic_set_irq mm s1 4 36 h3 of None \<Rightarrow> None | Some h4 \<Rightarrow> Some (rsdt', s1, h4))))"

section \<open>The MADT as the firmware writes it\<close>

datatype mentry =
    E_lapic u8 u8 u32
  | E_iopic u8 u8 u32 u32
  | E_iover u8 u8 u32 u16
  | E_other u8 "u8 list"

fun mentry_bytes :: "mentry \<Rightarrow> u8 list" where
  "mentry_bytes (E_lapic i a f) = [0, 8, i, a] @ le32 f"
| "mentry_bytes (E_iopic i r a g) = [1, 12, i, r] @ le32 a @ le32 g"
| "mentry_bytes (E_iover b q g f) = [2, 10, b, q] @ le32 g @ [ucast f, ucast (drop_bit 8 f)]"
| "mentry_bytes (E_other t d) = [t, of_nat (2 + length d)] @ d"

fun mentry_ok :: "mentry \<Rightarrow> bool" where
  "mentry_ok (E_iover b q g f) = (q < 20)"
| "mentry_ok (E_other t d) = (t \<notin> {0, 1, 2} \<and> length d < 254)"
| "mentry_ok _ = True"

text \<open>What an entry means: the first local controller, the last I/O controller and the last override of each
  interrupt count.\<close>

fun mentry_apply :: "mentry \<Rightarrow> apic \<Rightarrow> apic" where
  "mentry_apply (E_lapic i a f) s = (if lapic_id s = LAPIC_ID_NONE then s\<lparr>lapic_id := a\<rparr> else s)"
| "mentry_apply (E_iopic i r a g) s = s\<lparr>ioapic_addr := unat a, gsi_base := unat g\<rparr>"
| "mentry_apply (E_iover b q g f) s =
     s\<lparr>irq_overrides := (irq_overrides s)[unat q := \<lparr>o_bus = b, o_source = q, o_flg = ucast f OR OVERRIDE_EXISTS, o_gsi = g\<rparr>]\<rparr>"
| "mentry_apply (E_other t d) s = s"

lemma u16_bytes: "of_nat (unat (ucast f :: u8) + 256 * unat (ucast (drop_bit 8 f) :: u8)) = (ucast (f :: u16) :: u8)"
proof -
  have "(256 :: u8) = of_nat (2 ^ LENGTH(8))" by simp
  also have "\<dots> = 0" by (simp only: word_of_nat_eq_0_iff dvd_refl)
  finally have "(256 :: u8) = 0" .
  then show ?thesis by (simp only: of_nat_add of_nat_mult of_nat_numeral) simp
qed

lemma madt_entry_bytes:
  assumes "mentry_ok e" "bytes_at m p (mentry_bytes e)" "length (irq_overrides s) = 20"
  shows "madt_entry m p s = Some (mentry_apply e s)" and "unat (m (p + 1)) = length (mentry_bytes e)"
proof -
  have *: "madt_entry m p s = Some (mentry_apply e s) \<and> unat (m (p + 1)) = length (mentry_bytes e)"
  proof (cases e)
    case (E_lapic i a f)
    then have "m p = 0" "m (p + 1) = 8" "m (Suc (Suc (Suc p))) = a" using assms(2) by (auto simp: bytes_at_Cons eval_nat_numeral)
    then show ?thesis using E_lapic by (simp add: madt_entry_def apic_consts Let_def)
  next
    case (E_iopic i r a g)
    then have "m p = 1" "m (p + 1) = 12" and a: "bytes_at m (p + 2 + 2) (le32 a)" and g: "bytes_at m (p + 2 + 6) (le32 g)"
      using assms(2) by (auto simp: bytes_at_Cons bytes_at_append eval_nat_numeral)
    then show ?thesis using E_iopic rd32_le32 [OF a] rd32_le32 [OF g] by (simp add: madt_entry_def apic_consts Let_def)
  next
    case (E_iover b q g f)
    then have "m p = 2" "m (p + 1) = 10" "m (p + 2) = b" "m (p + 2 + 1) = q" and g: "bytes_at m (p + 2 + 2) (le32 g)"
      and f: "m (p + 2 + 6) = ucast f" "m (p + 2 + 6 + 1) = ucast (drop_bit 8 f)"
      using assms(2) by (auto simp: bytes_at_Cons bytes_at_append eval_nat_numeral)
    moreover have "unat q < 20" using assms(1) E_iover by (simp add: word_less_nat_alt)
    moreover have "of_nat (rd16 m (p + 2 + 6)) = (ucast f :: u8)" using f u16_bytes [of f] by (simp add: rd16_def)
    moreover have "of_nat (rd32 m (p + 2 + 2)) = g" using rd32_le32 [OF g] by simp
    ultimately show ?thesis using E_iover assms(3) by (simp add: madt_entry_def apic_consts Let_def)
  next
    case (E_other t d)
    then have "2 + length d < 2 ^ 8" using assms(1) by simp
    then have "unat (of_nat (2 + length d) :: u8) = 2 + length d" by (simp only: unat_of_nat_u8) simp
    then show ?thesis using E_other assms(1,2) by (simp add: madt_entry_def bytes_at_Cons apic_consts)
  qed
  then show "madt_entry m p s = Some (mentry_apply e s)" "unat (m (p + 1)) = length (mentry_bytes e)" by simp_all
qed

lemma mentry_apply_len [simp]: "length (irq_overrides (mentry_apply e s)) = length (irq_overrides s)"
  by (cases e) auto

lemma madt_loop_entries:
  "list_all mentry_ok es \<Longrightarrow> bytes_at m p (concat (map mentry_bytes es)) \<Longrightarrow> length (irq_overrides s) = 20 \<Longrightarrow>
   madt_loop m (p + length (concat (map mentry_bytes es))) p s = Some (fold mentry_apply es s)"
proof (induction es arbitrary: p s)
  case Nil
  then show ?case by (subst madt_loop.simps) simp
next
  case (Cons e es)
  have e: "bytes_at m p (mentry_bytes e)" "bytes_at m (p + length (mentry_bytes e)) (concat (map mentry_bytes es))"
    using Cons.prems(2) by (simp_all add: bytes_at_append)
  have "0 < length (mentry_bytes e)" by (cases e) auto
  then show ?case using madt_entry_bytes [OF _ e(1) Cons.prems(3)] Cons.IH [OF _ e(2)] Cons.prems(1,3)
    by (subst madt_loop.simps) (simp add: add.assoc)
qed

section \<open>Programming the I/O controller\<close>

text \<open>The documented behaviour of the controller's two registers: the index register selects, the data
  register reads and writes the selected one.\<close>

definition ioapic_dev :: "'h mmio \<Rightarrow> addr \<Rightarrow> ('h \<Rightarrow> u8) \<Rightarrow> ('h \<Rightarrow> u8 \<Rightarrow> u32) \<Rightarrow> bool" where
  "ioapic_dev mm b sel regs \<longleftrightarrow>
     (\<forall>v h. sel (mm_wr mm b v h) = ucast v \<and> regs (mm_wr mm b v h) = regs h) \<and>
     (\<forall>v h. sel (mm_wr mm (b + 0x10) v h) = sel h \<and> regs (mm_wr mm (b + 0x10) v h) = (regs h)(sel h := v)) \<and>
     (\<forall>h. fst (mm_rd mm (b + 0x10) h) = regs h (sel h))"

lemma ucast_reg: "ucast (ucast (r :: u8) :: u32) = r"
  by (auto simp: bit_eq_iff bit_unsigned_iff dest: bit_imp_le_length)

lemma ioapic_write_regs:
  "ioapic_dev mm (ioapic_addr s) sel regs \<Longrightarrow> regs (ioapic_write mm s r v h) = (regs h)(r := v)"
  by (simp add: ioapic_dev_def ioapic_write_def ucast_reg)

lemma redir_entry:
  "ucast ((ucast (v :: u32) :: 64 word) OR push_bit 56 (ucast (l :: u8))) = v"
  "ucast (drop_bit 32 ((ucast (v :: u32) :: 64 word) OR push_bit 56 (ucast l))) = (push_bit 24 (ucast l) :: u32)"
  by (auto simp: bit_eq_iff bit_or_iff bit_push_bit_iff bit_unsigned_iff bit_drop_bit_eq dest: bit_imp_le_length)

lemma ioapic_set_irq_regs:
  assumes "ioapic_dev mm (ioapic_addr s) sel regs" "irq2gsi s irq = Some g"
  shows "\<exists>h'. ioapic_set_irq mm s irq v h = Some h' \<and>
    regs h' = (regs h)(ucast (0x10 + g * 2) := v, ucast (0x10 + g * 2 + 1) := push_bit 24 (ucast (lapic_id s)))"
  unfolding ioapic_set_irq_def assms(2) option.case Let_def redir_entry by (simp add: ioapic_write_regs [OF assms(1)])

section \<open>Properties\<close>

text \<open>Interrupt routing is read back from the firmware's tables.  When the root table (found by its
  pointer, or known already) lists a table with signature \<^verbatim>\<open>APIC\<close> that holds any sequence of entries, \<^verbatim>\<open>parse_madt\<close> ends
  and its result is exactly what the entries say in order: the first local controller's id, the last I/O
  controller's address and base, the last override of each interrupt below 20.\<close>

theorem parse_madt_correct:
  assumes "R = (if rsdt = NULL then scan_acpi m else rsdt)"
    and "rd32 m (R + 4) = 36 + 4 * length ts" "\<forall>i<length ts. rd32 m (R + 36 + 4 * i) = ts ! i"
    and "find (\<lambda>g. has_sig m g MADT_SIG) ts = Some tab" "tab \<noteq> NULL"
    and "rd32 m (tab + 4) = 44 + length (concat (map mentry_bytes es))"
    and "bytes_at m (tab + 44) (concat (map mentry_bytes es))" "list_all mentry_ok es" "length (irq_overrides s) = 20"
  shows "parse_madt m rsdt s = Some (R, fold mentry_apply es s)"
proof -
  have "get_acpitab m rsdt MADT_SIG = (R, tab)"
    using get_tab_find [OF assms(2,3), of MADT_SIG] assms(1,4) by (simp add: get_acpitab_def Let_def)
  moreover have "madt_loop m (tab + (44 + length (concat (map mentry_bytes es)))) (tab + 44) s = Some (fold mentry_apply es s)"
    using madt_loop_entries [OF assms(8,7,9)] by (simp add: add.assoc)
  ultimately show ?thesis using assms(5,6) by (simp add: parse_madt_def)
qed

lemma desc_exists: "DESC_EXISTS \<noteq> 0"
  by (simp add: DESC_EXISTS_def)

definition irq_wf :: "irqs \<Rightarrow> bool" where
  "irq_wf k \<longleftrightarrow> length (irq_hand k) = 16 \<and> length (irq_descs k) = MAX_DESC \<and> length (irq_overrides (apic_s k)) = MAX_OVERRIDE"

text \<open>C29. A registered interrupt is delivered.  For an interrupt below 16 \<^verbatim>\<open>register_irq\<close> returns and, on a
  controller that behaves as documented, changes exactly the two registers of the redirection entry of
  that interrupt's line: vector \<^verbatim>\<open>no + 32\<close>, fixed delivery, not masked, to the processor found at boot
  (the polarity and trigger mode of an override do not enter).  From then on that
  vector calls the handler and is counted from zero, and the other handlers are as before;
  a vector without a handler is only reported, and one outside 32 to 47 is never dispatched.\<close>

theorem register_irq_delivers:
  assumes "irq_wf k" "no < 16" "r \<noteq> NULL" "irq2gsi (apic_s k) (unat no) = Some g"
    and "ioapic_dev mm (ioapic_addr (apic_s k)) sel regs"
  shows "\<exists>k' h'. register_irq mm r no name (k, h) = Some (k', h') \<and> irq_wf k' \<and>
    regs h' (ucast (0x10 + g * 2)) = ucast no + 32 \<and>
    regs h' (ucast (0x10 + g * 2 + 1)) = push_bit 24 (ucast (lapic_id (apic_s k))) \<and>
    (\<forall>x. x \<notin> {ucast (0x10 + g * 2), ucast (0x10 + g * 2 + 1)} \<longrightarrow> regs h' x = regs h x) \<and>
    (\<exists>k''. irq_handler (ucast no + 32) k' = Some (Irq_calls r, k'') \<and> irq_wf k'' \<and> d_count (irq_descs k'' ! unat no) = 1) \<and>
    (\<forall>i<16. i \<noteq> unat no \<longrightarrow> irq_hand k' ! i = irq_hand k ! i \<and>
       (irq_hand k ! i = NULL \<longrightarrow> map_option fst (irq_handler (of_nat i + 32) k') = Some Irq_unhandled)) \<and>
    (\<forall>v out q. irq_handler v k' = Some (out, q) \<longrightarrow> v < 32 \<or> 48 \<le> v \<longrightarrow> out = Irq_ignored)"
proof -
  let ?n = "unat no"
  have n: "?n < 16" using assms(2) by (simp add: word_less_nat_alt)
  have wf: "length (irq_hand k) = 16" "length (irq_descs k) = 40" "length (irq_overrides (apic_s k)) = 20"
    using assms(1) by (simp_all add: irq_wf_def MAX_DESC_def MAX_OVERRIDE_def)
  from ioapic_set_irq_regs [OF assms(5,4), of "ucast no + 32" h] obtain h' where
    h': "ioapic_set_irq mm (apic_s k) ?n (ucast no + 32) h = Some h'"
    "regs h' = (regs h)(ucast (0x10 + g * 2) := ucast no + 32, ucast (0x10 + g * 2 + 1) := push_bit 24 (ucast (lapic_id (apic_s k))))"
    by blast
  have two: "ucast (0x10 + g * 2 + 1) \<noteq> (ucast (0x10 + g * 2) :: u8)"
  proof
    assume "ucast (0x10 + g * 2 + 1) = (ucast (0x10 + g * 2) :: u8)"
    then have "bit (ucast (0x10 + g * 2 + 1) :: u8) 0 = bit (ucast (0x10 + g * 2) :: u8) 0" by simp
    then show False by (simp only: bit_unsigned_iff) (simp add: bit_0)
  qed
  obtain f where f: "irq2flg (apic_s k) ?n = Some f" using wf n by (simp add: irq2flg_def Let_def)
  let ?d = "\<lparr>d_irq = g, d_count = 0, d_flg = f OR DESC_EXISTS, d_name = name, d_chipname = ''IO-APIC''\<rparr>"
  let ?k = "k\<lparr>irq_descs := (irq_descs k)[?n := ?d], irq_hand := (irq_hand k)[?n := r]\<rparr>"
  have reg: "register_irq mm r no name (k, h) = Some (?k, h')"
    using h'(1) f assms(4) wf n by (simp add: register_irq_def Let_def)
  have vec: "unat (of_nat i + 32 - 32 :: u32) = i" "\<not> of_nat i + 32 < (32 :: u32)" "\<not> (48 :: u32) \<le> of_nat i + 32" if "i < 16" for i
  proof -
    have "unat (of_nat (i + 32) :: u32) = i + 32" using that by (simp add: unat_of_nat del: of_nat_add)
    then have "unat (of_nat i + 32 :: u32) = i + 32" by simp
    then show "unat (of_nat i + 32 - 32 :: u32) = i" "\<not> of_nat i + 32 < (32 :: u32)" "\<not> (48 :: u32) \<le> of_nat i + 32"
      using that by (simp_all add: word_less_nat_alt word_le_nat_alt unat_of_nat)
  qed
  have no: "ucast no = (of_nat ?n :: u32)" by (simp add: unsigned_of_nat)
  have call: "irq_handler (ucast no + 32) ?k =
      Some (Irq_calls r, ?k\<lparr>irq_descs := (irq_descs k)[?n := ?d\<lparr>d_count := 1\<rparr>]\<rparr>)"
    using vec [OF n, folded no] wf n assms(3) by (simp add: irq_handler_def Let_def desc_exists)
  have idle: "map_option fst (irq_handler (of_nat i + 32) ?k) = Some Irq_unhandled"
    if "i < 16" "i \<noteq> ?n" "irq_hand k ! i = NULL" for i
    using vec [OF that(1)] wf that by (simp add: irq_handler_def Let_def)
  have out: "irq_handler v ?k = Some (out, q) \<Longrightarrow> v < 32 \<or> 48 \<le> v \<Longrightarrow> out = Irq_ignored" for v out q
    by (auto simp: irq_handler_def Let_def split: if_splits)
  have wfs: "irq_wf ?k" "irq_wf (?k\<lparr>irq_descs := (irq_descs k)[?n := ?d\<lparr>d_count := 1\<rparr>]\<rparr>)"
    using assms(1) by (simp_all add: irq_wf_def)
  have called: "\<exists>k''. irq_handler (ucast no + 32) ?k = Some (Irq_calls r, k'') \<and> irq_wf k'' \<and> d_count (irq_descs k'' ! ?n) = 1"
    using call wfs(2) wf n by auto
  have rg: "regs h' (ucast (0x10 + g * 2)) = ucast no + 32" "regs h' (ucast (0x10 + g * 2 + 1)) = push_bit 24 (ucast (lapic_id (apic_s k)))"
    "\<forall>x. x \<notin> {ucast (0x10 + g * 2), ucast (0x10 + g * 2 + 1)} \<longrightarrow> regs h' x = regs h x"
    unfolding h'(2) using two by auto
  show ?thesis
    by (intro exI [of _ ?k] exI [of _ h'] conjI reg wfs(1) rg called) (use idle out in auto)
qed

section \<open>A simulated controller\<close>

record sim_ioapic =
  sim_sel :: u8
  sim_regs :: "u8 \<Rightarrow> u32"

definition sim_mmio :: "sim_ioapic mmio" where
  "sim_mmio = \<lparr>mm_rd = (\<lambda>a h. (if a = 0xfec00010 then sim_regs h (sim_sel h) else 0, h)),
     mm_wr = (\<lambda>a v h. if a = 0xfec00000 then h\<lparr>sim_sel := ucast v\<rparr>
                      else if a = 0xfec00010 then h\<lparr>sim_regs := (sim_regs h)(sim_sel h := v)\<rparr> else h),
     rdmsr = (\<lambda>_ _. (0, 0)), wrmsr = (\<lambda>_ _ h. h)\<rparr>"

definition sim_apic :: apic where
  "sim_apic = \<lparr>ioapic_addr = 0xfec00000, gsi_base = 0, lapic_id = 3,
     irq_overrides = replicate 20 \<lparr>o_bus = 0, o_source = 0, o_flg = 0, o_gsi = 0\<rparr>\<rparr>"

definition sim_irqs :: irqs where
  "sim_irqs = \<lparr>apic_s = sim_apic, irq_hand = replicate 16 0,
     irq_descs = replicate 40 \<lparr>d_irq = 0, d_count = 0, d_flg = 0, d_name = [], d_chipname = []\<rparr>\<rparr>"

theorem register_irq_delivers_witness:
  "\<exists>k' h' k''. register_irq sim_mmio 0x1234 4 ''serial'' (sim_irqs, \<lparr>sim_sel = 0, sim_regs = (\<lambda>_. 0)\<rparr>) = Some (k', h') \<and>
     sim_regs h' 0x18 = 36 \<and> sim_regs h' 0x19 = 0x03000000 \<and> irq_handler 36 k' = Some (Irq_calls 0x1234, k'')"
proof -
  have "ioapic_dev sim_mmio (ioapic_addr (apic_s sim_irqs)) sim_sel sim_regs"
    by (simp add: ioapic_dev_def sim_mmio_def sim_irqs_def sim_apic_def)
  moreover have "irq_wf sim_irqs" by (simp add: irq_wf_def sim_irqs_def sim_apic_def MAX_DESC_def MAX_OVERRIDE_def)
  moreover have "irq2gsi (apic_s sim_irqs) (unat (4 :: u8)) = Some 4" by (simp add: irq2gsi_def sim_irqs_def sim_apic_def)
  moreover have "lapic_id (apic_s sim_irqs) = 3" by (simp add: sim_irqs_def sim_apic_def)
  ultimately show ?thesis
    using register_irq_delivers [where k = sim_irqs and no = 4 and r = "0x1234" and g = 4 and mm = sim_mmio and sel = sim_sel
        and regs = sim_regs and name = "''serial''" and h = "\<lparr>sim_sel = 0, sim_regs = (\<lambda>_. 0)\<rparr>"]
    by auto
qed

text \<open>A root table at \<^verbatim>\<open>0x1000\<close> with one entry, a MADT at \<^verbatim>\<open>0x2000\<close> with one override of interrupt 0 to line 2.\<close>

definition sim_mem :: mem where
  "sim_mem = (\<lambda>a. if a = 0x1004 then 40 else if a = 0x1025 then 0x20
     else if a = 0x2000 then of_char CHR ''A'' else if a = 0x2001 then of_char CHR ''P'' else if a = 0x2002 then of_char CHR ''I''
     else if a = 0x2003 then of_char CHR ''C'' else if a = 0x2004 then 54 else if a = 0x202c then 2 else if a = 0x202d then 10
     else if a = 0x2030 then 2 else 0)"

theorem parse_madt_correct_witness:
  "parse_madt sim_mem 0x1000 sim_apic = Some (0x1000, mentry_apply (E_iover 0 0 2 0) sim_apic)"
proof -
  have sig: "has_sig sim_mem 0x2000 MADT_SIG" by (simp add: has_sig_def MADT_SIG_def ascii_def sim_mem_def upt_rec)
  then have f: "find (\<lambda>g. has_sig sim_mem g MADT_SIG) [0x2000] = Some 0x2000" by simp
  have "rd32 sim_mem (0x1000 + 4) = 36 + 4 * length [0x2000::nat]" "\<forall>i<length [0x2000::nat]. rd32 sim_mem (0x1000 + 36 + 4 * i) = [0x2000] ! i"
    "rd32 sim_mem (0x2000 + 4) = 44 + length (concat (map mentry_bytes [E_iover 0 0 2 0]))"
    "bytes_at sim_mem (0x2000 + 44) (concat (map mentry_bytes [E_iover 0 0 2 0]))"
    "list_all mentry_ok [E_iover 0 0 2 0]" "length (irq_overrides sim_apic) = 20"
    by (simp_all add: rd32_def sim_mem_def bytes_at_Cons le32_def sim_apic_def)
  note c = this
  from parse_madt_correct [OF _ c(1,2) f _ c(3-6), of "0x1000"] show ?thesis by simp
qed

end
