(* ===== verification/Mem_Paging.thy ===== *)
theory Mem_Paging
  imports Mem_Correct
begin

text \<open>
  Paging (\<^verbatim>\<open>src/kern/mem/paging.c\<close>).  The page table and the page directory are blocks of the kernel
  heap, obtained with \<^verbatim>\<open>malloc_align\<close> and filled in the byte memory of \<open>Kern_Mem\<close>.  \<open>translate\<close> is the
  processor's walk of these tables (two levels, four-megabyte pages enabled in \<^verbatim>\<open>CR4\<close>), the
  specification against which the tables are read.
\<close>

section \<open>The operations\<close>

definition PAGE_ATTR :: u32 where "PAGE_ATTR = 0x7"
definition PAGE_PS :: u32 where "PAGE_PS = 0x80"
definition PDIR_ATTR :: u32 where "PDIR_ATTR = 0x7"
definition NOPAGES :: nat where "NOPAGES = 0x400"
definition PDIR_PCD :: u32 where "PDIR_PCD = 0x10"
definition PDIR_PWT :: u32 where "PDIR_PWT = 0x08"

lemmas page_consts = PAGE_ATTR_def PAGE_PS_def PDIR_ATTR_def NOPAGES_def PDIR_PCD_def PDIR_PWT_def

record paging =
  pagetab :: addr
  pagedir :: addr

definition debug_vaddr :: "u32 \<Rightarrow> u32 \<times> u32 \<times> u32" where
  "debug_vaddr a = (drop_bit 22 a AND 0x3ff, drop_bit 12 a AND 0x3ff, a AND 0xfff)"

definition entry :: "mem \<Rightarrow> addr \<Rightarrow> nat \<Rightarrow> u32" where
  "entry m t i = of_nat (rd32 m (t + 4 * i))"

definition set_entry :: "addr \<Rightarrow> nat \<Rightarrow> u32 \<Rightarrow> mem \<Rightarrow> mem" where
  "set_entry t i w m = wr32 m (t + 4 * i) (unat w)"

definition map_4mmio :: "paging \<Rightarrow> u32 \<Rightarrow> u32 \<Rightarrow> mem \<Rightarrow> mem" where
  "map_4mmio pg virt phys m =
     set_entry (pagedir pg) (unat (drop_bit 22 virt))
       ((phys AND 0xffc00000) OR PDIR_ATTR OR PAGE_PS OR PDIR_PCD OR PDIR_PWT) m"

definition alloc_page :: "paging \<Rightarrow> u32 \<Rightarrow> u32 \<Rightarrow> mem \<Rightarrow> mem" where
  "alloc_page pg vaddr paddr m =
     (if (paddr OR vaddr) AND 0xfff \<noteq> 0 then m
      else set_entry (pagetab pg) (unat (drop_bit 12 vaddr AND 0x3ff)) (paddr OR PAGE_ATTR) m)"

definition fill_pagetab :: "addr \<Rightarrow> nat \<Rightarrow> mem \<Rightarrow> mem" where
  "fill_pagetab t n m = fold (\<lambda>i. set_entry t i (of_nat (i * 0x1000) OR PAGE_ATTR)) [0..<n] m"

text \<open>\<^verbatim>\<open>page_init\<close> up to \<^verbatim>\<open>switch_pd(pagedir)\<close>; a failed allocation is not noticed.\<close>

definition page_init :: "alloc \<Rightarrow> (paging \<times> alloc) option" where
  "page_init a =
    (case malloc_align a (4 * NOPAGES) 0x1000 of None \<Rightarrow> None | Some (pt, a1) \<Rightarrow>
     (case malloc_align a1 (4 * 1024) 0x1000 of None \<Rightarrow> None | Some (pd, a2) \<Rightarrow>
        let pg = \<lparr>pagetab = pt, pagedir = pd\<rparr>;
            m1 = fill_pagetab pt NOPAGES (mem a2);
            m2 = set_entry pt 0 (entry m1 pt 0 AND NOT 1) m1;
            m3 = set_entry pd 0 (of_nat pt OR PDIR_ATTR) m2;
            m4 = map_4mmio pg 0xfec00000 0xfec00000 m3
        in Some (pg, a2\<lparr>mem := m4\<rparr>)))"

text \<open>The address translation of the processor: present bit 0, page size bit 7.\<close>

definition translate :: "mem \<Rightarrow> addr \<Rightarrow> u32 \<Rightarrow> u32 option" where
  "translate m cr va =
    (let pde = entry m cr (unat (drop_bit 22 va)) in
     if \<not> bit pde 0 then None
     else if bit pde 7 then Some ((pde AND 0xffc00000) OR (va AND 0x3fffff))
     else let pte = entry m (unat (pde AND 0xfffff000)) (unat (drop_bit 12 va AND 0x3ff)) in
       if \<not> bit pte 0 then None else Some ((pte AND 0xfffff000) OR (va AND 0xfff)))"

section \<open>Entries\<close>

lemma entry_same [simp]: "entry (set_entry t i w m) t i = w"
proof -
  have "unat w < 2 ^ 32" using unsigned_less [of w, where ?'a = nat] by simp
  then show ?thesis by (simp add: entry_def set_entry_def)
qed

lemma entry_other [simp]: "i \<noteq> j \<Longrightarrow> entry (set_entry t i w m) t j = entry m t j"
  by (simp add: entry_def set_entry_def) (rule arg_cong [where f = of_nat], rule rd32_wr32_other, arith)

lemma entry_table [simp]: "i < 1024 \<Longrightarrow> j < 1024 \<Longrightarrow> t + 4096 \<le> u \<or> u + 4096 \<le> t \<Longrightarrow>
   entry (set_entry t i w m) u j = entry m u j"
  by (simp add: entry_def set_entry_def) (rule arg_cong [where f = of_nat], rule rd32_wr32_other, arith)

lemma set_entry_out: "i < 1024 \<Longrightarrow> x < t \<or> t + 4096 \<le> x \<Longrightarrow> set_entry t i w m x = m x"
  by (simp add: set_entry_def) (rule wr32_other, arith)

lemma fill_pagetab_Suc:
  "fill_pagetab t (Suc n) m = set_entry t n (of_nat (n * 0x1000) OR PAGE_ATTR) (fill_pagetab t n m)"
  by (simp add: fill_pagetab_def)

lemma fill_pagetab_entry: "i < n \<Longrightarrow> entry (fill_pagetab t n m) t i = of_nat (i * 0x1000) OR PAGE_ATTR"
  by (induction n) (auto simp: fill_pagetab_Suc less_Suc_eq)

lemma fill_pagetab_out: "n \<le> 1024 \<Longrightarrow> x < t \<or> t + 4096 \<le> x \<Longrightarrow> fill_pagetab t n m x = m x"
  by (induction n) (simp_all add: fill_pagetab_Suc set_entry_out, simp add: fill_pagetab_def)

lemma fill_pagetab_table: "n \<le> 1024 \<Longrightarrow> j < 1024 \<Longrightarrow> t + 4096 \<le> u \<or> u + 4096 \<le> t \<Longrightarrow>
   entry (fill_pagetab t n m) u j = entry m u j"
  by (induction n) (simp_all add: fill_pagetab_Suc, simp add: fill_pagetab_def)

section \<open>Aligned allocation\<close>

lemma pow2_and_pred: "(2 ^ k :: nat) AND (2 ^ k - Suc 0) = 0"
proof -
  have "(2 ^ k :: nat) AND mask k = take_bit k (2 ^ k)" by (simp add: take_bit_eq_mask)
  then show ?thesis by (simp add: mask_eq_exp_minus_1 take_bit_eq_mod)
qed

lemma malloc_align_allocated:
  assumes ok: "heap_ok a L A" "hdrs_ok a A" and n: "0 < n" "n + 2 ^ k + 3 \<le> 2 ^ 31 - 14"
  shows "\<exists>p a'. malloc_align a n (2 ^ k) = Some (p, a') \<and>
    (p = NULL \<and> malloc a (n + 2 ^ k + 3) = Some (NULL, a') \<or> (\<exists>raw b. allocated a A (n + 2 ^ k + 3) a' raw b \<and> (\<forall>c\<in>A. blk b \<inter> blk c = {}) \<and>
       2 ^ k dvd p \<and> raw + 4 \<le> p \<and> p + n \<le> raw + (n + 2 ^ k + 3) \<and> p + n \<le> 2 ^ 32 \<and>
       (\<forall>i<n. mem a' (p + i) = 0) \<and> rd32 (mem a') (p - 4) = raw))"
proof -
  let ?n = "n + 2 ^ k + 3"
  have req: "?n mod 2 ^ 32 = ?n" using n by simp
  from malloc_allocated [OF ok n(2)] obtain raw a1 where m: "malloc a ?n = Some (raw, a1)"
    and c: "raw = NULL \<or> (\<exists>b. allocated a A ?n a1 raw b \<and> (\<forall>c\<in>A. blk b \<inter> blk c = {}) \<and> (\<forall>i<?n. mem a1 (raw + i) = 0))"
    by blast
  show ?thesis
  proof (cases "raw = NULL")
    case True
    then show ?thesis using m req by (simp add: malloc_align_def pow2_and_pred)
  next
    case False
    with c obtain b where b: "allocated a A ?n a1 raw b" "\<forall>c\<in>A. blk b \<inter> blk c = {}" "\<forall>i<?n. mem a1 (raw + i) = 0"
      by blast
    have top: "raw + ?n \<le> 2 ^ 32" by (rule allocated_zeroed(2) [OF b(1)])
    define p where "p = (raw + 4 + 2 ^ k - 1) div 2 ^ k * 2 ^ k"
    have "(raw + 4 + 2 ^ k - 1) mod 2 ^ k < 2 ^ k" by simp
    moreover have "p + (raw + 4 + 2 ^ k - 1) mod 2 ^ k = raw + 4 + 2 ^ k - 1"
      unfolding p_def by (rule div_mult_mod_eq)
    ultimately have p: "raw + 4 \<le> p" "p \<le> raw + 3 + 2 ^ k" by linarith+
    have "raw + 4 + 2 ^ k - 1 < 2 ^ 32" using top n by simp
    then have pe: "(raw + 4 + 2 ^ k - 1) mod 2 ^ 32 div 2 ^ k * 2 ^ k = p" by (simp add: p_def)
    have sl: "(p + 2 ^ 32 - 4) mod 2 ^ 32 = p - 4"
    proof -
      have "p + 2 ^ 32 - 4 = (p - 4) + 2 ^ 32" using p by simp
      moreover have "p - 4 < 2 ^ 32" using p top n by linarith
      ultimately show ?thesis by (metis mod_add_self2 mod_less)
    qed
    let ?m = "wr32 (mem a1) (p - 4) raw"
    have "malloc_align a n (2 ^ k) = Some (p, a1\<lparr>mem := ?m\<rparr>)"
      using m req False pe sl by (simp add: malloc_align_def pow2_and_pred Let_def)
    moreover have "allocated a A ?n (a1\<lparr>mem := ?m\<rparr>) raw b"
      by (rule allocated_payload [OF b(1)], rule wr32_other) (use p n in auto)
    moreover have "?m (p + i) = 0" if "i < n" for i
    proof -
      have "?m (p + i) = mem a1 (raw + (p + i - raw))" using p by (simp add: wr32_other)
      also have "\<dots> = 0" by (rule b(3) [rule_format]) (use p that in linarith)
      finally show ?thesis .
    qed
    moreover have "rd32 ?m (p - 4) = raw" using top n by (intro rd32_wr32_same) simp
    moreover have "2 ^ k dvd p" by (simp add: p_def)
    moreover have "p + n \<le> 2 ^ 32" "p + n \<le> raw + ?n" using p top by linarith+
    ultimately have "malloc_align a n (2 ^ k) = Some (p, a1\<lparr>mem := ?m\<rparr>) \<and> allocated a A ?n (a1\<lparr>mem := ?m\<rparr>) raw b \<and>
       (\<forall>c\<in>A. blk b \<inter> blk c = {}) \<and> 2 ^ k dvd p \<and> raw + 4 \<le> p \<and> p + n \<le> raw + ?n \<and> p + n \<le> 2 ^ 32 \<and>
       (\<forall>i<n. mem (a1\<lparr>mem := ?m\<rparr>) (p + i) = 0) \<and> rd32 (mem (a1\<lparr>mem := ?m\<rparr>)) (p - 4) = raw"
      using b(2) p by simp
    then show ?thesis by blast
  qed
qed

text \<open>A failed allocation clears the bytes at address 0, below the heap.\<close>

lemma heap_ok_below:
  assumes ok: "heap_ok a L A" "hdrs_ok a A" and m: "\<And>x. base a \<le> x \<Longrightarrow> m x = mem a x"
  shows "heap_ok (a\<lparr>mem := m\<rparr>) L A" and "hdrs_ok (a\<lparr>mem := m\<rparr>) A"
proof -
  have "fchain m q (L j) = fchain (mem a) q (L j)" for q j
    by (rule fchain_cong, rule rd32_cong, rule m) (use heap_ge [OF ok(1)] in \<open>meson order_trans\<close>)
  then show "heap_ok (a\<lparr>mem := m\<rparr>) L A" using ok(1) by (simp add: heap_ok_def lists_def)
  have "rd32 m x = rd32 (mem a) x" if "base a \<le> x" for x by (rule rd32_cong, rule m) (use that in simp)
  then show "hdrs_ok (a\<lparr>mem := m\<rparr>) A" using ok(2) m by (auto simp: hdrs_ok_def hdr_magic_def hdr_ord_def)
qed

lemma malloc_null_ok:
  assumes ok: "heap_ok a L A" "hdrs_ok a A" and n: "n \<le> 2 ^ 31 - 14" "n \<le> base a" and ml: "malloc a n = Some (NULL, a')"
  shows "heap_ok a' L A" and "hdrs_ok a' A"
proof -
  from km_alloc_allocated [OF ok n(1)] obtain p a0 where k: "km_alloc a n = Some (p, a0)"
    and c: "heap_ok a0 L A \<and> hdrs_ok a0 A \<and> base a0 = base a \<or> (\<exists>b. allocated a A n a0 p b)" by blast
  then have p: "p = NULL" and a': "a' = a0\<lparr>mem := memset (mem a0) p 0 n\<rparr>" using ml by (auto simp: malloc_def)
  then have h: "heap_ok a0 L A" "hdrs_ok a0 A" "base a0 = base a" using c allocated_zeroed(3) [of a A n a0 p] by auto
  have "memset (mem a0) NULL 0 n x = mem a0 x" if "base a0 \<le> x" for x
    using that n h(3) by (intro memset_out) auto
  from heap_ok_below [OF h(1,2) this] show "heap_ok a' L A" "hdrs_ok a' A" using a' p by simp_all
qed

lemma malloc_align_null:
  assumes "heap_ok a L A" "hdrs_ok a A" "malloc_align a 4096 4096 = Some (NULL, a')" "0x2003 \<le> base a"
  shows "heap_ok a' L A" and "hdrs_ok a' A"
proof -
  from malloc_align_allocated [OF assms(1,2), of 4096 12] assms(3)
  have "malloc a 8195 = Some (NULL, a')" by auto
  from malloc_null_ok [OF assms(1,2) _ _ this] assms(4) show "heap_ok a' L A" "hdrs_ok a' A" by simp_all
qed

section \<open>The walk\<close>

lemma attr_bits: "bit (x OR PAGE_ATTR) 0" "bit (x OR PDIR_ATTR) 0"
  by (simp_all add: page_consts bit_or_iff)

lemma u32_field: "(x AND 0xfffff000) OR (x AND 0xfff) = (x :: u32)" "(x AND 0xffc00000) OR (x AND 0x3fffff) = (x :: u32)"
proof -
  have "(0xffffffff :: u32) = - 1" by simp
  then have "x AND 0xffffffff = x" by (metis and.right_neutral)
  then show "(x AND 0xfffff000) OR (x AND 0xfff) = x" "(x AND 0xffc00000) OR (x AND 0x3fffff) = x"
    by (simp_all flip: bit.conj_disj_distrib)
qed

lemma page_frame: "(push_bit 12 x :: u32) AND 0xfffff000 = push_bit 12 x" "\<not> bit (push_bit 12 x :: u32) 7"
proof -
  have "(0xfffff000 :: u32) = NOT (mask 12)" by (simp add: mask_numeral)
  then show "(push_bit 12 x :: u32) AND 0xfffff000 = push_bit 12 x"
    by (auto simp: bit_eq_iff bit_and_iff bit_not_iff bit_mask_iff bit_push_bit_iff)
qed (simp add: bit_push_bit_iff)

lemma translate_large:
  "entry m cr (unat (drop_bit 22 va)) = (phys AND 0xffc00000) OR PDIR_ATTR OR PAGE_PS OR PDIR_PCD OR PDIR_PWT \<Longrightarrow>
   translate m cr va = Some ((phys AND 0xffc00000) OR (va AND 0x3fffff))"
  by (simp add: translate_def page_consts bit_or_iff bit.conj_disj_distrib2 and.assoc)

lemma translate_small:
  assumes "entry m cr (unat (drop_bit 22 va)) = of_nat pt OR PDIR_ATTR" "4096 dvd pt" "pt < 2 ^ 32"
    and "entry m pt (unat (drop_bit 12 va AND 0x3ff)) = w"
  shows "translate m cr va = (if bit w 0 then Some ((w AND 0xfffff000) OR (va AND 0xfff)) else None)"
proof -
  obtain q where q: "pt = 2 ^ 12 * q" using assms(2) by (auto elim: dvdE)
  have "of_nat pt = push_bit 12 (of_nat q :: u32)" by (simp add: q push_bit_eq_mult)
  then have low: "(of_nat pt :: u32) AND 0xfffff000 = of_nat pt" "\<not> bit (of_nat pt :: u32) 7"
    by (simp_all add: page_frame)
  have "(of_nat pt OR PDIR_ATTR :: u32) AND 0xfffff000 = of_nat pt"
    by (simp add: bit.conj_disj_distrib2 low page_consts)
  moreover have "unat (of_nat pt :: u32) = pt" using assms(3) by (simp add: unat_of_nat)
  ultimately show ?thesis using assms low
    by (simp add: translate_def Let_def attr_bits) (simp add: page_consts bit_or_iff)
qed

lemma entry_zero:
  assumes "\<And>x. t \<le> x \<Longrightarrow> x < t + 4096 \<Longrightarrow> m x = 0" and "j < 1024"
  shows "entry m t j = 0"
proof -
  have "m (t + 4 * j + d) = 0" if "d < 4" for d using assms(1) [of "t + 4 * j + d"] assms(2) that by simp
  from this [of 0] this [of 1] this [of 2] this [of 3] show ?thesis
    by (simp add: entry_def rd32_def add.assoc)
qed

lemma unat_shift: "unat (drop_bit k (va :: u32)) = unat va div 2 ^ k"
  by (subst unat_drop_bit_eq, subst drop_bit_eq_div, rule refl)

lemma unat_pti: "unat ((x :: u32) AND 0x3ff) = unat x mod 1024"
proof -
  have "(0x3ff :: u32) = mask 10" by (simp add: mask_numeral)
  then have "unat (x AND 0x3ff) = unat (take_bit 10 x)" by (metis take_bit_eq_mask)
  also have "\<dots> = take_bit 10 (unat x)" by (rule unsigned_take_bit_eq)
  finally show ?thesis by (simp add: take_bit_eq_mod)
qed

lemma page_index: "unat (drop_bit 22 (va :: u32)) < 1024" "unat (drop_bit 12 va AND 0x3ff) < 1024"
proof -
  have "unat va < 2 ^ 32" using unsigned_less [of va, where ?'a = nat] by simp
  then show "unat (drop_bit 22 va) < 1024" by (simp add: unat_shift)
qed (simp add: unat_pti)

lemma low_page_index:
  assumes "drop_bit 22 (va :: u32) = 0"
  shows "push_bit 12 (drop_bit 12 va AND 0x3ff) = va AND 0xfffff000"
proof -
  have z: "\<not> bit va i" if "22 \<le> i" for i
    using arg_cong [OF assms, of "\<lambda>w. bit w (i - 22)"] that by (simp add: bit_drop_bit_eq)
  have m: "(0x3ff :: u32) = mask 10" "(0xfffff000 :: u32) = NOT (mask 12)" by (simp_all add: mask_numeral)
  have "bit (push_bit 12 (drop_bit 12 va AND 0x3ff)) i = bit (va AND 0xfffff000) i" for i
    unfolding m using z [of i]
    by (cases "22 \<le> i") (auto simp: bit_push_bit_iff bit_and_iff bit_not_iff bit_mask_iff bit_drop_bit_eq not_le dest: bit_imp_le_length)
  then show ?thesis by (simp add: bit_eq_iff)
qed

lemma large_frame: "(va :: u32) AND 0xffc00000 = push_bit 22 (drop_bit 22 va)"
proof -
  have m: "(0xffc00000 :: u32) = NOT (mask 22)" by (simp add: mask_numeral)
  show ?thesis unfolding m
    by (auto simp: bit_eq_iff bit_push_bit_iff bit_and_iff bit_not_iff bit_mask_iff bit_drop_bit_eq not_le dest: bit_imp_le_length)
qed

section \<open>The address space after \<^verbatim>\<open>page_init\<close>\<close>

text \<open>The tables in memory: the directory has the page table and one large page, the page table
  is the identity with page 0 absent.\<close>

definition boot_tables :: "paging \<Rightarrow> mem \<Rightarrow> bool" where
  "boot_tables pg m \<longleftrightarrow> 4096 dvd pagetab pg \<and> pagetab pg < 2 ^ 32 \<and>
     (\<forall>i<1024. entry m (pagedir pg) i =
        (if i = 0 then of_nat (pagetab pg) OR PDIR_ATTR
         else if i = 1019 then 0xfec00000 OR PDIR_ATTR OR PAGE_PS OR PDIR_PCD OR PDIR_PWT else 0)) \<and>
     (\<forall>i<1024. entry m (pagetab pg) i = (if i = 0 then 6 else of_nat (i * 0x1000) OR PAGE_ATTR))"

lemma boot_tables_translate:
  assumes "boot_tables pg m"
  shows "translate m (pagedir pg) va =
    (if va < 0x1000 then None
     else if va < 0x400000 \<or> drop_bit 22 va = 0x3fb then Some va else None)"
proof -
  let ?i = "unat (drop_bit 22 va)"
  have dir: "entry m (pagedir pg) ?i = (if ?i = 0 then of_nat (pagetab pg) OR PDIR_ATTR
         else if ?i = 1019 then 0xfec00000 OR PDIR_ATTR OR PAGE_PS OR PDIR_PCD OR PDIR_PWT else 0)"
    using assms page_index(1) [of va] by (simp add: boot_tables_def)
  have lt: "va < 0x400000 \<longleftrightarrow> ?i = 0"
    by (simp add: word_less_nat_alt unat_shift div_eq_0_iff)
  have fb: "drop_bit 22 va = 0x3fb \<longleftrightarrow> ?i = 1019" by (simp add: word_unat_eq_iff)
  consider "?i = 0" | "?i = 1019" | "?i \<noteq> 0" "?i \<noteq> 1019" by blast
  then show ?thesis
  proof cases
    case 1
    let ?j = "unat (drop_bit 12 va AND 0x3ff)"
    have va: "push_bit 12 (drop_bit 12 va AND 0x3ff) = va AND 0xfffff000"
      by (rule low_page_index) (use 1 in \<open>simp add: unat_eq_0\<close>)
    have "of_nat (?j * 0x1000) = push_bit 12 (drop_bit 12 va AND 0x3ff)" by (simp add: push_bit_eq_mult)
    then have w: "entry m (pagetab pg) ?j = (if ?j = 0 then 6 else (va AND 0xfffff000) OR PAGE_ATTR)"
      using assms page_index(2) [of va] va by (simp add: boot_tables_def)
    have "unat va div 4096 < 1024" using 1 by (simp add: unat_shift div_eq_0_iff)
    then have p0: "?j = 0 \<longleftrightarrow> va < 0x1000"
      by (simp add: unat_pti unat_shift word_less_nat_alt div_eq_0_iff)
    have "((va AND 0xfffff000) OR PAGE_ATTR) AND 0xfffff000 = va AND 0xfffff000"
      by (simp add: bit.conj_disj_distrib2 page_consts and.assoc)
    then show ?thesis using translate_small [of m "pagedir pg" va "pagetab pg", OF _ _ _ w] dir 1 assms p0 lt
      by (simp add: boot_tables_def attr_bits u32_field)
  next
    case 2
    have "va AND 0xffc00000 = push_bit 22 (drop_bit 22 va)" by (rule large_frame)
    also have "\<dots> = 0xfec00000" using 2 fb by simp
    finally have "translate m (pagedir pg) va = Some va"
      using translate_large [where m = m and cr = "pagedir pg" and va = va and phys = "0xfec00000"] dir 2 u32_field(2) [of va] by simp
    moreover have "\<not> va < 0x1000" using 2 lt by (auto simp: word_less_nat_alt)
    ultimately show ?thesis using 2 fb by simp
  next
    case 3
    then show ?thesis using dir lt fb by (simp add: translate_def)
  qed
qed

lemma page_init_tables:
  assumes ok: "heap_ok a L A" "hdrs_ok a A" and pi: "page_init a = Some (pg, a')"
    and nn: "pagetab pg \<noteq> NULL" "pagedir pg \<noteq> NULL"
  shows "boot_tables pg (mem a')" and "keeps A a a'"
proof -
  note al = malloc_align_allocated [of _ _ _ 4096 12, simplified]
  from al [OF ok] obtain pt a1 where m1: "malloc_align a 4096 4096 = Some (pt, a1)"
    and c1: "pt = NULL \<or> (\<exists>raw b. allocated a A 8195 a1 raw b \<and> 4096 dvd pt \<and> raw + 4 \<le> pt \<and> pt + 4096 \<le> raw + 8195 \<and>
       pt + 4096 \<le> 2 ^ 32 \<and> (\<forall>c\<in>A. blk b \<inter> blk c = {}))"
    by fastforce
  from pi obtain pd a2 where m2: "malloc_align a1 4096 4096 = Some (pd, a2)"
    by (auto simp: page_init_def NOPAGES_def m1 split: option.splits)
  have pg: "pagetab pg = pt" "pagedir pg = pd" using pi by (auto simp: page_init_def NOPAGES_def m1 m2 Let_def)
  from c1 nn(1) pg obtain r1 b1 where b1: "allocated a A 8195 a1 r1 b1" "4096 dvd pt" "r1 + 4 \<le> pt" "pt + 4096 \<le> r1 + 8195"
    "pt + 4096 \<le> 2 ^ 32" "\<forall>c\<in>A. blk b1 \<inter> blk c = {}" by auto
  then obtain L1 where L1: "heap_ok a1 L1 (insert b1 A)" "hdrs_ok a1 (insert b1 A)" by (auto simp: allocated_def)
  from al [OF L1] m2 nn(2) pg obtain r2 b2 where b2: "allocated a1 (insert b1 A) 8195 a2 r2 b2" "4096 dvd pd"
    "\<forall>c\<in>insert b1 A. blk b2 \<inter> blk c = {}" "r2 + 4 \<le> pd" "pd + 4096 \<le> r2 + 8195" "\<forall>i<4096. mem a2 (pd + i) = 0"
    by fastforce
  have base: "base a1 = base a" and pay: "r1 = base a + fst b1 + 10" "r2 = base a + fst b2 + 10" "(8205::nat) \<le> 2 ^ snd b1" "(8205::nat) \<le> 2 ^ snd b2"
    using b1(1) b2(1) by (auto simp: allocated_def keeps_def)
  have in1: "x - base a \<in> blk b1" "base a \<le> x" if "pt \<le> x" "x < pt + 4096" for x
    using that b1 pay by (cases b1; auto)+
  have in2: "x - base a \<in> blk b2" "base a \<le> x" if "pd \<le> x" "x < pd + 4096" for x
    using that b2 pay by (cases b2; auto)+
  have off: "(x < pt \<or> pt + 4096 \<le> x) \<or> (x < pd \<or> pd + 4096 \<le> x)" for x
    using in1 [of x] in2 [of x] b2(3) by auto
  have apart: "pt + 4096 \<le> pd \<or> pd + 4096 \<le> pt" using off [of "max pt pd"] by (auto simp: max_def split: if_splits)
  let ?m1 = "fill_pagetab pt 1024 (mem a2)"
  have a': "mem a' = set_entry pd 1019 (0xfec00000 OR PDIR_ATTR OR PAGE_PS OR PDIR_PCD OR PDIR_PWT)
      (set_entry pd 0 (of_nat pt OR PDIR_ATTR) (set_entry pt 0 (entry ?m1 pt 0 AND NOT 1) ?m1))"
    "base a' = base a2" "siz a' = siz a2"
    using pi by (auto simp: page_init_def NOPAGES_def m1 m2 Let_def map_4mmio_def)
  have "entry (mem a2) pd i = 0" if "i < 1024" for i
    by (rule entry_zero [OF _ that]) (use b2(6) in \<open>metis le_add_diff_inverse nat_add_left_cancel_less\<close>)
  moreover have "entry ?m1 pt 0 AND NOT 1 = 6" by (simp add: fill_pagetab_entry page_consts)
  moreover have "pd + 4096 \<le> pt \<or> pt + 4096 \<le> pd" using apart by blast
  ultimately show "boot_tables pg (mem a')" using b1(2,5) apart
    by (simp add: boot_tables_def pg a' fill_pagetab_entry fill_pagetab_table)
  have out: "mem a' x = mem a2 x" if "x < pt \<or> pt + 4096 \<le> x" "x < pd \<or> pd + 4096 \<le> x" for x
    using that by (simp add: a' set_entry_out fill_pagetab_out)
  have "keeps A a a2" using b1(1) b2(1) keeps_mono [of "insert b1 A" a1 a2 A] keeps_trans [of A a a1 a2]
    by (auto simp: allocated_def)
  moreover have "mem a' (base a + x) = mem a2 (base a + x)" if "c \<in> A" "x \<in> blk c" for c x
  proof (rule out)
    have "blk b1 \<inter> blk c = {}" "blk b2 \<inter> blk c = {}" using b1(6) b2(3) that by auto
    then show "base a + x < pt \<or> pt + 4096 \<le> base a + x" "base a + x < pd \<or> pd + 4096 \<le> base a + x"
      using in1(1) [of "base a + x"] in2(1) [of "base a + x"] that by auto
  qed
  ultimately show "keeps A a a'" using a' by (auto simp: keeps_def)
qed

text \<open>\<^verbatim>\<open>map_4mmio\<close> maps the four megabytes around \<^verbatim>\<open>virt\<close> to those around \<^verbatim>\<open>phys\<close> and nothing else changes.\<close>

lemma map_4mmio_translate:
  "drop_bit 22 va = drop_bit 22 virt \<Longrightarrow>
   translate (map_4mmio pg virt phys m) (pagedir pg) va = Some ((phys AND 0xffc00000) OR (va AND 0x3fffff))"
  by (rule translate_large) (simp add: map_4mmio_def)

text \<open>Every virtual page whose number agrees modulo 1024 shares the entry that \<^verbatim>\<open>alloc_page\<close> writes:
  the directory index of the address is not looked at.\<close>

lemma alloc_page_aliases:
  "drop_bit 12 v AND 0x3ff = drop_bit 12 w AND 0x3ff \<Longrightarrow> v AND 0xfff = 0 \<Longrightarrow> w AND 0xfff = 0 \<Longrightarrow>
   alloc_page pg v paddr m = alloc_page pg w paddr m"
  by (simp add: alloc_page_def bit.conj_disj_distrib2)

text \<open>C28. Paging is set up over a heap in its invariant.  \<^verbatim>\<open>page_init\<close> always returns; when
  neither allocation failed, the processor's walk from the new directory faults on the first
  page, is the identity on the rest of the first four megabytes (where the kernel, its heap and the text
  screen are) and on the four megabytes of the interrupt controllers at \<^verbatim>\<open>0xfec00000\<close>, and faults everywhere
  else; no block that was allocated before is changed.\<close>

theorem page_init_identity_map:
  assumes "heap_ok a L A" "hdrs_ok a A" "0x2003 \<le> base a"
  shows "\<exists>pg a'. page_init a = Some (pg, a') \<and>
    (pagetab pg \<noteq> NULL \<and> pagedir pg \<noteq> NULL \<longrightarrow>
       keeps A a a' \<and>
       (\<forall>va. translate (mem a') (pagedir pg) va =
          (if va < 0x1000 then None
           else if va < 0x400000 \<or> drop_bit 22 va = 0x3fb then Some va else None)))"
proof -
  note al = malloc_align_allocated [of _ _ _ 4096 12, simplified]
  from al [OF assms(1,2)] obtain pt a1 where m1: "malloc_align a 4096 4096 = Some (pt, a1)"
    and c: "pt = NULL \<or> (\<exists>raw b. allocated a A 8195 a1 raw b)" by blast
  obtain L1 A1 where "heap_ok a1 L1 A1" "hdrs_ok a1 A1"
  proof (cases "pt = NULL")
    case True
    then show ?thesis using malloc_align_null [OF assms(1,2) _ assms(3)] m1 that by simp
  next
    case False
    then show ?thesis using c that by (auto simp: allocated_def)
  qed
  from al [OF this] obtain pd a2 where "malloc_align a1 4096 4096 = Some (pd, a2)" by blast
  then obtain pg a' where pi: "page_init a = Some (pg, a')"
    by (simp add: page_init_def NOPAGES_def m1 Let_def)
  then show ?thesis using page_init_tables [OF assms(1,2) pi] boot_tables_translate by blast
qed

text \<open>A heap of four blocks of 16 KiB at \<^verbatim>\<open>0x200000\<close>, the second and fourth in use.\<close>

definition page_heap :: alloc where
  "page_heap = \<lparr>mem = (wr32 (wr32 (wr32 (\<lambda>_. 0) 0x200000 0x208000) 0x204004 HDR_MAGIC) 0x20c004 HDR_MAGIC)(0x204008 := 14, 0x20c008 := 14),
     base = 0x200000, siz = 0x10000, free = (replicate 21 0)[14 := 0x200000], used_mem = 0, used_truly = 0, used_max = 0\<rparr>"

definition page_lists :: "nat \<Rightarrow> addr list" where
  "page_lists = (\<lambda>i. if i = 14 then [0x200000, 0x208000] else [])"

lemma page_heap_ok:
  "heap_ok page_heap page_lists {(0x4000, 14), (0xc000, 14)}" "hdrs_ok page_heap {(0x4000, 14), (0xc000, 14)}"
proof -
  have fr: "frees 0x200000 page_lists = {(0, 14), (0x8000, 14)}" by (auto simp: frees_def page_lists_def split: if_splits)
  have "part 0x10000 ({(0, 14), (0x8000, 14)} \<union> {(0x4000, 14), (0xc000, 14)})" by (auto simp: part_def aligned_def)
  moreover have "coalesced MAX_ORD {(0, 14), (0x8000, 14)}" by (auto simp: coalesced_def buddy_def)
  moreover have "lists page_heap page_lists"
    by (auto simp: lists_def page_heap_def page_lists_def MAX_ORD_def nth_list_update HDR_MAGIC_def rd32_def [of "\<lambda>_. 0"] simp del: replicate.simps)
  ultimately show "heap_ok page_heap page_lists {(0x4000, 14), (0xc000, 14)}"
    using fr by (simp add: heap_ok_def page_heap_def alloc_consts) (simp add: page_lists_def)
  show "hdrs_ok page_heap {(0x4000, 14), (0xc000, 14)}"
    by (simp add: hdrs_ok_def page_heap_def hdr_magic_def hdr_ord_def HDR_MAGIC_def)
qed

lemma malloc_align_room:
  assumes "heap_ok a L A" "hdrs_ok a A" "(q, i) \<in> frees (base a) L" "(8209::nat) \<le> 2 ^ i"
    and "malloc_align a 4096 4096 = Some (p, a')"
  shows "p \<noteq> NULL"
proof
  assume "p = NULL"
  with malloc_align_allocated [OF assms(1,2), of 4096 12] assms(5) have "malloc a 8195 = Some (NULL, a')" by auto
  with malloc_allocated [OF assms(1,2), of 8195] have "\<forall>(q, i)\<in>frees (base a) L. 2 ^ i < (8209::nat)"
    using allocated_zeroed(3) by fastforce
  then show False using assms(3,4) by fastforce
qed

lemma malloc_page_heap: "\<exists>p a1. malloc page_heap 8195 = Some (p, a1) \<and> p \<noteq> NULL \<and> free a1 ! 14 = 0x208000"
proof -
  obtain ord where "size2ord 8206 = Some ord" "8206 \<le> (2::nat) ^ ord" "MIN_ORD < ord \<longrightarrow> 2 ^ (ord - 1) < (8206::nat)"
    using size2ord_least [of 8206] by auto
  moreover have "\<not> ord \<le> 13" using calculation(2) power_increasing [of ord 13 "2 :: nat"] by auto
  moreover have "\<not> 15 \<le> ord"
  proof
    assume o: "15 \<le> ord"
    then have "(2::nat) ^ 14 \<le> 2 ^ (ord - 1)" by (intro power_increasing) auto
    then show False using calculation(3) o by (simp add: MIN_ORD_def)
  qed
  ultimately have "ord = 14" by simp
  with \<open>size2ord 8206 = Some ord\<close> have "size2ord 8206 = Some 14" by simp
  moreover have "find_cur (free (account_alloc 14 8196 page_heap)) 14 = 14"
    by (subst find_cur.simps) (simp add: page_heap_def)
  moreover have "split_down x bl 14 14 = Some x" for x bl using split_down.simps(2) [of x bl 14 13] by simp
  ultimately show ?thesis
    by (simp add: malloc_def km_alloc_def align_up_def alloc_consts Let_def write_hdr_def) (simp add: page_heap_def HDR_MAGIC_def)
qed

theorem page_init_identity_map_witness:
  "\<exists>pg a'. page_init page_heap = Some (pg, a') \<and> pagetab pg \<noteq> NULL \<and> pagedir pg \<noteq> NULL \<and>
     translate (mem a') (pagedir pg) 0xb8000 = Some 0xb8000 \<and> translate (mem a') (pagedir pg) 0 = None"
proof -
  have "0x2003 \<le> base page_heap" by (simp add: page_heap_def)
  from page_init_identity_map [OF page_heap_ok this] obtain pg a' where pi: "page_init page_heap = Some (pg, a')"
    and tr: "pagetab pg \<noteq> NULL \<and> pagedir pg \<noteq> NULL \<longrightarrow> translate (mem a') (pagedir pg) 0xb8000 = Some 0xb8000 \<and>
       translate (mem a') (pagedir pg) 0 = None" by auto
  note al = malloc_align_allocated [of _ _ _ 4096 12, simplified]
  from al [OF page_heap_ok] obtain pt a1 where m1: "malloc_align page_heap 4096 4096 = Some (pt, a1)"
    and c: "pt = NULL \<or> (\<exists>raw b. allocated page_heap {(0x4000, 14), (0xc000, 14)} 8195 a1 raw b)" by blast
  have pt: "pt \<noteq> NULL"
    by (rule malloc_align_room [OF page_heap_ok _ _ m1, of 0 14]) (simp_all add: frees_def page_lists_def page_heap_def)
  have fr: "free a1 ! 14 = 0x208000"
    using malloc_page_heap m1 pow2_and_pred [of 12] by (auto simp: malloc_align_def Let_def split: if_splits)
  from c pt obtain raw b where "allocated page_heap {(0x4000, 14), (0xc000, 14)} 8195 a1 raw b" by blast
  then obtain L1 where L1: "heap_ok a1 L1 (insert b {(0x4000, 14), (0xc000, 14)})" "hdrs_ok a1 (insert b {(0x4000, 14), (0xc000, 14)})"
    by (auto simp: allocated_def)
  obtain x where x: "x \<in> set (L1 14)" using heap_head(2) [OF L1(1), of 14] fr by (cases "L1 14") (auto simp: MAX_ORD_def)
  from al [OF L1] obtain pd a2 where m2: "malloc_align a1 4096 4096 = Some (pd, a2)" by blast
  have "pd \<noteq> NULL" by (rule malloc_align_room [OF L1 frees_mem [OF L1(1) x] _ m2]) simp
  then show ?thesis using pi tr pt by (auto simp: page_init_def NOPAGES_def m1 m2 Let_def)
qed

end
