(* ===== verification/Proc_Bf.thy ===== *)
theory Proc_Bf
  imports Drv_Kbd Kern_Mem
begin

text \<open>
  The interpreter behind the shell's \<^verbatim>\<open>bf\<close> command (\<^verbatim>\<open>src/kern/proc/shell.c\<close>): a program of at most 128
  characters is read from the terminal and run on 128 cells.  Writing outside one of the two
  buffers, waiting for a character that never comes and running forever are \<^const>\<open>None\<close>.
\<close>

section \<open>Reading the program\<close>

definition BF_BUFSIZ :: nat where "BF_BUFSIZ = 128"

text \<open>The first loop: the characters typed, the position, the buffer and what has been echoed.\<close>

fun bf_read :: "u8 list \<Rightarrow> nat \<Rightarrow> u8 list \<Rightarrow> u8 list \<Rightarrow> (nat \<times> u8 list \<times> u8 list \<times> u8 list) option" where
  "bf_read [] pos cbuf out = None"
| "bf_read (c # cs) pos cbuf out =
     (if c = EOF \<or> BF_BUFSIZ < pos then Some (pos, cbuf, cs, out)
      else if length cbuf \<le> pos then None
      else if c = 8 then
        (if pos = 0 then None else bf_read cs (pos - 1) (cbuf[pos := 0, pos - 1 := 0]) (out @ [c]))
      else bf_read cs (pos + 1) (cbuf[pos := c]) (out @ [c]))"

section \<open>Running it\<close>

record bf =
  dbuf :: "u8 list"
  dp :: u8
  b_in :: "u8 list"
  b_out :: "u8 list"

definition cell :: "bf \<Rightarrow> u8" where "cell s = dbuf s ! unat (dp s)"
definition set_cell :: "u8 \<Rightarrow> bf \<Rightarrow> bf" where "set_cell v s = s\<lparr>dbuf := (dbuf s)[unat (dp s) := v]\<rparr>"

definition depth_fwd :: "u8 \<Rightarrow> nat \<Rightarrow> nat" where
  "depth_fwd ch d = (if ch = 91 then d + 1 else if ch = 93 then d - 1 else d)"
definition depth_bck :: "u8 \<Rightarrow> nat \<Rightarrow> nat" where
  "depth_bck ch d = (if ch = 93 then d + 1 else if ch = 91 then d - 1 else d)"

function scan_fwd :: "u8 list \<Rightarrow> int \<Rightarrow> nat \<Rightarrow> int" where
  "scan_fwd c i d =
     (if i + 1 < int BF_BUFSIZ \<and> 0 < d then scan_fwd c (i + 1) (depth_fwd (c ! nat (i + 1)) d) else i + 1)"
  by pat_completeness auto
termination
  by (relation "measure (\<lambda>(c, i, d). nat (int BF_BUFSIZ - i))") auto

function scan_bck :: "u8 list \<Rightarrow> int \<Rightarrow> nat \<Rightarrow> int" where
  "scan_bck c i d =
     (if 0 \<le> i - 1 \<and> 0 < d then scan_bck c (i - 1) (depth_bck (c ! nat (i - 1)) d) else i - 1)"
  by pat_completeness auto
termination
  by (relation "measure (\<lambda>(c, i, d). nat i)") auto

declare scan_fwd.simps [simp del] scan_bck.simps [simp del]

text \<open>The \<^verbatim>\<open>switch\<close>: the loop variable after the command and the new state.\<close>

definition bf_cmd :: "u8 list \<Rightarrow> int \<Rightarrow> bf \<Rightarrow> (int \<times> bf) option" where
  "bf_cmd c i s =
    (let ch = c ! nat i in
     if ch = 62 then Some (i, s\<lparr>dp := dp s + 1\<rparr>)
     else if ch = 60 then Some (i, s\<lparr>dp := dp s - 1\<rparr>)
     else if ch = 43 then Some (i, set_cell (cell s + 1) s)
     else if ch = 45 then Some (i, set_cell (cell s - 1) s)
     else if ch = 46 then Some (i, s\<lparr>b_out := b_out s @ [cell s]\<rparr>)
     else if ch = 44 then (case b_in s of [] \<Rightarrow> None | k # ks \<Rightarrow> Some (i, set_cell k (s\<lparr>b_in := ks\<rparr>)))
     else if ch = 91 then Some (if cell s = 0 then scan_fwd c i 1 else i, s)
     else if ch = 93 then Some (if cell s \<noteq> 0 then scan_bck c i 1 + 1 else i, s)
     else Some (i, s))"

text \<open>The \<^verbatim>\<open>for\<close> loop; the Boolean tells that it was left with \<open>data buffer overflow!\<close>.\<close>

partial_function (option) bf_loop :: "u8 list \<Rightarrow> nat \<Rightarrow> int \<Rightarrow> bf \<Rightarrow> (bool \<times> bf) option" where
  "bf_loop c len i s =
     (if i < int len then
        if BF_BUFSIZ \<le> unat (dp s) then Some (True, s)
        else (case bf_cmd c i s of None \<Rightarrow> None | Some (i', s') \<Rightarrow> bf_loop c len (i' + 1) s')
      else Some (False, s))"

definition bf_run :: "u8 list \<Rightarrow> (bool \<times> bf) option" where
  "bf_run inp =
    (case bf_read inp 0 (replicate BF_BUFSIZ 0) [] of
       None \<Rightarrow> None
     | Some (len, cbuf, rest, out) \<Rightarrow>
         bf_loop cbuf (len mod 2 ^ 16) 0 \<lparr>dbuf = replicate BF_BUFSIZ 0, dp = 0, b_in = rest, b_out = out @ [10]\<rparr>)"

section \<open>The language\<close>

datatype bfi = Right | Left | Inc | Dec | Put | Get | Loop "bfi list"

text \<open>Programs as text, with a blank after every loop.\<close>

fun bf_str :: "bfi list \<Rightarrow> u8 list" where
  "bf_str [] = []"
| "bf_str (Right # q) = 62 # bf_str q"
| "bf_str (Left # q) = 60 # bf_str q"
| "bf_str (Inc # q) = 43 # bf_str q"
| "bf_str (Dec # q) = 45 # bf_str q"
| "bf_str (Put # q) = 46 # bf_str q"
| "bf_str (Get # q) = 44 # bf_str q"
| "bf_str (Loop p # q) = 91 # bf_str p @ 93 # 32 # bf_str q"

text \<open>Their meaning on 128 cells of one byte.\<close>

inductive bf_sem :: "bfi list \<Rightarrow> bf \<Rightarrow> bf \<Rightarrow> bool" where
  sem_nil: "bf_sem [] s s"
| sem_right: "unat (dp s) < 127 \<Longrightarrow> bf_sem q (s\<lparr>dp := dp s + 1\<rparr>) t \<Longrightarrow> bf_sem (Right # q) s t"
| sem_left: "0 < dp s \<Longrightarrow> bf_sem q (s\<lparr>dp := dp s - 1\<rparr>) t \<Longrightarrow> bf_sem (Left # q) s t"
| sem_inc: "bf_sem q (set_cell (cell s + 1) s) t \<Longrightarrow> bf_sem (Inc # q) s t"
| sem_dec: "bf_sem q (set_cell (cell s - 1) s) t \<Longrightarrow> bf_sem (Dec # q) s t"
| sem_put: "bf_sem q (s\<lparr>b_out := b_out s @ [cell s]\<rparr>) t \<Longrightarrow> bf_sem (Put # q) s t"
| sem_get: "b_in s = k # ks \<Longrightarrow> bf_sem q (set_cell k (s\<lparr>b_in := ks\<rparr>)) t \<Longrightarrow> bf_sem (Get # q) s t"
| sem_skip: "cell s = 0 \<Longrightarrow> bf_sem q s t \<Longrightarrow> bf_sem (Loop p # q) s t"
| sem_loop: "cell s \<noteq> 0 \<Longrightarrow> bf_sem p s s' \<Longrightarrow> bf_sem (Loop p # q) s' t \<Longrightarrow> bf_sem (Loop p # q) s t"

section \<open>Brackets\<close>

text \<open>The text \<open>xs\<close> stands in the buffer from position \<open>k\<close>.\<close>

abbreviation text_at :: "u8 list \<Rightarrow> nat \<Rightarrow> u8 list \<Rightarrow> bool" where
  "text_at c \<equiv> bytes_at (\<lambda>i. c ! i)"

text \<open>The scans about to look at position \<open>k\<close>, respectively just before it.\<close>

definition fwd_at :: "u8 list \<Rightarrow> nat \<Rightarrow> nat \<Rightarrow> int" where "fwd_at c k d = scan_fwd c (int k - 1) d"
definition bck_at :: "u8 list \<Rightarrow> nat \<Rightarrow> nat \<Rightarrow> int" where "bck_at c k d = scan_bck c (int k) d"

lemma fwd_at_step: "0 < d \<Longrightarrow> k < 128 \<Longrightarrow> fwd_at c k d = fwd_at c (Suc k) (depth_fwd (c ! k) d)"
  unfolding fwd_at_def by (subst scan_fwd.simps) (simp add: BF_BUFSIZ_def)

lemma fwd_at_stop: "fwd_at c k 0 = int k"
  unfolding fwd_at_def by (subst scan_fwd.simps) simp

lemma bck_at_step: "0 < d \<Longrightarrow> bck_at c (Suc k) d = bck_at c k (depth_bck (c ! k) d)"
  unfolding bck_at_def by (subst scan_bck.simps) simp

lemma bck_at_stop: "bck_at c k 0 = int k - 1"
  unfolding bck_at_def by (subst scan_bck.simps) simp

lemma fwd_at_body:
  "text_at c k (bf_str p) \<Longrightarrow> 0 < d \<Longrightarrow> k + length (bf_str p) \<le> 128 \<Longrightarrow> fwd_at c k d = fwd_at c (k + length (bf_str p)) d"
proof (induction p arbitrary: k d rule: bf_str.induct)
  case (8 p q)
  let ?j = "Suc k + length (bf_str p)"
  have c: "c ! k = 91" "text_at c (Suc k) (bf_str p)" "c ! ?j = 93" "c ! Suc ?j = 32" "text_at c (Suc (Suc ?j)) (bf_str q)"
    using "8.prems"(1) by (simp_all add: bytes_at_Cons bytes_at_append)
  have le: "Suc (Suc ?j) + length (bf_str q) \<le> 128" using "8.prems"(3) by simp
  have "fwd_at c k d = fwd_at c (Suc k) (d + 1)" using fwd_at_step [of d k c] c(1) "8.prems"(2) le by (simp add: depth_fwd_def)
  also have "\<dots> = fwd_at c ?j (d + 1)" using "8.IH"(1) [OF c(2)] le by simp
  also have "\<dots> = fwd_at c (Suc ?j) d" using fwd_at_step [of "d + 1" ?j c] c(3) le by (simp add: depth_fwd_def)
  also have "\<dots> = fwd_at c (Suc (Suc ?j)) d" using fwd_at_step [of d "Suc ?j" c] c(4) "8.prems"(2) le by (simp add: depth_fwd_def)
  also have "\<dots> = fwd_at c (Suc (Suc ?j) + length (bf_str q)) d" using "8.IH"(2) [OF c(5) "8.prems"(2) le] .
  finally show ?case by (simp add: algebra_simps)
qed (auto simp: bytes_at_Cons fwd_at_step depth_fwd_def)

lemma bck_at_body:
  "text_at c k (bf_str p) \<Longrightarrow> 0 < d \<Longrightarrow> bck_at c (k + length (bf_str p)) d = bck_at c k d"
proof (induction p arbitrary: k d rule: bf_str.induct)
  case (8 p q)
  let ?j = "Suc k + length (bf_str p)"
  have c: "c ! k = 91" "text_at c (Suc k) (bf_str p)" "c ! ?j = 93" "c ! Suc ?j = 32" "text_at c (Suc (Suc ?j)) (bf_str q)"
    using "8.prems"(1) by (simp_all add: bytes_at_Cons bytes_at_append)
  have "bck_at c (Suc (Suc ?j) + length (bf_str q)) d = bck_at c (Suc (Suc ?j)) d" using "8.IH"(2) [OF c(5) "8.prems"(2)] .
  also have "\<dots> = bck_at c ?j (d + 1)" using bck_at_step [of d c "Suc ?j"] bck_at_step [of d c ?j] c(3,4) "8.prems"(2)
    by (simp add: depth_bck_def)
  also have "\<dots> = bck_at c (Suc k) (d + 1)" using "8.IH"(1) [OF c(2), of "d + 1"] by simp
  also have "\<dots> = bck_at c k d" using bck_at_step [of "d + 1" c k] c(1) by (simp add: depth_bck_def)
  finally show ?case by (simp add: algebra_simps)
qed (auto simp: bytes_at_Cons bck_at_step depth_bck_def simp flip: add_Suc)

section \<open>The interpreter runs the language\<close>

definition bf_ok :: "bf \<Rightarrow> bool" where
  "bf_ok s \<longleftrightarrow> length (dbuf s) = 128 \<and> unat (dp s) < 128"

lemma bf_loop_step:
  "k < len \<Longrightarrow> bf_ok s \<Longrightarrow> bf_loop c len (int k) s =
     (case bf_cmd c (int k) s of None \<Rightarrow> None | Some (i', s') \<Rightarrow> bf_loop c len (i' + 1) s')"
  by (subst bf_loop.simps) (simp add: bf_ok_def BF_BUFSIZ_def)

lemma bf_loop_next: "k < len \<Longrightarrow> bf_ok s \<Longrightarrow> bf_cmd c (int k) s = Some (int k, s') \<Longrightarrow>
   bf_loop c len (int k) s = bf_loop c len (int (Suc k)) s'"
  by (simp add: bf_loop_step algebra_simps)

lemma bf_cmd_simps:
  "c ! k = 62 \<Longrightarrow> bf_cmd c (int k) s = Some (int k, s\<lparr>dp := dp s + 1\<rparr>)"
  "c ! k = 60 \<Longrightarrow> bf_cmd c (int k) s = Some (int k, s\<lparr>dp := dp s - 1\<rparr>)"
  "c ! k = 43 \<Longrightarrow> bf_cmd c (int k) s = Some (int k, set_cell (cell s + 1) s)"
  "c ! k = 45 \<Longrightarrow> bf_cmd c (int k) s = Some (int k, set_cell (cell s - 1) s)"
  "c ! k = 46 \<Longrightarrow> bf_cmd c (int k) s = Some (int k, s\<lparr>b_out := b_out s @ [cell s]\<rparr>)"
  "c ! k = 44 \<Longrightarrow> b_in s = x # xs \<Longrightarrow> bf_cmd c (int k) s = Some (int k, set_cell x (s\<lparr>b_in := xs\<rparr>))"
  "c ! k = 91 \<Longrightarrow> bf_cmd c (int k) s = Some (if cell s = 0 then scan_fwd c (int k) 1 else int k, s)"
  "c ! k = 93 \<Longrightarrow> bf_cmd c (int k) s = Some (if cell s \<noteq> 0 then scan_bck c (int k) 1 + 1 else int k, s)"
  "c ! k = 32 \<Longrightarrow> bf_cmd c (int k) s = Some (int k, s)"
  by (simp_all add: bf_cmd_def Let_def)

lemma bf_brackets:
  assumes t: "text_at c k (91 # bf_str p @ [93, 32])" and ok: "bf_ok s" and len: "k + length (bf_str p) + 2 < len" "len \<le> 128"
  defines "j \<equiv> Suc k + length (bf_str p)"
  shows "bf_loop c len (int k) s = bf_loop c len (int (if cell s = 0 then j + 2 else Suc k)) s"
    and "bf_loop c len (int j) s = bf_loop c len (int (if cell s = 0 then j + 2 else Suc k)) s"
proof -
  have c: "c ! k = 91" "text_at c (Suc k) (bf_str p)" "c ! j = 93" "c ! Suc j = 32"
    using t by (simp_all add: bytes_at_Cons bytes_at_append j_def)
  have l: "k < len" "j < len" "Suc j < len" "Suc k + length (bf_str p) \<le> 128" using len by (simp_all add: j_def)
  have "scan_fwd c (int k) 1 = fwd_at c (Suc k) 1" by (simp add: fwd_at_def)
  also have "\<dots> = fwd_at c j 1" using fwd_at_body [OF c(2), of 1] l(4) by (simp add: j_def)
  also have "\<dots> = int (Suc j)" using fwd_at_step [of 1 j c] c(3) l len(2) by (simp add: depth_fwd_def fwd_at_stop)
  finally have f: "scan_fwd c (int k) 1 = int (Suc j)" .
  have "scan_bck c (int j) 1 = bck_at c (Suc k) 1"
    using bck_at_body [OF c(2), of 1] by (simp add: bck_at_def j_def)
  also have "\<dots> = int k - 1" using bck_at_step [of 1 c k] c(1) by (simp add: depth_bck_def bck_at_stop)
  finally have b: "scan_bck c (int j) 1 = int k - 1" .
  show "bf_loop c len (int k) s = bf_loop c len (int (if cell s = 0 then j + 2 else Suc k)) s"
    using bf_loop_step [OF l(1) ok] f by (simp add: bf_cmd_simps(7) [OF c(1)] algebra_simps)
  have "bf_loop c len (int (Suc j)) s = bf_loop c len (int (Suc (Suc j))) s"
    by (rule bf_loop_next [OF l(3) ok bf_cmd_simps(9) [OF c(4)]])
  then show "bf_loop c len (int j) s = bf_loop c len (int (if cell s = 0 then j + 2 else Suc k)) s"
    using bf_loop_step [OF l(2) ok] b by (simp add: bf_cmd_simps(8) [OF c(3)] algebra_simps)
qed

lemma bf_ok_upd [simp]:
  "bf_ok (set_cell v s) = bf_ok s" "bf_ok (s\<lparr>b_out := x\<rparr>) = bf_ok s" "bf_ok (s\<lparr>b_in := y\<rparr>) = bf_ok s"
  by (simp_all add: bf_ok_def set_cell_def)

lemma bf_ok_move:
  "bf_ok s \<Longrightarrow> unat (dp s) < 127 \<Longrightarrow> bf_ok (s\<lparr>dp := dp s + 1\<rparr>)" "bf_ok s \<Longrightarrow> 0 < dp s \<Longrightarrow> bf_ok (s\<lparr>dp := dp s - 1\<rparr>)"
proof -
  show "bf_ok s \<Longrightarrow> unat (dp s) < 127 \<Longrightarrow> bf_ok (s\<lparr>dp := dp s + 1\<rparr>)" by (simp add: bf_ok_def unat_word_ariths)
  assume s: "bf_ok s" "0 < dp s"
  then have "unat (dp s - 1) = unat (dp s) - 1" by (simp add: unat_minus_one unat_gt_0 word_neq_0_conv)
  then show "bf_ok (s\<lparr>dp := dp s - 1\<rparr>)" using s by (auto simp: bf_ok_def)
qed

lemma bf_loop_sem:
  "bf_sem p s t \<Longrightarrow> bf_ok s \<Longrightarrow> text_at c k (bf_str p) \<Longrightarrow> k + length (bf_str p) \<le> len \<Longrightarrow> len \<le> 128 \<Longrightarrow>
   bf_ok t \<and> bf_loop c len (int k) s = bf_loop c len (int (k + length (bf_str p))) t"
proof (induction arbitrary: k rule: bf_sem.induct)
  case (sem_nil s)
  then show ?case by simp
next
  case (sem_right s q t)
  then have "bf_loop c len (int k) s = bf_loop c len (int (Suc k)) (s\<lparr>dp := dp s + 1\<rparr>)"
    by (intro bf_loop_next) (auto simp: bf_cmd_simps bytes_at_Cons)
  then show ?case using sem_right.IH [of "Suc k"] sem_right bf_ok_move(1) [of s] by (auto simp: bytes_at_Cons)
next
  case (sem_left s q t)
  then have "bf_loop c len (int k) s = bf_loop c len (int (Suc k)) (s\<lparr>dp := dp s - 1\<rparr>)"
    by (intro bf_loop_next) (auto simp: bf_cmd_simps bytes_at_Cons)
  then show ?case using sem_left.IH [of "Suc k"] sem_left bf_ok_move(2) [of s] by (auto simp: bytes_at_Cons)
next
  case (sem_inc q s t)
  then have "bf_loop c len (int k) s = bf_loop c len (int (Suc k)) (set_cell (cell s + 1) s)"
    by (intro bf_loop_next) (auto simp: bf_cmd_simps bytes_at_Cons)
  then show ?case using sem_inc.IH [of "Suc k"] sem_inc by (auto simp: bytes_at_Cons)
next
  case (sem_dec q s t)
  then have "bf_loop c len (int k) s = bf_loop c len (int (Suc k)) (set_cell (cell s - 1) s)"
    by (intro bf_loop_next) (auto simp: bf_cmd_simps bytes_at_Cons)
  then show ?case using sem_dec.IH [of "Suc k"] sem_dec by (auto simp: bytes_at_Cons)
next
  case (sem_put q s t)
  then have "bf_loop c len (int k) s = bf_loop c len (int (Suc k)) (s\<lparr>b_out := b_out s @ [cell s]\<rparr>)"
    by (intro bf_loop_next) (auto simp: bf_cmd_simps bytes_at_Cons)
  then show ?case using sem_put.IH [of "Suc k"] sem_put by (auto simp: bytes_at_Cons)
next
  case (sem_get s x xs q t)
  then have "bf_loop c len (int k) s = bf_loop c len (int (Suc k)) (set_cell x (s\<lparr>b_in := xs\<rparr>))"
    by (intro bf_loop_next) (auto simp: bf_cmd_simps bytes_at_Cons)
  then show ?case using sem_get.IH [of "Suc k"] sem_get by (auto simp: bytes_at_Cons)
next
  case (sem_skip s q t p)
  let ?j = "Suc k + length (bf_str p)"
  have t: "text_at c k (91 # bf_str p @ [93, 32])" "text_at c (?j + 2) (bf_str q)"
    using sem_skip.prems(2) by (simp_all add: bytes_at_Cons bytes_at_append)
  have "bf_loop c len (int k) s = bf_loop c len (int (?j + 2)) s"
    using bf_brackets(1) [OF t(1) sem_skip.prems(1), of len] sem_skip by simp
  then show ?case using sem_skip.IH [of "?j + 2"] t(2) sem_skip.prems by (simp add: algebra_simps)
next
  case (sem_loop s p s' q t)
  let ?j = "Suc k + length (bf_str p)"
  have t: "text_at c k (91 # bf_str p @ [93, 32])" "text_at c (Suc k) (bf_str p)"
    using sem_loop.prems(2) by (simp_all add: bytes_at_Cons bytes_at_append)
  have len: "k + length (bf_str p) + 2 < len" "len \<le> 128" using sem_loop.prems(3,4) by simp_all
  have "bf_loop c len (int k) s = bf_loop c len (int (Suc k)) s"
    using bf_brackets(1) [OF t(1) sem_loop.prems(1) len] sem_loop.hyps(1) by simp
  moreover from sem_loop.IH(1) [OF sem_loop.prems(1) t(2)] len
  have body: "bf_ok s'" "bf_loop c len (int (Suc k)) s = bf_loop c len (int ?j) s'" by simp_all
  moreover have "bf_loop c len (int ?j) s' = bf_loop c len (int k) s'"
    using bf_brackets [OF t(1) body(1) len] by simp
  ultimately show ?case using sem_loop.IH(2) [OF body(1) sem_loop.prems(2-4)] by simp
qed

lemma bf_read_text:
  "EOF \<notin> set xs \<Longrightarrow> 8 \<notin> set xs \<Longrightarrow> pos + length xs \<le> 128 \<Longrightarrow> length cbuf = 128 \<Longrightarrow>
   bf_read (xs @ EOF # rest) pos cbuf out =
     Some (pos + length xs, take pos cbuf @ xs @ drop (pos + length xs) cbuf, rest, out @ xs)"
proof (induction xs arbitrary: pos cbuf out)
  case Nil
  then show ?case by simp
next
  case (Cons x xs)
  then have "bf_read ((x # xs) @ EOF # rest) pos cbuf out = bf_read (xs @ EOF # rest) (Suc pos) (cbuf[pos := x]) (out @ [x])"
    by (auto simp: BF_BUFSIZ_def)
  also have "\<dots> = Some (Suc pos + length xs, take (Suc pos) (cbuf[pos := x]) @ xs @ drop (Suc pos + length xs) (cbuf[pos := x]), rest,
      (out @ [x]) @ xs)"
    using Cons.prems by (intro Cons.IH) auto
  finally show ?case using Cons.prems by (simp add: take_Suc_conv_app_nth)
qed

lemma bf_str_chars: "x \<in> set (bf_str p) \<Longrightarrow> x \<noteq> EOF \<and> x \<noteq> 8"
  by (induction p rule: bf_str.induct) (auto simp: EOF_def)

lemma bf_skips_after_loop:
  assumes "c ! 0 = 91" "c ! 1 = 93" "c ! 3 = 46" "bf_ok s" "cell s = 0"
  shows "bf_loop c 4 (int 0) s = Some (False, s\<lparr>b_out := b_out s @ [0]\<rparr>)"
proof -
  have "scan_fwd c (int 0) 1 = fwd_at c 1 1" by (simp add: fwd_at_def)
  also have "\<dots> = 2" using fwd_at_step [of 1 1 c] assms(2) by (simp add: depth_fwd_def fwd_at_stop)
  finally have "bf_loop c 4 (int 0) s = bf_loop c 4 (int 3) s"
    using bf_loop_step [of 0 4 s c] bf_cmd_simps(7) [OF assms(1)] assms(4,5) by simp
  also have "\<dots> = bf_loop c 4 (int (Suc 3)) (s\<lparr>b_out := b_out s @ [cell s]\<rparr>)"
    by (rule bf_loop_next [OF _ assms(4) bf_cmd_simps(5) [OF assms(3)]]) simp
  also have "\<dots> = Some (False, s\<lparr>b_out := b_out s @ [0]\<rparr>)" by (subst bf_loop.simps) (simp add: assms(5))
  finally show ?thesis .
qed

definition bf_start :: "u8 list \<Rightarrow> u8 list \<Rightarrow> bf" where
  "bf_start inp out = \<lparr>dbuf = replicate BF_BUFSIZ 0, dp = 0, b_in = inp, b_out = out @ [10]\<rparr>"

lemma bf_run_sem:
  assumes "bf_sem p (bf_start inp (bf_str p)) t" "length (bf_str p) \<le> 128"
  shows "bf_run (bf_str p @ EOF # inp) = Some (False, t)"
proof -
  let ?n = "length (bf_str p)" and ?c = "bf_str p @ drop (length (bf_str p)) (replicate BF_BUFSIZ 0)"
  have "bf_read (bf_str p @ EOF # inp) 0 (replicate BF_BUFSIZ 0) [] = Some (?n, ?c, inp, bf_str p)"
    using bf_read_text [of "bf_str p" 0 "replicate BF_BUFSIZ 0" inp "[]"] bf_str_chars [of _ p] assms(2) by (auto simp: BF_BUFSIZ_def)
  moreover have "?n mod 2 ^ 16 = ?n" using assms(2) by simp
  ultimately have r: "bf_run (bf_str p @ EOF # inp) = bf_loop ?c ?n (int 0) (bf_start inp (bf_str p))"
    by (simp add: bf_run_def bf_start_def)
  have "text_at ?c 0 (bf_str p)" by (simp add: bytes_at_def nth_append)
  moreover have "bf_ok (bf_start inp (bf_str p))" by (simp add: bf_ok_def bf_start_def BF_BUFSIZ_def)
  ultimately have "bf_loop ?c ?n (int 0) (bf_start inp (bf_str p)) = bf_loop ?c ?n (int ?n) t"
    using bf_loop_sem [OF assms(1), of ?c 0 ?n] assms(2) by simp
  also have "\<dots> = Some (False, t)" by (subst bf_loop.simps) simp
  finally show ?thesis using r by simp
qed

text \<open>C35. The interpreter runs the language.  For every program whose text fits the command buffer and has a
  blank after each loop: if the program terminates on 128 cells with the given input in the
  usual meaning of the eight commands (brackets matched by nesting, cells of one byte that wrap around),
  then typing it, the end mark and the input makes \<^verbatim>\<open>bf\<close> terminate without an overflow message, with exactly that
  output, cells and remaining input.  The blank is needed: a skipped loop also skips the character after its
  bracket, so \<^verbatim>\<open>[]+.\<close> prints 0 where the language gives 1.\<close>

theorem bf_runs_programs:
  assumes "bf_sem p (bf_start inp (bf_str p)) t" "length (bf_str p) \<le> 128"
  shows "bf_run (bf_str p @ EOF # inp) = Some (False, t) \<and>
    map_option (\<lambda>(_, s). b_out s) (bf_run ([91, 93, 43, 46] @ [EOF])) = Some [91, 93, 43, 46, 10, 0]"
proof -
  let ?c = "[91, 93, 43, 46] @ drop 4 (replicate 128 (0::u8))" and ?s = "bf_start [] [91, 93, 43, 46]"
  have "bf_read ([91, 93, 43, 46] @ [EOF]) 0 (replicate 128 0) [] = Some (4, ?c, [], [91, 93, 43, 46])"
    using bf_read_text [of "[91, 93, 43, 46]" 0 "replicate 128 0" "[]" "[]"] by (simp add: EOF_def)
  then have "bf_run ([91, 93, 43, 46] @ [EOF]) = bf_loop ?c 4 0 ?s" by (simp add: bf_run_def bf_start_def BF_BUFSIZ_def)
  also have "\<dots> = Some (False, ?s\<lparr>b_out := [91, 93, 43, 46, 10, 0]\<rparr>)"
    using bf_skips_after_loop [of ?c ?s] by (simp add: bf_ok_def bf_start_def BF_BUFSIZ_def cell_def)
  finally show ?thesis using bf_run_sem [OF assms] by simp
qed

theorem bf_runs_programs_witness:
  "\<exists>t. bf_run ([44, 91, 46, 45, 93, 32, 43, 46] @ EOF # [1]) = Some (False, t) \<and> b_out t = [44, 91, 46, 45, 93, 32, 43, 46, 10, 1, 1]"
proof -
  let ?p = "[Get, Loop [Put, Dec], Inc, Put]"
  let ?s = "bf_start [1] (bf_str ?p)"
  have str: "bf_str ?p = [44, 91, 46, 45, 93, 32, 43, 46]" by simp
  have "\<exists>t. bf_sem ?p ?s t \<and> b_out t = [44, 91, 46, 45, 93, 32, 43, 46, 10, 1, 1]"
    by (rule exI, rule conjI, rule sem_get, simp add: bf_start_def, rule sem_loop)
      (auto intro!: bf_sem.intros simp: bf_start_def cell_def set_cell_def BF_BUFSIZ_def)
  then obtain t where t: "bf_sem ?p ?s t" "b_out t = [44, 91, 46, 45, 93, 32, 43, 46, 10, 1, 1]" by blast
  from bf_runs_programs [OF t(1)] str t(2) show ?thesis by auto
qed

end
