(* ===== verification/Proc_Cmds.thy ===== *)
theory Proc_Cmds
  imports Sys_Wrap Proc_Bf Tty_Term Drv_Time Fs_Devfs
begin

text \<open>
  The commands of the shell (\<^verbatim>\<open>proc/shell.c\<close>) with the listings of \<^verbatim>\<open>fs/vfs.c\<close> they call (\<^verbatim>\<open>nlsdir\<close>, \<^verbatim>\<open>flstat\<close>),
  over the system call wrappers and the heap.  Printing is the log of the calls with their
  arguments; what \<^verbatim>\<open>cat\<close> writes goes through \<^verbatim>\<open>write\<close>.  \<^const>\<open>None\<close> is a fault, a stopped kernel or a
  command that does not return.
\<close>

section \<open>The state of the shell\<close>

datatype parg = A_str "u8 list" | A_num nat | A_int int

datatype out = Text string | Fmt string "parg list" | Chars "u8 list" | Listing string

record shell =
  sh_u :: user
  sh_heap :: alloc
  sh_in :: "u8 list"
  sh_out :: "out list"
  sh_term :: terminal
  sh_clock :: clock

text \<open>What the linker and the boot code fix: the open file for output and the addresses of literals and
  static objects.\<close>

record shenv =
  h_sys :: sysenv
  h_stdout :: u32
  h_stat :: u32
  h_dot :: u32
  h_buf :: addr
  h_delim :: addr
  h_cmds :: "addr list"

abbreviation smem :: "shell \<Rightarrow> mem" where "smem s \<equiv> k_mem (u_k (sh_u s))"
abbreviation svfs :: "shell \<Rightarrow> vfs" where "svfs s \<equiv> k_vfs (u_k (sh_u s))"

definition set_mem :: "mem \<Rightarrow> shell \<Rightarrow> shell" where
  "set_mem m s = s\<lparr>sh_u := (sh_u s)\<lparr>u_k := (u_k (sh_u s))\<lparr>k_mem := m\<rparr>\<rparr>\<rparr>"

definition say :: "out list \<Rightarrow> shell \<Rightarrow> shell" where
  "say xs s = s\<lparr>sh_out := sh_out s @ xs\<rparr>"

definition say_error :: "string \<Rightarrow> shell \<Rightarrow> shell" where
  "say_error p s = say [Text (perror p (u_errno (sh_u s)))] s"

definition call :: "(user \<Rightarrow> outcome option) \<Rightarrow> shell \<Rightarrow> (int \<times> shell) option" where
  "call f s = (case f (sh_u s) of Some (Back r u) \<Rightarrow> Some (r, s\<lparr>sh_u := u\<rparr>) | _ \<Rightarrow> None)"

text \<open>The heap lives in the same memory.\<close>

definition on_heap :: "(alloc \<Rightarrow> ('a \<times> alloc) option) \<Rightarrow> shell \<Rightarrow> ('a \<times> shell) option" where
  "on_heap f s = map_option (\<lambda>(r, a). (r, set_mem (mem a) (s\<lparr>sh_heap := a\<rparr>))) (f ((sh_heap s)\<lparr>mem := smem s\<rparr>))"

definition sh_malloc :: "nat \<Rightarrow> shell \<Rightarrow> (addr \<times> shell) option" where
  "sh_malloc n = on_heap (\<lambda>a. malloc a n)"

definition sh_free :: "addr \<Rightarrow> shell \<Rightarrow> shell option" where
  "sh_free p s = map_option snd (on_heap (\<lambda>a. map_option (\<lambda>a'. ((), a')) (kfree a p)) s)"

abbreviation nl :: string where "nl \<equiv> [CHR 0x0A]"

definition O_CREAT :: u32 where "O_CREAT = 0x40"

type_synonym c_fun = "shenv \<Rightarrow> u32 list \<Rightarrow> shell \<Rightarrow> (int \<times> shell) option"

section \<open>Commands on files\<close>

definition c_rm :: c_fun where
  "c_rm e argv s =
     (if length argv = 1 then Some (2, say [Text (''specify thy path'' @ nl)] s)
      else Option.bind (call (w_unlink (h_sys e) (argv ! 1)) s) (\<lambda>(r, s1).
        Some (0, if r \<noteq> 0 then say_error ''rm'' s1 else s1)))"

definition c_touch :: c_fun where
  "c_touch e argv s =
     (if length argv = 1 then Some (2, say [Text (''specify thy path'' @ nl)] s)
      else Option.bind (call (w_open (h_sys e) (argv ! 1) O_CREAT) s) (\<lambda>(fd, s1).
        if fd = - 1 then Some (1, say_error ''touch'' s1)
        else Option.bind (call (w_close (h_sys e) (of_int fd)) s1) (\<lambda>(_, s2). Some (0, s2))))"

definition c_mkdir :: c_fun where
  "c_mkdir e argv s =
     (if length argv = 1 then Some (2, say [Text (''specify thy path'' @ nl)] s)
      else Option.bind (call (w_mkdir (h_sys e) (argv ! 1) 0) s) (\<lambda>(fd, s1).
        if fd = - 1 then Some (1, say_error ''mkdir'' s1)
        else Option.bind (call (w_close (h_sys e) (of_int fd)) s1) (\<lambda>(r, s2).
          if r = - 1 then Some (1, say_error ''close'' s2) else Some (0, s2))))"

definition c_cd :: c_fun where
  "c_cd e argv s =
     (if length argv = 1 then Some (0, s)
      else Option.bind (call (w_chdir (h_sys e) (argv ! 1)) s) (\<lambda>(r, s1).
        if r \<noteq> 0 then Some (1, say_error ''cd'' s1) else Some (0, s1)))"

text \<open>The copy loop of \<^verbatim>\<open>printfile\<close>: whether a write failed, and the last result of \<^verbatim>\<open>read\<close>.  Data read to
  the null pointer is a fault (its page is not mapped).\<close>

partial_function (option) cat_loop :: "shenv \<Rightarrow> u32 \<Rightarrow> addr \<Rightarrow> u32 \<Rightarrow> shell \<Rightarrow> (bool \<times> int \<times> shell) option" where
  "cat_loop e fd b n s =
     Option.bind (call (w_read (h_sys e) fd (of_nat b) n) s) (\<lambda>x.
       if 0 < fst x then
         if b = NULL then None
         else Option.bind (call (w_write (h_sys e) (h_stdout e) (of_nat b) (of_int (fst x))) (snd x)) (\<lambda>y.
           if fst y = - 1 then Some (True, fst x, snd y) else cat_loop e fd b n (snd y))
       else Some (False, x))"

definition printfile :: "shenv \<Rightarrow> u32 \<Rightarrow> shell \<Rightarrow> (int \<times> shell) option" where
  "printfile e path s =
     Option.bind (call (w_open (h_sys e) path O_RDONLY) s) (\<lambda>(fd, s1).
       if fd = - 1 then Some (1, say_error ''cat: open'' s1)
       else Option.bind (call (w_fstat (h_sys e) (of_int fd) (h_stat e)) s1) (\<lambda>(_, s2).
         Option.bind (k_stat (u_k (sh_u s2)) (unat (h_stat e))) (\<lambda>st.
           Option.bind (sh_malloc (st_blksize st) s2) (\<lambda>(b, s3).
             Option.bind (cat_loop e (of_int fd) b (of_nat (st_blksize st)) s3) (\<lambda>(werr, r, s4).
               let s5 = (if werr then say_error ''cat: write'' s4 else s4) in
               Option.bind (call (w_close (h_sys e) (of_int fd)) s5) (\<lambda>(_, s6).
                 Option.bind (sh_free b s6) (\<lambda>s7.
                   if werr then Some (1, s7)
                   else Some (0, if r = - 1 then say_error ''cat: read'' s7 else s7))))))))"

definition c_cat :: c_fun where
  "c_cat e argv s =
     (if length argv = 1 then Some (2, say [Text (''specify your file please good sir'' @ nl)] s)
      else printfile e (argv ! 1) s)"

definition c_ipurge :: c_fun where
  "c_ipurge e argv s =
     Some (0, s\<lparr>sh_u := (sh_u s)\<lparr>u_k := (u_k (sh_u s))\<lparr>k_vfs := (svfs s)\<lparr>ic := purge_lru (ic (svfs s))\<rparr>\<rparr>\<rparr>\<rparr>)"

section \<open>Listings\<close>

definition d_type_name :: "u8 \<Rightarrow> string" where
  "d_type_name t = (if t = 8 then ''regular'' else if t = 4 then ''directory'' else if t = 1 then ''FIFO''
     else if t = 12 then ''socket'' else if t = 10 then ''symlink'' else if t = 6 then ''block dev''
     else if t = 2 then ''char dev'' else ''???'')"

text \<open>One entry: inode number, offset and record length, then a pad byte, the type and the name.\<close>

definition ls_entry :: "mem \<Rightarrow> addr \<Rightarrow> bool \<Rightarrow> out list option" where
  "ls_entry m d long =
     map_option (\<lambda>nam.
       if long then
         [Fmt ''%8u  '' [A_num (rd32 m d)], Fmt ''%-10s  '' [A_str (map of_char (d_type_name (m (d + 13))))],
          Fmt (''%4d %4d  %s'' @ nl) [A_num (rd32 m (d + 8)), A_num (rd32 m (d + 4)), A_str nam]]
       else [Fmt ''%s '' [A_str nam]]) (str_at m (of_nat (d + 14)))"

partial_function (option) ls_loop :: "mem \<Rightarrow> addr \<Rightarrow> nat \<Rightarrow> bool \<Rightarrow> nat \<Rightarrow> out list \<Rightarrow> out list option" where
  "ls_loop m b n long off acc =
     (if off < n then
        Option.bind (ls_entry m (b + off) long) (\<lambda>xs. ls_loop m b n long ((off + rd32 m (b + off + 8)) mod 2 ^ 32) (acc @ xs))
      else Some acc)"

text \<open>\<^verbatim>\<open>nlsdir\<close>: neither the result of \<^verbatim>\<open>open\<close> nor that of \<^verbatim>\<open>malloc\<close> is tested.\<close>

definition nlsdir :: "shenv \<Rightarrow> u32 \<Rightarrow> bool \<Rightarrow> shell \<Rightarrow> (int \<times> shell) option" where
  "nlsdir e path long s =
     (if path = 0 then Some (1, s)
      else Option.bind (call (w_open (h_sys e) path O_RDONLY) s) (\<lambda>(fd, s1).
        Option.bind (sh_malloc 1024 s1) (\<lambda>(b, s2).
          Option.bind (call (w_getdents (h_sys e) (of_int fd) (of_nat b) 1024) s2) (\<lambda>(nread, s3).
            if nread = - 1 then Some (2, s3)
            else if b = NULL \<and> 0 < nread then None
            else Option.bind (ls_loop (smem s3) b (nat nread) long 0 []) (\<lambda>xs.
              let s4 = say (if long then xs else xs @ [Text nl]) s3 in
              Option.bind (sh_free b s4) (\<lambda>s5.
                Option.bind (call (w_close (h_sys e) (of_int fd)) s5) (\<lambda>(_, s6). Some (0, s6))))))))"

definition c_nls :: c_fun where
  "c_nls e argv s = (if length argv = 1 then nlsdir e (h_dot e) True s else nlsdir e (argv ! 1) True s)"

definition perm_bytes :: "stat \<Rightarrow> u8 list" where
  "perm_bytes st = map of_char (permget (st_mode st) (ucast (st_mode st AND 0x1ff)))"

definition stat_lines :: "u8 list \<Rightarrow> stat \<Rightarrow> out list" where
  "stat_lines nam st =
     [Fmt (''  file: %s'' @ nl) [A_str nam],
      Fmt (''  size: %u     blocks: %d'' @ nl) [A_num (st_size st), A_int (st_blocks st)],
      Fmt ''device: %d,%d'' [A_num (unat (MAJOR (st_dev st))), A_num (unat (MINOR (st_dev st)))],
      Fmt ''  inode: %d'' [A_num (unat (st_ino st))]] @
     (if S_ISCHR (st_mode st) \<or> S_ISBLK (st_mode st)
      then [Fmt ''  device type: %d,%d'' [A_num (unat (MAJOR (st_rdev st))), A_num (unat (MINOR (st_rdev st)))]] else []) @
     [Text nl,
      Fmt (''access: (0%03.3o/%s)  uid: %d gid: %d'' @ nl)
        [A_num (unat (st_mode st AND 0x1ff)), A_str (perm_bytes st),
         A_num (unat (st_uid st)), A_num (unat (st_gid st))]]"

text \<open>\<^verbatim>\<open>permget\<close> returns a string from the heap, which \<^verbatim>\<open>flstat\<close> releases.\<close>

definition flstat :: "shenv \<Rightarrow> u32 \<Rightarrow> shell \<Rightarrow> (int \<times> shell) option" where
  "flstat e path s =
     Option.bind (call (w_open (h_sys e) path O_RDONLY) s) (\<lambda>(fd, s1).
       if fd < 0 then Some (1, say_error ''cant stat:'' s1)
       else Option.bind (call (w_fstat (h_sys e) (of_int fd) (h_stat e)) s1) (\<lambda>(_, s2).
         Option.bind (k_stat (u_k (sh_u s2)) (unat (h_stat e))) (\<lambda>st.
           Option.bind (sh_malloc 11 s2) (\<lambda>(p, s3).
             if p = NULL then None
             else let s4 = set_mem (store_bytes (of_nat p) (perm_bytes st) (smem s3)) s3 in
             Option.bind (str_at (smem s4) path) (\<lambda>nam.
               Option.bind (sh_free p (say (stat_lines nam st) s4)) (\<lambda>s5.
                 Option.bind (call (w_close (h_sys e) (of_int fd)) s5) (\<lambda>(_, s6). Some (0, s6))))))))"

definition c_stat :: c_fun where
  "c_stat e argv s = (if length argv = 1 then Some (0, s) else flstat e (argv ! 1) s)"

section \<open>The other commands\<close>

definition c_exit :: c_fun where "c_exit e argv s = Some (0, s)"

definition c_clear :: c_fun where
  "c_clear e argv s = Some (0, s\<lparr>sh_term := clr_scr (sh_term s)\<rparr>)"

text \<open>A clock whose frequency was never set divides by zero.\<close>

definition c_time :: c_fun where
  "c_time e argv s =
     (if pit_freq (sh_clock s) = 0 then None
      else let (sec, ms) = gettime (sh_clock s) in
        Some (0, say [Fmt (''time elapsed since boot: %ds %dms'' @ nl) [A_num (unat sec), A_num (unat ms)]] s))"

definition c_bf :: c_fun where
  "c_bf e argv s =
     Option.bind (bf_run (sh_in s)) (\<lambda>(over, t).
       Some (0, (say ([Text (''enter yo brainfuh program:'' @ nl), Chars (b_out t)] @
                      (if over then [Text (''data buffer overflow!'' @ nl)] else []) @ [Text nl]) s)\<lparr>sh_in := b_in t\<rparr>))"

text \<open>\<^verbatim>\<open>pci_enumerate\<close>, \<^verbatim>\<open>print_caches\<close> and \<^verbatim>\<open>show_interrupts\<close> only print what other components keep.\<close>

definition c_lspci :: c_fun where "c_lspci e argv s = Some (0, say [Listing ''pci''] s)"
definition c_icach :: c_fun where "c_icach e argv s = Some (0, say [Listing ''inodes''] s)"
definition c_lsirq :: c_fun where "c_lsirq e argv s = Some (0, say [Listing ''interrupts''] s)"

definition c_mall :: c_fun where
  "c_mall e argv s =
     Option.bind (sh_malloc 1 s) (\<lambda>(a, s1).
       Option.bind (sh_free a (say [Fmt (''addr: %p'' @ nl) [A_num a]] s1)) (\<lambda>s2. Some (0, s2)))"

text \<open>\<^verbatim>\<open>h\<close> asks before it destroys the control register, which stops the kernel.\<close>

definition c_h :: c_fun where
  "c_h e argv s =
     (case sh_in s of
        [] \<Rightarrow> None
      | c # cs \<Rightarrow>
          if c \<noteq> 121 then
            Some (2, (say [Text ''this will erase the content of cr0 and kill the kernel. continue? [n] '', Text nl] s)\<lparr>sh_in := cs\<rparr>)
          else None)"

definition c_mused :: c_fun where
  "c_mused e argv s =
     Some (0, say [Fmt (''used dynamic memory: %dB'' @ nl) [A_num (getused (sh_heap s))],
                   Fmt (''used dynamic memory max: %dB'' @ nl) [A_num (getmaxused (sh_heap s))],
                   Fmt (''used dynamic memory eff: %dB'' @ nl) [A_num (gettrueused (sh_heap s))]] s)"

text \<open>\<^verbatim>\<open>ent\<close> prints the entropy pool for ever.\<close>

definition c_ent :: c_fun where "c_ent e argv s = None"

definition cmds :: "string list" where
  "cmds = [''help'', ''exit'', ''rm'', ''touch'', ''clear'', ''time'', ''bf'', ''lspci'', ''mkdir'', ''cd'',
    ''cat'', ''mall'', ''h'', ''mused'', ''icach'', ''ipurge'', ''lsirq'', ''ls'', ''stat'', ''ent'']"

definition c_help :: c_fun where
  "c_help e argv s =
     Some (0, say ([Text ''supported commands: ''] @ map (\<lambda>c. Fmt ''%s '' [A_str (map of_char c)]) cmds @ [Text nl]) s)"

definition ftab :: "c_fun list" where
  "ftab = [c_help, c_exit, c_rm, c_touch, c_clear, c_time, c_bf, c_lspci, c_mkdir, c_cd,
    c_cat, c_mall, c_h, c_mused, c_icach, c_ipurge, c_lsirq, c_nls, c_stat, c_ent]"

end
