(* ===== verification/Proc_Cmd_Fds.thy ===== *)
theory Proc_Cmd_Fds
  imports Proc_Cmds
begin

text \<open>
  The commands of \<open>Proc_Cmds\<close> and the table of open files: which of them give back every descriptor they
  take.
\<close>

section \<open>Steps of a command\<close>

lemma svfs_frame [simp]:
  "svfs (say xs s) = svfs s" "svfs (say_error p s) = svfs s" "svfs (set_mem m s) = svfs s"
  by (simp_all add: say_def say_error_def set_mem_def)

lemma heap_frame:
  "sh_malloc n s = Some (p, s') \<Longrightarrow> svfs s' = svfs s"
  "sh_free q s = Some s' \<Longrightarrow> svfs s' = svfs s"
  by (auto simp: sh_malloc_def sh_free_def on_heap_def set_mem_def)

lemma call_handled:
  assumes "call (syscall E nr a b c) s = Some (r, s')" "unat nr < 50" "systab E ! unat nr = Some h"
  shows "\<exists>v k. h a b c (u_k (sh_u s)) = Some (v, k) \<and> r = (if sint v < 0 then - 1 else sint v) \<and> svfs s' = k_vfs k"
proof (cases "h a b c (u_k (sh_u s))")
  case None
  then show ?thesis using assms syscall_number [OF assms(2)] by (simp add: call_def syscall_def sys_hand_def systab_len)
next
  case (Some p)
  then obtain v k where "h a b c (u_k (sh_u s)) = Some (v, k)" by (cases p) simp
  then show ?thesis using assms(1) syscall_handled [OF assms(2,3), of a b c "sh_u s" v k]
    by (auto simp: call_def split: if_splits)
qed

lemma systab_calls:
  "systab E ! unat SYS_READ = Some (sys_read E)" "systab E ! unat SYS_WRITE = Some (sys_write E)"
  "systab E ! unat SYS_OPEN = Some (sys_open E)" "systab E ! unat SYS_CLOSE = Some (sys_close E)"
  "systab E ! unat SYS_CHDIR = Some (sys_chdir E)" "systab E ! unat SYS_MKDIR = Some (sys_mkdir E)"
  "systab E ! unat SYS_UNLINK = Some (sys_unlink E)" "systab E ! unat SYS_FSTAT = Some (sys_fstat E)"
  "systab E ! unat SYS_GETDENTS = Some (sys_getdents E)"
  "unat SYS_READ < 50" "unat SYS_WRITE < 50" "unat SYS_OPEN < 50" "unat SYS_CLOSE < 50" "unat SYS_CHDIR < 50"
  "unat SYS_MKDIR < 50" "unat SYS_UNLINK < 50" "unat SYS_FSTAT < 50" "unat SYS_GETDENTS < 50"
  by (simp_all add: systab_def sys_nrs)

text \<open>Data calls keep the table.\<close>

lemma data_frame:
  "fsys_read ops fd n v = Some (r, bs, v') \<Longrightarrow> ofile v' = ofile v"
  "fsys_write ops fd bs v = Some (r, v') \<Longrightarrow> ofile v' = ofile v"
  "fsys_getdents ops fd n v = Some (r, bs, v') \<Longrightarrow> ofile v' = ofile v"
  by (auto simp: fsys_read_def fsys_write_def fsys_getdents_def Let_def bind_eq_Some_conv split_beta split: if_splits option.splits)

lemma call_data:
  assumes inv: "vfs_inv (svfs s) X" and E: "env_ok E"
  shows "call (w_read E fd b n) s = Some (r, s') \<Longrightarrow> ofile (svfs s') = ofile (svfs s) \<and> vfs_inv (svfs s') X"
    and "call (w_write E fd b n) s = Some (r, s') \<Longrightarrow> ofile (svfs s') = ofile (svfs s) \<and> vfs_inv (svfs s') X"
    and "call (w_getdents E fd b n) s = Some (r, s') \<Longrightarrow> ofile (svfs s') = ofile (svfs s) \<and> vfs_inv (svfs s') X"
    and "call (w_fstat E fd b) s = Some (r, s') \<Longrightarrow> ofile (svfs s') = ofile (svfs s) \<and> vfs_inv (svfs s') X"
proof -
  have drv: "fs_driver (e_ops E)" using E by (simp add: env_ok_def)
  note rd = fs_driver.read_inv [OF drv inv] fs_driver.write_inv [OF drv inv] fs_driver.getdents_inv [OF drv inv]
  show "ofile (svfs s') = ofile (svfs s) \<and> vfs_inv (svfs s') X" if r: "call (w_read E fd b n) s = Some (r, s')"
  proof (cases "n = 0")
    case True
    then show ?thesis using r inv by (auto simp: call_def w_read_def)
  next
    case False
    then have "call (syscall E SYS_READ fd b n) s = Some (r, s')" using r by (simp add: call_def w_read_def)
    from call_handled [OF this systab_calls(10,1)] show ?thesis
      using rd(1) data_frame(1) by (auto simp: sys_defs)
  qed
  show "ofile (svfs s') = ofile (svfs s) \<and> vfs_inv (svfs s') X" if r: "call (w_write E fd b n) s = Some (r, s')"
  proof (cases "n = 0")
    case True
    then show ?thesis using r inv by (auto simp: call_def w_write_def)
  next
    case False
    then have "call (syscall E SYS_WRITE fd b n) s = Some (r, s')" using r by (simp add: call_def w_write_def)
    from call_handled [OF this systab_calls(11,2)] show ?thesis
      using rd(2) data_frame(2) by (auto simp: sys_defs)
  qed
  show "ofile (svfs s') = ofile (svfs s) \<and> vfs_inv (svfs s') X" if "call (w_getdents E fd b n) s = Some (r, s')"
    using call_handled [OF that [unfolded w_getdents_def] systab_calls(18,9)] rd(3) data_frame(3) by (auto simp: sys_defs)
  show "ofile (svfs s') = ofile (svfs s) \<and> vfs_inv (svfs s') X" if "call (w_fstat E fd b) s = Some (r, s')"
    using call_handled [OF that [unfolded w_fstat_def] systab_calls(17,8)] inv by (auto simp: sys_defs split: option.splits)
qed

text \<open>A driver's \<^verbatim>\<open>open\<close> returns a C integer.\<close>

definition open_int :: "fsops \<Rightarrow> bool" where
  "open_int ops \<longleftrightarrow> (\<forall>x op i f. op_open ops x = Some op \<longrightarrow> - (2 ^ 31) \<le> fst (op i f))"

lemma open_result_int: "open_int ops \<Longrightarrow> fsys_open ops al alf path fl v = Some (r, v') \<Longrightarrow> r < 0 \<Longrightarrow> - (2 ^ 31) \<le> r"
  by (auto simp: fsys_open_def open_int_def bind_eq_Some_conv Let_def errno_defs split_beta fd_set_def split: if_splits)

lemma sint_of_int32: "- (2 ^ 31) \<le> r \<Longrightarrow> r < 2 ^ 31 \<Longrightarrow> sint (of_int r :: u32) = r"
  by (subst sint_sbintrunc') (simp add: signed_take_bit_int_eq_self)

lemma call_open:
  assumes inv: "vfs_inv (svfs s) X" "env_ok E" "root_ok (svfs s)" "size X + 6 < 2 ^ 16 - 1" and oi: "open_int (e_ops E)"
    and r: "call (w_open E path fl) s = Some (fd, s')"
  shows "fd = - 1 \<and> ofile (svfs s') = ofile (svfs s) \<and> kept (svfs s') X \<or>
    (\<exists>n f. fd = int n \<and> n < 5 \<and> ofile (svfs s) ! n = NULL \<and> f \<noteq> NULL \<and> ofile (svfs s') = (ofile (svfs s))[n := f] \<and> vfs_inv (svfs s') X)"
proof -
  from call_handled [OF r [unfolded w_open_def] systab_calls(12,3)] obtain v k where
    h: "sys_open E path fl 0 (u_k (sh_u s)) = Some (v, k)" "fd = (if sint v < 0 then - 1 else sint v)" "svfs s' = k_vfs k" by blast
  then obtain p q where o: "fsys_open (e_ops E) (e_al E) (e_alf E) p fl (svfs s) = Some (q, svfs s')" "v = of_int q"
    by (auto simp: sys_defs)
  show ?thesis
  proof (cases "\<exists>pth. path_canon (Some (cwd (svfs s))) (Some p) = Some (Some pth)")
    case True
    then obtain pth where "path_canon (Some (cwd (svfs s))) (Some p) = Some (Some pth)" by blast
    from fs_driver.open_inv [OF _ inv(1) _ _ inv(4) _ _ this, of "e_ops E" "e_al E" "e_alf E" fl] inv(2,3) o(1)
    consider "q < 0" "ofile (svfs s') = ofile (svfs s)" "kept (svfs s') X"
      | n f where "q = int n" "n < 5" "ofile (svfs s) ! n = NULL" "f \<noteq> NULL" "ofile (svfs s') = (ofile (svfs s))[n := f]" "vfs_inv (svfs s') X"
      by (auto simp: env_ok_def root_ok_def kept_def ENOENT_def) blast
    then show ?thesis
    proof cases
      case 1
      then have "sint v = q" using open_result_int [OF oi o(1)] o(2) sint_of_int32 by simp
      then show ?thesis using 1 h(2) by simp
    next
      case 2
      then have "sint v = int n" using o(2) sint_of_int32 [of "int n"] by simp
      then show ?thesis using 2 h(2) by auto
    qed
  next
    case False
    then have "lookup_vfs (e_ops E) (e_al E) (svfs s) p = None" by (auto simp: lookup_vfs_def lookup_vfs_r_def split: option.split)
    then have "q = - EINVAL \<and> svfs s' = svfs s" using o(1) by (auto simp: fsys_open_def split: if_splits)
    then show ?thesis using inv(1) o(2) h(2) sint_of_int32 [of "- EINVAL"] by (simp add: EINVAL_def kept_def)
  qed
qed

lemma call_close:
  assumes "vfs_inv (svfs s) X" "n < 5" "call (w_close E (of_int (int n))) s = Some (r, s')"
  shows "ofile (svfs s') = (ofile (svfs s))[n := NULL] \<and> vfs_inv (svfs s') X"
proof -
  have "sint (of_int (int n) :: u32) = int n" using assms(2) by (intro sint_of_int32) auto
  then show ?thesis
    using call_handled [OF assms(3) [unfolded w_close_def] systab_calls(13,4)] fsys_close_inv [OF assms(1), of "int n" "e_ops E"] assms(2)
    by (auto simp: sys_defs)
qed

lemma cat_loop_fds:
  assumes "cat_loop e fd b n s = Some z" "env_ok (h_sys e)" "vfs_inv (svfs s) X"
  shows "ofile (svfs (snd (snd z))) = ofile (svfs s) \<and> vfs_inv (svfs (snd (snd z))) X"
proof -
  have "env_ok (h_sys e) \<longrightarrow> vfs_inv (svfs s) X \<longrightarrow> ofile (svfs (snd (snd z))) = ofile (svfs s) \<and> vfs_inv (svfs (snd (snd z))) X"
  proof (rule cat_loop.raw_induct [OF _ assms(1), where P = "\<lambda>e fd b n s z. env_ok (h_sys e) \<longrightarrow> vfs_inv (svfs s) X \<longrightarrow>
      ofile (svfs (snd (snd z))) = ofile (svfs s) \<and> vfs_inv (svfs (snd (snd z))) X"], intro impI)
    fix loop e fd b n s z
    assume IH: "\<And>e fd b n s z. loop e fd b n s = Some z \<Longrightarrow> env_ok (h_sys e) \<longrightarrow> vfs_inv (svfs s) X \<longrightarrow>
        ofile (svfs (snd (snd z))) = ofile (svfs s) \<and> vfs_inv (svfs (snd (snd z))) X"
      and eq: "Option.bind (call (w_read (h_sys e) fd (of_nat b) n) s) (\<lambda>x.
         if 0 < fst x then
           if b = NULL then None
           else Option.bind (call (w_write (h_sys e) (h_stdout e) (of_nat b) (of_int (fst x))) (snd x)) (\<lambda>y.
             if fst y = - 1 then Some (True, fst x, snd y) else loop e fd b n (snd y))
         else Some (False, x)) = Some z"
      and E: "env_ok (h_sys e)" and i: "vfs_inv (svfs s) X"
    from eq obtain r1 s1 where x: "call (w_read (h_sys e) fd (of_nat b) n) s = Some (r1, s1)" by (auto simp: bind_eq_Some_conv)
    note i1 = call_data(1) [OF i E x]
    show "ofile (svfs (snd (snd z))) = ofile (svfs s) \<and> vfs_inv (svfs (snd (snd z))) X"
    proof (cases "0 < r1")
      case True
      then obtain r2 s2 where y: "call (w_write (h_sys e) (h_stdout e) (of_nat b) (of_int r1)) s1 = Some (r2, s2)"
        and l: "z = (True, r1, s2) \<or> loop e fd b n s2 = Some z" using eq x by (auto simp: bind_eq_Some_conv split: if_splits)
      note i2 = call_data(2) [OF _ E y, of X]
      show ?thesis using l i1 i2 IH [of e fd b n s2 z] E by auto
    qed (use eq x i1 in auto)
  qed
  then show ?thesis using assms(2,3) by blast
qed

section \<open>Each command\<close>

text \<open>Every descriptor is as before and at most one inode reference is lost; or one descriptor more is open.\<close>

definition fds_same :: "addr multiset \<Rightarrow> shell \<Rightarrow> shell \<Rightarrow> bool" where
  "fds_same X s s' \<longleftrightarrow> ofile (svfs s') = ofile (svfs s) \<and> kept (svfs s') X"

definition fd_leaked :: "addr multiset \<Rightarrow> shell \<Rightarrow> shell \<Rightarrow> bool" where
  "fd_leaked X s s' \<longleftrightarrow> (\<exists>n<5. \<exists>f. ofile (svfs s) ! n = NULL \<and> f \<noteq> NULL \<and> ofile (svfs s') = (ofile (svfs s))[n := f] \<and> vfs_inv (svfs s') X)"

definition sh_ok :: "shenv \<Rightarrow> addr multiset \<Rightarrow> shell \<Rightarrow> bool" where
  "sh_ok e X s \<longleftrightarrow> vfs_inv (svfs s) X \<and> env_ok (h_sys e) \<and> open_int (e_ops (h_sys e)) \<and> root_ok (svfs s) \<and> size X + 6 < 2 ^ 16 - 1"

lemma close_back: "xs ! n = NULL \<Longrightarrow> xs[n := NULL] = xs"
  by (metis list_update_id)

lemma sh_open:
  assumes "sh_ok e X s" "call (w_open (h_sys e) path fl) s = Some (fd, s')"
  shows "fd = - 1 \<and> fds_same X s s' \<or> (\<exists>n f. fd = int n \<and> n < 5 \<and> ofile (svfs s) ! n = NULL \<and> f \<noteq> NULL \<and>
    ofile (svfs s') = (ofile (svfs s))[n := f] \<and> vfs_inv (svfs s') X)"
  using call_open [of s X "h_sys e" path fl fd s'] assms by (auto simp: sh_ok_def fds_same_def)

lemma fds_touch: "sh_ok e X s \<Longrightarrow> c_touch e argv s = Some (r, s') \<Longrightarrow> fds_same X s s'"
proof -
  assume ok: "sh_ok e X s" and c: "c_touch e argv s = Some (r, s')"
  have s: "fds_same X s s" using ok by (simp add: sh_ok_def fds_same_def kept_def)
  show ?thesis
  proof (cases "length argv = 1")
    case True
    then show ?thesis using c s by (auto simp: c_touch_def fds_same_def)
  next
    case False
    then obtain fd s1 where o: "call (w_open (h_sys e) (argv ! 1) O_CREAT) s = Some (fd, s1)" using c
      by (auto simp: c_touch_def bind_eq_Some_conv)
    from sh_open [OF ok o] show ?thesis using c False o
      by (auto simp: c_touch_def fds_same_def kept_def close_back bind_eq_Some_conv simp del: of_int_of_nat_eq
          dest!: call_close [rotated 2] split: if_splits)
  qed
qed

lemma fds_printfile: "sh_ok e X s \<Longrightarrow> printfile e path s = Some (r, s') \<Longrightarrow> fds_same X s s'"
proof -
  assume ok: "sh_ok e X s" and c: "printfile e path s = Some (r, s')"
  have E: "env_ok (h_sys e)" using ok by (simp add: sh_ok_def)
  obtain fd s1 where o: "call (w_open (h_sys e) path O_RDONLY) s = Some (fd, s1)" using c
    by (auto simp: printfile_def bind_eq_Some_conv)
  from sh_open [OF ok o] consider "fd = - 1" "fds_same X s s1"
    | n f where "fd = int n" "n < 5" "ofile (svfs s) ! n = NULL" "ofile (svfs s1) = (ofile (svfs s))[n := f]" "vfs_inv (svfs s1) X" by blast
  then show ?thesis
  proof cases
    case 1
    then show ?thesis using c o by (auto simp: printfile_def fds_same_def)
  next
    case 2
    from c o 2(1) obtain x s2 b s3 w q s4 y s6 s7 and st :: stat where st: "call (w_fstat (h_sys e) (of_int (int n)) (h_stat e)) s1 = Some (x, s2)"
      "sh_malloc (st_blksize st) s2 = Some (b, s3)" "cat_loop e (of_int (int n)) b (of_nat (st_blksize st)) s3 = Some (w, q, s4)"
      "call (w_close (h_sys e) (of_int (int n))) (if w then say_error ''cat: write'' s4 else s4) = Some (y, s6)" "sh_free b s6 = Some s7"
      "(if w then Some (1, s7) else Some (0, if q = - 1 then say_error ''cat: read'' s7 else s7)) = Some (r, s')"
      by (auto simp: printfile_def bind_eq_Some_conv Let_def simp del: of_int_of_nat_eq split del: if_split)
    note f = call_data(4) [OF 2(5) E st(1)]
    have "ofile (svfs s4) = ofile (svfs s1) \<and> vfs_inv (svfs s4) X"
      using cat_loop_fds [OF st(3) E, of X] f heap_frame(1) [OF st(2)] by simp
    then have "ofile (svfs s6) = (ofile (svfs s1))[n := NULL] \<and> vfs_inv (svfs s6) X"
      using call_close [OF _ 2(2) st(4)] by (auto split: if_splits)
    moreover have "svfs s' = svfs s7" using st(6) by (auto split: if_splits)
    ultimately show ?thesis using heap_frame(2) [OF st(5)] 2(3,4) by (simp add: fds_same_def kept_def close_back)
  qed
qed

lemma fds_flstat: "sh_ok e X s \<Longrightarrow> flstat e path s = Some (r, s') \<Longrightarrow> fds_same X s s'"
proof -
  assume ok: "sh_ok e X s" and c: "flstat e path s = Some (r, s')"
  have E: "env_ok (h_sys e)" using ok by (simp add: sh_ok_def)
  obtain fd s1 where o: "call (w_open (h_sys e) path O_RDONLY) s = Some (fd, s1)" using c
    by (auto simp: flstat_def bind_eq_Some_conv)
  from sh_open [OF ok o] consider "fd = - 1" "fds_same X s s1"
    | n f where "fd = int n" "n < 5" "ofile (svfs s) ! n = NULL" "ofile (svfs s1) = (ofile (svfs s))[n := f]" "vfs_inv (svfs s1) X" by blast
  then show ?thesis
  proof cases
    case 1
    then show ?thesis using c o by (auto simp: flstat_def fds_same_def)
  next
    case 2
    from c o 2(1) obtain x s2 st p s3 m nam s5 y where st: "call (w_fstat (h_sys e) (of_int (int n)) (h_stat e)) s1 = Some (x, s2)"
      "sh_malloc 11 s2 = Some (p, s3)" "sh_free p (say (stat_lines nam st) (set_mem m s3)) = Some s5"
      "call (w_close (h_sys e) (of_int (int n))) s5 = Some (y, s')"
      by (auto simp: flstat_def bind_eq_Some_conv Let_def simp del: of_int_of_nat_eq split: if_splits)
    have "vfs_inv (svfs s5) X \<and> ofile (svfs s5) = ofile (svfs s1)"
      using call_data(4) [OF 2(5) E st(1)] heap_frame(1) [OF st(2)] heap_frame(2) [OF st(3)] by simp
    then show ?thesis using call_close [OF _ 2(2) st(4)] 2(3,4) by (auto simp: fds_same_def kept_def close_back)
  qed
qed

text \<open>A listing reads the table at \<open>-1\<close> when \<^verbatim>\<open>open\<close> failed, so it returns only after a successful one.\<close>

lemma getdents_bad_fd: "vfs_inv (svfs s) X \<Longrightarrow> call (w_getdents E (of_int (- 1)) b 1024) s = None"
  by (simp add: call_def w_getdents_def syscall_def sys_hand_def systab_len SYS_GETDENTS_def systab_def NSYS_def sys_getdents_def
      ret_data_def fsys_getdents_def check_fd_def fd_get_def NOFILE_def)

lemma fds_nlsdir:
  assumes ok: "sh_ok e X s" and c: "nlsdir e path long s = Some (r, s')"
  shows "if r = 2 then fd_leaked X s s' else fds_same X s s'"
proof (cases "path = 0")
  case True
  then show ?thesis using ok c by (simp add: nlsdir_def fds_same_def sh_ok_def kept_def)
next
  case False
  have E: "env_ok (h_sys e)" and i: "vfs_inv (svfs s) X" using ok by (simp_all add: sh_ok_def)
  obtain fd s1 b s2 nr s3 where st: "call (w_open (h_sys e) path O_RDONLY) s = Some (fd, s1)" "sh_malloc 1024 s1 = Some (b, s2)"
    "call (w_getdents (h_sys e) (of_int fd) (of_nat b) 1024) s2 = Some (nr, s3)" using c False
    by (auto simp: nlsdir_def bind_eq_Some_conv simp del: of_int_of_nat_eq split: if_splits)
  from sh_open [OF ok st(1)] consider "fd = - 1" "fds_same X s s1"
    | n f where "fd = int n" "n < 5" "ofile (svfs s) ! n = NULL" "f \<noteq> NULL" "ofile (svfs s1) = (ofile (svfs s))[n := f]" "vfs_inv (svfs s1) X" by blast
  then show ?thesis
  proof cases
    case 1
    then obtain Y where "vfs_inv (svfs s2) Y" using heap_frame(1) [OF st(2)] by (auto simp: fds_same_def kept_def)
    then show ?thesis using getdents_bad_fd st(3) 1(1) by simp
  next
    case 2
    have g: "ofile (svfs s3) = (ofile (svfs s))[n := f] \<and> vfs_inv (svfs s3) X"
      using call_data(3) [OF _ E st(3), of X] heap_frame(1) [OF st(2)] 2(5,6) by simp
    show ?thesis
    proof (cases "nr = - 1")
      case True
      then have "r = 2 \<and> s' = s3" using c st False by (simp add: nlsdir_def)
      then show ?thesis using g 2(2-4) by (auto simp: fd_leaked_def)
    next
      case ne: False
      obtain xs s5 y where "sh_free b (say xs s3) = Some s5" "call (w_close (h_sys e) (of_int (int n))) s5 = Some (y, s')" "r = 0"
        using c st False ne 2(1) by (auto simp: nlsdir_def bind_eq_Some_conv Let_def simp del: of_int_of_nat_eq split: if_splits)
      then show ?thesis using g heap_frame(2) [of b "say xs s3" s5] call_close [of s5 X n "h_sys e" y s'] 2(2,3)
        by (simp add: fds_same_def kept_def close_back)
    qed
  qed
qed

lemma lookup_frame:
  "fsys_chdir ops al p v = Some (r, v') \<Longrightarrow> ofile v' = ofile v"
  "fsys_unlink ops al q v = Some (r, v') \<Longrightarrow> ofile v' = ofile v"
  by (auto simp: fsys_chdir_def fsys_unlink_def lookup_vfs_r_def look_bs_def bind_eq_Some_conv Let_def split_beta
      split: if_splits option.splits)

lemma fds_paths:
  assumes "sh_ok e X s"
  shows "call (w_unlink (h_sys e) p) s = Some (r, s') \<Longrightarrow> fds_same X s s'"
    and "call (w_chdir (h_sys e) p) s = Some (r, s') \<Longrightarrow> fds_same X s s'"
    and "call (w_mkdir (h_sys e) p m) s = Some (r, s') \<Longrightarrow> r = - 1 \<and> fds_same X s s'"
proof -
  have i: "vfs_inv (svfs s) X" "fresh_alloc (e_al (h_sys e))" "root_ok (svfs s)" "size X + 6 < 2 ^ 16 - 1"
    using assms by (simp_all add: sh_ok_def env_ok_def)
  note k = unlink_kept [OF i] chdir_kept [OF i]
  show "fds_same X s s'" if "call (w_unlink (h_sys e) p) s = Some (r, s')"
    using call_handled [OF that [unfolded w_unlink_def] systab_calls(16,7)] k(1) lookup_frame(2) by (auto simp: sys_defs fds_same_def)
  show "fds_same X s s'" if t: "call (w_chdir (h_sys e) p) s = Some (r, s')"
  proof -
    obtain v j where h: "sys_chdir (h_sys e) p 0 0 (u_k (sh_u s)) = Some (v, j)" "svfs s' = k_vfs j"
      using call_handled [OF t [unfolded w_chdir_def] systab_calls(14,5)] by blast
    then obtain po q where "fsys_chdir (e_ops (h_sys e)) (e_al (h_sys e)) po (svfs s) = Some (q, svfs s')"
      by (auto simp: sys_chdir_def ret_vfs_def bind_eq_Some_conv split: if_splits)
    then show ?thesis using k(2) lookup_frame(1) by (auto simp: fds_same_def)
  qed
  show "r = - 1 \<and> fds_same X s s'" if t: "call (w_mkdir (h_sys e) p m) s = Some (r, s')"
  proof -
    have "sint (of_int (- ENOSYS) :: u32) < 0" using sint_of_int32 [of "- ENOSYS"] by (simp add: ENOSYS_def)
    moreover obtain v k where "sys_mkdir (h_sys e) p m 0 (u_k (sh_u s)) = Some (v, k)" "r = (if sint v < 0 then - 1 else sint v)" "svfs s' = k_vfs k"
      using call_handled [OF t [unfolded w_mkdir_def] systab_calls(15,6)] by blast
    ultimately show ?thesis using i(1) by (auto simp: sys_mkdir_def ret_vfs_def bind_eq_Some_conv fsys_mkdir_def fds_same_def kept_def simp del: of_int_minus)
  qed
qed

lemma fds_purge: "vfs_inv v X \<Longrightarrow> vfs_inv (v\<lparr>ic := purge_lru (ic v)\<rparr>) X"
  using iref_purge by (auto simp: vfs_inv_def open_files_def file_refs_def)

section \<open>Properties\<close>

text \<open>C37. The shell's commands give back what they take.  With any file systems that keep the laws of
  \<open>fs_driver\<close>, any arguments and any table of open files in its invariant: when a command returns, every descriptor is as
  before and the invariant holds, with at most one inode reference lost (to a failed lookup).  The one exception
  is \<^verbatim>\<open>ls\<close> of something that cannot be listed, whose result is 2: it leaves one more descriptor open, so that five
  of them exhaust the table; \<^verbatim>\<open>ls\<close> of a path that cannot be opened does not return at all but reads the table
  at index \<open>-1\<close>.\<close>

theorem commands_return_descriptors:
  assumes "sh_ok e X s"
  shows "(\<forall>i<20. \<forall>argv r s'. (ftab ! i) e argv s = Some (r, s') \<longrightarrow>
      (if cmds ! i = ''ls'' \<and> r = 2 then fd_leaked X s s' else fds_same X s s')) \<and>
    (\<forall>path s1. path \<noteq> 0 \<and> call (w_open (h_sys e) path O_RDONLY) s = Some (- 1, s1) \<longrightarrow> nlsdir e path True s = None)"
proof (intro conjI allI impI)
  fix i argv r s' assume i: "i < 20" and c: "(ftab ! i) e argv s = Some (r, s')"
  have same: "fds_same X s s" using assms by (simp add: sh_ok_def fds_same_def kept_def)
  have frame: "fds_same X s t" if "svfs t = svfs s" for t using same that by (simp add: fds_same_def)
  have say: "fds_same X s (say_error p t) = fds_same X s t" for p t by (simp add: fds_same_def)
  have rm: "c_rm e argv s = Some (r, s') \<Longrightarrow> fds_same X s s'"
    using fds_paths(1) [OF assms] by (auto simp: c_rm_def bind_eq_Some_conv say frame split: if_splits)
  have cd: "c_cd e argv s = Some (r, s') \<Longrightarrow> fds_same X s s'"
    using fds_paths(2) [OF assms] same by (auto simp: c_cd_def bind_eq_Some_conv say split: if_splits)
  have mk: "fds_same X s s'" if t: "c_mkdir e argv s = Some (r, s')"
  proof (cases "length argv = 1")
    case True
    then show ?thesis using t by (auto simp: c_mkdir_def frame)
  next
    case False
    then obtain fd s1 where o: "call (w_mkdir (h_sys e) (argv ! 1) 0) s = Some (fd, s1)"
      using t by (auto simp: c_mkdir_def bind_eq_Some_conv)
    then show ?thesis using t False fds_paths(3) [OF assms o] by (auto simp: c_mkdir_def say)
  qed
  have cat: "c_cat e argv s = Some (r, s') \<Longrightarrow> fds_same X s s'"
    using fds_printfile [OF assms] by (auto simp: c_cat_def frame split: if_splits)
  have st: "c_stat e argv s = Some (r, s') \<Longrightarrow> fds_same X s s'"
    using fds_flstat [OF assms] same by (auto simp: c_stat_def split: if_splits)
  have pg: "c_ipurge e argv s = Some (r, s') \<Longrightarrow> fds_same X s s'"
    using fds_purge assms by (auto simp: c_ipurge_def fds_same_def kept_def sh_ok_def)
  have ml: "c_mall e argv s = Some (r, s') \<Longrightarrow> fds_same X s s'"
    by (auto simp: c_mall_def bind_eq_Some_conv intro!: frame dest!: heap_frame)
  have rest: "f e argv s = Some (r, s') \<Longrightarrow> fds_same X s s'"
    if "f \<in> {c_help, c_exit, c_clear, c_time, c_bf, c_lspci, c_h, c_mused, c_icach, c_lsirq, c_ent}" for f
    using that by (auto simp: c_help_def c_exit_def c_clear_def c_time_def c_bf_def c_lspci_def c_h_def c_mused_def c_icach_def
        c_lsirq_def c_ent_def say_def bind_eq_Some_conv intro!: frame split: if_splits list.splits prod.splits)
  have ls: "c_nls e argv s = Some (r, s') \<Longrightarrow> if r = 2 then fd_leaked X s s' else fds_same X s s'"
    using fds_nlsdir [OF assms] unfolding c_nls_def by (metis (full_types))
  have "i \<in> {0, 1, 2, 3, 4, 5, 6, 7, 8, 9, 10, 11, 12, 13, 14, 15, 16, 17, 18, 19}" using i by simp arith
  then show "if cmds ! i = ''ls'' \<and> r = 2 then fd_leaked X s s' else fds_same X s s'"
    using c rm cd mk cat st pg ml ls fds_touch [OF assms] rest [of c_help] rest [of c_exit] rest [of c_clear] rest [of c_time] rest [of c_bf]
      rest [of c_lspci] rest [of c_h] rest [of c_mused] rest [of c_icach] rest [of c_lsirq] rest [of c_ent]
    by (elim insertE emptyE; simp add: ftab_def cmds_def)
next
  fix path s1 assume p: "path \<noteq> 0 \<and> call (w_open (h_sys e) path O_RDONLY) s = Some (- 1, s1)"
  then obtain Y where i: "vfs_inv (svfs s1) Y" using sh_open [OF assms, of path O_RDONLY "- 1" s1] by (auto simp: fds_same_def kept_def)
  show "nlsdir e path True s = None"
  proof (cases "sh_malloc 1024 s1")
    case (Some a)
    then obtain b s2 where b: "sh_malloc 1024 s1 = Some (b, s2)" by (cases a) simp
    then show ?thesis using p i heap_frame(1) [OF b] getdents_bad_fd [of s2 Y "h_sys e" "of_nat b"] by (simp add: nlsdir_def)
  qed (use p in \<open>simp add: nlsdir_def\<close>)
qed

definition sample_env :: shenv where
  "sample_env = \<lparr>h_sys = \<lparr>e_ops = no_ops, e_al = sample_al, e_alf = sample_alf\<rparr>, h_stdout = 1, h_stat = 0x100, h_dot = 0x200,
     h_buf = 0x300, h_delim = 0x400, h_cmds = []\<rparr>"

text \<open>\<^verbatim>\<open>mkdir /\<close> on the sample table of open files.\<close>

theorem commands_return_descriptors_witness:
  "\<exists>s s'. smem s = put_str 16 [47] (\<lambda>_. 0) \<and> svfs s = sample_vfs \<and> (ftab ! 8) sample_env [0, 16] s = Some (1, s') \<and> fds_same {#} s s'"
proof -
  define s where "s = \<lparr>sh_u = \<lparr>u_errno = 0, u_k = \<lparr>k_mem = put_str 16 [47] (\<lambda>_. 0), k_stat = (\<lambda>_. None), k_vfs = sample_vfs,
      k_sched = undefined, sys_rval = 0\<rparr>\<rparr>, sh_heap = undefined, sh_in = [], sh_out = [], sh_term = undefined, sh_clock = undefined\<rparr>"
  have ok: "sh_ok sample_env {#} s"
    using no_ops_driver sample_al_fresh sample_alf_fresh sample_root sample_vfs_inv
    by (simp add: sh_ok_def s_def sample_env_def env_ok_def root_ok_def open_int_def) (simp add: no_ops_def)
  have "strlen (put_str 16 [47] (\<lambda>_. 0)) 16 = Some 1" using strlen_cstr [OF cstr_put_str [of "[47]" 16 "\<lambda>_. 0"]] by simp
  then have "\<exists>s'. (ftab ! 8) sample_env [0, 16] s = Some (1, s')"
    by (simp add: ftab_def c_mkdir_def call_def w_mkdir_def syscall_def sys_hand_def systab_len SYS_MKDIR_def systab_def NSYS_def
        sys_mkdir_def str_at_def s_def ret_vfs_def fsys_mkdir_def ENOSYS_def Let_def)
  then obtain s' where c: "(ftab ! 8) sample_env [0, 16] s = Some (1, s')" by blast
  moreover have "fds_same {#} s s'"
    using commands_return_descriptors [OF ok, THEN conjunct1, rule_format, OF _ c] by simp
  moreover have "smem s = put_str 16 [47] (\<lambda>_. 0)" "svfs s = sample_vfs" by (simp_all add: s_def)
  ultimately show ?thesis by blast
qed

end
