(* ===== verification/Proc_Shell.thy ===== *)
theory Proc_Shell
  imports Proc_Cmds Mem_Acpi
begin

text \<open>
  The main loop of the shell (\<^verbatim>\<open>shell\<close> in \<^verbatim>\<open>proc/shell.c\<close>): reading a line into the buffer, cutting it into
  arguments and calling the command.
\<close>

section \<open>One line\<close>

definition NARGS :: nat where "NARGS = 8"

text \<open>\<^verbatim>\<open>kgets\<close> on memory, from index \<open>i\<close> on: the length, the memory and the characters left.  The final zero after
  a full buffer is written outside it.\<close>

fun kgets_at :: "mem \<Rightarrow> addr \<Rightarrow> nat \<Rightarrow> u8 list \<Rightarrow> nat \<Rightarrow> (nat \<times> mem \<times> u8 list) option" where
  "kgets_at m s sz [] i = None"
| "kgets_at m s sz (c # cs) i =
     (if c = 10 \<or> c = EOF \<or> sz \<le> i then (if i < sz then Some (i, m(s + i := 0), cs) else None)
      else if c \<noteq> 8 then kgets_at (m(s + i := c)) s sz cs (i + 1)
      else kgets_at m s sz cs (if 0 < i then i - 1 else i))"

text \<open>The arguments: \<open>n\<close> places are left in \<^verbatim>\<open>argv\<close>.\<close>

fun argv_loop :: "nat \<Rightarrow> mem \<Rightarrow> addr \<Rightarrow> addr \<Rightarrow> addr \<Rightarrow> (addr list \<times> mem) option" where
  "argv_loop 0 m tok sv d = Some ([], m)"
| "argv_loop (Suc n) m tok sv d =
     (if tok = NULL then Some ([], m)
      else Option.bind (strtok_r m NULL d sv) (\<lambda>(tok', m', sv').
        map_option (\<lambda>(ts, m''). (tok # ts, m'')) (argv_loop n m' tok' sv' d)))"

text \<open>The first command whose name is the string in the buffer.\<close>

fun find_cmd :: "mem \<Rightarrow> addr \<Rightarrow> addr list \<Rightarrow> nat \<Rightarrow> nat option option" where
  "find_cmd m b [] i = Some None"
| "find_cmd m b (c # cs) i = Option.bind (strcmp m b c) (\<lambda>r. if r = 0 then Some (Some i) else find_cmd m b cs (i + 1))"

definition report :: "int \<times> shell \<Rightarrow> shell" where
  "report rs = (if fst rs \<noteq> 0 then say [Fmt (''nonzero return: %d'' @ nl) [A_int (fst rs)]] (snd rs) else snd rs)"

text \<open>The body of the loop.  Without any argument the message prints an unset pointer.\<close>

definition shell_line :: "shenv \<Rightarrow> shell \<Rightarrow> shell option" where
  "shell_line e s =
     Option.bind (kgets_at (smem s) (h_buf e) 128 (sh_in s) 0) (\<lambda>(rd, m, rest).
       let s1 = set_mem m (s\<lparr>sh_in := rest\<rparr>) in
       if rd = 0 then Some s1
       else Option.bind (strtok_r m (h_buf e) (h_delim e) NULL) (\<lambda>(tok, m1, sv).
         Option.bind (argv_loop NARGS m1 tok sv (h_delim e)) (\<lambda>(argv, m2).
           let s2 = set_mem m2 s1 in
           Option.bind (find_cmd m2 (h_buf e) (h_cmds e) 0) (\<lambda>found.
             case found of
               Some i \<Rightarrow> map_option report ((ftab ! i) e (map of_nat argv) s2)
             | None \<Rightarrow>
                 if argv = [] then None
                 else Option.bind (str_at m2 (of_nat (hd argv))) (\<lambda>w.
                   Some (say [Fmt (''%s: command not found'' @ nl) [A_str w]] s2))))))"

section \<open>Reading the line\<close>

lemma kgets_at_line:
  assumes "kgets sz cs l = Some (l', rest)" "length l \<le> sz" "length l' < sz" "\<forall>j<length l. m (s + j) = l ! j"
  shows "\<exists>m'. kgets_at m s sz cs (length l) = Some (length l', m', rest) \<and> (\<forall>j<length l'. m' (s + j) = l' ! j) \<and>
    m' (s + length l') = 0 \<and> (\<forall>a. a < s \<or> s + sz \<le> a \<longrightarrow> m' a = m a)"
  using assms
proof (induction cs arbitrary: l m)
  case (Cons c cs)
  show ?case
  proof (cases "c = 10 \<or> c = EOF \<or> sz \<le> length l")
    case True
    then have "l' = l \<and> rest = cs" using Cons.prems(1) by (auto split: if_splits)
    then show ?thesis using True Cons.prems by auto
  next
    case False
    show ?thesis
    proof (cases "c = 8")
      case True
      then have "kgets sz cs (butlast l) = Some (l', rest)" using Cons.prems(1) False by (simp split: if_splits)
      from Cons.IH [OF this _ Cons.prems(3), of m] show ?thesis using True False Cons.prems(2,4)
        by (auto simp: nth_butlast)
    next
      case no: False
      then have "kgets sz cs (l @ [c]) = Some (l', rest)" using Cons.prems(1) False by (simp split: if_splits)
      moreover have "\<forall>j<length (l @ [c]). (m(s + length l := c)) (s + j) = (l @ [c]) ! j"
        using Cons.prems(4) by (auto simp: nth_append less_Suc_eq)
      moreover have "length (l @ [c]) \<le> sz" using False by simp
      ultimately obtain m' where "kgets_at (m(s + length l := c)) s sz cs (length (l @ [c])) = Some (length l', m', rest)"
        "\<forall>j<length l'. m' (s + j) = l' ! j" "m' (s + length l') = 0" "\<forall>a. a < s \<or> s + sz \<le> a \<longrightarrow> m' a = (m(s + length l := c)) a"
        using Cons.IH [of "l @ [c]" "m(s + length l := c)"] Cons.prems(3) by blast
      then show ?thesis using no False by (intro exI [of _ m']) auto
    qed
  qed
qed simp

lemma kgets_at_cstr:
  assumes "kgets 128 cs [] = Some (l, rest)" "length l < 128" "0 \<notin> set l"
  shows "\<exists>m'. kgets_at m s 128 cs 0 = Some (length l, m', rest) \<and> cstr m' s l \<and> (\<forall>a. a < s \<or> s + 128 \<le> a \<longrightarrow> m' a = m a)"
  using kgets_at_line [OF assms(1), of m s] assms(2,3) by (auto simp: cstr_nth in_set_conv_nth)

section \<open>Cutting it\<close>

text \<open>After \<^verbatim>\<open>strtok_r\<close> found the first token: the arguments are the first \<open>n\<close> tokens, each a string in place, and the buffer
  itself holds the delimiters before the first token and that token.\<close>

lemma argv_loop_null: "argv_loop n m NULL sv d = Some ([], m)"
  by (cases n) simp_all

lemma strtok_r_total:
  assumes "cstr m p s" "cstr m d ds" "NULL < p"
  shows "\<exists>t m' sv. strtok_r m p d x = Some (t, m', sv)"
proof (cases "tokens (set ds) s")
  case Nil
  then show ?thesis using strtok_r_none [OF assms] by simp
next
  case (Cons w ws)
  from tokens_Cons_split [OF Cons] obtain u r where "s = u @ w @ r" "set u \<subseteq> set ds" "w \<noteq> []"
    "set w \<inter> set ds = {}" "r = [] \<or> hd r \<in> set ds" by blast
  then show ?thesis using strtok_r_some [of m p u w r d ds x] assms by simp
qed

lemma first_token:
  assumes c: "cstr m p s" and d: "cstr m d ds" and p: "NULL < p" and "d + length ds < p \<or> p + length s < d"
    and t: "strtok_r m p d x = Some (tok, m1, sv)" and w: "tokens (set ds) s = w # ws"
  shows "\<exists>u r. s = u @ w @ r \<and> takeWhile (\<lambda>c. c \<in> set ds) s = u \<and> tok = p + length u \<and> cstr m1 p (u @ w) \<and>
    sv = (if r = [] then NULL else Suc (p + length (u @ w))) \<and> tokens (set ds) (tl r) = ws \<and>
    (\<forall>a. a \<noteq> p + length (u @ w) \<longrightarrow> m1 a = m a) \<and> (r = [] \<longrightarrow> m1 = m)"
proof -
  from tokens_Cons_split [OF w] obtain u r where s: "s = u @ w @ r" "set u \<subseteq> set ds" "w \<noteq> []"
    "set w \<inter> set ds = {}" "r = [] \<or> hd r \<in> set ds" "tokens (set ds) r = ws" by blast
  note tok = strtok_r_some [OF c [unfolded s(1)] d p s(2-5), of x]
  have hw: "hd w \<notin> set ds" using s(3,4) by (metis IntI empty_iff list.set_sel(1))
  have "takeWhile (\<lambda>c. c \<in> set ds) s = u" using s(1,2,3) hw by (cases w) (auto simp: takeWhile_append)
  moreover have "tokens (set ds) (tl r) = ws" using s(5,6) by (cases r) (auto simp: tokens_delim)
  moreover have "cstr m1 p (u @ w)" using tok t cstr_cut [of m p "u @ w" r] c s(1) by auto
  ultimately show ?thesis using tok t s(1) by (intro exI [of _ u] exI [of _ r]) auto
qed

lemma argv_loop_tokens:
  assumes "cstr m p s" "cstr m d ds" "NULL < p" "d + length ds < p \<or> p + length s < d" "strtok_r m p d x = Some (tok, m1, sv)"
  shows "\<exists>ps m'. argv_loop n m1 tok sv d = Some (ps, m') \<and> list_all2 (cstr m') ps (take n (tokens (set ds) s)) \<and>
    (\<forall>a. a < p \<or> p + length s \<le> a \<longrightarrow> m' a = m a) \<and>
    (tokens (set ds) s \<noteq> [] \<longrightarrow> cstr m' p (takeWhile (\<lambda>c. c \<in> set ds) s @ hd (tokens (set ds) s)))"
  using assms
proof (induction n arbitrary: m p s x tok m1 sv)
  case 0
  show ?case
  proof (cases "tokens (set ds) s")
    case Nil
    then show ?thesis using strtok_r_none [OF 0(1-3)] 0(5) by simp
  next
    case (Cons w ws)
    from first_token [OF 0 Cons] obtain u r where f: "s = u @ w @ r" "takeWhile (\<lambda>c. c \<in> set ds) s = u" "cstr m1 p (u @ w)"
      "\<forall>a. a \<noteq> p + length (u @ w) \<longrightarrow> m1 a = m a" "r = [] \<longrightarrow> m1 = m" by blast
    have "m1 a = m a" if "a < p \<or> p + length s \<le> a" for a using f(1,4,5) that by (cases r) auto
    then show ?thesis using Cons f(2,3) by simp
  qed
next
  case (Suc n)
  show ?case
  proof (cases "tokens (set ds) s")
    case Nil
    then show ?thesis using strtok_r_none [OF Suc.prems(1-3)] Suc.prems(5) by simp
  next
    case (Cons w ws)
    from first_token [OF Suc.prems Cons] obtain u r where f: "s = u @ w @ r" "takeWhile (\<lambda>c. c \<in> set ds) s = u" "tok = p + length u"
      "cstr m1 p (u @ w)" "sv = (if r = [] then NULL else Suc (p + length (u @ w)))" "tokens (set ds) (tl r) = ws"
      "\<forall>a. a \<noteq> p + length (u @ w) \<longrightarrow> m1 a = m a" "r = [] \<longrightarrow> m1 = m" by blast
    let ?e = "p + length (u @ w)"
    have cw: "cstr m1 tok w" using cstr_appendD [OF f(4)] f(3) by simp
    have t0: "tok \<noteq> NULL" using f(3) Suc.prems(3) by simp
    show ?thesis
    proof (cases r)
      case Nil
      then have "argv_loop (Suc n) m1 tok sv d = Some ([tok], m1)" using t0 f(5) by (simp add: strtok_r_def argv_loop_null)
      then show ?thesis using Cons f Nil cw by simp
    next
      case r: (Cons c r')
      have "cstr m (Suc ?e) r'" using cstr_appendD [of m p "u @ w @ [c]" r'] Suc.prems(1) f(1) r by simp
      then have cr: "cstr m1 (Suc ?e) r'" using f(7) by (subst cstr_cong [of r' m1 "Suc ?e" m]) auto
      have cd: "cstr m1 d ds" using Suc.prems(2,4) f(1,7) r by (subst cstr_cong [of ds m1 d m]) auto
      have dr: "d + length ds < Suc ?e \<or> Suc ?e + length r' < d" using Suc.prems(4) f(1) r by auto
      obtain t2 m2 sv2 where n: "strtok_r m1 (Suc ?e) d sv = Some (t2, m2, sv2)" using strtok_r_total [OF cr cd] by blast
      from Suc.IH [OF cr cd _ dr n] obtain ps m' where IH: "argv_loop n m2 t2 sv2 d = Some (ps, m')"
        "list_all2 (cstr m') ps (take n (tokens (set ds) r'))" "\<forall>a. a < Suc ?e \<or> Suc ?e + length r' \<le> a \<longrightarrow> m' a = m1 a" by auto
      have "strtok_r m1 NULL d sv = Some (t2, m2, sv2)" using n f(5) r by (simp add: strtok_r_def)
      then have "argv_loop (Suc n) m1 tok sv d = Some (tok # ps, m')" using t0 IH(1) by simp
      moreover have "cstr m' tok w" "cstr m' p (u @ w)"
        using cw f(3,4) IH(3) cstr_cong [of w m' tok m1] cstr_cong [of "u @ w" m' p m1] by auto
      moreover have "\<forall>a. a < p \<or> p + length s \<le> a \<longrightarrow> m' a = m a" using IH(3) f(1,7) r by auto
      ultimately show ?thesis using Cons IH(2) f(2,6) r by simp
    qed
  qed
qed

section \<open>Finding the command\<close>

fun index_of :: "'a \<Rightarrow> 'a list \<Rightarrow> nat option" where
  "index_of x [] = None"
| "index_of x (y # ys) = (if x = y then Some 0 else map_option Suc (index_of x ys))"

lemma find_cmd_from:
  assumes "cstr m b w" "list_all2 (cstr m) cs names"
  shows "find_cmd m b cs i = Some (map_option ((+) i) (index_of w names))"
  using assms(2)
proof (induction arbitrary: i rule: list_all2_induct)
  case (Cons c cs n ns)
  obtain r where "strcmp m b c = Some r" "r = 0 \<longleftrightarrow> w = n" using strcmp_cstr [OF assms(1) Cons(1)] by blast
  then show ?case using Cons(3) [of "i + 1"] by (auto simp: option.map_comp comp_def)
qed simp

lemma find_cmd_index: "cstr m b w \<Longrightarrow> list_all2 (cstr m) cs names \<Longrightarrow> find_cmd m b cs 0 = Some (index_of w names)"
  using find_cmd_from [of m b w cs names 0] by (cases "index_of w names") simp_all

lemma index_of_none: "x \<notin> set xs \<Longrightarrow> index_of x xs = None"
  by (induction xs) auto

lemma cmds_words: "\<forall>n \<in> set (map ascii cmds). 32 \<notin> set n \<and> length n \<le> 6"
  by (simp add: cmds_def ascii_def)

lemma str_at_cstr: "cstr m p w \<Longrightarrow> p < 2 ^ 32 \<Longrightarrow> str_at m (of_nat p) = Some w"
  by (auto simp: str_at_def strlen_cstr unat_of_nat cstr_nth intro!: nth_equalityI)

text \<open>The literals stay as they were while the buffer changes.\<close>

lemma literals_frame:
  assumes "list_all2 (cstr m) cs (map ascii cmds)" "\<forall>p \<in> set cs. p + 7 \<le> b \<or> b + 128 \<le> p"
    and "\<forall>a. a < b \<or> b + 128 \<le> a \<longrightarrow> m' a = m a"
  shows "list_all2 (cstr m') cs (map ascii cmds)"
proof (rule list_all2_all_nthI)
  show len: "length cs = length (map ascii cmds)" using assms(1) by (rule list_all2_lengthD)
  fix i assume i: "i < length cs"
  have "length (map ascii cmds ! i) \<le> 6" using cmds_words i len nth_mem by metis
  moreover have "cs ! i + 7 \<le> b \<or> b + 128 \<le> cs ! i" using assms(2) i by auto
  ultimately have "m' (cs ! i + j) = m (cs ! i + j)" if "j \<le> length (map ascii cmds ! i)" for j using assms(3) that by auto
  then show "cstr m' (cs ! i) (map ascii cmds ! i)"
    using cstr_cong [of "map ascii cmds ! i" m' "cs ! i" m] list_all2_nthD [OF assms(1) i] by simp
qed

section \<open>Properties\<close>

text \<open>C36. A typed line runs its command.  When the string literals of the shell are where the linker put them, a
  line of fewer than 128 characters is handled so: an empty line does nothing; otherwise the command called is the
  one of \<^verbatim>\<open>ftab\<close> at the place of the first word in \<^verbatim>\<open>cmds\<close>, its arguments are the first eight words of the line, each a
  string of its own, and a result other than 0 is reported; a first word that is no command is reported by
  name.  A line that starts with a blank is never recognised (the buffer is compared from its start), and a
  line of blanks only prints an argument that was never set.\<close>

theorem shell_runs_command:
  assumes line: "kgets 128 (sh_in s) [] = Some (l, rest)" "length l < 128" "0 \<notin> set l"
    and lits: "cstr (smem s) (h_delim e) [32]" "list_all2 (cstr (smem s)) (h_cmds e) (map ascii cmds)"
    and apart: "\<forall>p \<in> insert (h_delim e) (set (h_cmds e)). p + 7 \<le> h_buf e \<or> h_buf e + 128 \<le> p"
    and buf: "0 < h_buf e" "h_buf e + 128 < 2 ^ 32"
  shows "\<exists>m argv. let s2 = set_mem m (s\<lparr>sh_in := rest\<rparr>) in
    list_all2 (cstr m) argv (take 8 (tokens {32} l)) \<and>
    shell_line e s =
      (if l = [] then Some s2
       else if tokens {32} l = [] then None
       else case (if hd l = 32 then None else index_of (hd (tokens {32} l)) (map ascii cmds)) of
              Some i \<Rightarrow> map_option report ((ftab ! i) e (map of_nat argv) s2)
            | None \<Rightarrow> Some (say [Fmt (''%s: command not found'' @ nl) [A_str (hd (tokens {32} l))]] s2))"
proof -
  let ?b = "h_buf e" and ?d = "h_delim e"
  from kgets_at_cstr [OF line, of "smem s" ?b] obtain m where m: "kgets_at (smem s) ?b 128 (sh_in s) 0 = Some (length l, m, rest)"
    "cstr m ?b l" "\<forall>a. a < ?b \<or> ?b + 128 \<le> a \<longrightarrow> m a = smem s a" by blast
  have cd: "cstr m ?d [32]" using lits(1) apart m(3) cstr_cong [of "[32]" m ?d "smem s"] by auto
  have sep: "?d + length [32::u8] < ?b \<or> ?b + length l < ?d" using apart line(2) by auto
  obtain tok m1 sv where t: "strtok_r m ?b ?d NULL = Some (tok, m1, sv)" using strtok_r_total [OF m(2) cd buf(1)] by blast
  from argv_loop_tokens [OF m(2) cd buf(1) sep t, of NARGS] obtain argv m2 where a: "argv_loop NARGS m1 tok sv ?d = Some (argv, m2)"
    "list_all2 (cstr m2) argv (take 8 (tokens {32} l))" "\<forall>a. a < ?b \<or> ?b + length l \<le> a \<longrightarrow> m2 a = m a"
    "tokens {32} l \<noteq> [] \<longrightarrow> cstr m2 ?b (takeWhile (\<lambda>c. c = 32) l @ hd (tokens {32} l))" by (auto simp: NARGS_def)
  have fr: "\<forall>x. x < ?b \<or> ?b + 128 \<le> x \<longrightarrow> m2 x = smem s x" using a(3) m(3) line(2) by auto
  have lt: "list_all2 (cstr m2) (h_cmds e) (map ascii cmds)" using literals_frame [OF lits(2) _ fr] apart by auto
  have hit: "find_cmd m2 ?b (h_cmds e) 0 = Some (index_of w (map ascii cmds))" if "cstr m2 ?b w" for w by (rule find_cmd_index [OF that lt])
  have blank: "index_of w (map ascii cmds) = None" if "32 \<in> set w" for w using cmds_words that by (intro index_of_none) blast
  let ?s2 = "set_mem m2 (s\<lparr>sh_in := rest\<rparr>)" and ?nf = "\<lambda>w. say [Fmt (''%s: command not found'' @ nl) [A_str w]]"
  have sm: "set_mem x (set_mem y t) = set_mem x t" for x y t by (simp add: set_mem_def)
  show ?thesis
  proof (cases "l = []")
    case True
    then show ?thesis using m(1) by (intro exI [of _ m] exI [of _ "[]"]) (simp add: shell_line_def Let_def)
  next
    case ne: False
    show ?thesis
    proof (cases "tokens {32} l")
      case Nil
      then have z: "tok = NULL" "m1 = m" using strtok_r_none [OF m(2) cd buf(1), of NULL] t by simp_all
      then have z2: "argv = []" "m2 = m" using a(1) by (simp_all add: argv_loop_null)
      have "32 \<in> set l" using Nil ne by (cases l) (auto simp: tokens.simps split: list.splits if_splits)
      then have "shell_line e s = None" using hit [of l] blank [of l] m(1,2) ne t a(1) z2
        by (simp add: shell_line_def Let_def)
      then show ?thesis using Nil ne by (intro exI [of _ m] exI [of _ "[]"]) (simp add: Let_def)
    next
      case (Cons w ws)
      from first_token [OF m(2) cd buf(1) sep t, of w ws] Cons obtain u r where f: "l = u @ w @ r" "takeWhile (\<lambda>c. c = 32) l = u"
        "tok = ?b + length u" by auto
      have hd: "argv \<noteq> []" "hd argv = tok" using a(1) f(3) buf(1) by (auto simp: NARGS_def eval_nat_numeral bind_eq_Some_conv split: if_splits)
      have "cstr m2 (hd argv) w" using a(2) hd(1) Cons by (cases argv) auto
      moreover have "hd argv < 2 ^ 32" using hd(2) f(1,3) line(2) buf(2) by simp
      ultimately have nm: "str_at m2 (of_nat (hd argv)) = Some w" by (rule str_at_cstr)
      have ix: "find_cmd m2 ?b (h_cmds e) 0 = Some (if hd l = 32 then None else index_of w (map ascii cmds))"
      proof (cases "hd l = 32")
        case True
        then obtain l' where "l = 32 # l'" using ne by (cases l) auto
        then have "u = 32 # takeWhile (\<lambda>c. c = 32) l'" using f(2) by simp
        then have "32 \<in> set (u @ w)" by simp
        then show ?thesis using hit [of "u @ w"] a(4) f(2) Cons blank True by simp
      next
        case False
        then have "u = []" using f(2) ne by (cases l) auto
        then show ?thesis using hit [of w] a(4) f(2) Cons False by simp
      qed
      have "shell_line e s = (case (if hd l = 32 then None else index_of w (map ascii cmds)) of
          Some i \<Rightarrow> map_option report ((ftab ! i) e (map of_nat argv) ?s2) | None \<Rightarrow> Some (?nf w ?s2))"
        using m(1) ne t a(1) ix hd(1) nm by (simp add: shell_line_def Let_def sm split: option.split)
      then show ?thesis unfolding Let_def using ne a(2) by (intro exI [of _ m2] exI [of _ argv]) (simp only: Cons list.sel list.distinct if_False simp_thms)
    qed
  qed
qed

text \<open>The literals of the shell laid out in memory, and the line \<^verbatim>\<open>exit now\<close>.\<close>

definition lit_mem :: "nat \<Rightarrow> mem" where
  "lit_mem n = fold (\<lambda>i. put_str (0x1000 + 16 * i) (ascii (cmds ! i))) [0..<n] (put_str 0x900 [32] (\<lambda>_. 0))"

lemma lit_mem_cstr:
  assumes "n \<le> 20"
  shows "cstr (lit_mem n) 0x900 [32] \<and> (\<forall>i<n. cstr (lit_mem n) (0x1000 + 16 * i) (ascii (cmds ! i)))"
  using assms
proof (induction n)
  case 0
  then show ?case using cstr_put_str [of "[32]" "0x900" "\<lambda>_. 0"] by (simp add: lit_mem_def)
next
  case (Suc n)
  have len: "length (ascii (cmds ! i)) \<le> 6 \<and> 0 \<notin> set (ascii (cmds ! i))" if "i < 20" for i
  proof -
    have "length cmds = 20" by (simp add: cmds_def)
    then have "ascii (cmds ! i) \<in> set (map ascii cmds)" using that by simp
    moreover have "\<forall>n \<in> set (map ascii cmds). 0 \<notin> set n" by (simp add: cmds_def ascii_def)
    ultimately show ?thesis using cmds_words by blast
  qed
  have st: "lit_mem (Suc n) = put_str (0x1000 + 16 * n) (ascii (cmds ! n)) (lit_mem n)" by (simp add: lit_mem_def)
  have "cstr (lit_mem (Suc n)) 0x900 [32]" unfolding st using Suc by (subst cstr_put_str_other) auto
  moreover have "cstr (lit_mem (Suc n)) (0x1000 + 16 * i) (ascii (cmds ! i))" if "i < Suc n" for i
  proof (cases "i = n")
    case True
    then show ?thesis unfolding st using cstr_put_str len [of n] Suc.prems by auto
  next
    case False
    then show ?thesis unfolding st using Suc len [of i] that by (subst cstr_put_str_other) auto
  qed
  ultimately show ?case by blast
qed

theorem shell_runs_command_witness:
  "\<exists>e s s'. sh_in s = ascii ''exit now'' @ [10] \<and> shell_line e s = Some s' \<and> sh_in s' = [] \<and> sh_out s' = sh_out s"
proof -
  define s where "s = \<lparr>sh_u = \<lparr>u_errno = 0, u_k = \<lparr>k_mem = lit_mem 20, k_stat = (\<lambda>_. None), k_vfs = sample_vfs,
      k_sched = boot_sched 0 no_proc, sys_rval = 0\<rparr>\<rparr>, sh_heap = undefined, sh_in = ascii ''exit now'' @ [10], sh_out = [],
      sh_term = undefined, sh_clock = undefined\<rparr>"
  define e where "e = \<lparr>h_sys = \<lparr>e_ops = no_ops, e_al = sample_al, e_alf = sample_alf\<rparr>, h_stdout = 1, h_stat = 0x100, h_dot = 0x200,
      h_buf = 0x2000, h_delim = 0x900, h_cmds = map (\<lambda>i. 0x1000 + 16 * i) [0..<20]\<rparr>"
  let ?l = "ascii ''exit now''"
  note k = kgets_line [of ?l "[]" 128 "[]"]
  have l: "kgets 128 (sh_in s) [] = Some (?l, [])" "length ?l < 128" "0 \<notin> set ?l"
    using k by (simp_all add: s_def ascii_def EOF_def)
  have c: "cstr (smem s) (h_delim e) [32]" "list_all2 (cstr (smem s)) (h_cmds e) (map ascii cmds)"
  proof -
    have "length cmds = 20" by (simp add: cmds_def)
    then show "cstr (smem s) (h_delim e) [32]" "list_all2 (cstr (smem s)) (h_cmds e) (map ascii cmds)"
      using lit_mem_cstr [of 20] by (auto simp: s_def e_def list_all2_conv_all_nth)
  qed
  have a: "\<forall>p \<in> insert (h_delim e) (set (h_cmds e)). p + 7 \<le> h_buf e \<or> h_buf e + 128 \<le> p" "0 < h_buf e" "h_buf e + 128 < 2 ^ 32"
    by (auto simp: e_def)
  have tk: "tokens {32} ?l = [ascii ''exit'', ascii ''now'']"
    using tokens_joinc [of "[ascii ''exit'', ascii ''now'']" 32] by (simp add: ascii_def)
  have ix: "index_of (ascii ''exit'') (map ascii cmds) = Some 1" "hd ?l \<noteq> 32" "?l \<noteq> []" by (simp_all add: ascii_def cmds_def)
  from shell_runs_command [OF l c a] obtain m argv where
    "shell_line e s = map_option report ((ftab ! 1) e (map of_nat argv) (set_mem m (s\<lparr>sh_in := []\<rparr>)))"
    unfolding tk Let_def list.sel by (simp only: ix if_False list.distinct option.case) blast
  then have "shell_line e s = Some (set_mem m (s\<lparr>sh_in := []\<rparr>))" by (simp add: ftab_def c_exit_def report_def)
  then show ?thesis by (intro exI [of _ e] exI [of _ s] exI [of _ "set_mem m (s\<lparr>sh_in := []\<rparr>)"]) (simp add: set_mem_def s_def)
qed

end
