(* ===== verification/Proc_Login.thy ===== *)
theory Proc_Login
  imports Proc_Cmds Tty_Line Drv_Kbd
begin

text \<open>
  \<^verbatim>\<open>login\<close> and \<^verbatim>\<open>gethostname\<close> (\<^verbatim>\<open>proc/proc.c\<close>), over the password files of \<open>Crypt_Cred\<close>, the terminal settings of
  \<open>Tty_Line\<close> and the system calls of \<open>Sys_Wrap\<close>.  As in \<open>Crypt_Cred\<close> the password files are given by what
  \<^verbatim>\<open>read\<close> delivers of them, and the entry \<^verbatim>\<open>i\<close> is a value, cleared at first as \<^verbatim>\<open>malloc\<close> clears its block.
\<close>

section \<open>State\<close>

definition MAXUSERLEN :: nat where "MAXUSERLEN = 32"

text \<open>\<open>lg_name\<close> is \<^verbatim>\<open>root.name\<close>, \<open>lg_evoked\<close> and the memory at \<open>g_hbuf\<close> are the statics of \<^verbatim>\<open>gethostname\<close>; the
  credentials \<^verbatim>\<open>root.cred\<close> are those of the file system calls.\<close>

record login_state =
  lg_sh :: shell
  lg_tty :: "tty option"
  lg_name :: "u8 list"
  lg_evoked :: bool

text \<open>The files, the addresses of the literals \<^verbatim>\<open>"/etc/hostname"\<close> and \<^verbatim>\<open>"/"\<close>, of the host name and of
  \<^verbatim>\<open>i->home\<close>, the \<^verbatim>\<open>update\<close> function of the terminal, and what lies after the password on the stack.\<close>

record logenv =
  g_sys :: sysenv
  g_passwd :: pwfile
  g_shadow :: pwfile
  g_etc :: u32
  g_slash :: u32
  g_hbuf :: addr
  g_home :: u32
  g_upd :: "tty \<Rightarrow> tty"
  g_stack :: mem

section \<open>Operations\<close>

definition cut_lines :: "addr \<Rightarrow> mem \<Rightarrow> mem" where
  "cut_lines b m = (\<lambda>x. if b \<le> x \<and> x < b + 32 \<and> m x = 10 then 0 else m x)"

definition gethostname :: "logenv \<Rightarrow> login_state \<Rightarrow> (addr \<times> login_state) option" where
  "gethostname e s =
     (if lg_evoked s then Some (g_hbuf e, s)
      else Option.bind (call (w_open (g_sys e) (g_etc e) O_RDONLY) (lg_sh s)) (\<lambda>(fd, t1).
        if fd = - 1 then Some (NULL, s\<lparr>lg_sh := say_error ''open'' t1\<rparr>)
        else Option.bind (call (w_read (g_sys e) (of_int fd) (of_nat (g_hbuf e)) 32) t1) (\<lambda>(_, t2).
          Option.bind (call (w_close (g_sys e) (of_int fd)) (set_mem (cut_lines (g_hbuf e) (smem t2)) t2)) (\<lambda>(_, t3).
            Some (g_hbuf e, s\<lparr>lg_sh := t3, lg_evoked := True\<rparr>)))))"

text \<open>A string argument: the null pointer prints as nothing.\<close>

definition str_arg :: "mem \<Rightarrow> addr \<Rightarrow> u8 list option" where
  "str_arg m p = (if p = NULL then Some [] else str_at m (of_nat p))"

text \<open>\<^verbatim>\<open>kgets\<close> into an array of \<open>n\<close> bytes: the string it leaves there.  A line that fills the array ends outside it.\<close>

definition login_gets :: "nat \<Rightarrow> login_state \<Rightarrow> (u8 list \<times> login_state) option" where
  "login_gets n s =
     Option.bind (kgets n (sh_in (lg_sh s)) []) (\<lambda>(l, rest).
       if length l < n then Some (takeWhile (\<lambda>c. c \<noteq> 0) l, s\<lparr>lg_sh := (lg_sh s)\<lparr>sh_in := rest\<rparr>\<rparr>) else None)"

definition lsay :: "out list \<Rightarrow> login_state \<Rightarrow> login_state" where
  "lsay xs s = s\<lparr>lg_sh := say xs (lg_sh s)\<rparr>"

text \<open>The password with the echo off.  Without a terminal the settings are unset but never stored.\<close>

definition ask_password :: "logenv \<Rightarrow> u8 list \<Rightarrow> login_state \<Rightarrow> (u8 list \<times> login_state) option" where
  "ask_password e usr s =
     (let (_, orig, t1) = tcgetattr (g_upd e) (map_option termios (lg_tty s)) (lg_tty s);
          noecho = map_option (\<lambda>t. t\<lparr>c_lflag := c_lflag t AND NOT ECHO\<rparr>) orig;
          (_, _, t2) = tcsetattr (g_upd e) 0 noecho t1
      in Option.bind (login_gets MAXUSERLEN (lsay [Fmt ''password for %s: '' [A_str usr]] (s\<lparr>lg_tty := t2\<rparr>))) (\<lambda>(psw, s1).
           let (_, _, t3) = tcsetattr (g_upd e) 0 orig (lg_tty s1) in Some (psw, s1\<lparr>lg_tty := t3\<rparr>)))"

definition zero_info :: userinfo where
  "zero_info = \<lparr>ui_username = [], ui_uid = 0, ui_gid = 0, ui_comment = [], ui_home = [], ui_interp = [], ui_pass_req = 0\<rparr>"

text \<open>One round of the loop: the entry of the user who may enter, or nothing.\<close>

definition login_attempt :: "logenv \<Rightarrow> login_state \<Rightarrow> (userinfo option \<times> login_state) option" where
  "login_attempt e s =
     Option.bind (gethostname e s) (\<lambda>(h, s1).
       Option.bind (str_arg (smem (lg_sh s1)) h) (\<lambda>host.
         Option.bind (login_gets MAXUSERLEN (lsay [Fmt ''%s login: '' [A_str host]] s1)) (\<lambda>(usr, s2).
           Option.bind (getuser (g_passwd e) (Some usr) 0 zero_info) (\<lambda>(r, i).
             if r \<noteq> 0 \<and> ui_pass_req i AND 1 = 0 then Some (Some i, s2)
             else Option.bind (ask_password e usr s2) (\<lambda>(psw, s3).
               Option.bind (chkcred (g_passwd e) (g_shadow e) (g_stack e) usr psw i) (\<lambda>(r, i).
                 if r = 0 then Some (None, lsay [Text (nl @ ''login incorrect'' @ nl)] s3)
                 else Some (Some i, s3)))))))"

partial_function (option) login_loop :: "logenv \<Rightarrow> login_state \<Rightarrow> (userinfo option \<times> login_state) option" where
  "login_loop e s =
     Option.bind (login_attempt e s) (\<lambda>x. if fst x = None then login_loop e (snd x) else Some x)"

text \<open>The name and the effective ids.\<close>

definition login_enter :: "userinfo \<Rightarrow> login_state \<Rightarrow> login_state" where
  "login_enter i s =
     (let sh = lg_sh s; u = sh_u sh; k = u_k u; v = k_vfs k
      in s\<lparr>lg_name := ui_username i,
           lg_sh := sh\<lparr>sh_u := u\<lparr>u_k := k\<lparr>k_vfs := v\<lparr>ucred := (ucred v)\<lparr>cr_euid := ui_uid i, cr_egid := ui_gid i\<rparr>\<rparr>\<rparr>\<rparr>\<rparr>\<rparr>)"

text \<open>The string at \<^verbatim>\<open>i->home\<close>: a name that fills the field runs on into the next one.\<close>

definition home_path :: "userinfo \<Rightarrow> u8 list option" where
  "home_path i = (if length (ui_home i) < MAX_CMTLEN then Some (ui_home i)
     else if length (ui_interp i) < MAX_CMTLEN then Some (ui_home i @ ui_interp i) else None)"

definition login_home :: "logenv \<Rightarrow> userinfo \<Rightarrow> login_state \<Rightarrow> login_state option" where
  "login_home e i s =
     Option.bind (home_path i) (\<lambda>path.
       let sh = say [Text (nl @ nl)] (lg_sh s); sh1 = set_mem (put_str (unat (g_home e)) path (smem sh)) sh in
       Option.bind (call (w_chdir (g_sys e) (g_home e)) sh1) (\<lambda>(r, sh2).
         if r = - 1 then
           Option.bind (call (w_chdir (g_sys e) (g_slash e)) (say_error ''home directory'' sh2)) (\<lambda>(_, sh3).
             Some (s\<lparr>lg_sh := sh3\<rparr>))
         else Some (s\<lparr>lg_sh := sh2\<rparr>)))"

definition login :: "logenv \<Rightarrow> login_state \<Rightarrow> login_state option" where
  "login e s =
     Option.bind (login_loop e (lsay [Text nl] s)) (\<lambda>(i, s1).
       case i of None \<Rightarrow> None | Some i \<Rightarrow> login_home e i (login_enter i s1))"

section \<open>The password files as they are written\<close>

record swent =
  s_name :: "u8 list"
  s_seed :: "u8 list"
  s_hash :: "u8 list"

definition s_line :: "swent \<Rightarrow> u8 list" where
  "s_line s = joinc COLON [s_name s, joinc DOLLAR [[102, 117], s_seed s, s_hash s]]"

definition sw_render :: "swent list \<Rightarrow> u8 list" where
  "sw_render ss = concat (map (\<lambda>s. s @ [NL]) (map s_line ss))"

definition s_ok :: "swent \<Rightarrow> bool" where
  "s_ok s \<longleftrightarrow> field_ok (s_name s) \<and> num_ok (s_seed s) \<and> num_ok (s_hash s)"

text \<open>A line for the user whose hash is that of the password.\<close>

definition passes :: "mem \<Rightarrow> swent list \<Rightarrow> u8 list \<Rightarrow> u8 list \<Rightarrow> bool" where
  "passes m ss n p \<longleftrightarrow>
     (\<exists>s\<in>set ss. s_name s = n \<and> of_int (dec_val (s_hash s)) = hash_str m p (of_int (dec_val (s_seed s))))"

definition open_entry :: "pwent list \<Rightarrow> u8 list \<Rightarrow> bool" where
  "open_entry es n \<longleftrightarrow> (\<exists>e. find (\<lambda>e. e_name e = n) es = Some e \<and> take 1 (e_pass e) \<noteq> [120])"

definition accepts :: "mem \<Rightarrow> pwent list \<Rightarrow> swent list \<Rightarrow> u8 list \<times> u8 list \<Rightarrow> bool" where
  "accepts m es ss np \<longleftrightarrow> open_entry es (fst np) \<or> passes m ss (fst np) (snd np)"

definition info_of :: "pwent list \<Rightarrow> u8 list \<Rightarrow> userinfo" where
  "info_of es n = (case find (\<lambda>e. e_name e = n) es of
     None \<Rightarrow> zero_info\<lparr>ui_pass_req := UI_ALLOCATED\<rparr> | Some e \<Rightarrow> e_info e zero_info)"

text \<open>What is typed: a name, and a password if one is asked for.\<close>

definition typed :: "pwent list \<Rightarrow> u8 list \<times> u8 list \<Rightarrow> u8 list" where
  "typed es np = fst np @ [10] @ (if open_entry es (fst np) then [] else snd np @ [10])"

definition line_ok :: "u8 list \<Rightarrow> bool" where
  "line_ok l \<longleftrightarrow> set l \<inter> {0, 8, 10, EOF} = {} \<and> length l < MAXUSERLEN"

lemma num_ok_chars: "num_ok d \<Longrightarrow> c \<in> set d \<Longrightarrow> c \<noteq> 0 \<and> c \<noteq> NL \<and> c \<noteq> COLON \<and> c \<noteq> DOLLAR"
  by (auto simp: num_ok_def list_all_iff isdigit_iff NL_def COLON_def DOLLAR_def)

lemma s_line_tokens:
  assumes "s_ok s"
  shows "tokens {COLON} (s_line s) = [s_name s, joinc DOLLAR [[102, 117], s_seed s, s_hash s]]"
    "tokens {DOLLAR} (joinc DOLLAR [[102, 117], s_seed s, s_hash s]) = [[102, 117], s_seed s, s_hash s]"
    "s_line s \<noteq> [] \<and> NL \<notin> set (s_line s) \<and> 0 \<notin> set (s_line s)"
proof -
  have n: "s_seed s \<noteq> []" "s_hash s \<noteq> []" "s_name s \<noteq> []" using assms by (auto simp: s_ok_def num_ok_def field_ok_def)
  have c: "DOLLAR \<notin> set d \<and> COLON \<notin> set d \<and> NL \<notin> set d \<and> 0 \<notin> set d" if "d = s_seed s \<or> d = s_hash s" for d
    using assms that num_ok_chars [of d] by (auto simp: s_ok_def)
  show "tokens {DOLLAR} (joinc DOLLAR [[102, 117], s_seed s, s_hash s]) = [[102, 117], s_seed s, s_hash s]"
    by (rule tokens_joinc) (use n c in \<open>auto simp: DOLLAR_def\<close>)
  show "tokens {COLON} (s_line s) = [s_name s, joinc DOLLAR [[102, 117], s_seed s, s_hash s]]"
    unfolding s_line_def by (rule tokens_joinc) (use n c assms in \<open>auto simp: s_ok_def field_ok_def COLON_def DOLLAR_def\<close>)
  show "s_line s \<noteq> [] \<and> NL \<notin> set (s_line s) \<and> 0 \<notin> set (s_line s)"
    using n c assms by (auto simp: s_line_def s_ok_def field_ok_def NL_def COLON_def DOLLAR_def)
qed

lemma shadow_lines: "\<forall>s\<in>set ss. s_ok s \<Longrightarrow> file_lines (sw_render ss) = map s_line ss"
proof -
  assume ok: "\<forall>s\<in>set ss. s_ok s"
  then have "\<forall>c\<in>set (sw_render ss). c \<noteq> 0" using s_line_tokens(3) by (auto simp: sw_render_def NL_def)
  then have "takeWhile (\<lambda>c. c \<noteq> 0) (sw_render ss) = sw_render ss" by (simp add: takeWhile_eq_all_conv)
  moreover have "tokens {NL} (sw_render ss) = map s_line ss"
    unfolding sw_render_def by (rule tokens_lines) (use ok s_line_tokens(3) in auto)
  ultimately show ?thesis by (simp only: file_lines_def)
qed

lemma chkcred_lines_passes:
  "\<forall>s\<in>set ss. s_ok s \<Longrightarrow> chkcred_lines m n p (map s_line ss) = Some (passes m ss n p)"
proof (induction ss)
  case (Cons s ss)
  then have ok: "s_ok s" by simp
  have "atoi_str (Some (s_seed s)) = Some (dec_val (s_seed s))" "atoi_str (Some (s_hash s)) = Some (dec_val (s_hash s))"
    using ok atoi_str_num num_ok_chars unfolding s_ok_def by blast+
  then show ?case using Cons s_line_tokens(1,2) [OF ok]
    by (auto simp: streq_def tok_nth_def passes_def Let_def)
qed (simp add: passes_def)

section \<open>One attempt\<close>

lemma getuser_info:
  assumes "\<forall>e\<in>set es. e_ok e"
  shows "\<exists>r. getuser (FBytes (pw_render es)) (Some n) uid zero_info = Some (r, info_of es n) \<and>
    (r \<noteq> 0 \<and> ui_pass_req (info_of es n) AND 1 = 0 \<longleftrightarrow> open_entry es n) \<and> ui_pass_req (info_of es n) AND UI_ALLOCATED \<noteq> 0"
proof -
  have g: "getuser (FBytes (pw_render es)) (Some n) uid zero_info =
    Some (case find (\<lambda>e. e_name e = n) es of None \<Rightarrow> (0, info_of es n) | Some e \<Rightarrow> (1, info_of es n))"
    using getuser_lines_find [OF assms, of n uid "zero_info\<lparr>ui_pass_req := UI_ALLOCATED\<rparr>"] file_lines_render [OF assms]
    by (auto simp: getuser_def info_of_def Let_def e_info_def split: option.splits)
  show ?thesis
  proof (cases "find (\<lambda>e. e_name e = n) es")
    case None
    then show ?thesis using g by (simp add: open_entry_def info_of_def UI_ALLOCATED_def)
  next
    case (Some e)
    then show ?thesis using g by (auto simp: open_entry_def info_of_def UI_ALLOCATED_def e_info_def)
  qed
qed

lemma chkcred_info:
  assumes "\<forall>s\<in>set ss. s_ok s" "ui_pass_req i AND UI_ALLOCATED \<noteq> 0"
  shows "chkcred f (FBytes (sw_render ss)) m n p i = Some (if passes m ss n p then 1 else 0, i)"
  using assms(2) by (simp add: chkcred_def shadow_lines [OF assms(1)] chkcred_lines_passes [OF assms(1)])

lemma login_gets_line:
  assumes "line_ok l" "sh_in (lg_sh s) = l @ 10 # rest"
  shows "login_gets MAXUSERLEN s = Some (l, s\<lparr>lg_sh := (lg_sh s)\<lparr>sh_in := rest\<rparr>\<rparr>)"
proof -
  have "kgets MAXUSERLEN (l @ 10 # rest) [] = Some ([] @ l, rest)"
    by (rule kgets_line) (use assms(1) in \<open>auto simp: line_ok_def\<close>)
  moreover have "takeWhile (\<lambda>c. c \<noteq> 0) l = l" using assms(1) by (auto simp: line_ok_def takeWhile_eq_all_conv)
  ultimately show ?thesis using assms by (simp add: login_gets_def line_ok_def)
qed

text \<open>What an attempt leaves as it was: system calls, memory, the settings of the terminal.\<close>

definition same_but_io :: "login_state \<Rightarrow> login_state \<Rightarrow> bool" where
  "same_but_io s s' \<longleftrightarrow> sh_u (lg_sh s') = sh_u (lg_sh s) \<and> lg_name s' = lg_name s \<and> lg_evoked s' = lg_evoked s \<and>
     map_option termios (lg_tty s') = map_option termios (lg_tty s)"

lemma ask_password_line:
  assumes "line_ok p" "sh_in (lg_sh s) = p @ 10 # rest" "\<And>t. termios (g_upd e t) = termios t"
  shows "\<exists>s'. ask_password e usr s = Some (p, s') \<and> same_but_io s s' \<and> sh_in (lg_sh s') = rest"
proof (cases "lg_tty s")
  case None
  then show ?thesis
    using login_gets_line [OF assms(1), of "lsay [Fmt ''password for %s: '' [A_str usr]] (s\<lparr>lg_tty := None\<rparr>)"] assms(2)
    by (simp add: ask_password_def tcgetattr_def tcsetattr_def ioctl_tty_def lsay_def say_def same_but_io_def)
next
  case (Some t)
  let ?t = "g_upd e (t\<lparr>termios := (termios t)\<lparr>c_lflag := c_lflag (termios t) AND NOT ECHO\<rparr>\<rparr>)"
  from Some show ?thesis
    using login_gets_line [OF assms(1), of "lsay [Fmt ''password for %s: '' [A_str usr]] (s\<lparr>lg_tty := Some ?t\<rparr>)"] assms(2,3)
    by (simp add: ask_password_def tcgetattr_def tcsetattr_def ioctl_tty_def lsay_def say_def same_but_io_def TCGETS_def TCSETS_def)
qed

lemma login_attempt_typed:
  assumes "\<forall>x\<in>set es. e_ok x" "\<forall>x\<in>set ss. s_ok x" "g_passwd e = FBytes (pw_render es)" "g_shadow e = FBytes (sw_render ss)"
    and "\<And>t. termios (g_upd e t) = termios t" "lg_evoked s" "str_arg (smem (lg_sh s)) (g_hbuf e) = Some h"
    and "line_ok n" "line_ok p" "sh_in (lg_sh s) = typed es (n, p) @ rest"
  shows "\<exists>s'. login_attempt e s = Some (if accepts (g_stack e) es ss (n, p) then Some (info_of es n) else None, s') \<and>
    same_but_io s s' \<and> sh_in (lg_sh s') = rest"
proof -
  let ?s1 = "lsay [Fmt ''%s login: '' [A_str h]] s"
  from getuser_info [OF assms(1), of n 0] obtain r where
    r: "getuser (g_passwd e) (Some n) 0 zero_info = Some (r, info_of es n)"
    "r \<noteq> 0 \<and> ui_pass_req (info_of es n) AND 1 = 0 \<longleftrightarrow> open_entry es n" "ui_pass_req (info_of es n) AND UI_ALLOCATED \<noteq> 0"
    unfolding assms(3) by blast
  let ?tl = "if open_entry es n then rest else p @ 10 # rest"
  let ?s2 = "?s1\<lparr>lg_sh := (lg_sh ?s1)\<lparr>sh_in := ?tl\<rparr>\<rparr>"
  have g: "login_gets MAXUSERLEN ?s1 = Some (n, ?s2)"
    by (rule login_gets_line [OF assms(8)]) (simp add: lsay_def say_def assms(10) typed_def)
  have h: "gethostname e s = Some (g_hbuf e, s)" using assms(6) by (simp add: gethostname_def)
  have io: "same_but_io s ?s2" by (simp add: same_but_io_def lsay_def say_def)
  show ?thesis
  proof (cases "open_entry es n")
    case True
    then have "login_attempt e s = Some (Some (info_of es n), ?s2)"
      using r(2) by (simp add: login_attempt_def h assms(7) g r(1))
    with True io show ?thesis by (simp add: accepts_def)
  next
    case False
    let ?s2 = "?s1\<lparr>lg_sh := (lg_sh ?s1)\<lparr>sh_in := p @ 10 # rest\<rparr>\<rparr>"
    have g: "login_gets MAXUSERLEN ?s1 = Some (n, ?s2)" and io: "same_but_io s ?s2" using g io False by simp_all
    have "sh_in (lg_sh ?s2) = p @ 10 # rest" by simp
    from ask_password_line [OF assms(9) this assms(5), of n] obtain s3 where
      s3: "ask_password e n ?s2 = Some (p, s3)" "same_but_io ?s2 s3" "sh_in (lg_sh s3) = rest" by blast
    have "login_attempt e s = Option.bind (ask_password e n ?s2) (\<lambda>(psw, s3).
        Option.bind (chkcred (g_passwd e) (g_shadow e) (g_stack e) n psw (info_of es n)) (\<lambda>(r, i).
          if r = 0 then Some (None, lsay [Text (nl @ ''login incorrect'' @ nl)] s3) else Some (Some i, s3)))"
      by (simp only: login_attempt_def h assms(7) g r(1) r(2) False if_False bind.bind_lunit prod.case)
    then have "login_attempt e s = (if passes (g_stack e) ss n p then Some (Some (info_of es n), s3)
        else Some (None, lsay [Text (nl @ ''login incorrect'' @ nl)] s3))"
      unfolding s3(1) assms(4) by (simp add: chkcred_info [OF assms(2) r(3)])
    moreover have "same_but_io s s3" using io s3(2) by (simp add: same_but_io_def)
    ultimately show ?thesis using False s3(3) by (auto simp: accepts_def same_but_io_def lsay_def say_def)
  qed
qed

section \<open>The loop\<close>

lemma call_io: "call f t = Some (r, t') \<Longrightarrow> sh_in t' = sh_in t"
  by (auto simp: call_def split: option.splits outcome.splits)

lemma gethostname_frame:
  "gethostname e s = Some (h, s0) \<Longrightarrow> sh_in (lg_sh s0) = sh_in (lg_sh s) \<and> lg_tty s0 = lg_tty s \<and> lg_name s0 = lg_name s"
  by (auto simp: gethostname_def bind_eq_Some_conv say_error_def say_def set_mem_def dest!: call_io split: if_splits)

lemma login_attempt_hostname:
  "gethostname e s = Some (g_hbuf e, s0) \<Longrightarrow> lg_evoked s0 \<Longrightarrow> login_attempt e s = login_attempt e s0"
  by (simp add: login_attempt_def gethostname_def)

lemma login_loop_typed:
  assumes "\<forall>x\<in>set es. e_ok x" "\<forall>x\<in>set ss. s_ok x" "g_passwd e = FBytes (pw_render es)" "g_shadow e = FBytes (sw_render ss)"
    and "\<And>t. termios (g_upd e t) = termios t" "lg_evoked s" "str_arg (smem (lg_sh s)) (g_hbuf e) = Some h"
    and "\<forall>(n, p)\<in>set tries. line_ok n \<and> line_ok p \<and> \<not> accepts (g_stack e) es ss (n, p)"
    and "sh_in (lg_sh s) = concat (map (typed es) tries) @ rest"
  shows "\<exists>s'. login_loop e s = login_loop e s' \<and> same_but_io s s' \<and> sh_in (lg_sh s') = rest"
  using assms(6-9)
proof (induction tries arbitrary: s)
  case Nil
  then show ?case by (intro exI [of _ s]) (simp add: same_but_io_def)
next
  case (Cons np tries)
  obtain n p where np: "np = (n, p)" by (cases np)
  let ?tl = "concat (map (typed es) tries) @ rest"
  have "sh_in (lg_sh s) = typed es (n, p) @ ?tl" using Cons.prems(4) np by simp
  moreover have "line_ok n" "line_ok p" "\<not> accepts (g_stack e) es ss (n, p)" using Cons.prems(3) np by auto
  ultimately obtain s1 where s1: "login_attempt e s = Some (None, s1)" "same_but_io s s1" "sh_in (lg_sh s1) = ?tl"
    using login_attempt_typed [OF assms(1-5) Cons.prems(1,2), of n p ?tl] by auto
  have "login_loop e s = login_loop e s1" by (subst login_loop.simps) (simp add: s1(1))
  moreover have "lg_evoked s1" "smem (lg_sh s1) = smem (lg_sh s)" using s1(2) Cons.prems(1) by (simp_all add: same_but_io_def)
  with Cons.IH [of s1] Cons.prems s1(3) obtain s2 where
    "login_loop e s1 = login_loop e s2" "same_but_io s1 s2" "sh_in (lg_sh s2) = rest" by auto
  ultimately show ?case using s1(2) by (auto simp: same_but_io_def)
qed


definition demo_env :: "sysenv \<Rightarrow> logenv" where
  "demo_env sys = \<lparr>g_sys = sys, g_passwd = FBytes (pw_render [root_ent]),
     g_shadow = FBytes (sw_render [\<lparr>s_name = [114], s_seed = [48], s_hash = [48]\<rparr>]), g_etc = 1, g_slash = 2, g_hbuf = 100,
     g_home = 200, g_upd = (\<lambda>t. t), g_stack = (\<lambda>_. 0)\<rparr>"

text \<open>User \<^verbatim>\<open>b\<close> does not exist; \<^verbatim>\<open>r\<close> then enters with the empty password.\<close>

definition demo_login :: "shell \<Rightarrow> login_state" where
  "demo_login sh = \<lparr>lg_sh = set_mem (\<lambda>_. 0) sh\<lparr>sh_in := [98, 10, 97, 10, 114, 10, 10, 108]\<rparr>, lg_tty = None, lg_name = [],
     lg_evoked = True\<rparr>"

lemma demo_files:
  "\<forall>x\<in>set [root_ent]. e_ok x" "\<forall>x\<in>set [\<lparr>s_name = [114], s_seed = [48], s_hash = [48]\<rparr> :: swent]. s_ok x"
  by (simp_all add: e_ok_def s_ok_def root_ent_def e_fields_def field_ok_def num_ok_def isdigit_iff dec_val_def dec_step_def
    NL_def COLON_def)

lemma demo_accepts:
  "\<not> accepts (\<lambda>_. 0) [root_ent] [\<lparr>s_name = [114], s_seed = [48], s_hash = [48]\<rparr>] ([98], [97])"
  "accepts (\<lambda>_. 0) [root_ent] [\<lparr>s_name = [114], s_seed = [48], s_hash = [48]\<rparr>] ([114], [])"
proof -
  show "\<not> accepts (\<lambda>_. 0) [root_ent] [\<lparr>s_name = [114], s_seed = [48], s_hash = [48]\<rparr>] ([98], [97])"
    by (simp add: accepts_def passes_def open_entry_def root_ent_def)
  have "hash_str (\<lambda>_. 0) [] 0 = 0" by (simp add: hash_str_def murmur3_def murmur_scramble_def Let_def)
  then show "accepts (\<lambda>_. 0) [root_ent] [\<lparr>s_name = [114], s_seed = [48], s_hash = [48]\<rparr>] ([114], [])"
    by (simp add: accepts_def passes_def dec_val_def dec_step_def)
qed


end
