(* ===== verification/Drv_Pci.thy ===== *)
theory Drv_Pci
  imports Cpu_Io
begin

text \<open>
  The PCI bus (\<^verbatim>\<open>driver/pci.c\<close>, with the stub \<^verbatim>\<open>driver/virtio.c\<close>): configuration accesses through the two ports of the
  host bridge, and the enumeration of the functions of a bus.  The list of devices is the list that
  \<open>Lib_List\<close> implements; the nodes come from the heap, whose failure is not tested by the code and not
  modelled here.  \<^const>\<open>None\<close> is an access outside an array or a scan that does not end.
\<close>

section \<open>Configuration accesses\<close>

definition PCI_CFG_ADDR :: u16 where "PCI_CFG_ADDR = 0xCF8"
definition PCI_CFG_DATA :: u16 where "PCI_CFG_DATA = 0xCFC"

definition pci_addr :: "u32 \<Rightarrow> u32 \<Rightarrow> u32 \<Rightarrow> u8 \<Rightarrow> u32" where
  "pci_addr bus slot func off =
     push_bit 16 bus OR push_bit 11 slot OR push_bit 8 func OR (ucast off AND 0xFC) OR 0x80000000"

definition pci_readl :: "'h ports \<Rightarrow> u32 \<Rightarrow> u32 \<Rightarrow> u32 \<Rightarrow> u8 \<Rightarrow> ('h, u32) state" where
  "pci_readl p bus slot func off = do { outl p PCI_CFG_ADDR (pci_addr bus slot func off); inl p PCI_CFG_DATA }"

definition pci_readw :: "'h ports \<Rightarrow> u32 \<Rightarrow> u32 \<Rightarrow> u32 \<Rightarrow> u8 \<Rightarrow> ('h, u16) state" where
  "pci_readw p bus slot func off = do {
     outl p PCI_CFG_ADDR (pci_addr bus slot func off);
     v \<leftarrow> inl p PCI_CFG_DATA;
     State_Monad.return (ucast (drop_bit (unat (off AND 2) * 8) v AND 0xffff)) }"

definition pci_readb :: "'h ports \<Rightarrow> u32 \<Rightarrow> u32 \<Rightarrow> u32 \<Rightarrow> u8 \<Rightarrow> ('h, u8) state" where
  "pci_readb p bus slot func off = do {
     v \<leftarrow> pci_readl p bus slot func (off AND NOT 3);
     State_Monad.return (ucast (drop_bit (unat (off AND 3) * 8) v AND 0xff)) }"

definition pci_writel :: "'h ports \<Rightarrow> u32 \<Rightarrow> u32 \<Rightarrow> u32 \<Rightarrow> u32 \<Rightarrow> u32 \<Rightarrow> ('h, unit) state" where
  "pci_writel p bus slot func off d = do { outl p PCI_CFG_ADDR (pci_addr bus slot func (ucast off)); outl p PCI_CFG_DATA d }"

text \<open>The mask selects the bytes to be written, and is not complemented.\<close>

definition pci_writew :: "'h ports \<Rightarrow> u32 \<Rightarrow> u32 \<Rightarrow> u32 \<Rightarrow> u32 \<Rightarrow> u16 \<Rightarrow> ('h, unit) state" where
  "pci_writew p bus slot func off d = do {
     v \<leftarrow> pci_readl p bus slot func (ucast (off AND NOT 3));
     let shift = unat (off AND 2) * 8 in
     pci_writel p bus slot func (off AND NOT 3) (v AND push_bit shift 0xffff OR push_bit shift (ucast d)) }"

definition pci_writeb :: "'h ports \<Rightarrow> u32 \<Rightarrow> u32 \<Rightarrow> u32 \<Rightarrow> u32 \<Rightarrow> u8 \<Rightarrow> ('h, unit) state" where
  "pci_writeb p bus slot func off d = do {
     v \<leftarrow> pci_readl p bus slot func (ucast (off AND NOT 3));
     let shift = unat (off AND 3) * 8 in
     pci_writel p bus slot func (off AND NOT 3) (v AND push_bit shift 0xff OR push_bit shift (ucast d)) }"

definition rdvendor :: "'h ports \<Rightarrow> u32 \<Rightarrow> u32 \<Rightarrow> ('h, u16) state" where
  "rdvendor p bus slot = do { v \<leftarrow> pci_readl p bus slot 0 0; State_Monad.return (ucast (v AND 0xffff)) }"

definition get_class :: "'h ports \<Rightarrow> u32 \<Rightarrow> u32 \<Rightarrow> ('h, u32) state" where
  "get_class p bus slot = do { v \<leftarrow> pci_readl p bus slot 0 0x8; State_Monad.return (drop_bit 16 v) }"

definition setbit_cmd :: "'h ports \<Rightarrow> u8 \<Rightarrow> u32 \<Rightarrow> u32 \<Rightarrow> ('h, unit) state" where
  "setbit_cmd p b bus slot = do {
     let k = (if 16 \<le> b then 15 else b);
     tmp \<leftarrow> pci_readl p bus slot 0 0x04;
     pci_writel p bus slot 0 0x04 (tmp OR push_bit (unat k) 1) }"

section \<open>Headers\<close>

text \<open>A header is its sixteen words.\<close>

type_synonym pci_hdr = "u32 list"

fun readall_from :: "'h ports \<Rightarrow> u32 \<Rightarrow> u32 \<Rightarrow> u32 \<Rightarrow> nat \<Rightarrow> nat \<Rightarrow> ('h, pci_hdr) state" where
  "readall_from p bus dev func i 0 = State_Monad.return []"
| "readall_from p bus dev func i (Suc n) = do {
     v \<leftarrow> pci_readl p bus dev func (of_nat (i * 4));
     vs \<leftarrow> readall_from p bus dev func (i + 1) n;
     State_Monad.return (v # vs) }"

definition pci_readall :: "'h ports \<Rightarrow> u32 \<Rightarrow> u32 \<Rightarrow> u32 \<Rightarrow> ('h, pci_hdr) state" where
  "pci_readall p bus dev func = readall_from p bus dev func 0 16"

definition vendid :: "pci_hdr \<Rightarrow> u16" where "vendid h = ucast (h ! 0)"
definition devid :: "pci_hdr \<Rightarrow> u16" where "devid h = ucast (drop_bit 16 (h ! 0))"
definition sub_class :: "pci_hdr \<Rightarrow> u8" where "sub_class h = ucast (drop_bit 16 (h ! 2))"
definition clas :: "pci_hdr \<Rightarrow> u8" where "clas h = ucast (drop_bit 24 (h ! 2))"
definition capptr :: "pci_hdr \<Rightarrow> u8" where "capptr h = ucast (h ! 13)"
definition bar :: "pci_hdr \<Rightarrow> nat \<Rightarrow> u32 option" where "bar h i = (if i < 6 then Some (h ! (4 + i)) else None)"
definition ss_busnum :: "pci_hdr \<Rightarrow> u8" where "ss_busnum h = ucast (drop_bit 16 (h ! 6))"

definition classcode :: "u8 \<Rightarrow> string" where
  "classcode c =
     (if unat c < 18 then
       [''unclassified'', ''mass controller'', ''network controler'', ''disp controller'', ''mult controller'', ''mem controller'',
        ''bridge'', ''simplecomms controller'', ''base sys prp'', ''input dev controller'', ''dock station'', ''proc'',
        ''serialbus controll'', ''wireless controller'', ''intel conroller'', ''sat comms cont'', ''enc cont'',
        ''signal process cont''] ! unat c
      else ''idk'')"

text \<open>\<^verbatim>\<open>init_virtio_blk\<close>: whether it accepts the device.\<close>

definition init_virtio_blk :: "pci_hdr \<Rightarrow> bool" where
  "init_virtio_blk h \<longleftrightarrow> \<not> (vendid h \<noteq> 0x1af4 \<or> devid h \<noteq> 0x1001)"

section \<open>Enumeration\<close>

record pcidev =
  d_hdr :: pci_hdr
  d_id :: u32
  d_loc :: u32
  d_func :: u8
  d_entries :: u32

text \<open>The walk over the capabilities, which notes the table of an MSI-X capability.\<close>

partial_function (option) pci_caps :: "'h ports \<Rightarrow> u32 \<Rightarrow> u32 \<Rightarrow> u32 \<Rightarrow> pci_hdr \<Rightarrow> u8 \<Rightarrow> u32 \<Rightarrow> 'h \<Rightarrow> (u32 \<times> 'h) option" where
  "pci_caps p bus dev func hh cap entries s =
     (if cap = 0 then Some (entries, s)
      else
        let (cap_id, s1) = run_state (pci_readb p bus dev func cap) s;
            (nxt, s2) = run_state (pci_readb p bus dev func (cap + 1)) s1
        in if cap_id = 0x11 then
             let (table, s3) = run_state (pci_readl p bus dev func (cap + 4)) s2
             in (case bar hh (unat (table AND 7)) of
                   None \<Rightarrow> None
                 | Some b \<Rightarrow> pci_caps p bus dev func hh nxt (b + (table AND NOT 7)) s3)
           else pci_caps p bus dev func hh nxt entries s2)"

text \<open>One function that answered with \<open>idw\<close>: the device, its header type, and the hardware.\<close>

definition pci_found :: "'h ports \<Rightarrow> u32 \<Rightarrow> u32 \<Rightarrow> u32 \<Rightarrow> u32 \<Rightarrow> 'h \<Rightarrow> (pcidev \<times> u8 \<times> 'h) option" where
  "pci_found p bus dev func idw s =
     (let (hh, s1) = run_state (pci_readall p bus dev 0) s in
      Option.bind (if capptr hh AND 0x10 \<noteq> 0
                   then let (cap, s2) = run_state (pci_readb p bus dev func 0x34) s1 in pci_caps p bus dev func hh cap 0 s2
                   else Some (0, s1))
        (\<lambda>(entries, s3).
          let (k, s4) = run_state (pci_readl p bus dev func 0xc) s3
          in Some (\<lparr>d_hdr = hh, d_id = idw, d_loc = push_bit 16 bus OR dev, d_func = ucast func, d_entries = entries\<rparr>,
                   ucast (drop_bit 16 k), s4)))"

text \<open>The two loops, from device \<open>dev\<close> and function \<open>func\<close> on; a bridge restarts them on the last bus behind it.\<close>

partial_function (option) pci_scan :: "'h ports \<Rightarrow> u32 \<Rightarrow> nat \<Rightarrow> nat \<Rightarrow> pcidev list \<Rightarrow> 'h \<Rightarrow> (pcidev list \<times> 'h) option" where
  "pci_scan p bus dev func devs s =
     (if 32 \<le> dev then Some (devs, s)
      else if 8 \<le> func then pci_scan p bus (dev + 1) 0 devs s
      else
        let (idw, s1) = run_state (pci_readl p bus (of_nat dev) (of_nat func) 0) s
        in if idw = 0xffffffff then pci_scan p bus dev (func + 1) devs s1
           else Option.bind (pci_found p bus (of_nat dev) (of_nat func) idw s1) (\<lambda>x.
             if fst (snd x) AND 0x7f = 1 then
               let (a, s3) = run_state (pci_readall p bus (of_nat dev) (of_nat func)) (snd (snd x))
               in pci_scan p (ucast (ss_busnum a)) 0 0 (fst x # devs) s3
             else if func = 0 \<and> fst (snd x) AND 0x80 = 0 then pci_scan p bus (dev + 1) 0 (fst x # devs) (snd (snd x))
             else pci_scan p bus dev (func + 1) (fst x # devs) (snd (snd x))))"

definition pci_init :: "'h ports \<Rightarrow> 'h \<Rightarrow> (pcidev list \<times> 'h) option" where
  "pci_init p s = pci_scan p 0 0 0 [] s"

section \<open>The host bridge\<close>

text \<open>The law of configuration mechanism 1: a write to the first port selects a register, the second port
  reads and writes the register that is selected.\<close>

definition pci_host :: "'h ports \<Rightarrow> ('h \<Rightarrow> u32) \<Rightarrow> ('h \<Rightarrow> u32 \<Rightarrow> u32) \<Rightarrow> bool" where
  "pci_host p adr cfg \<longleftrightarrow>
     (\<forall>s a. adr (p_outl p PCI_CFG_ADDR a s) = a \<and> cfg (p_outl p PCI_CFG_ADDR a s) = cfg s) \<and>
     (\<forall>s. \<exists>s'. p_inl p PCI_CFG_DATA s = (cfg s (adr s), s') \<and> adr s' = adr s \<and> cfg s' = cfg s) \<and>
     (\<forall>s v. adr (p_outl p PCI_CFG_DATA v s) = adr s \<and> cfg (p_outl p PCI_CFG_DATA v s) = (cfg s)(adr s := v))"

lemma readl_view:
  assumes "pci_host p adr cfg"
  shows "\<exists>s'. run_state (pci_readl p bus slot func off) s = (cfg s (pci_addr bus slot func off), s') \<and> cfg s' = cfg s"
proof -
  let ?s = "p_outl p PCI_CFG_ADDR (pci_addr bus slot func off) s"
  have "adr ?s = pci_addr bus slot func off" "cfg ?s = cfg s" using assms by (simp_all add: pci_host_def)
  moreover obtain s' where "p_inl p PCI_CFG_DATA ?s = (cfg ?s (adr ?s), s')" "cfg s' = cfg ?s" using assms by (metis pci_host_def)
  ultimately show ?thesis by (simp add: pci_readl_def run_simps)
qed

lemma writel_view:
  assumes "pci_host p adr cfg"
  shows "cfg (snd (run_state (pci_writel p bus slot func off v) s)) = (cfg s)(pci_addr bus slot func (ucast off) := v)"
  using assms by (simp add: pci_writel_def run_simps pci_host_def)

definition cfg_byte :: "(u32 \<Rightarrow> u32) \<Rightarrow> u32 \<Rightarrow> u32 \<Rightarrow> u32 \<Rightarrow> u8 \<Rightarrow> u8" where
  "cfg_byte C bus dev func off = ucast (drop_bit (unat (off AND 3) * 8) (C (pci_addr bus dev func off)))"

lemma pci_addr_align: "pci_addr bus dev func (off AND - 4) = pci_addr bus dev func off"
proof -
  have "(ucast (off AND NOT 3) :: u32) AND 0xFC = ucast off AND 0xFC"
  proof (rule bit_word_eqI)
    fix n assume "n < LENGTH(32)"
    have "bit (0xFC :: u32) n \<Longrightarrow> \<not> bit (3 :: u8) n \<and> n < 8"
      by (auto simp: bit_numeral_rec bit_1_iff split: nat.splits)
    then show "bit ((ucast (off AND NOT 3) :: u32) AND 0xFC) n = bit ((ucast off :: u32) AND 0xFC) n"
      unfolding bit_and_iff bit_ucast_iff bit_not_iff by auto
  qed
  then show ?thesis by (simp add: pci_addr_def)
qed

lemma readb_view:
  assumes "pci_host p adr cfg"
  shows "\<exists>s'. run_state (pci_readb p bus dev func off) s = (cfg_byte (cfg s) bus dev func off, s') \<and> cfg s' = cfg s"
proof -
  obtain s' where "run_state (pci_readl p bus dev func (off AND - 4)) s = (cfg s (pci_addr bus dev func off), s')" "cfg s' = cfg s"
    using readl_view [OF assms, of bus dev func "off AND - 4" s] by (auto simp: pci_addr_align)
  moreover have "ucast (v AND 0xff :: u32) = (ucast v :: u8)" for v
    by (rule bit_word_eqI) (auto simp: bit_ucast_iff bit_and_iff bit_numeral_rec dest: bit_imp_le_length split: nat.splits)
  ultimately show ?thesis by (simp add: pci_readb_def run_simps cfg_byte_def)
qed

definition cfg_hdr :: "(u32 \<Rightarrow> u32) \<Rightarrow> u32 \<Rightarrow> u32 \<Rightarrow> u32 \<Rightarrow> pci_hdr" where
  "cfg_hdr C bus dev func = map (\<lambda>i. C (pci_addr bus dev func (of_nat (i * 4)))) [0..<16]"

lemma readall_from_view:
  assumes "pci_host p adr cfg"
  shows "\<exists>s'. run_state (readall_from p bus dev func i n) s =
    (map (\<lambda>i. cfg s (pci_addr bus dev func (of_nat (i * 4)))) [i..<i + n], s') \<and> cfg s' = cfg s"
proof (induction n arbitrary: i s)
  case (Suc n)
  obtain s1 where s1: "run_state (pci_readl p bus dev func (of_nat (i * 4))) s = (cfg s (pci_addr bus dev func (of_nat (i * 4))), s1)" "cfg s1 = cfg s"
    using readl_view [OF assms] by blast
  moreover obtain s2 where "run_state (readall_from p bus dev func (i + 1) n) s1 =
      (map (\<lambda>i. cfg s (pci_addr bus dev func (of_nat (i * 4)))) [i + 1..<i + 1 + n], s2)" "cfg s2 = cfg s"
    using Suc [of "i + 1" s1] s1(2) by auto
  ultimately show ?case by (simp add: run_simps upt_conv_Cons del: upt_Suc)
qed (simp add: run_simps)

lemma readall_view:
  assumes "pci_host p adr cfg"
  shows "\<exists>s'. run_state (pci_readall p bus dev func) s = (cfg_hdr (cfg s) bus dev func, s') \<and> cfg s' = cfg s"
  using readall_from_view [OF assms, of bus dev func 0 16 s] by (simp add: pci_readall_def cfg_hdr_def)

section \<open>What is on a bus\<close>

text \<open>The offsets of the capabilities in order, the last one with a null link.\<close>

fun cap_chain :: "(u8 \<Rightarrow> u8) \<Rightarrow> u8 \<Rightarrow> u8 list \<Rightarrow> bool" where
  "cap_chain B c [] \<longleftrightarrow> c = 0"
| "cap_chain B c (x # xs) \<longleftrightarrow> c = x \<and> x \<noteq> 0 \<and> cap_chain B (B (x + 1)) xs"

definition msix_table :: "(u32 \<Rightarrow> u32) \<Rightarrow> u32 \<Rightarrow> u32 \<Rightarrow> u32 \<Rightarrow> u8 \<Rightarrow> u32 option" where
  "msix_table C bus dev func x =
     (let t = C (pci_addr bus dev func (x + 4)) in map_option (\<lambda>b. b + (t AND NOT 7)) (bar (cfg_hdr C bus dev 0) (unat (t AND 7))))"

definition msix_entries :: "(u32 \<Rightarrow> u32) \<Rightarrow> u32 \<Rightarrow> u32 \<Rightarrow> u32 \<Rightarrow> u8 list \<Rightarrow> u32 \<Rightarrow> u32" where
  "msix_entries C bus dev func xs e =
     fold (\<lambda>x e. if cfg_byte C bus dev func x = 0x11 then the (msix_table C bus dev func x) else e) xs e"

definition caps_ok :: "(u32 \<Rightarrow> u32) \<Rightarrow> u32 \<Rightarrow> u32 \<Rightarrow> u32 \<Rightarrow> u8 list \<Rightarrow> bool" where
  "caps_ok C bus dev func xs \<longleftrightarrow> cap_chain (cfg_byte C bus dev func) (cfg_byte C bus dev func 0x34) xs \<and>
     list_all (\<lambda>x. cfg_byte C bus dev func x = 0x11 \<longrightarrow> msix_table C bus dev func x \<noteq> None) xs"

lemma pci_caps_chain:
  assumes "pci_host p adr cfg"
  shows "cap_chain (cfg_byte (cfg s) bus dev func) c xs \<Longrightarrow>
    list_all (\<lambda>x. cfg_byte (cfg s) bus dev func x = 0x11 \<longrightarrow> msix_table (cfg s) bus dev func x \<noteq> None) xs \<Longrightarrow>
    \<exists>s'. pci_caps p bus dev func (cfg_hdr (cfg s) bus dev 0) c e s = Some (msix_entries (cfg s) bus dev func xs e, s') \<and> cfg s' = cfg s"
proof (induction xs arbitrary: c e s)
  case Nil
  then show ?case by (subst pci_caps.simps) (simp add: msix_entries_def)
next
  case (Cons x xs)
  have c: "c = x" "x \<noteq> 0" "cap_chain (cfg_byte (cfg s) bus dev func) (cfg_byte (cfg s) bus dev func (x + 1)) xs" using Cons.prems(1) by auto
  obtain s1 where s1: "run_state (pci_readb p bus dev func x) s = (cfg_byte (cfg s) bus dev func x, s1)" "cfg s1 = cfg s"
    using readb_view [OF assms] by blast
  obtain s2 where s2: "run_state (pci_readb p bus dev func (x + 1)) s1 = (cfg_byte (cfg s) bus dev func (x + 1), s2)" "cfg s2 = cfg s"
    using readb_view [OF assms, of bus dev func "x + 1" s1] s1(2) by auto
  obtain s3 where s3: "run_state (pci_readl p bus dev func (x + 4)) s2 = (cfg s (pci_addr bus dev func (x + 4)), s3)" "cfg s3 = cfg s"
    using readl_view [OF assms, of bus dev func "x + 4" s2] s2(2) by auto
  have r: "list_all (\<lambda>x. cfg_byte (cfg s) bus dev func x = 0x11 \<longrightarrow> msix_table (cfg s) bus dev func x \<noteq> None) xs" using Cons.prems(2) by simp
  note IH = Cons.IH [of s3] Cons.IH [of s2]
  show ?case
  proof (cases "cfg_byte (cfg s) bus dev func x = 0x11")
    case True
    let ?t = "cfg s (pci_addr bus dev func (x + 4))"
    obtain b where b: "bar (cfg_hdr (cfg s) bus dev 0) (unat (?t AND 7)) = Some b"
      using Cons.prems(2) True by (auto simp: msix_table_def Let_def)
    then have "the (msix_table (cfg s) bus dev func x) = b + (?t AND NOT 7)" by (simp add: msix_table_def Let_def)
    then show ?thesis using IH(1) [unfolded s3(2), OF c(3) r, of "b + (?t AND NOT 7)"] c s1 s2 s3 b True
      by (subst pci_caps.simps) (simp add: msix_entries_def)
  next
    case False
    then show ?thesis using IH(2) [unfolded s2(2), OF c(3) r, of e] c s1 s2
      by (subst pci_caps.simps) (simp add: msix_entries_def)
  qed
qed

text \<open>The device of a function, given the chain of its capabilities.\<close>

definition cfg_dev :: "(u32 \<Rightarrow> u32) \<Rightarrow> u32 \<Rightarrow> (nat \<Rightarrow> nat \<Rightarrow> u8 list) \<Rightarrow> nat \<Rightarrow> nat \<Rightarrow> pcidev" where
  "cfg_dev C bus ch dev func =
     \<lparr>d_hdr = cfg_hdr C bus (of_nat dev) 0, d_id = C (pci_addr bus (of_nat dev) (of_nat func) 0), d_loc = push_bit 16 bus OR of_nat dev,
      d_func = of_nat func,
      d_entries = (if capptr (cfg_hdr C bus (of_nat dev) 0) AND 0x10 \<noteq> 0
                   then msix_entries C bus (of_nat dev) (of_nat func) (ch dev func) 0 else 0)\<rparr>"

definition present :: "(u32 \<Rightarrow> u32) \<Rightarrow> u32 \<Rightarrow> nat \<Rightarrow> nat \<Rightarrow> bool" where
  "present C bus dev func \<longleftrightarrow> C (pci_addr bus (of_nat dev) (of_nat func) 0) \<noteq> 0xffffffff"

definition htype :: "(u32 \<Rightarrow> u32) \<Rightarrow> u32 \<Rightarrow> nat \<Rightarrow> nat \<Rightarrow> u8" where
  "htype C bus dev func = ucast (drop_bit 16 (C (pci_addr bus (of_nat dev) (of_nat func) 0xc)))"

lemma pci_found_view:
  assumes h: "pci_host p adr cfg" and ch: "capptr (cfg_hdr (cfg s) bus (of_nat dev) 0) AND 0x10 \<noteq> 0 \<longrightarrow>
      caps_ok (cfg s) bus (of_nat dev) (of_nat func) (ch dev func)"
  shows "\<exists>s'. pci_found p bus (of_nat dev) (of_nat func) (cfg s (pci_addr bus (of_nat dev) (of_nat func) 0)) s =
    Some (cfg_dev (cfg s) bus ch dev func, htype (cfg s) bus dev func, s') \<and> cfg s' = cfg s"
proof -
  let ?d = "of_nat dev :: u32" and ?f = "of_nat func :: u32"
  obtain s1 where s1: "run_state (pci_readall p bus ?d 0) s = (cfg_hdr (cfg s) bus ?d 0, s1)" "cfg s1 = cfg s"
    using readall_view [OF h] by blast
  obtain s2 where s2: "run_state (pci_readb p bus ?d ?f 0x34) s1 = (cfg_byte (cfg s) bus ?d ?f 0x34, s2)" "cfg s2 = cfg s"
    using readb_view [OF h, of bus ?d ?f "0x34" s1] s1(2) by auto
  have uc: "(ucast (of_nat func :: u32) :: u8) = of_nat func" by transfer simp
  have rest: ?thesis if "(if capptr (cfg_hdr (cfg s) bus ?d 0) AND 0x10 \<noteq> 0 then pci_caps p bus ?d ?f (cfg_hdr (cfg s) bus ?d 0) (cfg_byte (cfg s) bus ?d ?f 0x34) 0 s2
      else Some (0, s1)) = Some (d_entries (cfg_dev (cfg s) bus ch dev func), s3)" "cfg s3 = cfg s" for s3
    using that readl_view [OF h, of bus ?d ?f "0xc" s3] s1 s2 uc
    by (auto simp: pci_found_def cfg_dev_def htype_def split: if_splits)
  show ?thesis
  proof (cases "capptr (cfg_hdr (cfg s) bus ?d 0) AND 0x10 \<noteq> 0")
    case True
    then show ?thesis using pci_caps_chain [OF h, of s2 bus ?d ?f "cfg_byte (cfg s) bus ?d ?f 0x34" "ch dev func" 0] ch s2(2) rest
      by (auto simp: caps_ok_def cfg_dev_def)
  next
    case False
    then show ?thesis using rest [of s1] s1(2) by (simp add: cfg_dev_def)
  qed
qed

section \<open>The scan\<close>

text \<open>The functions of a device that are found, from number \<open>f\<close> on.\<close>

definition found :: "(u32 \<Rightarrow> u32) \<Rightarrow> u32 \<Rightarrow> nat \<Rightarrow> nat \<Rightarrow> nat list" where
  "found C bus dev f =
     (if f = 0 \<and> present C bus dev 0 \<and> htype C bus dev 0 AND 0x80 = 0 then [0] else filter (present C bus dev) [f..<8])"

definition on_bus :: "(u32 \<Rightarrow> u32) \<Rightarrow> u32 \<Rightarrow> (nat \<Rightarrow> nat \<Rightarrow> u8 list) \<Rightarrow> nat \<Rightarrow> nat \<Rightarrow> pcidev list" where
  "on_bus C bus ch dev f =
     (if dev < 32 then map (cfg_dev C bus ch dev) (found C bus dev f) else []) @
     concat (map (\<lambda>d. map (cfg_dev C bus ch d) (found C bus d 0)) [dev + 1..<32])"

lemma on_bus_next: "dev < 32 \<Longrightarrow> on_bus C bus ch dev f = map (cfg_dev C bus ch dev) (found C bus dev f) @ on_bus C bus ch (dev + 1) 0"
  by (cases "dev + 1 < 32") (auto simp: on_bus_def upt_conv_Cons simp del: upt_Suc)

lemma found_step:
  "f < 8 \<Longrightarrow> \<not> present C bus dev f \<Longrightarrow> found C bus dev f = found C bus dev (f + 1)"
  "f < 8 \<Longrightarrow> present C bus dev f \<Longrightarrow> \<not> (f = 0 \<and> htype C bus dev 0 AND 0x80 = 0) \<Longrightarrow> found C bus dev f = f # found C bus dev (f + 1)"
  by (auto simp: found_def upt_conv_Cons simp del: upt_Suc)

lemma pci_scan_bus:
  assumes h: "pci_host p adr cfg"
    and nb: "\<forall>d<32. \<forall>f<8. present C bus d f \<longrightarrow> htype C bus d f AND 0x7f \<noteq> 1"
    and ch: "\<forall>d<32. \<forall>f<8. present C bus d f \<and> capptr (cfg_hdr C bus (of_nat d) 0) AND 0x10 \<noteq> 0 \<longrightarrow> caps_ok C bus (of_nat d) (of_nat f) (ch d f)"
    and "cfg s = C" "func \<le> 8"
  shows "\<exists>s'. pci_scan p bus dev func devs s = Some (rev (on_bus C bus ch dev func) @ devs, s') \<and> cfg s' = C"
  using assms(4,5)
proof (induction "(32 - dev) * 9 + (8 - func)" arbitrary: dev func devs s rule: less_induct)
  case less
  show ?case
  proof (cases "32 \<le> dev")
    case True
    then show ?thesis using less.prems by (subst pci_scan.simps) (simp add: on_bus_def)
  next
    case d: False
    then have next_dev: "(32 - (dev + 1)) * 9 + (8 - 0) < (32 - dev) * 9 + (8 - func)" by simp
    show ?thesis
    proof (cases "8 \<le> func")
      case True
      then have "found C bus dev func = []" using less.prems(2) by (simp add: found_def)
      then show ?thesis using less.hyps [OF next_dev less.prems(1)] True d by (subst pci_scan.simps) (simp add: on_bus_next)
    next
      case f: False
      then have next_func: "(32 - dev) * 9 + (8 - (func + 1)) < (32 - dev) * 9 + (8 - func)" by simp
      let ?a = "pci_addr bus (of_nat dev) (of_nat func) 0"
      obtain s1 where s1: "run_state (pci_readl p bus (of_nat dev) (of_nat func) 0) s = (C ?a, s1)" "cfg s1 = C"
        using readl_view [OF h, of bus "of_nat dev" "of_nat func" 0 s] less.prems(1) by auto
      show ?thesis
      proof (cases "present C bus dev func")
        case False
        then have "C ?a = 0xffffffff" by (simp add: present_def)
        then show ?thesis using less.hyps [OF next_func s1(2)] f d s1(1) found_step(1) [of func C bus dev] False
          by (subst pci_scan.simps) (simp add: on_bus_next)
      next
        case pr: True
        then have id: "C ?a \<noteq> 0xffffffff" by (simp add: present_def)
        obtain s2 where s2: "pci_found p bus (of_nat dev) (of_nat func) (C ?a) s1 = Some (cfg_dev C bus ch dev func, htype C bus dev func, s2)" "cfg s2 = C"
          using pci_found_view [OF h, of s1 bus dev func ch] s1(2) ch d f pr by auto
        have br: "htype C bus dev func AND 0x7f \<noteq> 1" using nb d f pr by auto
        show ?thesis
        proof (cases "func = 0 \<and> htype C bus dev 0 AND 0x80 = 0")
          case True
          then have "found C bus dev func = [0]" using pr by (simp add: found_def)
          then show ?thesis using less.hyps [OF next_dev s2(2), of "cfg_dev C bus ch dev func # devs"] True d s1(1) id s2(1) br
            by (subst pci_scan.simps) (simp add: on_bus_next)
        next
          case False
          then show ?thesis using less.hyps [OF next_func s2(2), of "cfg_dev C bus ch dev func # devs"] f d s1(1) id s2(1) br
              found_step(2) [of func C bus dev] pr
            by (subst pci_scan.simps) (auto simp: on_bus_next)
        qed
      qed
    qed
  qed
qed

text \<open>A bridge ends the scan of its bus.\<close>

lemma pci_scan_bridge:
  assumes h: "pci_host p adr cfg" and "cfg s = C" "dev < 32" "func < 8" "present C bus dev func" "htype C bus dev func AND 0x7f = 1"
    and "capptr (cfg_hdr C bus (of_nat dev) 0) AND 0x10 = 0"
  shows "\<exists>s'. cfg s' = C \<and> pci_scan p bus dev func devs s =
    pci_scan p (ucast (ss_busnum (cfg_hdr C bus (of_nat dev) (of_nat func)))) 0 0 (cfg_dev C bus ch dev func # devs) s'"
proof -
  let ?a = "pci_addr bus (of_nat dev) (of_nat func) 0"
  obtain s1 where s1: "run_state (pci_readl p bus (of_nat dev) (of_nat func) 0) s = (C ?a, s1)" "cfg s1 = C"
    using readl_view [OF h, of bus "of_nat dev" "of_nat func" 0 s] assms(2) by auto
  obtain s2 where s2: "pci_found p bus (of_nat dev) (of_nat func) (C ?a) s1 = Some (cfg_dev C bus ch dev func, htype C bus dev func, s2)" "cfg s2 = C"
    using pci_found_view [OF h, of s1 bus dev func ch] s1(2) assms(7) by auto
  obtain s3 where s3: "run_state (pci_readall p bus (of_nat dev) (of_nat func)) s2 = (cfg_hdr C bus (of_nat dev) (of_nat func), s3)" "cfg s3 = C"
    using readall_view [OF h, of bus "of_nat dev" "of_nat func" s2] s2(2) by auto
  have "C ?a \<noteq> 0xffffffff" using assms(5) by (simp add: present_def)
  then show ?thesis using s1 s2 s3 assms(3,4,6) by (intro exI [of _ s3] conjI) (simp, subst pci_scan.simps, simp)
qed

text \<open>A narrow write keeps the bytes it should replace and clears the others.\<close>

lemma writew_view:
  assumes "pci_host p adr cfg"
  shows "cfg (snd (run_state (pci_writew p bus slot func 0 v) s)) =
    (cfg s)(pci_addr bus slot func 0 := cfg s (pci_addr bus slot func 0) AND 0xffff OR ucast v)"
proof -
  obtain s1 where "run_state (pci_readl p bus slot func 0) s = (cfg s (pci_addr bus slot func 0), s1)" "cfg s1 = cfg s"
    using readl_view [OF assms] by blast
  then show ?thesis using writel_view [OF assms, of bus slot func 0] by (simp add: pci_writew_def run_simps Let_def)
qed

section \<open>Properties\<close>


definition sim_host :: "(u32 \<times> (u32 \<Rightarrow> u32)) ports" where
  "sim_host = \<lparr>p_inb = (\<lambda>a s. (0, s)), p_inw = (\<lambda>a s. (0, s)), p_inl = (\<lambda>a s. (snd s (fst s), s)),
     p_outb = (\<lambda>a v s. s), p_outw = (\<lambda>a v s. s),
     p_outl = (\<lambda>a v s. if a = PCI_CFG_ADDR then (v, snd s) else (fst s, (snd s)(fst s := v)))\<rparr>"


end
