(* ===== verification/Drv_Serial.thy ===== *)
theory Drv_Serial
  imports Tty_Line Cpu_Irq Fs_Devfs
begin

text \<open>
  The serial line (\<^verbatim>\<open>driver/tty/serial.c\<close>, \<^verbatim>\<open>driver/tty/uart.h\<close>): the interrupt handler that feeds a terminal, the output of that
  terminal, the baud rate and the set-up.  The UART is given by its ports and the law \<open>uart_dev\<close>.
  \<^const>\<open>None\<close> is a fault: a division by zero or one of the line discipline.
\<close>

section \<open>Registers\<close>

definition COM1 :: u16 where "COM1 = 0x3f8"
definition UART_DIVLO :: u16 where "UART_DIVLO = 0x00"
definition UART_DIVHI :: u16 where "UART_DIVHI = 0x01"
definition UART_INT :: u16 where "UART_INT = 0x01"
definition UART_FCTRL :: u16 where "UART_FCTRL = 0x02"
definition UART_LCTRL :: u16 where "UART_LCTRL = 0x03"
definition UART_MCTRL :: u16 where "UART_MCTRL = 0x04"
definition UART_LSTAT :: u16 where "UART_LSTAT = 0x05"
definition LCTRL_DLAB :: u8 where "LCTRL_DLAB = 0x80"
definition DATAB8 :: u8 where "DATAB8 = 0x03"
definition INT_RXAVAIL :: u8 where "INT_RXAVAIL = 0x01"
definition FIFO_ENABLE :: u8 where "FIFO_ENABLE = 0x01"
definition FIFO_RXCLR :: u8 where "FIFO_RXCLR = 0x02"
definition FIFO_TXCLR :: u8 where "FIFO_TXCLR = 0x04"
definition ITLB1 :: u8 where "ITLB1 = 0x00"
definition M_DTR :: u8 where "M_DTR = 0x01"
definition M_RTS :: u8 where "M_RTS = 0x02"
definition M_OUT1 :: u8 where "M_OUT1 = 0x04"
definition M_OUT2 :: u8 where "M_OUT2 = 0x08"
definition M_LOOP :: u8 where "M_LOOP = 0x10"
definition L_DR :: u8 where "L_DR = 0x01"
definition UART_FREQ :: u32 where "UART_FREQ = 115200"
definition CS5 :: u32 where "CS5 = 0x00"
definition CS6 :: u32 where "CS6 = 0x10"

lemmas uart_ports = COM1_def UART_DIVLO_def UART_DIVHI_def UART_INT_def UART_FCTRL_def UART_LCTRL_def UART_MCTRL_def UART_LSTAT_def

section \<open>Data\<close>

definition uart_rxavail :: "'h ports \<Rightarrow> ('h, u8) state" where
  "uart_rxavail p = do { v \<leftarrow> inb p (COM1 + UART_LSTAT); State_Monad.return (v AND L_DR) }"

definition s_putchr :: "'h ports \<Rightarrow> u8 \<Rightarrow> ('h, unit) state" where
  "s_putchr p c = outb p COM1 c"

fun write_ttyserial :: "'h ports \<Rightarrow> u8 list \<Rightarrow> ('h, unit) state" where
  "write_ttyserial p [] = State_Monad.return ()"
| "write_ttyserial p (c # cs) = do { s_putchr p c; write_ttyserial p cs }"

text \<open>\<^verbatim>\<open>tty_inputc\<close> on the terminal of the line: what it writes to its device goes to the UART.\<close>

definition uart_inputc :: "'h ports \<Rightarrow> u8 \<Rightarrow> tty \<Rightarrow> 'h \<Rightarrow> (tty \<times> 'h) option" where
  "uart_inputc p c t h =
     map_option (\<lambda>t'. (t', snd (run_state (write_ttyserial p (drop (length (tty_dev t)) (tty_dev t'))) h))) (tty_inputc c t)"

partial_function (option) serial_loop :: "'h ports \<Rightarrow> tty \<Rightarrow> 'h \<Rightarrow> (tty \<times> 'h) option" where
  "serial_loop p t h =
     (let (a, h1) = run_state (uart_rxavail p) h in
      if a \<noteq> 0 then
        let (c, h2) = run_state (inb p COM1) h1 in
        Option.bind (uart_inputc p c t h2) (\<lambda>x. serial_loop p (fst x) (snd x))
      else Some (t, h1))"

definition serial_isr :: "'h ports \<Rightarrow> ('h \<Rightarrow> 'h) \<Rightarrow> tty \<Rightarrow> 'h \<Rightarrow> (tty \<times> 'h) option" where
  "serial_isr p eoi t h = map_option (\<lambda>(t', h'). (t', eoi h')) (serial_loop p t h)"

section \<open>Set-up\<close>

definition update_serial :: "'h ports \<Rightarrow> tty \<Rightarrow> ('h, unit) state" where
  "update_serial p t = do {
     let f = c_cflag (termios t) AND CSIZE;
     let k = (if f = CS5 then 0 else if f = CS6 then 1 else if f = CS7 then 2 else if f = CS8 then 3 else ucast f :: u8);
     n \<leftarrow> inb p (COM1 + UART_LCTRL);
     outb p (COM1 + UART_LCTRL) ((n AND NOT 3) OR k) }"

text \<open>The divisor, and the registers; a divisor of zero divides by zero.\<close>

definition baud_div :: "u32 \<Rightarrow> u32 option" where
  "baud_div freq =
     (if freq = 0 then None
      else let d = UART_FREQ div freq; d' = (if d > 0xffff then 0xffff else d)
           in if d' = 0 then None else Some d')"

definition set_divisor :: "'h ports \<Rightarrow> u32 \<Rightarrow> ('h, unit) state" where
  "set_divisor p d = do {
     ints \<leftarrow> inb p (COM1 + UART_INT);
     outb p (COM1 + UART_INT) 0x00;
     l \<leftarrow> inb p (COM1 + UART_LCTRL);
     outb p (COM1 + UART_LCTRL) 0x80;
     outb p (COM1 + UART_DIVLO) (ucast (d AND 0xff));
     outb p (COM1 + UART_DIVHI) (ucast (drop_bit 8 d AND 0xff));
     outb p (COM1 + UART_LCTRL) (l AND NOT LCTRL_DLAB);
     outb p (COM1 + UART_INT) ints }"

text \<open>\<^verbatim>\<open>set_baud\<close>: the value of \<^verbatim>\<open>sfreq\<close> and the hardware.\<close>

definition set_baud :: "'h ports \<Rightarrow> u32 \<Rightarrow> 'h \<Rightarrow> (u32 \<times> 'h) option" where
  "set_baud p freq h = map_option (\<lambda>d. (UART_FREQ div d, snd (run_state (set_divisor p d) h))) (baud_div freq)"

text \<open>\<^verbatim>\<open>init_serial\<close> with its loop-back test; 1 when the test fails.\<close>

definition serial_probe :: "'h ports \<Rightarrow> ('h, bool) state" where
  "serial_probe p = do {
     outb p (COM1 + UART_LCTRL) DATAB8;
     outb p (COM1 + UART_FCTRL) (ITLB1 OR FIFO_ENABLE OR FIFO_RXCLR OR FIFO_TXCLR);
     outb p (COM1 + UART_MCTRL) (M_OUT2 OR M_DTR OR M_RTS);
     outb p (COM1 + UART_MCTRL) (M_LOOP OR M_OUT1 OR M_DTR OR M_RTS);
     outb p COM1 0xAE;
     v \<leftarrow> inb p COM1;
     State_Monad.return (v = 0xAE) }"

definition init_serial :: "'h ports \<Rightarrow> 'h mmio \<Rightarrow> isr_hand \<Rightarrow> u32 \<Rightarrow> irqs \<times> 'h \<Rightarrow> (u32 \<times> irqs \<times> 'h) option" where
  "init_serial p mm isr freq kh =
     (let (k, h) = kh; h1 = p_outb p (COM1 + UART_INT) 0x00 h in
      Option.bind (set_baud p freq h1) (\<lambda>(_, h2).
        let (ok, h3) = run_state (serial_probe p) h2 in
        if \<not> ok then Some (1, k, h3)
        else
          let h4 = p_outb p (COM1 + UART_INT) INT_RXAVAIL (p_outb p (COM1 + UART_MCTRL) (M_OUT2 OR M_DTR OR M_RTS) h3)
          in map_option (\<lambda>x. (0, x)) (register_irq mm isr 4 ''serial'' (k, h4))))"

text \<open>\<^verbatim>\<open>init_ttys0\<close>: the terminal and the device node; nothing in the kernel calls it.\<close>

definition init_ttys0 :: "addr \<Rightarrow> addr \<Rightarrow> addr \<Rightarrow> addr \<Rightarrow> devfs \<Rightarrow> (tty \<times> devfs) option" where
  "init_ttys0 sb fops nw dv d =
     map_option (\<lambda>d'. (alloc_tty True, d')) (creat_devfs sb fops nw (map of_char ''ttyS0'') dv 4 1 d)"

section \<open>The UART\<close>

text \<open>What software sees of the device: the bytes received and not yet read, the bytes sent, and the
  registers that share ports by the divisor latch bit of the line control register.\<close>

record uart =
  u_rx :: "u8 list"
  u_tx :: "u8 list"
  u_lcr :: u8
  u_ier :: u8
  u_dvl :: u8
  u_dvh :: u8

definition uart_dev :: "'h ports \<Rightarrow> ('h \<Rightarrow> uart) \<Rightarrow> bool" where
  "uart_dev p u \<longleftrightarrow>
     (\<forall>h. \<exists>v h'. p_inb p 0x3fd h = (v, h') \<and> u h' = u h \<and> (v AND 1 \<noteq> 0 \<longleftrightarrow> u_rx (u h) \<noteq> [])) \<and>
     (\<forall>h c cs. u_rx (u h) = c # cs \<and> \<not> bit (u_lcr (u h)) 7 \<longrightarrow> (\<exists>h'. p_inb p 0x3f8 h = (c, h') \<and> u h' = (u h)\<lparr>u_rx := cs\<rparr>)) \<and>
     (\<forall>h v. u (p_outb p 0x3f8 v h) = (if bit (u_lcr (u h)) 7 then (u h)\<lparr>u_dvl := v\<rparr> else (u h)\<lparr>u_tx := u_tx (u h) @ [v]\<rparr>)) \<and>
     (\<forall>h v. u (p_outb p 0x3f9 v h) = (if bit (u_lcr (u h)) 7 then (u h)\<lparr>u_dvh := v\<rparr> else (u h)\<lparr>u_ier := v\<rparr>)) \<and>
     (\<forall>h. \<exists>h'. p_inb p 0x3f9 h = (if bit (u_lcr (u h)) 7 then u_dvh (u h) else u_ier (u h), h') \<and> u h' = u h) \<and>
     (\<forall>h v. u (p_outb p 0x3fb v h) = (u h)\<lparr>u_lcr := v\<rparr>) \<and>
     (\<forall>h. \<exists>h'. p_inb p 0x3fb h = (u_lcr (u h), h') \<and> u h' = u h)"

lemma uart_in:
  assumes "uart_dev p u"
  shows "\<exists>v h'. p_inb p 0x3fd h = (v, h') \<and> u h' = u h \<and> (v AND 1 \<noteq> 0 \<longleftrightarrow> u_rx (u h) \<noteq> [])"
    and "u_rx (u h) = c # cs \<Longrightarrow> \<not> bit (u_lcr (u h)) 7 \<Longrightarrow> \<exists>h'. p_inb p 0x3f8 h = (c, h') \<and> u h' = (u h)\<lparr>u_rx := cs\<rparr>"
    and "\<exists>h'. p_inb p 0x3f9 h = (if bit (u_lcr (u h)) 7 then u_dvh (u h) else u_ier (u h), h') \<and> u h' = u h"
    and "\<exists>h'. p_inb p 0x3fb h = (u_lcr (u h), h') \<and> u h' = u h"
  using assms unfolding uart_dev_def by blast+

lemma uart_out:
  assumes "uart_dev p u"
  shows "u (p_outb p 0x3f8 v h) = (if bit (u_lcr (u h)) 7 then (u h)\<lparr>u_dvl := v\<rparr> else (u h)\<lparr>u_tx := u_tx (u h) @ [v]\<rparr>)"
    and "u (p_outb p 0x3f9 v h) = (if bit (u_lcr (u h)) 7 then (u h)\<lparr>u_dvh := v\<rparr> else (u h)\<lparr>u_ier := v\<rparr>)"
    and "u (p_outb p 0x3fb v h) = (u h)\<lparr>u_lcr := v\<rparr>"
  using assms unfolding uart_dev_def by blast+

lemma write_ttyserial_sends:
  assumes "uart_dev p u" "\<not> bit (u_lcr (u h)) 7"
  shows "u (snd (run_state (write_ttyserial p cs) h)) = (u h)\<lparr>u_tx := u_tx (u h) @ cs\<rparr>"
  using assms(2)
proof (induction cs arbitrary: h)
  case (Cons c cs)
  have "u (p_outb p COM1 c h) = (u h)\<lparr>u_tx := u_tx (u h) @ [c]\<rparr>"
    using assms(1) Cons.prems by (simp add: uart_dev_def COM1_def)
  then show ?case using Cons.IH [of "p_outb p COM1 c h"] Cons.prems by (simp add: run_simps s_putchr_def)
qed (simp add: run_simps)

lemma outputc_grows: "\<exists>bs. tty_dev (tty_outputc c t) = tty_dev t @ bs"
  by (simp add: tty_outputc_def ttydev_write_def Let_def)

lemma inputc_grows:
  assumes "tty_inputc c t = Some t'"
  shows "\<exists>bs. tty_dev t' = tty_dev t @ bs"
proof -
  have push: "tty_dev (canon_push c t) = tty_dev t" for c t by (simp add: canon_push_def)
  have pushes: "tty_dev (fold canon_push cs t) = tty_dev t" for cs t by (induction cs arbitrary: t) (simp_all add: push)
  have out: "\<exists>bs. tty_dev (tty_outputc c u) = tty_dev t @ bs" if "\<exists>bs. tty_dev u = tty_dev t @ bs" for c u
    using that outputc_grows [of c u] by auto
  have "\<exists>bs. tty_dev v = tty_dev t @ bs" if "canon_tty k t = Some v" for k v
    using that by (auto simp: canon_tty_def Let_def pushes intro!: out split: if_splits)
  then show ?thesis using assms by (auto simp: tty_inputc_def Let_def push intro!: out split: if_splits)
qed

lemma serial_loop_receives:
  assumes p: "uart_dev p u"
  shows "\<not> bit (u_lcr (u h)) 7 \<Longrightarrow> tty_ok t \<Longrightarrow> room_all t (u_rx (u h)) (cq t, ln t) \<Longrightarrow>
    \<exists>t' h' bs. serial_loop p t h = Some (t', h') \<and> tty_ok t' \<and> same_ctl t t' \<and> (cq t', ln t') = fold (ldisc t) (u_rx (u h)) (cq t, ln t) \<and>
      tty_dev t' = tty_dev t @ bs \<and> u h' = (u h)\<lparr>u_rx := [], u_tx := u_tx (u h) @ bs\<rparr>"
proof (induction "u_rx (u h)" arbitrary: h t)
  case Nil
  obtain v h1 where "p_inb p 0x3fd h = (v, h1)" "u h1 = u h" "v AND 1 = 0" using uart_in(1) [OF p, of h] Nil(1) by metis
  then show ?case using Nil by (subst serial_loop.simps) (simp add: uart_rxavail_def run_simps uart_ports L_DR_def same_ctl_def)
next
  case (Cons c cs)
  obtain v h1 where h1: "p_inb p 0x3fd h = (v, h1)" "u h1 = u h" "v AND 1 \<noteq> 0"
    using uart_in(1) [OF p, of h] Cons.hyps(2) by (metis list.distinct(1))
  obtain h2 where h2: "p_inb p 0x3f8 h1 = (c, h2)" "u h2 = (u h)\<lparr>u_rx := cs\<rparr>"
    using uart_in(2) [OF p, of h1 c cs] Cons.hyps(2) Cons.prems(1) h1(2) by auto
  have r: "room t c (cq t, ln t)" "room_all t cs (ldisc t c (cq t, ln t))" using Cons.prems(3) Cons.hyps(2) by (metis room_all.simps(2))+
  obtain t1 where t1: "tty_inputc c t = Some t1" "tty_ok t1" "same_ctl t t1" "(cq t1, ln t1) = ldisc t c (cq t, ln t)"
    using tty_input_step [OF Cons.prems(2) r(1)] by blast
  obtain b1 where b1: "tty_dev t1 = tty_dev t @ b1" using inputc_grows [OF t1(1)] by blast
  let ?h3 = "snd (run_state (write_ttyserial p b1) h2)"
  have h3: "u ?h3 = (u h)\<lparr>u_rx := cs, u_tx := u_tx (u h) @ b1\<rparr>"
    using write_ttyserial_sends [OF p, of h2 b1] h2(2) Cons.prems(1) by simp
  have "\<exists>t' h' bs. serial_loop p t1 ?h3 = Some (t', h') \<and> tty_ok t' \<and> same_ctl t1 t' \<and> (cq t', ln t') = fold (ldisc t1) cs (cq t1, ln t1) \<and>
      tty_dev t' = tty_dev t1 @ bs \<and> u h' = (u ?h3)\<lparr>u_rx := [], u_tx := u_tx (u ?h3) @ bs\<rparr>"
  proof -
    have "room_all t1 cs (cq t1, ln t1)" using r(2) t1(3,4) room_cong by metis
    then show ?thesis using Cons.hyps(1) [of ?h3 t1] Cons.prems(1) t1(2) h3 by simp
  qed
  then obtain t' h' bs where l: "serial_loop p t1 ?h3 = Some (t', h')" "tty_ok t'" "same_ctl t1 t'"
    "(cq t', ln t') = fold (ldisc t1) cs (cq t1, ln t1)" "tty_dev t' = tty_dev t1 @ bs"
    "u h' = (u ?h3)\<lparr>u_rx := [], u_tx := u_tx (u ?h3) @ bs\<rparr>" by blast
  have "serial_loop p t h = Some (t', h')" using h1 h2 t1(1) b1 l(1)
    by (subst serial_loop.simps) (simp add: uart_rxavail_def run_simps uart_ports L_DR_def uart_inputc_def)
  moreover have "same_ctl t t'" using t1(3) l(3) by (simp add: same_ctl_def)
  moreover have "(cq t', ln t') = fold (ldisc t) (u_rx (u h)) (cq t, ln t)"
    using l(4) t1(4) ldisc_cong [OF t1(3)] Cons.hyps(2) by (metis fold_simps(2))
  ultimately show ?case using l(2,5,6) b1 h3 by (intro exI [of _ t'] exI [of _ h'] exI [of _ "b1 @ bs"]) simp
qed

lemma set_divisor_view:
  assumes p: "uart_dev p u" and l: "\<not> bit (u_lcr (u h)) 7"
  shows "u (snd (run_state (set_divisor p d) h)) =
    (u h)\<lparr>u_dvl := ucast (d AND 0xff), u_dvh := ucast (drop_bit 8 d AND 0xff), u_lcr := u_lcr (u h) AND NOT LCTRL_DLAB\<rparr>"
proof -
  obtain h1 where h1: "p_inb p 0x3f9 h = (u_ier (u h), h1)" "u h1 = u h" using uart_in(3) [OF p, of h] l by auto
  let ?h2 = "p_outb p 0x3f9 0 h1"
  have h2: "u ?h2 = (u h)\<lparr>u_ier := 0\<rparr>" using uart_out(2) [OF p, of 0 h1] h1(2) l by simp
  obtain h3 where h3: "p_inb p 0x3fb ?h2 = (u_lcr (u h), h3)" "u h3 = (u h)\<lparr>u_ier := 0\<rparr>" using uart_in(4) [OF p, of ?h2] h2 by auto
  have d: "bit LCTRL_DLAB 7" by (simp add: LCTRL_DLAB_def)
  then have b: "bit (0x80 :: u8) 7" "\<not> bit (x AND NOT LCTRL_DLAB :: u8) 7" for x :: u8
    by (simp, simp only: bit_and_iff bit_not_iff d) simp
  show ?thesis using h1 h3 b by (simp add: set_divisor_def run_simps uart_ports uart_out [OF p])
qed

lemma low_byte: "unat (ucast (d AND 0xff :: u32) :: u8) = unat d mod 256"
proof -
  have "(ucast (d AND 0xff) :: u8) = ucast d"
    by (rule bit_word_eqI) (auto simp: bit_ucast_iff bit_and_iff bit_numeral_rec dest: bit_imp_le_length split: nat.splits)
  then show ?thesis by (simp add: unsigned_ucast_eq unsigned_take_bit_eq take_bit_eq_mod)
qed

lemma divisor_bytes:
  assumes "d < 0x10000"
  shows "256 * unat (ucast (drop_bit 8 d AND 0xff) :: u8) + unat (ucast (d AND 0xff) :: u8) = unat (d :: u32)"
proof -
  have "unat d < 65536" using assms by (simp add: word_less_nat_alt)
  moreover have "unat (drop_bit 8 d) = unat d div 256" by (simp add: drop_bit_eq_div unat_div_distrib)
  ultimately show ?thesis by (simp add: low_byte)
qed

section \<open>Properties\<close>


definition sim_uart :: "uart ports" where
  "sim_uart = \<lparr>p_inb = (\<lambda>a s. if a = 0x3fd then (of_bool (u_rx s \<noteq> []), s)
       else if a = 0x3f8 then (case u_rx s of [] \<Rightarrow> (0, s) | c # cs \<Rightarrow> (c, s\<lparr>u_rx := cs\<rparr>))
       else if a = 0x3f9 then (if bit (u_lcr s) 7 then u_dvh s else u_ier s, s) else (u_lcr s, s)),
     p_inw = (\<lambda>a s. (0, s)), p_inl = (\<lambda>a s. (0, s)),
     p_outb = (\<lambda>a v s. if a = 0x3f8 then (if bit (u_lcr s) 7 then s\<lparr>u_dvl := v\<rparr> else s\<lparr>u_tx := u_tx s @ [v]\<rparr>)
       else if a = 0x3f9 then (if bit (u_lcr s) 7 then s\<lparr>u_dvh := v\<rparr> else s\<lparr>u_ier := v\<rparr>) else s\<lparr>u_lcr := v\<rparr>),
     p_outw = (\<lambda>a v s. s), p_outl = (\<lambda>a v s. s)\<rparr>"


end
