(* ===== verification/Vid_Boot.thy ===== *)
theory Vid_Boot
  imports Tty_Term Sys_Wrap
begin

text \<open>
  The console of the boot messages (\<^verbatim>\<open>video/video.c\<close>): a buffer of two pages, the text memory, and the
  switch to the terminal.  Both memories are modelled by their 16-bit cells, the character in the low byte and the
  attribute in the high one; every block the code moves is a whole number of cells.  The text memory and the
  cursor register are those of the terminal \<^verbatim>\<open>vga_textterm\<close>, which the console shares with it.  An access outside the
  block of the buffer is \<^const>\<open>None\<close>.
\<close>

section \<open>State\<close>

definition V_MAXPAGE :: nat where "V_MAXPAGE = 2"
definition VF_ESCAPE :: u8 where "VF_ESCAPE = 0x01"
definition VF_ADV :: u8 where "VF_ADV = 0x02"

text \<open>\<open>v_buf\<close> is the heap block of \<^verbatim>\<open>vbuf\<close>; \<^verbatim>\<open>VGA\<close> is \<^const>\<open>vga\<close> of \<open>v_term\<close>, the display's cursor its \<^const>\<open>crtc\<close>.\<close>

record video =
  v_buf :: "u16 list"
  v_cur :: u16
  v_bottom :: u16
  v_bmax :: u16
  v_att :: u8
  v_flag :: u8
  v_term :: terminal

definition set_lo :: "u8 \<Rightarrow> u16 \<Rightarrow> u16" where
  "set_lo b w = (w AND 0xff00) OR ucast b"

definition set_hi :: "u8 \<Rightarrow> u16 \<Rightarrow> u16" where
  "set_hi b w = (w AND 0x00ff) OR push_bit 8 (ucast b)"

text \<open>A change of cell \<open>k\<close> of the text memory.\<close>

definition poke_vga :: "int \<Rightarrow> (u16 \<Rightarrow> u16) \<Rightarrow> video \<Rightarrow> video" where
  "poke_vga k f v = v\<lparr>v_term := (v_term v)\<lparr>vga := (vga (v_term v))(k := f (vga (v_term v) k))\<rparr>\<rparr>"

definition poke_buf :: "nat \<Rightarrow> (u16 \<Rightarrow> u16) \<Rightarrow> video \<Rightarrow> video option" where
  "poke_buf k f v = (if k < length (v_buf v) then Some (v\<lparr>v_buf := (v_buf v)[k := f (v_buf v ! k)]\<rparr>) else None)"

section \<open>Operations\<close>

definition setcursor :: "video \<Rightarrow> video" where
  "setcursor v =
     (if sint (v_cur v) - 80 * uint (v_bottom v) < 0 then v
      else v\<lparr>v_term := (v_term v)\<lparr>crtc := v_cur v - v_bottom v * 80\<rparr>\<rparr>)"

definition readcursor :: "video \<Rightarrow> video" where
  "readcursor v = v\<lparr>v_cur := crtc (v_term v)\<rparr>"

text \<open>\<^verbatim>\<open>memcpy\<close> to the first 2000 cells of the text memory of the cells that \<open>f\<close> reads\<close>

definition fill_vga :: "(nat \<Rightarrow> u16) \<Rightarrow> video \<Rightarrow> video" where
  "fill_vga f v =
     v\<lparr>v_term := (v_term v)\<lparr>vga := (\<lambda>k. if 0 \<le> k \<and> k < 2000 then f (nat k) else vga (v_term v) k)\<rparr>\<rparr>"

definition vflush :: "video \<Rightarrow> video option" where
  "vflush v =
     (let o80 = unat (v_bottom v) * 80 in
      if o80 + 2000 \<le> length (v_buf v) then Some (fill_vga (\<lambda>k. v_buf v ! (o80 + k)) v) else None)"

text \<open>The second \<^verbatim>\<open>memcpy\<close> reads one row past the two pages.\<close>

definition scroll_once :: "video \<Rightarrow> video option" where
  "scroll_once v =
     (let n = 80 * 25 * V_MAXPAGE; v1 = fill_vga (\<lambda>k. vga (v_term v) (int k + 80)) (v\<lparr>v_cur := v_cur v - 80\<rparr>) in
      if 80 + n \<le> length (v_buf v)
      then vflush (v1\<lparr>v_buf := take n (drop 80 (v_buf v)) @ drop n (v_buf v)\<rparr>)
      else None)"

definition vscroll_down :: "video \<Rightarrow> video option" where
  "vscroll_down v = map_option (\<lambda>t. v\<lparr>v_term := t\<rparr>) (term_scroll_up (v_term v))"

definition vscroll_up :: "video \<Rightarrow> video option" where
  "vscroll_up v = map_option (\<lambda>t. v\<lparr>v_term := t\<rparr>) (term_scroll_down (v_term v))"

definition backspace :: "video \<Rightarrow> video option" where
  "backspace v =
     (let v1 = v\<lparr>v_cur := v_cur v - 1\<rparr> in
      map_option (\<lambda>v2. setcursor (poke_vga (uint (v_cur v2) - 80 * uint (v_bottom v2)) (set_lo 0) v2))
        (poke_buf (unat (v_cur v1)) (set_lo 0) v1))"

text \<open>\<open>n\<close> calls of \<^verbatim>\<open>vscroll_down\<close>\<close>

fun vscrolls :: "nat \<Rightarrow> video \<Rightarrow> video option" where
  "vscrolls 0 v = Some v"
| "vscrolls (Suc n) v = Option.bind (vscroll_down v) (vscrolls n)"

definition put_char :: "u8 \<Rightarrow> video \<Rightarrow> video option" where
  "put_char c v =
     (let f = (\<lambda>w. set_hi (v_att v) (set_lo c w)) in
      map_option (\<lambda>v1. (poke_vga (uint (v_cur v) - 80 * uint (v_bottom v)) f v1)\<lparr>v_cur := v_cur v + 1\<rparr>)
        (poke_buf (unat (v_cur v)) f v))"

text \<open>The end of \<^verbatim>\<open>_putchr\<close>: scrolling at the end of the buffer, and the display's cursor.\<close>

definition putchr_end :: "video \<Rightarrow> video option" where
  "putchr_end v =
     map_option (\<lambda>v1. setcursor (if uint (v_cur v1) \<ge> 2000 + 80 * uint (v_bmax v1) then v1\<lparr>v_bmax := v_bmax v1 + 1\<rparr> else v1))
       (if unat (v_cur v) \<ge> 4000 then scroll_once v else Some v)"

definition putchr_legacy :: "u8 \<Rightarrow> video \<Rightarrow> video option" where
  "putchr_legacy c v =
     (if v_flag v AND VF_ESCAPE \<noteq> 0 then Some (v\<lparr>v_att := c, v_flag := v_flag v AND NOT VF_ESCAPE\<rparr>)
      else if c = 10 then
        let v1 = v\<lparr>v_cur := v_cur v + (80 - v_cur v mod 80)\<rparr> in
        Option.bind (if uint (v_cur v1) \<ge> 2000 + 80 * uint (v_bottom v1)
                     then vscrolls (nat (uint (v_bmax v1) - uint (v_bottom v1) + 1)) v1 else Some v1) putchr_end
      else if c = 13 then putchr_end (v\<lparr>v_cur := v_cur v - v_cur v mod 80\<rparr>)
      else if c = 8 then Option.bind (backspace v) putchr_end
      else if c = 27 then Some (v\<lparr>v_flag := v_flag v OR VF_ESCAPE\<rparr>)
      else Option.bind (put_char c v) putchr_end)"

text \<open>\<^verbatim>\<open>putchr\<close>: after \<^verbatim>\<open>mkadv\<close> a character is written to descriptor 1 from its place on the stack.\<close>

definition putchr :: "sysenv \<Rightarrow> u32 \<Rightarrow> u8 \<Rightarrow> video \<times> user \<Rightarrow> (video \<times> user) option" where
  "putchr e sp c vu =
     (let (v, u) = vu in
      if v_flag v AND VF_ADV \<noteq> 0 then
        (case w_write e 1 sp 1 (u\<lparr>u_k := (u_k u)\<lparr>k_mem := store_bytes sp [c] (k_mem (u_k u))\<rparr>\<rparr>) of
           Some (Back _ u') \<Rightarrow> Some (v, u')
         | _ \<Rightarrow> None)
      else map_option (\<lambda>v'. (v', u)) (putchr_legacy c v))"

definition mkadv :: "video \<Rightarrow> video" where
  "mkadv v = v\<lparr>v_flag := v_flag v OR VF_ADV\<rparr>"

fun printk :: "sysenv \<Rightarrow> u32 \<Rightarrow> u8 list \<Rightarrow> video \<times> user \<Rightarrow> (video \<times> user) option" where
  "printk e sp [] vu = Some vu"
| "printk e sp (c # cs) vu = Option.bind (putchr e sp c vu) (printk e sp cs)"

text \<open>\<^verbatim>\<open>_printk\<close>: the index is already the next one when the attribute is stored.\<close>

fun printk_raw :: "u8 list \<Rightarrow> nat \<Rightarrow> video \<Rightarrow> video" where
  "printk_raw [] i v = v"
| "printk_raw (c # cs) i v =
     printk_raw cs (i + 1) (poke_vga (int (i + 1)) (set_hi 0x0f) (poke_vga (int i) (set_lo c) v))"

text \<open>\<^verbatim>\<open>0x0f000f00\<close> is two cells with a zero character.\<close>

definition clr_scr3 :: "video \<Rightarrow> video option" where
  "clr_scr3 v =
     (let v1 = fill_vga (\<lambda>_. 0x0f00) (setcursor (v\<lparr>v_bottom := 0, v_cur := 0\<rparr>)); n = 80 * 25 * V_MAXPAGE in
      if n \<le> length (v_buf v) then Some (v1\<lparr>v_buf := replicate n 0x0f00 @ drop n (v_buf v)\<rparr>) else None)"

text \<open>\<^verbatim>\<open>init_video\<close> with the block that \<^verbatim>\<open>malloc\<close> gave, up to its message.\<close>

definition init_video :: "u16 list \<Rightarrow> video \<Rightarrow> video option" where
  "init_video b v =
     (if 2000 \<le> length b
      then Some ((readcursor (v\<lparr>v_buf := map (\<lambda>k. vga (v_term v) (int k)) [0..<2000] @ drop 2000 b\<rparr>))\<lparr>v_att := 0x0f\<rparr>)
      else None)"

definition dealloc_legacy_video :: "video \<Rightarrow> video" where
  "dealloc_legacy_video v = v\<lparr>v_buf := []\<rparr>"

section \<open>What the boot console shows\<close>

text \<open>The terminal before \<^verbatim>\<open>vgatext_init\<close>: it has no buffer and no operations.\<close>

definition term_fresh :: "terminal \<Rightarrow> bool" where
  "term_fresh t \<longleftrightarrow> t_width t = 0 \<and> t_height t = 0 \<and> dheight t = 0 \<and> scroll_top t = 0 \<and> \<not> t_cops t"

text \<open>The screen shows the first page of the buffer.\<close>

definition first_page :: "video \<Rightarrow> bool" where
  "first_page v \<longleftrightarrow> (\<forall>k<2000. vga (v_term v) (int k) = v_buf v ! k)"

definition booting :: "video \<Rightarrow> bool" where
  "booting v \<longleftrightarrow> term_fresh (v_term v) \<and> v_flag v AND VF_ADV = 0 \<and> v_bottom v = 0 \<and> 4080 \<le> length (v_buf v) \<and>
     unat (v_cur v) < 4000 \<and> first_page v"

lemma term_scroll_up_fresh:
  "term_fresh t \<Longrightarrow> \<exists>t'. term_scroll_up t = Some t' \<and> term_fresh t' \<and> vga t' = vga t"
  by (auto simp: term_fresh_def term_scroll_up_def term_scroll_absolute_def term_set_cursor_def Let_def)

lemma vscrolls_fresh:
  "term_fresh (v_term v) \<Longrightarrow> \<exists>t. vscrolls n v = Some (v\<lparr>v_term := t\<rparr>) \<and> term_fresh t \<and> vga t = vga (v_term v)"
proof (induction n arbitrary: v)
  case 0
  have "v = v\<lparr>v_term := v_term v\<rparr>" by simp
  with 0 show ?case by force
next
  case (Suc n)
  from term_scroll_up_fresh [OF Suc.prems] obtain t where
    t: "term_scroll_up (v_term v) = Some t" "term_fresh t" "vga t = vga (v_term v)" by blast
  with Suc.IH [of "v\<lparr>v_term := t\<rparr>"] show ?case by (auto simp: vscroll_down_def)
qed

lemma setcursor_shape:
  "\<exists>r. setcursor v = v\<lparr>v_term := (v_term v)\<lparr>crtc := r\<rparr>\<rparr>"
proof (cases "sint (v_cur v) - 80 * uint (v_bottom v) < 0")
  case True
  then have "setcursor v = v\<lparr>v_term := (v_term v)\<lparr>crtc := crtc (v_term v)\<rparr>\<rparr>" by (simp add: setcursor_def)
  then show ?thesis by blast
next
  case False
  then show ?thesis by (auto simp: setcursor_def)
qed

lemma setcursor_simps [simp]:
  "v_buf (setcursor v) = v_buf v" "v_cur (setcursor v) = v_cur v" "v_att (setcursor v) = v_att v"
  "v_flag (setcursor v) = v_flag v"
  by (simp_all add: setcursor_def)

text \<open>Between the two halves of \<^verbatim>\<open>_putchr\<close> the cursor may be at the end of the buffer.\<close>

definition booting_at :: "nat \<Rightarrow> video \<Rightarrow> bool" where
  "booting_at n v \<longleftrightarrow> term_fresh (v_term v) \<and> v_flag v AND VF_ADV = 0 \<and> v_bottom v = 0 \<and> 4080 \<le> length (v_buf v) \<and>
     unat (v_cur v) \<le> n \<and> first_page v"

lemma booting_iff: "booting v \<longleftrightarrow> booting_at 3999 v"
  by (auto simp: booting_def booting_at_def)

lemma booting_setcursor: "booting_at n v \<Longrightarrow> booting_at n (setcursor v)"
  using setcursor_shape [of v] by (auto simp: booting_at_def first_page_def term_fresh_def)

lemma scroll_once_booting:
  assumes "booting_at 4000 v" "4000 \<le> unat (v_cur v)"
  shows "\<exists>v'. scroll_once v = Some v' \<and> booting_at 3999 v'"
proof -
  from assms have "unat (v_cur v) = 4000" by (simp add: booting_at_def)
  then have "v_cur v = 4000" by (simp add: word_unat_eq_iff)
  with assms show ?thesis
    by (auto simp: scroll_once_def vflush_def fill_vga_def booting_at_def first_page_def term_fresh_def V_MAXPAGE_def Let_def)
qed

lemma putchr_end_booting:
  assumes "booting_at 4000 v"
  shows "\<exists>v'. putchr_end v = Some v' \<and> booting v'"
proof -
  have bm: "booting_at 3999 w \<Longrightarrow> booting_at 3999 (if P then w\<lparr>v_bmax := x\<rparr> else w)" for w P x
    by (simp add: booting_at_def first_page_def)
  have "\<exists>v1. (if unat (v_cur v) \<ge> 4000 then scroll_once v else Some v) = Some v1 \<and> booting_at 3999 v1"
    using scroll_once_booting [OF assms] assms by (auto simp: booting_at_def)
  then obtain v1 where v1: "(if unat (v_cur v) \<ge> 4000 then scroll_once v else Some v) = Some v1" "booting_at 3999 v1"
    by blast
  have "booting_at 3999 (setcursor (if uint (v_cur v1) \<ge> 2000 + 80 * uint (v_bmax v1) then v1\<lparr>v_bmax := v_bmax v1 + 1\<rparr> else v1))"
    by (intro booting_setcursor bm v1)
  then show ?thesis unfolding putchr_end_def v1(1) booting_iff by simp
qed

lemma put_char_booting:
  assumes "booting v"
  shows "\<exists>v'. put_char c v = Some v' \<and> booting_at 4000 v'"
proof -
  let ?k = "unat (v_cur v)" and ?f = "\<lambda>w. set_hi (v_att v) (set_lo c w)"
  let ?v = "(poke_vga (int ?k) ?f (v\<lparr>v_buf := (v_buf v)[?k := ?f (v_buf v ! ?k)]\<rparr>))\<lparr>v_cur := v_cur v + 1\<rparr>"
  from assms have k: "?k < 4000" "?k < length (v_buf v)" by (simp_all add: booting_def)
  then have c: "unat (v_cur v + 1) = ?k + 1" by (simp add: unat_word_ariths)
  from assms have "v_bottom v = 0" by (simp add: booting_def)
  with k(2) have "put_char c v = Some ?v" unfolding uint_nat [symmetric]
    by (simp add: put_char_def poke_buf_def Let_def)
  moreover have "first_page ?v"
  proof -
    have "int j = uint (v_cur v) \<longleftrightarrow> j = ?k" for j by (metis uint_nat nat_int)
    with assms k(2) show ?thesis by (auto simp: first_page_def booting_def poke_vga_def nth_list_update)
  qed
  then have "booting_at 4000 ?v" using assms k c
    by (simp add: booting_def booting_at_def poke_vga_def term_fresh_def)
  ultimately show ?thesis by blast
qed

lemma row_end: "x + (80 - x mod 80) \<le> 4000" if "x < 4000" for x :: nat
proof -
  from that have "x div 80 < 50" by (simp add: div_less_iff_less_mult)
  moreover have "x mod 80 < 80" by simp
  ultimately show ?thesis using div_mult_mod_eq [of x 80] by linarith
qed

text \<open>A character other than a backspace never leaves the buffer, and the screen keeps showing its first page.\<close>

lemma putchr_legacy_booting:
  assumes "booting v" "c \<noteq> 8"
  shows "\<exists>v'. putchr_legacy c v = Some v' \<and> booting v'"
proof -
  have cur: "unat (v_cur v) < 4000" using assms by (simp add: booting_def)
  consider (esc) "v_flag v AND VF_ESCAPE \<noteq> 0" | (nl) "v_flag v AND VF_ESCAPE = 0" "c = 10"
    | (cr) "v_flag v AND VF_ESCAPE = 0" "c = 13" | (mark) "v_flag v AND VF_ESCAPE = 0" "c = 27"
    | (chr) "v_flag v AND VF_ESCAPE = 0" "c \<noteq> 10" "c \<noteq> 13" "c \<noteq> 27" by blast
  then show ?thesis
  proof cases
    case esc
    have "(v_flag v AND NOT VF_ESCAPE) AND VF_ADV = 0" using assms(1)
      by (simp add: booting_def VF_ESCAPE_def VF_ADV_def and.assoc)
    with esc assms show ?thesis by (simp add: putchr_legacy_def booting_def first_page_def)
  next
    case nl
    let ?v = "v\<lparr>v_cur := v_cur v + (80 - v_cur v mod 80)\<rparr>"
    have "unat (v_cur v + (80 - v_cur v mod 80)) = unat (v_cur v) + (80 - unat (v_cur v) mod 80)"
    proof -
      have "v_cur v mod 80 \<le> 80" by (simp add: word_le_nat_alt unat_mod)
      then have r: "unat (80 - v_cur v mod 80) = 80 - unat (v_cur v) mod 80" by (simp add: unat_sub unat_mod)
      have add: "unat x + unat y < 65536 \<Longrightarrow> unat (x + y) = unat x + unat y" for x y :: u16
        by (simp add: unat_word_ariths)
      have "unat (v_cur v) + unat (80 - v_cur v mod 80) < 65536" unfolding r using cur by linarith
      from add [OF this] show ?thesis unfolding r .
    qed
    moreover have "unat (v_cur v) + (80 - unat (v_cur v) mod 80) \<le> 4000" by (rule row_end [OF cur])
    ultimately have b: "booting_at 4000 ?v" using assms(1)
      by (simp add: booting_def booting_at_def first_page_def)
    then have "term_fresh (v_term ?v)" by (simp add: booting_at_def)
    from vscrolls_fresh [OF this] b have "\<exists>v1. (if uint (v_cur ?v) \<ge> 2000 + 80 * uint (v_bottom ?v)
        then vscrolls (nat (uint (v_bmax ?v) - uint (v_bottom ?v) + 1)) ?v else Some ?v) = Some v1 \<and> booting_at 4000 v1"
      by (fastforce simp: booting_at_def first_page_def)
    then show ?thesis using putchr_end_booting nl by (auto simp: putchr_legacy_def Let_def)
  next
    case cr
    have "unat (v_cur v - v_cur v mod 80) \<le> unat (v_cur v)"
      by (metis diff_le_self mod_le_divisor unat_mod unat_sub word_le_nat_alt mod_less_eq_dividend)
    with assms have "booting_at 4000 (v\<lparr>v_cur := v_cur v - v_cur v mod 80\<rparr>)"
      by (simp add: booting_def booting_at_def first_page_def)
    from putchr_end_booting [OF this] cr show ?thesis by (simp add: putchr_legacy_def)
  next
    case mark
    have "(v_flag v OR VF_ESCAPE) AND VF_ADV = 0" using assms(1)
      by (simp add: booting_def VF_ESCAPE_def VF_ADV_def bit.conj_disj_distrib2)
    with mark assms show ?thesis by (simp add: putchr_legacy_def booting_def first_page_def)
  next
    case chr
    from put_char_booting [OF assms(1), of c] obtain v1 where "put_char c v = Some v1" "booting_at 4000 v1" by blast
    with putchr_end_booting [of v1] chr assms show ?thesis by (simp add: putchr_legacy_def)
  qed
qed

text \<open>The cell of a character: both halves are replaced, so nothing of the old cell is left.\<close>

definition vcell :: "u8 \<Rightarrow> u8 \<Rightarrow> u16" where
  "vcell a c = push_bit 8 (ucast a) OR ucast c"

lemma set_cell: "set_hi a (set_lo c w) = vcell a c"
proof (rule bit_word_eqI)
  fix n assume n: "n < LENGTH(16)"
  have lo: "bit (0xff00 :: u16) n \<longleftrightarrow> 8 \<le> n" "bit (0x00ff :: u16) n \<longleftrightarrow> n < 8"
  proof -
    have "\<forall>n\<in>{..<16}. (bit (0xff00 :: u16) n \<longleftrightarrow> 8 \<le> n) \<and> (bit (0x00ff :: u16) n \<longleftrightarrow> n < 8)" by code_simp
    with n show "bit (0xff00 :: u16) n \<longleftrightarrow> 8 \<le> n" "bit (0x00ff :: u16) n \<longleftrightarrow> n < 8" by auto
  qed
  have c8: "bit (ucast c :: u16) n \<longleftrightarrow> n < 8 \<and> bit c n"
    using n by (auto simp: bit_ucast_iff dest: bit_imp_le_length)
  show "bit (set_hi a (set_lo c w)) n \<longleftrightarrow> bit (vcell a c) n"
    unfolding set_hi_def set_lo_def vcell_def bit_and_iff bit_or_iff lo c8 by auto
qed

definition plain :: "u8 \<Rightarrow> bool" where
  "plain c \<longleftrightarrow> c \<noteq> 8 \<and> c \<noteq> 10 \<and> c \<noteq> 13 \<and> c \<noteq> 27"

lemma putchr_plain:
  assumes "booting v" "v_flag v AND VF_ESCAPE = 0" "plain c" "unat (v_cur v) + 1 < 4000"
  shows "\<exists>v'. putchr_legacy c v = Some v' \<and> booting v' \<and> v_buf v' = (v_buf v)[unat (v_cur v) := vcell (v_att v) c] \<and>
    unat (v_cur v') = unat (v_cur v) + 1 \<and> v_att v' = v_att v \<and> v_flag v' = v_flag v"
proof -
  from putchr_legacy_booting [OF assms(1)] assms(3) obtain v' where
    v': "putchr_legacy c v = Some v'" "booting v'" by (auto simp: plain_def)
  have k: "unat (v_cur v) < length (v_buf v)" "unat (v_cur v + 1) = unat (v_cur v) + 1"
    using assms(1,4) by (simp_all add: booting_def unat_word_ariths)
  let ?v = "(poke_vga (uint (v_cur v) - 80 * uint (v_bottom v)) (\<lambda>w. vcell (v_att v) c)
               (v\<lparr>v_buf := (v_buf v)[unat (v_cur v) := vcell (v_att v) c]\<rparr>))\<lparr>v_cur := v_cur v + 1\<rparr>"
  have "putchr_legacy c v = putchr_end ?v"
    using assms(2,3) k(1) by (simp add: putchr_legacy_def plain_def put_char_def poke_buf_def set_cell Let_def)
  moreover have "unat (v_cur ?v) < 4000" using assms(4) k(2) by simp
  ultimately have "v' = setcursor (if uint (v_cur ?v) \<ge> 2000 + 80 * uint (v_bmax ?v) then ?v\<lparr>v_bmax := v_bmax ?v + 1\<rparr> else ?v)"
    using v'(1) by (simp add: putchr_end_def)
  with v' k(2) show ?thesis by (auto simp: poke_vga_def)
qed

lemma printk_booting:
  assumes "booting v" "8 \<notin> set cs"
  shows "\<exists>v'. printk e sp cs (v, u) = Some (v', u) \<and> booting v'"
  using assms
proof (induction cs arbitrary: v)
  case (Cons c cs)
  from Cons.prems have "putchr e sp c (v, u) = map_option (\<lambda>v'. (v', u)) (putchr_legacy c v)"
    by (simp add: putchr_def booting_def)
  with putchr_legacy_booting [of v c] Cons show ?case by fastforce
qed simp

lemma printk_plain:
  assumes "booting v" "v_flag v AND VF_ESCAPE = 0" "list_all plain m" "unat (v_cur v) + length m < 4000"
  shows "\<exists>v'. printk e sp m (v, u) = Some (v', u) \<and> booting v' \<and>
    v_buf v' = take (unat (v_cur v)) (v_buf v) @ map (vcell (v_att v)) m @ drop (unat (v_cur v) + length m) (v_buf v) \<and>
    unat (v_cur v') = unat (v_cur v) + length m"
  using assms
proof (induction m arbitrary: v)
  case (Cons c m)
  let ?k = "unat (v_cur v)"
  from putchr_plain [of v c] Cons.prems obtain v1 where
    v1: "putchr_legacy c v = Some v1" "booting v1" "v_buf v1 = (v_buf v)[?k := vcell (v_att v) c]"
    "unat (v_cur v1) = ?k + 1" "v_att v1 = v_att v" "v_flag v1 = v_flag v" by auto
  from Cons.IH [of v1] v1 Cons.prems obtain v2 where
    v2: "printk e sp m (v1, u) = Some (v2, u)" "booting v2" "unat (v_cur v2) = ?k + 1 + length m"
    "v_buf v2 = take (?k + 1) (v_buf v1) @ map (vcell (v_att v)) m @ drop (?k + 1 + length m) (v_buf v1)" by auto
  have "?k < length (v_buf v)" using Cons.prems by (simp add: booting_def)
  then have "v_buf v2 = take ?k (v_buf v) @ map (vcell (v_att v)) (c # m) @ drop (?k + length (c # m)) (v_buf v)"
    by (simp add: v2(4) v1(3) take_Suc_conv_app_nth)
  moreover have "putchr e sp c (v, u) = Some (v1, u)" using v1 Cons.prems by (simp add: putchr_def booting_def)
  ultimately show ?case using v2 by auto
qed simp

text \<open>C40. The boot console of two pages never faults and never scrolls the screen: from \<^verbatim>\<open>init_video\<close> with a block of at
  least 51 rows on, and until the terminal is set up, every text without a backspace is printed; the cursor stays in
  the two pages and the screen always shows the first of them. A plain message that fits is then in the
  buffer at the cursor with the current attribute, and so it is on the screen just as far as it lies in the first page.\<close>

theorem boot_console_shows_first_page:
  assumes "init_video b v0 = Some v" "term_fresh (v_term v0)" "v_flag v0 = 0" "v_bottom v0 = 0"
    and "unat (crtc (v_term v0)) < 4000" "4080 \<le> length b" "8 \<notin> set cs"
  shows "\<exists>v1. printk e sp cs (v, u) = Some (v1, u) \<and> first_page v1 \<and> unat (v_cur v1) < 4000 \<and>
    (\<forall>m. v_flag v1 AND VF_ESCAPE = 0 \<and> list_all plain m \<and> unat (v_cur v1) + length m < 4000 \<longrightarrow>
      (\<exists>v2. printk e sp m (v1, u) = Some (v2, u) \<and> first_page v2 \<and> unat (v_cur v2) = unat (v_cur v1) + length m \<and>
        v_buf v2 = take (unat (v_cur v1)) (v_buf v1) @ map (vcell (v_att v1)) m @
          drop (unat (v_cur v1) + length m) (v_buf v1)))"
proof -
  have "booting v" using assms by (auto simp: init_video_def readcursor_def booting_def first_page_def nth_append split: if_splits)
  from printk_booting [OF this assms(7)] obtain v1 where v1: "printk e sp cs (v, u) = Some (v1, u)" "booting v1" by blast
  moreover have "first_page w" "unat (v_cur w) < 4000" if "booting w" for w using that by (simp_all add: booting_def)
  ultimately show ?thesis using printk_plain [OF v1(2)] by metis
qed

definition boot0 :: video where
  "boot0 = \<lparr>v_buf = [], v_cur = 0, v_bottom = 0, v_bmax = 0, v_att = 0, v_flag = 0,
     v_term = \<lparr>cursor_x = 0, cursor_y = 0, t_width = 0, t_height = 0, dheight = 0, scroll_top = 0, cbuf = [],
       t_cops = False, t_fg = 0, t_bg = 0, vga = (\<lambda>_. 0x0720), crtc = 1990\<rparr>\<rparr>"

text \<open>A message that begins on the last row of the screen, ten columns before its end.\<close>

theorem boot_console_shows_first_page_witness:
  "\<forall>e sp u. \<exists>v v1. init_video (replicate 4080 0) boot0 = Some v \<and> printk e sp [65, 10, 66] (v, u) = Some (v1, u) \<and> first_page v1"
proof (intro allI)
  fix e sp u
  have "\<exists>v. init_video (replicate 4080 0) boot0 = Some v" by (simp add: init_video_def)
  then obtain v where v: "init_video (replicate 4080 0) boot0 = Some v" by blast
  have "\<exists>v1. printk e sp [65, 10, 66] (v, u) = Some (v1, u) \<and> first_page v1"
    using boot_console_shows_first_page [OF v, of "[65, 10, 66]" e sp u] by (auto simp: boot0_def term_fresh_def)
  with v show "\<exists>v v1. init_video (replicate 4080 0) boot0 = Some v \<and> printk e sp [65, 10, 66] (v, u) = Some (v1, u) \<and>
    first_page v1" by blast
qed

end
