(* ===== verification/Vid_Npf.thy ===== *)
theory Vid_Npf
  imports Lib_String
begin

text \<open>
  The formatter \<^verbatim>\<open>video/nanoprintf.h\<close> as \<^verbatim>\<open>video/printf.h\<close> configures it: field widths and precisions, no floats,
  no large, small, binary or write-back conversions and no alternative forms.  A format is the list of its characters
  before the terminator, the arguments are the words of the \<^verbatim>\<open>va_list\<close> (every argument is one word on i386),
  strings are read from memory.  The result is the sequence of characters passed to \<^verbatim>\<open>npf_putc\<close>; signed
  overflow, a missing argument and an unterminated string are \<^const>\<open>None\<close>.
\<close>

section \<open>Format specifications\<close>

datatype npf_opt = OPT_NONE | OPT_LITERAL | OPT_STAR

datatype npf_conv = CONV_PERCENT | CONV_CHAR | CONV_STRING | CONV_SIGNED_INT | CONV_OCTAL | CONV_HEX_INT
  | CONV_UNSIGNED_INT | CONV_POINTER

record npf_format_spec =
  field_width :: int
  prec :: int
  prec_opt :: npf_opt
  field_width_opt :: npf_opt
  left_justified :: bool
  leading_zero_pad :: bool
  prepend :: u8
  case_adjust :: u8
  len_long :: bool
  conv_spec :: npf_conv

text \<open>\<^verbatim>\<open>*cur\<close>: the terminator follows the last character.\<close>

definition at_cur :: "u8 list \<Rightarrow> u8" where
  "at_cur cs = (case cs of [] \<Rightarrow> 0 | c # _ \<Rightarrow> c)"

fun npf_flags :: "u8 list \<Rightarrow> npf_format_spec \<Rightarrow> npf_format_spec \<times> u8 list" where
  "npf_flags [] fs = (fs, [])"
| "npf_flags (c # cs) fs =
     (if c = 45 then npf_flags cs (fs\<lparr>left_justified := True\<rparr>)
      else if c = 48 then npf_flags cs (fs\<lparr>leading_zero_pad := True\<rparr>)
      else if c = 43 then npf_flags cs (fs\<lparr>prepend := 43\<rparr>)
      else if c = 32 then npf_flags cs (if prepend fs = 0 then fs\<lparr>prepend := 32\<rparr> else fs)
      else (fs, c # cs))"

text \<open>The digits of a width or a precision, from the value \<open>n\<close> on.\<close>

fun npf_number :: "int \<Rightarrow> u8 list \<Rightarrow> (int \<times> u8 list) option" where
  "npf_number n [] = Some (n, [])"
| "npf_number n (c # cs) =
     (if 48 \<le> c \<and> c \<le> 57 then
        let n' = n * 10 + (uint c - 48) in if n' < 2 ^ 31 then npf_number n' cs else None
      else Some (n, c # cs))"

definition npf_width :: "u8 list \<Rightarrow> npf_format_spec \<Rightarrow> (npf_format_spec \<times> u8 list) option" where
  "npf_width cs fs =
     (if at_cur cs = 42 then Some (fs\<lparr>field_width := 0, field_width_opt := OPT_STAR\<rparr>, tl cs)
      else map_option (\<lambda>(n, cs').
        (fs\<lparr>field_width := n, field_width_opt := (if cs' = cs then OPT_NONE else OPT_LITERAL)\<rparr>, cs')) (npf_number 0 cs))"

definition npf_prec :: "u8 list \<Rightarrow> npf_format_spec \<Rightarrow> (npf_format_spec \<times> u8 list) option" where
  "npf_prec cs fs =
     (let fs = fs\<lparr>prec := 0, prec_opt := OPT_NONE\<rparr> in
      if at_cur cs \<noteq> 46 then Some (fs, cs)
      else let cs = tl cs in
        if at_cur cs = 42 then Some (fs\<lparr>prec_opt := OPT_STAR\<rparr>, tl cs)
        else if at_cur cs = 45 then map_option (\<lambda>(n, cs'). (fs\<lparr>prec := n\<rparr>, cs')) (npf_number 0 (tl cs))
        else map_option (\<lambda>(n, cs'). (fs\<lparr>prec := n, prec_opt := OPT_LITERAL\<rparr>, cs')) (npf_number 0 cs))"

text \<open>The conversion character; nothing when it is unknown.\<close>

definition npf_convert :: "u8 list \<Rightarrow> npf_format_spec \<Rightarrow> (npf_format_spec \<times> u8 list) option" where
  "npf_convert cs fs =
     (let c = at_cur cs; ret = (\<lambda>fs k. Some (fs\<lparr>conv_spec := k\<rparr>, tl cs)) in
      if c = 37 then ret fs CONV_PERCENT
      else if c = 99 then ret fs CONV_CHAR
      else if c = 115 then ret fs CONV_STRING
      else if c = 105 \<or> c = 100 then ret fs CONV_SIGNED_INT
      else if c = 111 then ret fs CONV_OCTAL
      else if c = 117 then ret fs CONV_UNSIGNED_INT
      else if c = 88 then ret (fs\<lparr>case_adjust := 0\<rparr>) CONV_HEX_INT
      else if c = 120 then ret fs CONV_HEX_INT
      else if c = 112 then ret fs CONV_POINTER
      else None)"

definition npf_spec0 :: npf_format_spec where
  "npf_spec0 = \<lparr>field_width = 0, prec = 0, prec_opt = OPT_NONE, field_width_opt = OPT_NONE, left_justified = False,
     leading_zero_pad = False, prepend = 0, case_adjust = 32, len_long = False, conv_spec = CONV_PERCENT\<rparr>"

text \<open>\<open>cs\<close> is what follows the percent sign.  The inner \<^const>\<open>None\<close> is the result 0.\<close>

definition npf_parse_format_spec :: "u8 list \<Rightarrow> (npf_format_spec \<times> u8 list) option option" where
  "npf_parse_format_spec cs =
     (let (fs1, cs1) = npf_flags cs npf_spec0 in
      Option.bind (npf_width cs1 fs1) (\<lambda>(fs2, cs2).
        Option.bind (npf_prec cs2 fs2) (\<lambda>(fs3, cs3).
          Some (if at_cur cs3 = 108 then npf_convert (tl cs3) (fs3\<lparr>len_long := True\<rparr>) else npf_convert cs3 fs3))))"

section \<open>Conversions\<close>

definition digit_char :: "u8 \<Rightarrow> nat \<Rightarrow> u8" where
  "digit_char adj d = (if d < 10 then 48 else 65 - 10 + adj) + of_nat d"

text \<open>\<^verbatim>\<open>npf_utoa_rev\<close> with its base, which is 8, 10 or 16: the digits from the last one on.\<close>

function npf_utoa_rev :: "nat \<Rightarrow> u8 \<Rightarrow> nat \<Rightarrow> u8 list" where
  "npf_utoa_rev b adj v = digit_char adj (v mod b) # (if v div b = 0 \<or> b < 2 then [] else npf_utoa_rev b adj (v div b))"
  by pat_completeness auto
termination
  by (relation "measure (\<lambda>(b, adj, v). v)") (auto intro!: div_less_dividend gr0I)

text \<open>\<^verbatim>\<open>va_arg\<close>\<close>

definition va_arg :: "u32 list \<Rightarrow> (u32 \<times> u32 list) option" where
  "va_arg args = (case args of [] \<Rightarrow> None | w # ws \<Rightarrow> Some (w, ws))"

text \<open>Width and precision from the arguments; the negation of the least number overflows.\<close>

definition npf_star_width :: "npf_format_spec \<Rightarrow> u32 list \<Rightarrow> (npf_format_spec \<times> u32 list) option" where
  "npf_star_width fs args =
     (if field_width_opt fs \<noteq> OPT_STAR then Some (fs, args)
      else Option.bind (va_arg args) (\<lambda>(w, args').
        if sint w = - (2 ^ 31) then None
        else if sint w < 0 then Some (fs\<lparr>field_width := - sint w, left_justified := True\<rparr>, args')
        else Some (fs\<lparr>field_width := sint w\<rparr>, args')))"

definition npf_star_prec :: "npf_format_spec \<Rightarrow> u32 list \<Rightarrow> (npf_format_spec \<times> u32 list) option" where
  "npf_star_prec fs args =
     (if prec_opt fs \<noteq> OPT_STAR then Some (fs, args)
      else Option.bind (va_arg args) (\<lambda>(w, args').
        if sint w < 0 then Some (fs\<lparr>prec := 0, prec_opt := OPT_NONE\<rparr>, args')
        else Some (fs\<lparr>prec := sint w\<rparr>, args')))"

text \<open>The default precision of a pointer, and the zero flag that a precision cancels.\<close>

definition npf_adjust :: "npf_format_spec \<Rightarrow> npf_format_spec" where
  "npf_adjust fs =
     (let fs1 = (if prec_opt fs = OPT_NONE \<and> conv_spec fs = CONV_POINTER then fs\<lparr>prec := 8\<rparr> else fs) in
      if prec_opt fs1 \<noteq> OPT_NONE \<and> conv_spec fs1 \<in> {CONV_SIGNED_INT, CONV_OCTAL, CONV_HEX_INT, CONV_UNSIGNED_INT}
      then fs1\<lparr>leading_zero_pad := False\<rparr> else fs1)"

text \<open>The length of a string of at most \<open>n\<close> characters.\<close>

fun npf_strnlen :: "nat \<Rightarrow> mem \<Rightarrow> addr \<Rightarrow> nat" where
  "npf_strnlen 0 m s = 0"
| "npf_strnlen (Suc n) m s = (if m s = 0 then 0 else Suc (npf_strnlen n m (Suc s)))"

definition npf_string :: "mem \<Rightarrow> npf_format_spec \<Rightarrow> addr \<Rightarrow> u8 list option" where
  "npf_string m fs p =
     (if p = NULL then Some []
      else map_option (\<lambda>n. map (\<lambda>i. m (p + i)) [0..<n])
        (if prec_opt fs = OPT_NONE then strlen m p else Some (npf_strnlen (nat (prec fs)) m p)))"

text \<open>The text in \<^verbatim>\<open>cbuf\<close>, in the order it is written, the sign character (0 for none), whether the value is zero, and
  the arguments left.\<close>

definition npf_digits :: "npf_format_spec \<Rightarrow> nat \<Rightarrow> u32 \<Rightarrow> u8 list" where
  "npf_digits fs b v =
     (if v = 0 \<and> prec_opt fs \<noteq> OPT_NONE \<and> prec fs = 0 then [] else rev (npf_utoa_rev b (case_adjust fs) (unat v)))"

definition npf_payload :: "mem \<Rightarrow> npf_format_spec \<Rightarrow> u32 list \<Rightarrow> (u8 list \<times> u8 \<times> bool \<times> u32 list) option" where
  "npf_payload m fs args =
     (if conv_spec fs = CONV_PERCENT then Some ([37], 0, False, args)
      else Option.bind (va_arg args) (\<lambda>(v, args').
        case conv_spec fs of
          CONV_CHAR \<Rightarrow> Some ([ucast v], 0, False, args')
        | CONV_STRING \<Rightarrow> map_option (\<lambda>s. (s, 0, False, args')) (npf_string m fs (unat v))
        | CONV_SIGNED_INT \<Rightarrow>
            Some (npf_digits fs 10 (if sint v < 0 then 0 - v else v), if sint v < 0 then 45 else prepend fs, v = 0, args')
        | CONV_OCTAL \<Rightarrow> Some (npf_digits fs 8 v, 0, v = 0, args')
        | CONV_UNSIGNED_INT \<Rightarrow> Some (npf_digits fs 10 v, 0, v = 0, args')
        | _ \<Rightarrow> Some (npf_digits fs 16 v, 0, v = 0, args')))"

section \<open>Padding\<close>

definition npf_pad_c :: "npf_format_spec \<Rightarrow> bool \<Rightarrow> u8" where
  "npf_pad_c fs zero =
     (if field_width_opt fs = OPT_NONE then 0
      else if leading_zero_pad fs \<and> \<not> left_justified fs then
        (if prec_opt fs \<noteq> OPT_NONE \<and> prec fs = 0 \<and> zero then 32 else 48)
      else 32)"

definition npf_layout :: "npf_format_spec \<Rightarrow> u8 list \<Rightarrow> u8 \<Rightarrow> bool \<Rightarrow> u8 list" where
  "npf_layout fs text sign_c zero =
     (let pad_c = npf_pad_c fs zero;
          prec_pad = (if conv_spec fs = CONV_STRING then 0 else max 0 (prec fs - int (length text)));
          sgn = (if sign_c = 0 then [] else [sign_c]);
          field_pad = replicate (nat (max 0 (field_width fs - int (length text) - int (length sgn) - prec_pad))) pad_c;
          zeros = replicate (nat prec_pad) 48
      in (if \<not> left_justified fs \<and> pad_c \<noteq> 0 then
            (if pad_c = 48 then sgn @ field_pad @ zeros @ text else field_pad @ sgn @ zeros @ text)
          else sgn @ zeros @ text) @
         (if left_justified fs \<and> pad_c \<noteq> 0 then field_pad else []))"

definition npf_item :: "mem \<Rightarrow> npf_format_spec \<Rightarrow> u32 list \<Rightarrow> (u8 list \<times> u32 list) option" where
  "npf_item m fs args =
     Option.bind (npf_star_width fs args) (\<lambda>(fs1, args1).
       Option.bind (npf_star_prec fs1 args1) (\<lambda>(fs2, args2).
         let fs3 = npf_adjust fs2 in
         map_option (\<lambda>(text, sign_c, zero, args3). (npf_layout fs3 text sign_c zero, args3)) (npf_payload m fs3 args2)))"

section \<open>The loop\<close>

lemma npf_flags_length: "npf_flags cs fs = (fs', cs') \<Longrightarrow> length cs' \<le> length cs"
  by (induction cs fs rule: npf_flags.induct) (auto simp: le_SucI split: if_splits)

lemma npf_number_length: "npf_number n cs = Some (n', cs') \<Longrightarrow> length cs' \<le> length cs"
  by (induction n cs rule: npf_number.induct) (auto simp: Let_def le_SucI split: if_splits)

lemma tl_length: "length (tl cs) \<le> length cs"
  by simp

lemma npf_parse_length: "npf_parse_format_spec cs = Some (Some (fs, cs')) \<Longrightarrow> length cs' \<le> length cs"
proof -
  assume a: "npf_parse_format_spec cs = Some (Some (fs, cs'))"
  obtain fs1 cs1 where f: "npf_flags cs npf_spec0 = (fs1, cs1)" by fastforce
  have w: "length (snd x) \<le> length xs" if "npf_width xs gs = Some x" for xs gs x
    using that npf_number_length by (fastforce simp: npf_width_def split: if_splits)
  have p: "length (snd x) \<le> length xs" if "npf_prec xs gs = Some x" for xs gs x
    using that npf_number_length by (fastforce simp: npf_prec_def Let_def dest!: npf_number_length split: if_splits)
  have c: "length (snd x) \<le> length xs" if "npf_convert xs gs = Some x" for xs gs x
    using that by (auto simp: npf_convert_def Let_def split: if_splits)
  from a f obtain x y where x: "npf_width cs1 fs1 = Some x" and y: "npf_prec (snd x) (fst x) = Some y"
    and z: "npf_convert (snd y) (fst y) = Some (fs, cs') \<or>
      npf_convert (tl (snd y)) ((fst y)\<lparr>len_long := True\<rparr>) = Some (fs, cs')"
    by (auto simp: npf_parse_format_spec_def bind_eq_Some_conv split: if_splits)
  from z c have "length cs' \<le> length (snd y)" using tl_length [of "snd y"] by fastforce
  with w [OF x] p [OF y] npf_flags_length [OF f] show ?thesis by linarith
qed

function npf_vpprintf :: "mem \<Rightarrow> u8 list \<Rightarrow> u32 list \<Rightarrow> u8 list option" where
  "npf_vpprintf m [] args = Some []"
| "npf_vpprintf m (c # cs) args =
     (if c \<noteq> 37 then map_option (\<lambda>out. c # out) (npf_vpprintf m cs args)
      else case npf_parse_format_spec cs of
             None \<Rightarrow> None
           | Some None \<Rightarrow> map_option (\<lambda>out. c # out) (npf_vpprintf m cs args)
           | Some (Some (fs, rest)) \<Rightarrow>
               Option.bind (npf_item m fs args) (\<lambda>(text, args').
                 map_option (\<lambda>out. text @ out) (npf_vpprintf m rest args')))"
  by pat_completeness auto
termination
  by (relation "measure (\<lambda>(m, cs, args). length cs)") (auto dest: npf_parse_length)

text \<open>\<^verbatim>\<open>npf_vsnprintf\<close>: the characters that fit, then the terminator; the result is the full length.\<close>

definition npf_bufputc :: "addr \<Rightarrow> nat \<Rightarrow> mem \<times> nat \<Rightarrow> u8 \<Rightarrow> mem \<times> nat" where
  "npf_bufputc dst len mc c = (if snd mc < len then ((fst mc)(dst + snd mc := c), snd mc + 1) else mc)"

definition npf_vsnprintf :: "addr \<Rightarrow> nat \<Rightarrow> u8 list \<Rightarrow> u32 list \<Rightarrow> mem \<Rightarrow> (nat \<times> mem) option" where
  "npf_vsnprintf buf bufsz fmt args m =
     map_option (\<lambda>out.
       let n = length out;
           m1 = (if buf = NULL then m else fst (foldl (npf_bufputc buf bufsz) (m, 0) out))
       in (n, if buf \<noteq> NULL \<and> bufsz \<noteq> 0 then m1(buf + min n (bufsz - 1) := 0) else m1))
       (npf_vpprintf m fmt args)"

section \<open>Numbers\<close>

text \<open>Reading digits of any base up to 16 back.\<close>

definition digit_value :: "u8 \<Rightarrow> nat" where
  "digit_value c = (if c \<le> 57 then unat c - 48 else if c \<le> 70 then unat c - 55 else unat c - 87)"

definition num_val :: "nat \<Rightarrow> u8 list \<Rightarrow> nat" where
  "num_val b ds = foldl (\<lambda>n c. n * b + digit_value c) 0 ds"

lemma num_val_snoc [simp]: "num_val b (ds @ [c]) = num_val b ds * b + digit_value c"
  by (simp add: num_val_def)

lemma digit_char_unat:
  "d < 10 \<Longrightarrow> unat (digit_char adj d) = 48 + d"
  "10 \<le> d \<Longrightarrow> d < 16 \<Longrightarrow> unat (digit_char 0 d) = 55 + d"
  "10 \<le> d \<Longrightarrow> d < 16 \<Longrightarrow> unat (digit_char 32 d) = 87 + d"
  by (simp_all add: digit_char_def unat_word_ariths unat_of_nat take_bit_nat_eq_self)

lemma digit_char_value: "d < 16 \<Longrightarrow> adj = 0 \<or> adj = 32 \<Longrightarrow> digit_value (digit_char adj d) = d"
  by (cases "d < 10") (auto simp: digit_value_def word_le_nat_alt digit_char_unat)

lemma digit_char_dec:
  "d < 10 \<Longrightarrow> isdigit (digit_char adj d)" "d < 10 \<Longrightarrow> uint (digit_char adj d) - 48 = int d"
  "d < 10 \<Longrightarrow> digit_char adj d = 48 \<longleftrightarrow> d = 0"
  by (simp_all add: isdigit_iff word_unat_eq_iff digit_char_unat uint_nat)

declare npf_utoa_rev.simps [simp del]

lemma utoa_induct [case_names last more]:
  assumes "\<And>v. v < b \<Longrightarrow> P v" "\<And>v. b \<le> v \<Longrightarrow> P (v div b) \<Longrightarrow> P v" "2 \<le> b"
  shows "P (v :: nat)"
proof (induction v rule: less_induct)
  case (less v)
  show ?case
  proof (cases "v < b")
    case False
    then have "v div b < v" using assms(3) by (intro div_less_dividend) auto
    with less False assms(2) show ?thesis by simp
  qed (rule assms(1))
qed

lemma utoa_last: "v < b \<Longrightarrow> 2 \<le> b \<Longrightarrow> npf_utoa_rev b adj v = [digit_char adj v]"
  by (subst npf_utoa_rev.simps) simp

lemma utoa_more: "b \<le> v \<Longrightarrow> 2 \<le> b \<Longrightarrow> npf_utoa_rev b adj v = digit_char adj (v mod b) # npf_utoa_rev b adj (v div b)"
  by (subst npf_utoa_rev.simps) (simp add: div_eq_0_iff)

lemma utoa_value:
  assumes "2 \<le> b" "b \<le> 16" "adj = 0 \<or> adj = 32"
  shows "num_val b (rev (npf_utoa_rev b adj v)) = v"
  using assms(1)
proof (induction v rule: utoa_induct [where b = b])
  case (more v)
  have "v mod b < b" using assms by simp
  then have "v mod b < 16" using assms(2) by linarith
  then show ?case using more assms by (simp add: utoa_more digit_char_value)
qed (use assms in \<open>simp_all add: utoa_last num_val_def digit_char_value\<close>)

lemma utoa_dec:
  "list_all isdigit (npf_utoa_rev 10 adj v) \<and> dec_val (rev (npf_utoa_rev 10 adj v)) = int v \<and>
   npf_utoa_rev 10 adj v \<noteq> [] \<and> (last (npf_utoa_rev 10 adj v) = 48 \<longleftrightarrow> v = 0)"
proof (induction v rule: utoa_induct [where b = 10])
  case (last v)
  then show ?case by (simp add: utoa_last digit_char_dec dec_val_def dec_step_def)
next
  case (more v)
  have "int v = int (v div 10) * 10 + int (v mod 10)" by (metis div_mult_mod_eq of_nat_add of_nat_mult of_nat_numeral)
  with more show ?case by (auto simp: utoa_more digit_char_dec dec_val_def dec_step_def div_eq_0_iff)
qed simp

lemma utoa_length:
  assumes "2 \<le> b"
  shows "v < b ^ n \<Longrightarrow> 0 < n \<Longrightarrow> length (npf_utoa_rev b adj v) \<le> n"
proof (induction n arbitrary: v)
  case (Suc n)
  show ?case
  proof (cases "v < b")
    case False
    then have "v div b < b ^ n" using Suc.prems(1) assms by (simp add: div_less_iff_less_mult mult.commute)
    moreover have "0 < n" using False Suc.prems(1) by (cases n) auto
    ultimately show ?thesis using Suc.IH False assms by (simp add: utoa_more)
  qed (use assms in \<open>simp add: utoa_last\<close>)
qed simp

text \<open>\<^verbatim>\<open>cbuf\<close> has 23 bytes; a number never needs more than 11.\<close>

lemma utoa_fits: "b \<in> {8, 10, 16} \<Longrightarrow> length (npf_utoa_rev b adj (unat (v :: u32))) \<le> 11"
proof (rule utoa_length)
  assume b: "b \<in> {8, 10, 16}"
  have "unat v < 2 ^ 32" using unsigned_less [of v] by simp
  moreover have "(2::nat) ^ 32 \<le> b ^ 11" using b by auto
  ultimately show "unat v < b ^ 11" by linarith
qed auto

section \<open>Directives\<close>

text \<open>A directive as it is written: flags, width, precision and conversion; \<open>d_upper\<close> for \<^verbatim>\<open>X\<close>.\<close>

record directive =
  d_left :: bool
  d_zero :: bool
  d_plus :: bool
  d_space :: bool
  d_width :: "nat option"
  d_prec :: "nat option"
  d_conv :: npf_conv
  d_upper :: bool

definition dec :: "nat \<Rightarrow> u8 list" where
  "dec n = rev (npf_utoa_rev 10 0 n)"

definition d_flags :: "directive \<Rightarrow> u8 list" where
  "d_flags d = (if d_left d then [45] else []) @ (if d_zero d then [48] else []) @
     (if d_plus d then [43] else []) @ (if d_space d then [32] else [])"

definition d_char :: "directive \<Rightarrow> u8" where
  "d_char d = (case d_conv d of CONV_PERCENT \<Rightarrow> 37 | CONV_CHAR \<Rightarrow> 99 | CONV_STRING \<Rightarrow> 115 | CONV_SIGNED_INT \<Rightarrow> 100
     | CONV_OCTAL \<Rightarrow> 111 | CONV_HEX_INT \<Rightarrow> (if d_upper d then 88 else 120) | CONV_UNSIGNED_INT \<Rightarrow> 117 | CONV_POINTER \<Rightarrow> 112)"

definition d_format :: "directive \<Rightarrow> u8 list" where
  "d_format d = d_flags d @ (case d_width d of None \<Rightarrow> [] | Some w \<Rightarrow> dec w) @
     (case d_prec d of None \<Rightarrow> [] | Some p \<Rightarrow> 46 # dec p) @ [d_char d]"

text \<open>Widths are positive; numbers fit an \<^verbatim>\<open>int\<close>; \<^verbatim>\<open>X\<close> is the only conversion in capitals.\<close>

definition d_ok :: "directive \<Rightarrow> bool" where
  "d_ok d \<longleftrightarrow> (\<forall>w. d_width d = Some w \<longrightarrow> 0 < w \<and> w < 2 ^ 31) \<and> (\<forall>p. d_prec d = Some p \<longrightarrow> p < 2 ^ 31) \<and>
     (d_upper d \<longrightarrow> d_conv d = CONV_HEX_INT)"

definition d_spec :: "directive \<Rightarrow> npf_format_spec" where
  "d_spec d = \<lparr>field_width = (case d_width d of None \<Rightarrow> 0 | Some w \<Rightarrow> int w),
     prec = (case d_prec d of None \<Rightarrow> 0 | Some p \<Rightarrow> int p),
     prec_opt = (if d_prec d = None then OPT_NONE else OPT_LITERAL),
     field_width_opt = (if d_width d = None then OPT_NONE else OPT_LITERAL),
     left_justified = d_left d, leading_zero_pad = d_zero d,
     prepend = (if d_plus d then 43 else if d_space d then 32 else 0),
     case_adjust = (if d_upper d then 0 else 32), len_long = False, conv_spec = d_conv d\<rparr>"

lemma dec_props: "list_all isdigit (dec n)" "dec_val (dec n) = int n" "dec n \<noteq> []" "hd (dec n) = 48 \<longleftrightarrow> n = 0"
  using utoa_dec [of 0 n] by (simp_all add: dec_def hd_rev)

lemma isdigit_range: "isdigit c \<longleftrightarrow> 48 \<le> c \<and> c \<le> 57"
  by (simp add: isdigit_iff word_le_nat_alt)

lemma npf_number_digits:
  assumes "list_all isdigit ds" "0 \<le> n" "foldl dec_step n ds < 2 ^ 31" "rest = [] \<or> \<not> isdigit (hd rest)"
  shows "npf_number n (ds @ rest) = Some (foldl dec_step n ds, rest)"
  using assms(1-3)
proof (induction ds arbitrary: n)
  case Nil
  then show ?case using assms(4) by (cases rest) (auto simp: isdigit_range)
next
  case (Cons c ds)
  have ge: "0 \<le> dec_step n c" using Cons.prems dec_step_ge [of c n] by simp
  have "dec_step n c \<le> foldl dec_step (dec_step n c) ds" by (rule dec_fold_mono) (use Cons.prems ge in auto)
  then have lt: "dec_step n c < 2 ^ 31" using Cons.prems(3) by simp
  have "npf_number n (c # ds @ rest) = npf_number (dec_step n c) (ds @ rest)"
    using lt Cons.prems(1) by (simp add: isdigit_range dec_step_def Let_def)
  with Cons ge show ?case by simp
qed

lemma npf_number_dec: "n < 2 ^ 31 \<Longrightarrow> rest = [] \<or> \<not> isdigit (hd rest) \<Longrightarrow> npf_number 0 (dec n @ rest) = Some (int n, rest)"
  using npf_number_digits [of "dec n" 0 rest] dec_props [of n] by (simp add: dec_val_def)

lemma npf_flags_format:
  assumes "rest \<noteq> []" "hd rest \<notin> {45, 48, 43, 32}"
  shows "npf_flags (d_flags d @ rest) npf_spec0 =
    (npf_spec0\<lparr>left_justified := d_left d, leading_zero_pad := d_zero d,
       prepend := (if d_plus d then 43 else if d_space d then 32 else 0)\<rparr>, rest)"
  using assms by (cases rest) (auto simp: d_flags_def npf_spec0_def)

lemma d_char_no_digit: "\<not> isdigit (d_char d)" "d_char d \<notin> {42, 45, 46, 43, 32, 48, 108}"
  by (cases "d_conv d"; simp add: d_char_def isdigit_range)+

lemma dec_hd: "isdigit (hd (dec n @ rest))" "hd (dec n @ rest) = 48 \<longleftrightarrow> n = 0"
  using dec_props [of n] by (cases "dec n"; simp)+

lemma npf_parse_format:
  assumes "d_ok d"
  shows "npf_parse_format_spec (d_format d @ rest) = Some (Some (d_spec d, rest))"
proof -
  let ?p = "(case d_prec d of None \<Rightarrow> [] | Some p \<Rightarrow> 46 # dec p) @ d_char d # rest"
  let ?w = "(case d_width d of None \<Rightarrow> [] | Some w \<Rightarrow> dec w) @ ?p"
  let ?f = "npf_spec0\<lparr>left_justified := d_left d, leading_zero_pad := d_zero d,
       prepend := (if d_plus d then 43 else if d_space d then 32 else 0)\<rparr>"
  let ?fw = "?f\<lparr>field_width := (case d_width d of None \<Rightarrow> 0 | Some w \<Rightarrow> int w),
     field_width_opt := (if d_width d = None then OPT_NONE else OPT_LITERAL)\<rparr>"
  let ?fp = "?fw\<lparr>prec := (case d_prec d of None \<Rightarrow> 0 | Some p \<Rightarrow> int p),
     prec_opt := (if d_prec d = None then OPT_NONE else OPT_LITERAL)\<rparr>"
  have hp: "?p \<noteq> []" "\<not> isdigit (hd ?p)" "hd ?p \<notin> {42, 45, 43, 32, 48}"
    using d_char_no_digit [of d] by (auto simp: isdigit_range split: option.splits)
  have hw: "?w \<noteq> []" "hd ?w \<notin> {45, 48, 43, 32, 42}"
  proof -
    show "?w \<noteq> []" using hp(1) by simp
    show "hd ?w \<notin> {45, 48, 43, 32, 42}"
    proof (cases "d_width d")
      case None
      with hp(3) show ?thesis by auto
    next
      case (Some n)
      with assms have "0 < n" by (simp add: d_ok_def)
      with Some dec_hd [of n ?p] show ?thesis by (auto simp: isdigit_range)
    qed
  qed
  have f: "npf_flags (d_format d @ rest) npf_spec0 = (?f, ?w)"
    using npf_flags_format [of ?w d] hw by (simp add: d_format_def)
  have w: "npf_width ?w ?f = Some (?fw, ?p)"
  proof -
    have "at_cur ?w \<noteq> 42" using hw by (cases ?w) (auto simp: at_cur_def)
    moreover have "npf_number 0 ?p = Some (0, ?p)" using hp(1,2) npf_number_digits [of "[]" 0 ?p] by simp
    moreover have "npf_number 0 (dec n @ ?p) = Some (int n, ?p)" if "d_width d = Some n" for n
      using npf_number_dec [of n ?p] hp(2) assms that by (simp add: d_ok_def)
    ultimately show ?thesis using dec_props(3) by (cases "d_width d") (auto simp: npf_width_def)
  qed
  have p: "npf_prec ?p ?fw = Some (?fp, d_char d # rest)"
  proof (cases "d_prec d")
    case None
    then show ?thesis using d_char_no_digit(2) [of d] by (simp add: npf_prec_def at_cur_def npf_spec0_def)
  next
    case (Some n)
    have "at_cur (dec n @ d_char d # rest) \<notin> {42, 45}"
      using dec_hd(1) [of n "d_char d # rest"] dec_props(3) [of n] by (cases "dec n") (auto simp: at_cur_def isdigit_range)
    moreover have "npf_number 0 (dec n @ d_char d # rest) = Some (int n, d_char d # rest)"
      using npf_number_dec [of n "d_char d # rest"] d_char_no_digit(1) assms Some by (simp add: d_ok_def)
    ultimately show ?thesis using Some by (simp add: npf_prec_def at_cur_def npf_spec0_def)
  qed
  have c: "npf_convert (d_char d # rest) ?fp = Some (d_spec d, rest)"
    using assms by (cases "d_conv d") (auto simp: npf_convert_def d_char_def at_cur_def d_spec_def d_ok_def npf_spec0_def)
  show ?thesis using d_char_no_digit(2) [of d] by (simp add: npf_parse_format_spec_def f w p c at_cur_def)
qed

section \<open>What a directive means\<close>

text \<open>An argument: none, a number, or a pointer with the string it points to.\<close>

datatype npf_arg = N_none | N_word u32 | N_str u32 "u8 list"

fun a_words :: "npf_arg \<Rightarrow> u32 list" where
  "a_words N_none = []"
| "a_words (N_word w) = [w]"
| "a_words (N_str p s) = [p]"

text \<open>The digits of a number, at least as many as the precision asks for.\<close>

fun num_text :: "nat \<Rightarrow> bool \<Rightarrow> nat \<Rightarrow> u8 list" where
  "num_text b up v =
     (if v < b \<or> b < 2 then [digit_char (if up then 0 else 32) v]
      else num_text b up (v div b) @ [digit_char (if up then 0 else 32) (v mod b)])"

declare num_text.simps [simp del]

definition num_body :: "directive \<Rightarrow> nat \<Rightarrow> nat \<Rightarrow> u8 list" where
  "num_body d b v =
     (let t = num_text b (d_upper d) v in
      case d_prec d of None \<Rightarrow> t
      | Some p \<Rightarrow> if v = 0 \<and> p = 0 then [] else replicate (p - length t) 48 @ t)"

definition num_sign :: "directive \<Rightarrow> u32 \<Rightarrow> u8 list" where
  "num_sign d v = (if sint v < 0 then [45] else if d_plus d then [43] else if d_space d then [32] else [])"

text \<open>The field: blanks before or after, or zeros between the sign and the digits.\<close>

definition in_field :: "directive \<Rightarrow> u8 list \<Rightarrow> u8 list \<Rightarrow> u8 list" where
  "in_field d sg body =
     (let gap = (case d_width d of None \<Rightarrow> 0 | Some w \<Rightarrow> w) - length sg - length body in
      if d_left d then sg @ body @ replicate gap 32
      else if d_zero d \<and> d_prec d = None then sg @ replicate gap 48 @ body
      else replicate gap 32 @ sg @ body)"

fun d_text :: "directive \<Rightarrow> npf_arg \<Rightarrow> u8 list" where
  "d_text d N_none = in_field d [] [37]"
| "d_text d (N_str p s) = in_field d [] (case d_prec d of None \<Rightarrow> s | Some n \<Rightarrow> take n s)"
| "d_text d (N_word v) =
     (case d_conv d of
        CONV_CHAR \<Rightarrow> in_field d [] [ucast v]
      | CONV_SIGNED_INT \<Rightarrow> in_field d (num_sign d v) (num_body d 10 (nat \<bar>sint v\<bar>))
      | CONV_OCTAL \<Rightarrow> in_field d [] (num_body d 8 (unat v))
      | CONV_UNSIGNED_INT \<Rightarrow> in_field d [] (num_body d 10 (unat v))
      | CONV_HEX_INT \<Rightarrow> in_field d [] (num_body d 16 (unat v))
      | _ \<Rightarrow> in_field d [] (num_body (d\<lparr>d_prec := Some 8\<rparr>) 16 (unat v)))"

text \<open>Directives the language defines: the zero flag only for numbers, a precision only for integers and strings.\<close>

definition d_legal :: "directive \<Rightarrow> bool" where
  "d_legal d \<longleftrightarrow> d_ok d \<and> (d_conv d \<in> {CONV_PERCENT, CONV_CHAR, CONV_STRING} \<longrightarrow> \<not> d_zero d) \<and>
     (d_conv d \<in> {CONV_PERCENT, CONV_CHAR, CONV_POINTER} \<longrightarrow> d_prec d = None)"

definition arg_ok :: "mem \<Rightarrow> directive \<Rightarrow> npf_arg \<Rightarrow> bool" where
  "arg_ok m d a \<longleftrightarrow> (case a of
     N_none \<Rightarrow> d_conv d = CONV_PERCENT
   | N_str p s \<Rightarrow> d_conv d = CONV_STRING \<and> (if p = 0 then s = [] else cstr m (unat p) s)
   | N_word w \<Rightarrow> d_conv d \<notin> {CONV_PERCENT, CONV_STRING})"

lemma num_text_utoa:
  assumes "2 \<le> b"
  shows "num_text b up v = rev (npf_utoa_rev b (if up then 0 else 32) v)"
  using assms
proof (induction v rule: utoa_induct [where b = b])
  case (more v)
  then show ?case using assms by (subst num_text.simps) (simp add: utoa_more)
qed (use assms in \<open>simp_all add: num_text.simps utoa_last\<close>)

lemma npf_strnlen_cstr: "cstr m p s \<Longrightarrow> npf_strnlen n m p = min n (length s)"
  by (induction n arbitrary: p s; case_tac s) auto

lemma cstr_chars: "cstr m p s \<Longrightarrow> n \<le> length s \<Longrightarrow> map (\<lambda>i. m (p + i)) [0..<n] = take n s"
  by (auto simp: cstr_nth intro: nth_equalityI)

lemma take_min_length: "take (min n (length s)) s = take n s"
  by (simp add: min_def)

lemma abs_unat: "unat (if sint v < 0 then 0 - v else v) = nat \<bar>sint (v :: u32)\<bar>"
proof -
  have r: "- (2 ^ 31) \<le> sint v" "sint v < 2 ^ 31" using sint_greater_eq [of v] sint_less [of v] by simp_all
  have u: "unat (word_of_int k :: u32) = nat k" if "0 \<le> k" "k < 2 ^ 32" for k
    using that by (simp add: unat_eq_nat_uint uint_word_of_int take_bit_int_eq_self)
  have "0 - v = word_of_int (- sint v)" "v = word_of_int (sint v)" by simp_all
  with r u [of "- sint v"] u [of "sint v"] show ?thesis by (cases "sint v < 0") simp_all
qed

lemma gap_eq: "nat (max 0 (int w - int a - int s - max 0 (int p - int a))) = w - s - (p - a + a)"
  by linarith

lemma layout_field:
  assumes "d_legal d" "conv_spec fs = d_conv d" "field_width fs = (case d_width d of None \<Rightarrow> 0 | Some w \<Rightarrow> int w)"
    "field_width_opt fs = (if d_width d = None then OPT_NONE else OPT_LITERAL)" "left_justified fs = d_left d"
    "leading_zero_pad fs \<longleftrightarrow> d_zero d \<and> d_prec d = None" "d_conv d \<noteq> CONV_STRING \<longrightarrow> prec fs = int q" "d_conv d = CONV_STRING \<longrightarrow> q = 0"
    "prec_opt fs \<noteq> OPT_NONE \<longrightarrow> \<not> leading_zero_pad fs"
  shows "npf_layout fs text sg zero = in_field d (if sg = 0 then [] else [sg]) (replicate (q - length text) 48 @ text)"
proof -
  have z: "(if conv_spec fs = CONV_STRING then 0 else max 0 (prec fs - int (length text))) = max 0 (int q - int (length text))"
    using assms(2,7,8) by auto
  have n: "nat (max 0 (int q - int (length text))) = q - length text" by linarith
  show ?thesis
  proof (cases "d_width d")
    case None
    then show ?thesis unfolding npf_layout_def z n npf_pad_c_def in_field_def Let_def using assms(4) by simp
  next
    case (Some w)
    have pc: "npf_pad_c fs zero = (if d_zero d \<and> d_prec d = None \<and> \<not> d_left d then 48 else 32)"
      using assms(4-6,9) Some by (auto simp: npf_pad_c_def)
    have fw: "field_width fs = int w" using assms(3) Some by simp
    show ?thesis
      unfolding npf_layout_def z n pc in_field_def Let_def fw gap_eq using Some assms(5) by simp
  qed
qed

definition d_min :: "directive \<Rightarrow> nat" where
  "d_min d = (case d_prec d of None \<Rightarrow> if d_conv d = CONV_POINTER then 8 else 0 | Some p \<Rightarrow> p)"

lemma adjust_spec:
  assumes "d_legal d"
  shows "conv_spec (npf_adjust (d_spec d)) = d_conv d" "prec (npf_adjust (d_spec d)) = int (d_min d)"
    "prec_opt (npf_adjust (d_spec d)) = (if d_prec d = None then OPT_NONE else OPT_LITERAL)"
    "case_adjust (npf_adjust (d_spec d)) = (if d_upper d then 0 else 32)"
    "prepend (npf_adjust (d_spec d)) = (if d_plus d then 43 else if d_space d then 32 else 0)"
    "leading_zero_pad (npf_adjust (d_spec d)) \<longleftrightarrow> d_zero d \<and> d_prec d = None"
    "field_width (npf_adjust (d_spec d)) = (case d_width d of None \<Rightarrow> 0 | Some w \<Rightarrow> int w)"
    "field_width_opt (npf_adjust (d_spec d)) = (if d_width d = None then OPT_NONE else OPT_LITERAL)"
    "left_justified (npf_adjust (d_spec d)) = d_left d"
  using assms
  by (cases "d_conv d"; auto simp: npf_adjust_def d_spec_def d_min_def d_legal_def Let_def split: option.splits)+

lemma item_field:
  assumes "d_legal d"
  shows "npf_layout (npf_adjust (d_spec d)) text sg zero = in_field d (if sg = 0 then [] else [sg])
    (if d_conv d = CONV_STRING then text else replicate (d_min d - length text) 48 @ text)"
  by (subst layout_field [OF assms, where q = "if d_conv d = CONV_STRING then 0 else d_min d"])
    (use adjust_spec [OF assms] in auto)

lemma digits_body:
  assumes "d_legal d" "2 \<le> b"
  shows "replicate (d_min d - length (npf_digits (npf_adjust (d_spec d)) b v)) 48 @ npf_digits (npf_adjust (d_spec d)) b v =
    num_body (if d_conv d = CONV_POINTER then d\<lparr>d_prec := Some 8\<rparr> else d) b (unat v)"
  using adjust_spec [OF assms(1)] assms
  by (auto simp: npf_digits_def num_body_def num_text_utoa Let_def d_min_def d_legal_def unat_eq_0 split: option.splits)

lemma item_payload:
  "npf_item m (d_spec d) args =
     map_option (\<lambda>(text, sg, zero, args'). (npf_layout (npf_adjust (d_spec d)) text sg zero, args'))
       (npf_payload m (npf_adjust (d_spec d)) args)"
proof -
  have "field_width_opt (d_spec d) \<noteq> OPT_STAR" "prec_opt (d_spec d) \<noteq> OPT_STAR" by (simp_all add: d_spec_def)
  then show ?thesis by (simp add: npf_item_def npf_star_width_def npf_star_prec_def Let_def)
qed

lemma npf_item_text:
  assumes "d_legal d" "arg_ok m d a"
  shows "npf_item m (d_spec d) (a_words a @ args) = Some (d_text d a, args)"
proof (cases a)
  case N_none
  then have "d_min d = 0" "d_conv d = CONV_PERCENT" using assms by (auto simp: arg_ok_def d_min_def d_legal_def)
  then show ?thesis using N_none item_field [OF assms(1), of "[37]" 0 False] adjust_spec(1) [OF assms(1)]
    by (simp add: item_payload npf_payload_def)
next
  case (N_str p s)
  then have c: "d_conv d = CONV_STRING" and s: "if p = 0 then s = [] else cstr m (unat p) s"
    using assms(2) by (auto simp: arg_ok_def)
  let ?t = "case d_prec d of None \<Rightarrow> s | Some n \<Rightarrow> take n s"
  have "npf_string m (npf_adjust (d_spec d)) (unat p) = Some ?t"
    using s adjust_spec(2,3) [OF assms(1)] c
    by (auto simp: npf_string_def unat_eq_0 strlen_cstr npf_strnlen_cstr cstr_chars take_min_length d_min_def split: option.splits if_splits)
  moreover have "npf_layout (npf_adjust (d_spec d)) ?t 0 False = in_field d [] ?t"
    using item_field [OF assms(1), of ?t 0 False] c by simp
  ultimately show ?thesis using N_str c adjust_spec(1) [OF assms(1)]
    by (simp add: item_payload npf_payload_def va_arg_def)
next
  case (N_word v)
  then have c: "d_conv d \<notin> {CONV_PERCENT, CONV_STRING}" using assms(2) by (simp add: arg_ok_def)
  note f = item_field [OF assms(1)] and b = digits_body [OF assms(1)] and ad = adjust_spec [OF assms(1)]
  have sg: "(if (if sint v < 0 then 45 else prepend (npf_adjust (d_spec d))) = (0 :: u8) then []
     else [if sint v < 0 then 45 else prepend (npf_adjust (d_spec d))]) = num_sign d v"
    using ad(5) by (simp add: num_sign_def)
  have pl: "npf_payload m (npf_adjust (d_spec d)) (v # args) =
    (case d_conv d of
       CONV_CHAR \<Rightarrow> Some ([ucast v], 0, False, args)
     | CONV_SIGNED_INT \<Rightarrow> Some (npf_digits (npf_adjust (d_spec d)) 10 (if sint v < 0 then 0 - v else v),
         if sint v < 0 then 45 else prepend (npf_adjust (d_spec d)), v = 0, args)
     | CONV_OCTAL \<Rightarrow> Some (npf_digits (npf_adjust (d_spec d)) 8 v, 0, v = 0, args)
     | CONV_UNSIGNED_INT \<Rightarrow> Some (npf_digits (npf_adjust (d_spec d)) 10 v, 0, v = 0, args)
     | _ \<Rightarrow> Some (npf_digits (npf_adjust (d_spec d)) 16 v, 0, v = 0, args))"
    using c by (cases "d_conv d") (simp_all add: npf_payload_def va_arg_def ad(1))
  have mn: "d_conv d = CONV_CHAR \<Longrightarrow> d_min d = 0" using assms(1) by (simp add: d_min_def d_legal_def)
  have b10: "replicate (d_min d - length (npf_digits (npf_adjust (d_spec d)) 10 (if sint v < 0 then 0 - v else v))) 48 @
      npf_digits (npf_adjust (d_spec d)) 10 (if sint v < 0 then 0 - v else v) = num_body d 10 (nat \<bar>sint v\<bar>)"
    if "d_conv d = CONV_SIGNED_INT" using b [of 10 "if sint v < 0 then 0 - v else v"] that unfolding abs_unat by simp
  show ?thesis
    by (cases "d_conv d")
      (use c mn b [of 8 v] b [of 10 v] b [of 16 v] b10 in \<open>simp_all add: N_word item_payload pl f sg [symmetric]\<close>)
qed

section \<open>Formats\<close>

datatype piece = Plain "u8 list" | Direct directive npf_arg

fun pc_format :: "piece \<Rightarrow> u8 list" where
  "pc_format (Plain s) = s"
| "pc_format (Direct d a) = 37 # d_format d"

fun pc_args :: "piece \<Rightarrow> u32 list" where
  "pc_args (Plain s) = []"
| "pc_args (Direct d a) = a_words a"

fun pc_text :: "piece \<Rightarrow> u8 list" where
  "pc_text (Plain s) = s"
| "pc_text (Direct d a) = d_text d a"

fun piece_ok :: "mem \<Rightarrow> piece \<Rightarrow> bool" where
  "piece_ok m (Plain s) = (37 \<notin> set s)"
| "piece_ok m (Direct d a) = (d_legal d \<and> arg_ok m d a)"

lemma vpprintf_plain: "37 \<notin> set s \<Longrightarrow> npf_vpprintf m (s @ cs) args = map_option (\<lambda>out. s @ out) (npf_vpprintf m cs args)"
  by (cases "npf_vpprintf m cs args"; induction s) auto

lemma vpprintf_pieces:
  "list_all (piece_ok m) ps \<Longrightarrow>
   npf_vpprintf m (concat (map pc_format ps) @ cs) (concat (map pc_args ps) @ args) =
     map_option (\<lambda>out. concat (map pc_text ps) @ out) (npf_vpprintf m cs args)"
proof (induction ps)
  case Nil
  then show ?case by (cases "npf_vpprintf m cs args") auto
next
  case (Cons p ps)
  show ?case
  proof (cases p)
    case (Plain s)
    then show ?thesis using Cons by (simp add: vpprintf_plain option.map_comp o_def)
  next
    case (Direct d a)
    then have d: "d_legal d" "arg_ok m d a" using Cons.prems by simp_all
    from d(1) have "d_ok d" by (simp add: d_legal_def)
    then show ?thesis using Direct Cons npf_item_text [OF d]
      by (simp add: npf_parse_format option.map_comp o_def)
  qed
qed

lemma vpprintf_all:
  "list_all (piece_ok m) ps \<Longrightarrow>
   npf_vpprintf m (concat (map pc_format ps)) (concat (map pc_args ps)) = Some (concat (map pc_text ps))"
  using vpprintf_pieces [of m ps "[]" "[]"] by simp

text \<open>C31. The formatter prints what the language says: for every format put together from plain text and legal directives (any
  flags, width, precision and conversion) and every list of matching arguments, the characters produced are
  the plain text and the fields of the directives in order: digits of at least the precision, the sign, blanks or zeros
  up to the width, strings cut at the precision, a null string as nothing.\<close>

theorem printf_directives_correct:
  assumes "list_all (piece_ok m) ps"
  shows "npf_vpprintf m (concat (map pc_format ps)) (concat (map pc_args ps)) = Some (concat (map pc_text ps))"
  by (rule vpprintf_all [OF assms])

text \<open>\<^verbatim>\<open>[%-5d|%08x] %.2s\<close> of -42, 255 and \<^verbatim>\<open>abc\<close>\<close>

definition demo_dir :: "npf_conv \<Rightarrow> directive" where
  "demo_dir c = \<lparr>d_left = False, d_zero = False, d_plus = False, d_space = False, d_width = None, d_prec = None, d_conv = c,
     d_upper = False\<rparr>"

definition demo_pieces :: "piece list" where
  "demo_pieces = [Plain [91], Direct ((demo_dir CONV_SIGNED_INT)\<lparr>d_left := True, d_width := Some 5\<rparr>) (N_word (- 42)), Plain [124],
     Direct ((demo_dir CONV_HEX_INT)\<lparr>d_zero := True, d_width := Some 8\<rparr>) (N_word 255), Plain [93, 32],
     Direct ((demo_dir CONV_STRING)\<lparr>d_prec := Some 2\<rparr>) (N_str 100 [97, 98, 99])]"

lemma demo_text:
  "concat (map pc_text demo_pieces) = [91, 45, 52, 50, 32, 32, 124, 48, 48, 48, 48, 48, 48, 102, 102, 93, 32, 97, 98]"
  by (simp add: demo_pieces_def demo_dir_def in_field_def num_sign_def num_body_def num_text.simps digit_char_def Let_def)
    (simp add: eval_nat_numeral)

lemma demo_format:
  "concat (map pc_format demo_pieces) = [91, 37, 45, 53, 100, 124, 37, 48, 56, 120, 93, 32, 37, 46, 50, 115]"
  by (simp add: demo_pieces_def demo_dir_def d_format_def d_flags_def d_char_def dec_def utoa_last digit_char_def)

theorem printf_directives_correct_witness:
  "npf_vpprintf (put_str 100 [97, 98, 99] (\<lambda>_. 0)) [91, 37, 45, 53, 100, 124, 37, 48, 56, 120, 93, 32, 37, 46, 50, 115]
     [- 42, 255, 100] = Some [91, 45, 52, 50, 32, 32, 124, 48, 48, 48, 48, 48, 48, 102, 102, 93, 32, 97, 98]"
proof -
  have "list_all (piece_ok (put_str 100 [97, 98, 99] (\<lambda>_. 0))) demo_pieces"
    using cstr_put_str [of "[97, 98, 99]" 100 "\<lambda>_. 0"]
    by (simp add: demo_pieces_def demo_dir_def d_legal_def d_ok_def arg_ok_def)
  moreover have "concat (map pc_args demo_pieces) = [- 42, 255, 100]" by (simp add: demo_pieces_def)
  ultimately show ?thesis using printf_directives_correct [of "put_str 100 [97, 98, 99] (\<lambda>_. 0)" demo_pieces]
    by (simp only: demo_text demo_format)
qed

section \<open>Printed numbers read back\<close>

lemma dec_val_zeros: "dec_val (replicate k 48 @ ds) = dec_val ds"
proof -
  have "foldl dec_step 0 (replicate k 48) = 0" by (induction k) (simp_all add: dec_step_def)
  then show ?thesis by (simp add: dec_val_def)
qed

lemma num_body_dec:
  assumes "d_prec d \<noteq> Some 0"
  shows "list_all isdigit (num_body d 10 n) \<and> dec_val (num_body d 10 n) = int n \<and> num_body d 10 n \<noteq> []"
proof -
  have t: "list_all isdigit (num_text 10 up n)" "dec_val (num_text 10 up n) = int n" "num_text 10 up n \<noteq> []" for up
    using utoa_dec by (simp_all add: num_text_utoa)
  then show ?thesis using assms
    by (auto simp: num_body_def Let_def dec_val_zeros list_all_append isdigit_iff list_all_iff split: option.splits)
qed

text \<open>C32. Numbers survive printing: octal, decimal and hexadecimal digits, in either case, read in their base give the number
  back, and a 32-bit number never fills the conversion buffer of 23 bytes. What \<^verbatim>\<open>%d\<close> prints, with any precision but 0
  and with or without a plus sign, \<^verbatim>\<open>atoi\<close> reads back, for every number but the least.\<close>

theorem printed_number_reads_back:
  assumes "b \<in> {8, 10, 16}" "d_ok d" "d_conv d = CONV_SIGNED_INT" "d_width d = None" "\<not> d_space d" "d_prec d \<noteq> Some 0"
    and "- (2 ^ 31) < sint v"
  shows "num_val b (num_text b up n) = n \<and> length (npf_utoa_rev b adj (unat v)) < 23 \<and>
    (\<exists>out. npf_vpprintf m (37 # d_format d) [v] = Some out \<and> atoi (put_str q out m') q = Some (sint v))"
proof (intro conjI)
  show "num_val b (num_text b up n) = n" using utoa_value assms(1) by (auto simp: num_text_utoa)
  show "length (npf_utoa_rev b adj (unat v)) < 23" using utoa_fits [OF assms(1), of adj v] by linarith
  let ?sg = "num_sign d v" and ?ds = "num_body d 10 (nat \<bar>sint v\<bar>)"
  have "npf_vpprintf m (37 # d_format d) [v] = Some (d_text d (N_word v))"
    using vpprintf_all [of m "[Direct d (N_word v)]"] assms(2,3) by (simp add: d_legal_def arg_ok_def)
  moreover have "d_text d (N_word v) = ?sg @ ?ds" using assms(3,4) by (simp add: in_field_def Let_def)
  moreover have "atoi (put_str q (?sg @ ?ds) m') q = Some (sint v)"
  proof -
    have ds: "list_all isdigit ?ds" "?ds \<noteq> []" "dec_val ?ds = \<bar>sint v\<bar>" using num_body_dec [OF assms(6)] by simp_all
    have "0 \<notin> set ?ds" using ds(1) by (fastforce simp: list_all_iff isdigit_iff)
    then have "0 \<notin> set (?sg @ ?ds)" by (simp add: num_sign_def)
    then have "cstr (put_str q (?sg @ ?ds) m') q (?sg @ ?ds)" by (rule cstr_put_str)
    moreover have "?sg \<in> {[], [43], [45]}" using assms(5) by (simp add: num_sign_def)
    moreover have "dec_val ?ds < 2 ^ 31" using ds(3) assms(7) sint_less [of v] by auto
    ultimately have "atoi (put_str q (?sg @ ?ds) m') q = Some (if ?sg = [45] then - dec_val ?ds else dec_val ?ds)"
      using ds(1,2) by (intro atoi_number)
    then show ?thesis using ds(3) by (simp add: num_sign_def)
  qed
  ultimately show "\<exists>out. npf_vpprintf m (37 # d_format d) [v] = Some out \<and> atoi (put_str q out m') q = Some (sint v)" by auto
qed

theorem printed_number_reads_back_witness:
  "num_val 16 (num_text 16 True 48879) = 48879 \<and>
   (\<exists>out. npf_vpprintf (\<lambda>_. 0) (37 # d_format (demo_dir CONV_SIGNED_INT)) [- 7] = Some out \<and>
     atoi (put_str 50 out (\<lambda>_. 0)) 50 = Some (- 7))"
  using printed_number_reads_back [of 16 "demo_dir CONV_SIGNED_INT" "- 7" True 48879 0 "\<lambda>_. 0" 50 "\<lambda>_. 0"]
  by (simp add: demo_dir_def d_ok_def)

end
