(* ===== verification/Vid_Printf.thy ===== *)
theory Vid_Printf
  imports Vid_Npf Vid_Boot Fs_Devfs
begin

text \<open>
  Formatted output of the kernel (\<^verbatim>\<open>video/printf.c\<close>): \<^verbatim>\<open>printkf\<close> and its relatives, the formatter over the boot console and
  the terminal.  \<open>sp\<close> is where \<^verbatim>\<open>putchr\<close> keeps its character, which no argument points to.
\<close>

section \<open>Operations\<close>

definition printkf :: "sysenv \<Rightarrow> u32 \<Rightarrow> u8 list \<Rightarrow> u32 list \<Rightarrow> video \<times> user \<Rightarrow> (nat \<times> video \<times> user) option" where
  "printkf e sp fmt args vu =
     Option.bind (npf_vpprintf (k_mem (u_k (snd vu))) fmt args) (\<lambda>out.
       map_option (\<lambda>vu'. (length out, vu')) (printk e sp out vu))"

text \<open>\<^verbatim>\<open>_printkf\<close> writes to the boot console whatever \<^verbatim>\<open>mkadv\<close> has set.\<close>

fun puts_legacy :: "u8 list \<Rightarrow> video \<Rightarrow> video option" where
  "puts_legacy [] v = Some v"
| "puts_legacy (c # cs) v = Option.bind (putchr_legacy c v) (puts_legacy cs)"

definition printkf_legacy :: "u8 list \<Rightarrow> u32 list \<Rightarrow> video \<times> user \<Rightarrow> (nat \<times> video \<times> user) option" where
  "printkf_legacy fmt args vu =
     Option.bind (npf_vpprintf (k_mem (u_k (snd vu))) fmt args) (\<lambda>out.
       map_option (\<lambda>v'. (length out, v', snd vu)) (puts_legacy out (fst vu)))"

definition set_umem :: "mem \<Rightarrow> user \<Rightarrow> user" where
  "set_umem m u = u\<lparr>u_k := (u_k u)\<lparr>k_mem := m\<rparr>\<rparr>"

definition snprintkf :: "addr \<Rightarrow> nat \<Rightarrow> u8 list \<Rightarrow> u32 list \<Rightarrow> user \<Rightarrow> (nat \<times> user) option" where
  "snprintkf buf sz fmt args u = map_option (\<lambda>(n, m). (n, set_umem m u)) (npf_vsnprintf buf sz fmt args (k_mem (u_k u)))"

text \<open>\<^verbatim>\<open>print_init\<close>: \<open>ok\<close> and \<open>no\<close> are the addresses of the two literals.\<close>

definition init_fmt :: "u8 list" where
  "init_fmt = bytes ''[ '' @ [27, 0x0c] @ bytes ''%-8s'' @ [27, 0x0f] @ bytes ''] %-59s [ %s ]''"

definition print_init :: "sysenv \<Rightarrow> u32 \<Rightarrow> u32 \<times> u32 \<Rightarrow> u32 \<Rightarrow> u32 \<Rightarrow> u32 \<Rightarrow> video \<times> user \<Rightarrow> (video \<times> user) option" where
  "print_init e sp lits f s rc vu =
     map_option snd (printkf e sp init_fmt [f, s, if rc \<noteq> 0 then snd lits else fst lits] vu)"

definition info_fmt :: "u8 list" where
  "info_fmt = bytes ''[  '' @ [27, 0x0c] @ bytes ''%c'' @ [27, 0x07] @ bytes ''%-6s'' @ [27, 0x0f] @ bytes ''] %-59s'' @ [10]"

definition error_fmt :: "u8 list" where
  "error_fmt = bytes ''[  '' @ [27, 0x0c] @ bytes ''%c%-6s'' @ [27, 0x0f] @ bytes ''] %-59s'' @ [10]"

text \<open>\<^verbatim>\<open>print_info\<close> and \<^verbatim>\<open>print_error\<close> with the array \<open>buf\<close> on the stack.\<close>

definition print_info :: "sysenv \<Rightarrow> u32 \<Rightarrow> u32 \<Rightarrow> u32 \<Rightarrow> int \<Rightarrow> u8 list \<Rightarrow> u32 list \<Rightarrow> video \<times> user \<Rightarrow> (video \<times> user) option" where
  "print_info e sp buf s mto fmt args vu =
     Option.bind (snprintkf (unat buf) 60 fmt args (snd vu)) (\<lambda>(_, u).
       if mto < 2 then map_option snd (printkf e sp info_fmt [if mto = 0 then 0xc0 else 0xc3, s, buf] (fst vu, u))
       else if mto < 4 then map_option snd (printkf e sp info_fmt [if mto = 2 then 0xda else 0xc3, s, buf] (fst vu, u))
       else Some (fst vu, u))"

definition print_error :: "sysenv \<Rightarrow> u32 \<Rightarrow> u32 \<Rightarrow> u32 \<Rightarrow> int \<Rightarrow> u8 list \<Rightarrow> u32 list \<Rightarrow> video \<times> user \<Rightarrow> (video \<times> user) option" where
  "print_error e sp buf s mto fmt args vu =
     Option.bind (snprintkf (unat buf) 60 fmt args (snd vu)) (\<lambda>(_, u).
       map_option snd (printkf e sp error_fmt [if mto = 0 then 0xc0 else 0xc3, s, buf] (fst vu, u)))"

section \<open>Bounded printing\<close>

lemma bufputc_fold:
  "foldl (npf_bufputc dst len) (m, k) out =
     (\<lambda>x. if dst + k \<le> x \<and> x < dst + k + min (length out) (len - k) then out ! (x - dst - k) else m x,
      k + min (length out) (len - k))"
proof (induction out arbitrary: m k)
  case (Cons c out)
  show ?case
  proof (cases "k < len")
    case True
    then have mn: "min (length (c # out)) (len - k) = Suc (min (length out) (len - Suc k))" by simp
    have "foldl (npf_bufputc dst len) (m, k) (c # out) = foldl (npf_bufputc dst len) (m(dst + k := c), Suc k) out"
      using True by (simp add: npf_bufputc_def)
    then show ?thesis unfolding Cons.IH mn by (auto simp: fun_eq_iff nth_Cons' Suc_diff_Suc)
  next
    case False
    then have "foldl (npf_bufputc dst len) (m, k) (c # out) = foldl (npf_bufputc dst len) (m, k) out"
      by (simp add: npf_bufputc_def)
    then show ?thesis unfolding Cons.IH using False by (auto simp: fun_eq_iff)
  qed
qed (auto simp: fun_eq_iff)

lemma vsnprintf_bounded:
  assumes "npf_vpprintf m fmt args = Some out" "buf \<noteq> NULL" "0 < sz"
  shows "\<exists>m'. npf_vsnprintf buf sz fmt args m = Some (length out, m') \<and> (\<forall>x. x < buf \<or> buf + sz \<le> x \<longrightarrow> m' x = m x) \<and>
    bytes_at m' buf (take (sz - 1) out @ [0])"
proof -
  let ?m1 = "\<lambda>x. if buf \<le> x \<and> x < buf + min (length out) sz then out ! (x - buf) else m x"
  let ?k = "min (length out) (sz - 1)"
  have "npf_vsnprintf buf sz fmt args m = Some (length out, ?m1(buf + ?k := 0))"
    using assms by (auto simp: npf_vsnprintf_def bufputc_fold Let_def fun_eq_iff)
  moreover have "\<forall>x. x < buf \<or> buf + sz \<le> x \<longrightarrow> (?m1(buf + ?k := 0)) x = m x" using assms(3) by auto
  moreover have "bytes_at (?m1(buf + ?k := 0)) buf (take (sz - 1) out @ [0])"
    using assms(3) by (auto simp: bytes_at_def nth_append min_def)
  ultimately show ?thesis by blast
qed

lemma vsnprintf_string:
  assumes "npf_vpprintf m fmt args = Some out" "buf \<noteq> NULL" "0 < sz" "0 \<notin> set out"
  shows "\<exists>m'. npf_vsnprintf buf sz fmt args m = Some (length out, m') \<and> (\<forall>x. x < buf \<or> buf + sz \<le> x \<longrightarrow> m' x = m x) \<and>
    cstr m' buf (take (sz - 1) out)"
proof -
  from vsnprintf_bounded [OF assms(1-3)] obtain m' where
    m': "npf_vsnprintf buf sz fmt args m = Some (length out, m')" "\<forall>x. x < buf \<or> buf + sz \<le> x \<longrightarrow> m' x = m x"
    "bytes_at m' buf (take (sz - 1) out @ [0])" by blast
  moreover have "cstr m' buf (take (sz - 1) out)"
  proof -
    let ?t = "take (sz - 1) out"
    have b: "m' (buf + i) = (?t @ [0]) ! i" if "i \<le> length ?t" for i
      using m'(3) that by (simp add: bytes_at_def less_Suc_eq_le)
    have "m' (buf + i) = ?t ! i \<and> ?t ! i \<noteq> 0" if "i < length ?t" for i
      using b [of i] that assms(4) by (auto simp: nth_append) (metis nth_mem)
    moreover have "m' (buf + length ?t) = 0" using b [of "length ?t"] by (simp add: nth_append)
    ultimately show ?thesis by (simp add: cstr_nth)
  qed
  ultimately show ?thesis by blast
qed

section \<open>Lines of the boot log\<close>

definition pad_right :: "nat \<Rightarrow> u8 list \<Rightarrow> u8 list" where
  "pad_right n s = s @ replicate (n - length s) 32"

definition info_line :: "u8 \<Rightarrow> u8 list \<Rightarrow> u8 list \<Rightarrow> u8 list" where
  "info_line mark name msg =
     bytes ''[  '' @ [27, 0x0c, mark, 27, 0x07] @ pad_right 6 name @ [27, 0x0f] @ bytes ''] '' @ pad_right 59 msg @ [10]"

definition str_dir :: "nat \<Rightarrow> directive" where
  "str_dir w = (demo_dir CONV_STRING)\<lparr>d_left := True, d_width := Some w\<rparr>"

lemma info_fmt_pieces:
  assumes "s \<noteq> 0" "cstr m (unat s) name" "b \<noteq> 0" "cstr m (unat b) msg"
  shows "npf_vpprintf m info_fmt [mark, s, b] = Some (info_line (ucast mark) name msg)"
proof -
  let ?ps = "[Plain (bytes ''[  '' @ [27, 0x0c]), Direct (demo_dir CONV_CHAR) (N_word mark), Plain [27, 0x07],
    Direct (str_dir 6) (N_str s name), Plain ([27, 0x0f] @ bytes ''] ''), Direct (str_dir 59) (N_str b msg), Plain [10]]"
  have dec: "dec 6 = [54]" "dec 59 = [53, 57]" by (simp_all add: dec_def utoa_last utoa_more digit_char_def)
  have "list_all (piece_ok m) ?ps"
    using assms by (simp add: str_dir_def demo_dir_def d_legal_def d_ok_def arg_ok_def bytes_def)
  from vpprintf_all [OF this] show ?thesis
    by (simp add: info_fmt_def info_line_def str_dir_def demo_dir_def d_format_def d_flags_def d_char_def dec bytes_def
        in_field_def pad_right_def Let_def)
qed

lemma cstr_keep: "cstr m p s \<Longrightarrow> (\<And>i. i \<le> length s \<Longrightarrow> m' (p + i) = m (p + i)) \<Longrightarrow> cstr m' p s"
  by (simp add: cstr_nth)

lemma info_message:
  assumes "list_all (piece_ok (k_mem (u_k u))) ps" "0 \<notin> set (concat (map pc_text ps))"
    and "s \<noteq> 0" "cstr (k_mem (u_k u)) (unat s) name" "b \<noteq> 0"
    and "unat b + 60 \<le> unat s \<or> unat s + length name < unat b"
  shows "\<exists>m'. snprintkf (unat b) 60 (concat (map pc_format ps)) (concat (map pc_args ps)) u =
      Some (length (concat (map pc_text ps)), set_umem m' u) \<and>
    (\<forall>x. x < unat b \<or> unat b + 60 \<le> x \<longrightarrow> m' x = k_mem (u_k u) x) \<and>
    cstr m' (unat s) name \<and> cstr m' (unat b) (take 59 (concat (map pc_text ps)))"
proof -
  have "unat b \<noteq> 0" using assms(5) by (simp add: unat_eq_0)
  from vsnprintf_string [OF vpprintf_all [OF assms(1)] this, of 60] assms(2) obtain m' where
    m': "npf_vsnprintf (unat b) 60 (concat (map pc_format ps)) (concat (map pc_args ps)) (k_mem (u_k u)) =
      Some (length (concat (map pc_text ps)), m')" "\<forall>x. x < unat b \<or> unat b + 60 \<le> x \<longrightarrow> m' x = k_mem (u_k u) x"
    "cstr m' (unat b) (take 59 (concat (map pc_text ps)))" by auto
  from assms(6) m'(2) have "cstr m' (unat s) name" by (intro cstr_keep [OF assms(4)]) auto
  with m' show ?thesis by (auto simp: snprintkf_def)
qed

text \<open>C33. \<^verbatim>\<open>print_info\<close> prints one line of the boot log and never writes outside its array: for every message format of plain
  text and legal directives, the array of 60 bytes takes the first 59 characters of the message, every other byte of memory
  keeps its value, and the characters printed are the mark, the source padded to 6 columns, the message padded to 59
  and a new line.\<close>

theorem print_info_correct:
  assumes "list_all (piece_ok (k_mem (u_k u))) ps" "0 \<notin> set (concat (map pc_text ps))"
    and "s \<noteq> 0" "cstr (k_mem (u_k u)) (unat s) name" "b \<noteq> 0"
    and "unat b + 60 \<le> unat s \<or> unat s + length name < unat b" "mto \<in> {0, 1, 2, 3}"
  shows "\<exists>m'. print_info e sp b s mto (concat (map pc_format ps)) (concat (map pc_args ps)) (v, u) =
      printk e sp (info_line (if mto = 0 then 0xc0 else if mto = 2 then 0xda else 0xc3) name (take 59 (concat (map pc_text ps))))
        (v, set_umem m' u) \<and>
    (\<forall>x. x < unat b \<or> unat b + 60 \<le> x \<longrightarrow> m' x = k_mem (u_k u) x)"
proof -
  from info_message [OF assms(1-6)] obtain m' where
    m': "snprintkf (unat b) 60 (concat (map pc_format ps)) (concat (map pc_args ps)) u =
      Some (length (concat (map pc_text ps)), set_umem m' u)"
    "\<forall>x. x < unat b \<or> unat b + 60 \<le> x \<longrightarrow> m' x = k_mem (u_k u) x"
    "cstr m' (unat s) name" "cstr m' (unat b) (take 59 (concat (map pc_text ps)))" by blast
  have "map_option snd (printkf e sp info_fmt [mark, s, b] (v, set_umem m' u)) =
      printk e sp (info_line (ucast mark) name (take 59 (concat (map pc_text ps)))) (v, set_umem m' u)" for mark
    using info_fmt_pieces [OF assms(3) m'(3) assms(5) m'(4), of mark]
    by (cases "printk e sp (info_line (ucast mark) name (take 59 (concat (map pc_text ps)))) (v, set_umem m' u)")
      (simp_all add: printkf_def set_umem_def)
  with m' assms(7) show ?thesis by (auto simp: print_info_def)
qed

theorem print_info_correct_witness:
  "\<forall>e sp v u. \<exists>m'. print_info e sp 1000 200 2 [111, 107] [] (v, set_umem (put_str 200 [112, 103] (\<lambda>_. 0)) u) =
     printk e sp (info_line 0xda [112, 103] [111, 107]) (v, set_umem m' (set_umem (put_str 200 [112, 103] (\<lambda>_. 0)) u)) \<and> m' 201 = 103"
proof (intro allI)
  fix e sp v u
  let ?m = "put_str 200 [112, 103] (\<lambda>_. 0)"
  have "cstr ?m 200 [112, 103]" by (rule cstr_put_str) simp
  then show "\<exists>m'. print_info e sp 1000 200 2 [111, 107] [] (v, set_umem ?m u) =
     printk e sp (info_line 0xda [112, 103] [111, 107]) (v, set_umem m' (set_umem ?m u)) \<and> m' 201 = 103"
    using print_info_correct [of "set_umem ?m u" "[Plain [111, 107]]" 200 "[112, 103]" 1000 2 e sp v]
    by (auto simp: set_umem_def put_str_def)
qed

end
