(* ===== verification/Fs_Boot.thy ===== *)
theory Fs_Boot
  imports Fs_Mount Drv_Ata
begin

text \<open>
  Bringing up the file systems, lines 59 to 61 of \<^verbatim>\<open>src/kern/kmain.c\<close>: \<^verbatim>\<open>register_fses\<close>, \<^verbatim>\<open>init_devs\<close> and
  \<^verbatim>\<open>ata_init\<close> of \<^verbatim>\<open>driver/disk/ide.c\<close>, which creates the disk's device node, mounts the disk as root and the device file
  system on \<^verbatim>\<open>/dev\<close>.  The addresses of static objects and of the blocks from \<^verbatim>\<open>malloc\<close> are the record \<open>bootenv\<close>, with
  what the disk's driver delivers (\<^verbatim>\<open>ata_read_sectors\<close>, theory \<open>Drv_Ata\<close>).
\<close>

section \<open>State\<close>

record bootenv =
  e_devmnt :: addr
  e_devblock :: addr
  e_devnode :: addr
  e_dev_iops :: addr
  e_dev_fops :: addr
  e_devfs_root :: addr
  e_mem_devs :: "addr \<times> addr \<times> addr"        \<comment> \<open>\<^verbatim>\<open>nulldev\<close>, \<^verbatim>\<open>zerodev\<close>, \<^verbatim>\<open>randdev\<close>\<close>
  e_mem_nodes :: "addr \<times> addr \<times> addr"
  e_rootnode :: addr
  e_ata_dev :: addr
  e_ata_bdev :: addr
  e_ata_node :: addr
  e_mnt0 :: addr                             \<comment> \<open>the mount \<^verbatim>\<open>ata_init\<close> allocates\<close>
  e_mnt :: addr                              \<comment> \<open>the one \<^verbatim>\<open>mount_root\<close> allocates\<close>
  e_ext2_iops :: addr
  e_ext2_fops :: addr
  e_ext2_info :: addr
  e_ext2_sb :: addr
  e_ext2_root :: addr
  e_bdevs :: "addr \<Rightarrow> block_dev"
  e_disk_read :: "u32 \<Rightarrow> nat \<Rightarrow> u8 list \<Rightarrow> int \<times> u8 list"
  e_disk_write :: "u32 \<Rightarrow> nat \<Rightarrow> u8 list \<Rightarrow> int"
  e_devread :: "dev \<Rightarrow> addr \<Rightarrow> nat \<Rightarrow> int \<times> u8 list"
  e_pd :: "addr \<Rightarrow> u32 list"                 \<comment> \<open>the \<^verbatim>\<open>i_block\<close> behind \<^verbatim>\<open>pdata\<close>\<close>
  e_al :: "icache \<Rightarrow> addr"

record kboot =
  b_types :: "fs_type list"
  b_devfs :: devfs
  b_mnts :: mnts
  b_vfs :: vfs
  b_out :: "string list"

section \<open>The mounted device file system\<close>

definition set_dev :: "addr \<Rightarrow> addr \<Rightarrow> icache \<Rightarrow> icache" where
  "set_dev b root s =
     (let s1 = s\<lparr>supers := (supers s)(b := (supers s b)\<lparr>s_root := root\<rparr>)\<rparr>
      in set_inode root ((inodes s1 root)\<lparr>i_dev := s_dev (supers s1 b), i_sb := b\<rparr>) s1)"

definition devfs_sb :: "devfs \<Rightarrow> super_block" where
  "devfs_sb d = \<lparr>s_blocksize = 4096, s_dev = 0, s_root = NULL, s_read_inode = Some (dev_inoder d),
     s_write_inode = False, s_put_inode = False\<rparr>"

text \<open>What \<^verbatim>\<open>init_devs\<close> sets beside the directory: \<^verbatim>\<open>devmnt\<close>, \<^verbatim>\<open>devblock\<close> and the inode \<^verbatim>\<open>devnode\<close>.\<close>

definition init_devs_mount :: "bootenv \<Rightarrow> devfs \<Rightarrow> icache \<Rightarrow> icache" where
  "init_devs_mount e d s =
     set_dev (e_devblock e) (e_devnode e)
       ((set_inode (e_devnode e) (devnode d) s)\<lparr>mnt_sb := (mnt_sb s)(e_devmnt e := e_devblock e),
          supers := (supers s)(e_devblock e := devfs_sb d)\<rparr>)"

text \<open>\<^verbatim>\<open>dev_inoder\<close> reads the directory as it is when it is called: after a change of the directory the function behind
  \<^verbatim>\<open>devblock.s_op->read_inode\<close> is that of the new directory.\<close>

definition devfs_changed :: "bootenv \<Rightarrow> devfs \<Rightarrow> icache \<Rightarrow> icache" where
  "devfs_changed e d s =
     s\<lparr>supers := (supers s)(e_devblock e := (supers s (e_devblock e))\<lparr>s_read_inode := Some (dev_inoder d)\<rparr>)\<rparr>"

text \<open>The operations of both file systems, the ext2 volume being the mounted one.\<close>

definition kern_ops :: "bootenv \<Rightarrow> devfs \<Rightarrow> mnts \<Rightarrow> (addr \<Rightarrow> inode) \<Rightarrow> fsops" where
  "kern_ops e d m nodes =
     merge_ops (dev_fsops (e_dev_iops e) (e_dev_fops e) d nodes)
       (case m_vol m (m_sb m) of None \<Rightarrow> no_ops | Some v \<Rightarrow> ext2_fsops (e_ext2_iops e) (e_ext2_fops e) v (e_pd e) nodes)"

section \<open>The disk\<close>

definition ata_bdev :: "bootenv \<Rightarrow> block_dev" where
  "ata_bdev e = \<lparr>bd_dev = MKDEV 8 0, bd_start = 0, bd_read = Some (e_disk_read e), bd_write = Some (e_disk_write e)\<rparr>"

definition ata_device :: "bootenv \<Rightarrow> device \<Rightarrow> device" where
  "ata_device e dv = dv\<lparr>dv_name := bytes ''sda'', dv_pdata := e_ata_bdev e, dv_read := Some (e_devread e)\<rparr>"

definition ata_init :: "'h ports \<Rightarrow> bootenv \<Rightarrow> 'h \<times> kboot \<Rightarrow> ('h \<times> kboot) option" where
  "ata_init p e hb =
     (let (r, h) = run_state (ata_check_drive p False) (fst hb); b = snd hb; d = b_devfs b;
          out = (if r = 0 then b_out b @ [''no drives found''] else b_out b);
          d1 = d\<lparr>devs := (devs d)(e_ata_dev e := ata_device e (devs d (e_ata_dev e)))\<rparr> in
      Option.bind (creat_blockdev (e_devblock e) (e_dev_fops e) (e_ata_node e) (bytes ''sda'') (e_ata_dev e) 8 0 d1) (\<lambda>d2.
        let s0 = devfs_changed e d2 (ic (b_vfs b));
            s1 = imount (e_rootnode e) (e_mnt0 e) (s0\<lparr>mnt_sb := (mnt_sb s0)(e_mnt0 e := m_sb (b_mnts b))\<rparr>) in
        Option.bind (mount_root (b_types b) d2 ((e_bdevs e)(e_ata_bdev e := ata_bdev e)) (e_ext2_iops e, e_ext2_fops e, e_ext2_info e)
            (e_ext2_sb e, e_ext2_root e, e_mnt e) (e_rootnode e) (bd_dev (ata_bdev e)) (bytes ''ext2'') (b_mnts b) s1) (\<lambda>(m, s2).
          let v = (b_vfs b)\<lparr>ic := s2, root_mnt := i_mnt (inodes s2 (e_rootnode e))\<rparr> in
          map_option (\<lambda>v'. (h, b\<lparr>b_devfs := d2, b_mnts := m, b_vfs := v', b_out := out\<rparr>))
            (set_special (kern_ops e d2 m (inodes s2)) (e_al e) (e_devmnt e) v))))"

definition setup_fs :: "'h ports \<Rightarrow> bootenv \<Rightarrow> 'h \<times> kboot \<Rightarrow> ('h \<times> kboot) option" where
  "setup_fs p e hb =
     (let b = snd hb in
      Option.bind (init_devs (e_devblock e) (e_dev_iops e) (e_dev_fops e) (e_devfs_root e) (e_mem_devs e) (e_mem_nodes e) (b_devfs b)) (\<lambda>d.
        ata_init p e (fst hb, b\<lparr>b_types := register_fses (b_types b), b_devfs := d,
          b_vfs := (b_vfs b)\<lparr>ic := init_devs_mount e d (ic (b_vfs b))\<rparr>\<rparr>)))"

section \<open>Names of devices\<close>

text \<open>A name that leads to a device has a number; the inode read under that number is the device's node.\<close>

lemma resolve_read:
  assumes inv: "devfs_inv d" and dir: "i_pdata dir \<noteq> NULL" and x: "dev_resolve d dir name = Some x"
  shows "\<exists>j a. (\<forall>dir'. i_pdata dir' \<noteq> NULL \<longrightarrow> lookup_dev d dir' name = j) \<and> j \<noteq> - 1 \<and> j \<noteq> 0 \<and>
    (\<forall>i. i_ino i = j \<longrightarrow> dev_inoder d i = dnodes d a) \<and> getdev d (dnodes d a) = Some x"
proof -
  from x dev_resolve_find [OF inv dir, of name] obtain e where
    e: "find (\<lambda>e. de_name e = name) (ents d) = Some e" "getdev d (dnodes d (de_in e)) = Some x" by (auto split: option.splits)
  then have "e \<in> set (ents d)" by (auto dest: find_SomeD)
  then obtain k where k: "k < dd_count (devfs_root d)" "e = dd_entry (devfs_root d) ! k"
    using devfs_len [OF inv] by (auto simp: ents_def in_set_conv_nth)
  note en = devfs_entry [OF inv k(1)]
  have ino: "lookup_dev d dir' name = of_nat (Suc k)" if "i_pdata dir' \<noteq> NULL" for dir'
    using e(1) that en(3) k(2) by (simp add: lookup_dev_def ents_def del: of_nat_Suc)
  have nz: "(of_nat (Suc k) :: ino) \<noteq> 0 \<and> (of_nat (Suc k) :: ino) \<noteq> - 1" using ino_not [of k] en(4) by (simp del: of_nat_Suc)
  have "dev_inoder d i = dnodes d (de_in e)" if i: "i_ino i = of_nat (Suc k)" for i
  proof -
    let ?P = "\<lambda>e. de_in e \<noteq> NULL \<and> i_ino (dnodes d (de_in e)) = of_nat (Suc k)"
    have "\<exists>e\<in>set (dd_entry (devfs_root d)). ?P e" using en devfs_len [OF inv] by (intro bexI [OF _ nth_mem]) (auto simp del: of_nat_Suc)
    then have "find ?P (dd_entry (devfs_root d)) \<noteq> None" unfolding find_None_iff by blast
    then obtain f where f: "find ?P (dd_entry (devfs_root d)) = Some f" by blast
    with dev_inoder_entry [OF inv k(1)] nz k(2) have "dnodes d (de_in f) = dnodes d (de_in e)"
      by (simp add: dev_inoder_def del: of_nat_Suc)
    with f i nz show ?thesis by (simp add: dev_inoder_def del: of_nat_Suc)
  qed
  with ino nz e(2) show ?thesis by blast
qed

text \<open>Nothing is mounted on a device node.\<close>

definition unmounted :: "devfs \<Rightarrow> bool" where
  "unmounted d \<longleftrightarrow> (\<forall>a. i_mnt (dnodes d a) = NULL)"

lemma dev_node_unmounted: "dev_node sb fops md nw name dv maj mi d = Some d' \<Longrightarrow> unmounted d \<Longrightarrow> unmounted d'"
  by (auto simp: dev_node_def unmounted_def Let_def zero_inode_def)

lemma creat_devfs_unmounted: "creat_devfs sb fops nw name dv maj mi d = Some d' \<Longrightarrow> unmounted d \<Longrightarrow> unmounted d'"
  by (auto simp: creat_devfs_def register_dev_def bind_eq_Some_conv unmounted_def split: if_splits
      dest!: dev_node_unmounted)

lemma creat_blockdev_unmounted: "creat_blockdev sb fops nw name dv maj mi d = Some d' \<Longrightarrow> unmounted d \<Longrightarrow> unmounted d'"
  unfolding creat_blockdev_def by (erule dev_node_unmounted) (simp add: unmounted_def)

lemma init_devs_unmounted: "init_devs sb iops fops root dvs nws d = Some d' \<Longrightarrow> unmounted d \<Longrightarrow> unmounted d'"
  by (auto simp: init_devs_def Let_def bind_eq_Some_conv unmounted_def split: prod.splits
      dest!: creat_devfs_unmounted)

lemma fill_bdev: "ext2_fill_super bd = Some (0, Some v) \<Longrightarrow> v_bdev v = bd"
proof -
  have g: "ext2_groups w buff n i off = Some w' \<Longrightarrow> v_bdev w' = v_bdev w" for w w' buff n i off
    by (induction w buff n i off rule: ext2_groups.induct) (auto simp: Let_def split: if_splits)
  assume "ext2_fill_super bd = Some (0, Some v)"
  then show ?thesis by (auto simp: ext2_fill_super_def Let_def split: if_splits dest!: g)
qed

section \<open>Walking the mounted tree\<close>

lemma get_fresh:
  assumes "fresh_alloc al" "iref_inv s R" "sb \<noteq> NULL"
  shows "new_ok s (al s) sb"
  using assms by (simp add: new_ok_def fresh_alloc_def iref_inv_def)

text \<open>A step to an inode that is cached, or to one that is read, without a mount on it.\<close>

lemma step_read:
  assumes al: "fresh_alloc al" and inv: "iref_inv s (add_mset a R)" "size R + 2 < 2 ^ 16 - 1" and sb: "sb = i_sb (inodes s a)"
    and m: "(s_dev (supers s sb), i) \<notin> iid s ` cached s" and nm: "i_mnt (read_node (supers s sb) sb i) = NULL"
  shows "\<exists>s'. walk_step al a i s = (al s, s') \<and> al s \<notin> cached s \<and> al s \<noteq> NULL \<and> iref_inv s' (add_mset (al s) R) \<and> cached s' = insert (al s) (cached s) \<and>
    (inodes s' (al s))\<lparr>i_refs := 0\<rparr> = (read_node (supers s sb) sb i)\<lparr>i_refs := 0\<rparr> \<and>
    (\<forall>b. b \<noteq> al s \<longrightarrow> (inodes s' b)\<lparr>i_refs := 0\<rparr> = (inodes s b)\<lparr>i_refs := 0\<rparr>) \<and> supers s' = supers s \<and> mnt_sb s' = mnt_sb s"
proof -
  have "sb \<noteq> NULL" using iref_held [OF inv(1)] sb by simp
  note nw = get_fresh [OF al inv(1) this]
  from get_uncached [OF inv(1) _ m nw] inv(2) obtain s1 where g: "iget (al s) sb i s = (al s, s1)"
    "iref_inv s1 (add_mset (al s) (add_mset a R))" "cached s1 = insert (al s) (cached s)"
    "inodes s1 = (inodes s)(al s := read_node (supers s sb) sb i)" "supers s1 = supers s" "mnt_sb s1 = mnt_sb s" by auto
  note p = sc_put [OF g(2), of a]
  have p1: "same_content s1 (iput a s1)" "iref_inv (iput a s1) (add_mset (al s) R)" using p by simp_all
  have "i_mnt (inodes (iput a s1) (al s)) = NULL" using sc_fields(4) [OF p1(1), of "al s"] g(4) nm by simp
  then have w: "walk_step al a i s = (al s, iput a s1)" using g(1) sb by (simp add: walk_step_def Let_def)
  have c: "(inodes (iput a s1) b)\<lparr>i_refs := 0\<rparr> = (inodes s1 b)\<lparr>i_refs := 0\<rparr>" for b using p1(1) by (simp add: same_content_def)
  show ?thesis using w nw p1(2) sc_fields(9-11) [OF p1(1)] g(3-6) c by (simp add: new_ok_def)
qed

text \<open>A step through a mount point: \<open>b\<close> is cached and carries the mount \<open>mt\<close>, whose root is not cached yet.\<close>

lemma step_mount:
  assumes al: "fresh_alloc al" and inv: "iref_inv s (add_mset a R)" "size R + 2 < 2 ^ 16 - 1"
    and b: "b \<in> cached s" "iid s b = (s_dev (supers s (i_sb (inodes s a))), i)"
    and mp: "i_iflags (inodes s b) AND IN_MOUNT \<noteq> 0" "i_mnt (inodes s b) \<noteq> NULL" "mnt_sb s (i_mnt (inodes s b)) = msb" "msb \<noteq> NULL"
    and r: "i_ino (inodes s (s_root (supers s msb))) = j"
    and m: "(s_dev (supers s msb), j) \<notin> iid s ` cached s"
  shows "\<exists>c s'. walk_step al a i s = (c, s') \<and> c \<notin> cached s \<and> c \<noteq> NULL \<and> iref_inv s' (add_mset c R) \<and> cached s' = insert c (cached s) \<and>
    (inodes s' c)\<lparr>i_refs := 0\<rparr> = (read_node (supers s msb) msb j)\<lparr>i_refs := 0\<rparr> \<and>
    (\<forall>x. x \<noteq> c \<longrightarrow> (inodes s' x)\<lparr>i_refs := 0\<rparr> = (inodes s x)\<lparr>i_refs := 0\<rparr>) \<and> supers s' = supers s \<and> mnt_sb s' = mnt_sb s"
proof -
  have "i_sb (inodes s a) \<noteq> NULL" using iref_held [OF inv(1)] by simp
  from get_cached [OF inv(1) _ b get_fresh [OF al inv(1) this]] inv(2) obtain s1 where
    g: "iget (al s) (i_sb (inodes s a)) i s = (b, s1)" "same_content s s1" "iref_inv s1 (add_mset b (add_mset a R))" by auto
  let ?s2 = "iput a s1"
  have sc: "same_content s ?s2" and i2: "iref_inv ?s2 (add_mset b R)"
    using sc_trans [OF g(2)] sc_put [OF g(3), of a] by simp_all
  note f = sc_fields [OF sc]
  have m2: "(s_dev (supers ?s2 msb), j) \<notin> iid ?s2 ` cached ?s2" using m f(9,11,12) by simp
  from get_uncached [OF i2 _ m2 get_fresh [OF al i2 mp(4)]] inv(2) obtain s3 where
    h: "iget (al ?s2) msb j ?s2 = (al ?s2, s3)" "iref_inv s3 (add_mset (al ?s2) (add_mset b R))" "cached s3 = insert (al ?s2) (cached s)"
    "inodes s3 = (inodes ?s2)(al ?s2 := read_node (supers s msb) msb j)" "supers s3 = supers s" "mnt_sb s3 = mnt_sb s"
    using f(9-11) by auto
  have w: "walk_step al a i s = (al ?s2, iput b s3)"
    using g(1) h(1) mp f(3,4,9,10) r f(2) by (simp add: walk_step_def Let_def)
  have p: "same_content s3 (iput b s3)" "iref_inv (iput b s3) (add_mset (al ?s2) R)" using sc_put [OF h(2), of b] by simp_all
  have c: "(inodes (iput b s3) x)\<lparr>i_refs := 0\<rparr> = (inodes s3 x)\<lparr>i_refs := 0\<rparr>"
    "(inodes ?s2 x)\<lparr>i_refs := 0\<rparr> = (inodes s x)\<lparr>i_refs := 0\<rparr>" for x
    using p(1) sc by (simp_all add: same_content_def)
  have "al ?s2 \<notin> cached s \<and> al ?s2 \<noteq> NULL" using get_fresh [OF al i2 mp(4)] f(11) by (simp add: new_ok_def)
  then show ?thesis using w p(2) sc_fields(9-11) [OF p(1)] h(3-6) c by simp
qed

section \<open>Paths below the device directory\<close>

lemma canon_render:
  assumes "\<forall>s\<in>set ss. comp_ok s" "length ss \<le> 63"
  shows "path_canon (Some cw) (Some (render ss)) = Some (Some (render ss))"
proof -
  have "raw_path cw (render ss) = render ss" by (simp add: raw_path_def render_def)
  then show ?thesis using path_canon_eq [of cw "render ss"] assms by (simp add: tokens_render resolve_id)
qed

lemma render_depth:
  assumes "comp_ok a" "comp_ok b"
  shows "length (filter (\<lambda>c. c = SLASH) (render [a])) = 1" "length (filter (\<lambda>c. c = SLASH) (render [a, b])) = 2"
proof -
  have "filter (\<lambda>c. c = SLASH) a = []" "filter (\<lambda>c. c = SLASH) b = []" using assms by (auto simp: comp_ok_def filter_empty_conv)
  then show "length (filter (\<lambda>c. c = SLASH) (render [a])) = 1" "length (filter (\<lambda>c. c = SLASH) (render [a, b])) = 2"
    by (simp_all add: render_def)
qed

lemma dev_comp: "comp_ok (bytes ''dev'')"
  by (simp add: comp_ok_def bytes_def)

lemma disk_number: "MKDEV 8 0 \<noteq> 0"
  by (simp add: MKDEV_def)

lemma getdev_cong: "i_mode i = i_mode j \<Longrightarrow> i_rdev i = i_rdev j \<Longrightarrow> getdev d i = getdev d j"
  by (simp add: getdev_def)

definition dev_dir :: "bootenv \<Rightarrow> inode \<Rightarrow> bool" where
  "dev_dir e i \<longleftrightarrow> S_ISDIR (i_mode i) \<and> i_ops i = e_dev_iops e \<and> i_pdata i = e_devfs_root e"

definition ext2_dir :: "bootenv \<Rightarrow> inode \<Rightarrow> bool" where
  "ext2_dir e i \<longleftrightarrow> S_ISDIR (i_mode i) \<and> i_ops i = e_ext2_iops e \<and> i_pdata i = e_ext2_info e"

definition boot_layout :: "bootenv \<Rightarrow> bool" where
  "boot_layout e \<longleftrightarrow> NULL \<notin> {e_devmnt e, e_devblock e, e_dev_iops e, e_devfs_root e, e_ata_dev e, e_ata_bdev e, e_ata_node e,
       e_mnt e, e_ext2_iops e, e_ext2_sb e, e_ext2_root e} \<and> e_dev_iops e \<noteq> e_ext2_iops e \<and> e_devblock e \<noteq> e_ext2_sb e \<and>
     distinct [e_rootnode e, e_devnode e, e_ext2_root e] \<and> distinct [e_mnt0 e, e_mnt e, e_devmnt e] \<and>
     e_mem_devs e = (1, 2, 3) \<and> e_mem_nodes e = (10, 11, 12) \<and> e_ata_node e \<notin> {10, 11, 12}"

lemma kern_lookups:
  assumes "boot_layout e"
  shows "dev_dir e i \<Longrightarrow> lookup_fs (kern_ops e d m nodes) i name = lookup_dev d i name"
    "ext2_dir e i \<Longrightarrow> m_vol m (m_sb m) = Some v \<Longrightarrow> ext2_lookup v (e_pd e (e_ext2_info e)) name = Some k \<Longrightarrow>
      lookup_fs (kern_ops e d m nodes) i name = k"
  using assms by (auto simp: lookup_fs_def kern_ops_def merge_ops_def dev_fsops_def ext2_fsops_def dev_dir_def ext2_dir_def boot_layout_def)

text \<open>The cache after the file systems are mounted: the root directory and the directory \<^verbatim>\<open>/dev\<close> of the volume, with
  the device file system on it.\<close>

definition booted :: "bootenv \<Rightarrow> devfs \<Rightarrow> ino \<Rightarrow> addr \<Rightarrow> icache \<Rightarrow> bool" where
  "booted e d k b s \<longleftrightarrow> iref_inv s {#e_ext2_root e, b#} \<and> cached s = {e_ext2_root e, b} \<and>
     iid s (e_ext2_root e) = (MKDEV 8 0, 2) \<and> iid s b = (MKDEV 8 0, k) \<and> i_sb (inodes s (e_ext2_root e)) = e_ext2_sb e \<and>
     ext2_dir e (inodes s (e_ext2_root e)) \<and> i_iflags (inodes s b) AND IN_MOUNT \<noteq> 0 \<and> i_mnt (inodes s b) = e_devmnt e \<and>
     mnt_sb s (e_devmnt e) = e_devblock e \<and> mnt_sb s (e_mnt e) = e_ext2_sb e \<and> s_dev (supers s (e_ext2_sb e)) = MKDEV 8 0 \<and>
     s_root (supers s (e_ext2_sb e)) = e_ext2_root e \<and>
     supers s (e_devblock e) = (devfs_sb d)\<lparr>s_root := e_devnode e\<rparr> \<and> i_ino (inodes s (e_devnode e)) = 0"

text \<open>The step from the root to \<^verbatim>\<open>/dev\<close> ends in the root of the device file system.\<close>

lemma booted_devdir:
  assumes lay: "boot_layout e" and al: "fresh_alloc al" and bt: "booted e d k b s" and dn: "dev_dir e (devnode d)"
  shows "\<exists>s1 c s2. iget (al s) (e_ext2_sb e) 2 s = (e_ext2_root e, s1) \<and> same_content s s1 \<and>
    walk_step al (e_ext2_root e) k s1 = (c, s2) \<and> c \<noteq> NULL \<and> iref_inv s2 (add_mset c {#e_ext2_root e, b#}) \<and>
    dev_dir e (inodes s2 c) \<and> i_sb (inodes s2 c) = e_devblock e \<and> supers s2 = supers s \<and>
    iid s2 ` cached s2 = {(0, 0), (MKDEV 8 0, 2), (MKDEV 8 0, k)}"
proof -
  let ?r = "e_ext2_root e" and ?sb = "e_ext2_sb e" and ?db = "e_devblock e"
  let ?dsb = "(devfs_sb d)\<lparr>s_root := e_devnode e\<rparr>"
  note B = bt [unfolded booted_def]
  have nz: "?sb \<noteq> NULL" "?db \<noteq> NULL" "e_devmnt e \<noteq> NULL" using lay by (simp_all add: boot_layout_def)
  have iB: "iref_inv s {#?r, b#}" using B by simp
  from get_cached [OF iB _ _ _ get_fresh [OF al iB nz(1)], of ?r 2] B obtain s1 where
    g: "iget (al s) ?sb 2 s = (?r, s1)" "same_content s s1" "iref_inv s1 {#?r, ?r, b#}" by auto
  note f = sc_fields [OF g(2)]
  have ids: "iid s1 ` cached s1 = {(MKDEV 8 0, 2), (MKDEV 8 0, k)}" using B f(11,12) by auto
  have "\<exists>c s2. walk_step al ?r k s1 = (c, s2) \<and> c \<notin> cached s1 \<and> c \<noteq> NULL \<and> iref_inv s2 (add_mset c {#?r, b#}) \<and>
    cached s2 = insert c (cached s1) \<and> (inodes s2 c)\<lparr>i_refs := 0\<rparr> = (read_node (supers s1 ?db) ?db 0)\<lparr>i_refs := 0\<rparr> \<and>
    (\<forall>x. x \<noteq> c \<longrightarrow> (inodes s2 x)\<lparr>i_refs := 0\<rparr> = (inodes s1 x)\<lparr>i_refs := 0\<rparr>) \<and> supers s2 = supers s1 \<and> mnt_sb s2 = mnt_sb s1"
    by (rule step_mount [OF al g(3), of b]) (use B f nz ids disk_number in \<open>auto simp: devfs_sb_def\<close>)
  then obtain c s2 where w1: "walk_step al ?r k s1 = (c, s2)" "c \<notin> cached s1" "c \<noteq> NULL" "iref_inv s2 (add_mset c {#?r, b#})"
    "cached s2 = insert c (cached s1)" "(inodes s2 c)\<lparr>i_refs := 0\<rparr> = (read_node ?dsb ?db 0)\<lparr>i_refs := 0\<rparr>"
    "\<forall>x. x \<noteq> c \<longrightarrow> (inodes s2 x)\<lparr>i_refs := 0\<rparr> = (inodes s1 x)\<lparr>i_refs := 0\<rparr>" "supers s2 = supers s"
    using B f(9,10) by auto
  have rn: "read_node ?dsb ?db 0 = (devnode d)\<lparr>i_ino := 0, i_dev := 0, i_sb := ?db, i_refs := 1\<rparr>"
    by (simp add: read_node_def devfs_sb_def Let_def dev_inoder_def)
  have c: "dev_dir e (inodes s2 c)" "i_sb (inodes s2 c) = ?db" "i_ino (inodes s2 c) = 0"
    using but_refs [OF w1(6)] dn by (simp_all add: rn dev_dir_def)
  have id2: "iid s2 y = iid s1 y" if "y \<noteq> c" for y
    using but_refs(1,2) [of "inodes s2 y" "inodes s1 y"] w1(7,8) f(9) that by (simp add: iid_def)
  have "iid s2 c = (0, 0)" using w1(8) c(2,3) B by (simp add: iid_def devfs_sb_def)
  moreover have "iid s2 ` cached s1 = iid s1 ` cached s1" by (rule image_cong [OF refl], rule id2) (use w1(2) in auto)
  ultimately have "iid s2 ` cached s2 = {(0, 0), (MKDEV 8 0, 2), (MKDEV 8 0, k)}" using w1(5) ids by simp
  then show ?thesis using g w1 c by blast
qed

lemma booted_dev:
  assumes lay: "boot_layout e" and al: "fresh_alloc al" and bt: "booted e d k b s" and vol: "m_vol m (m_sb m) = Some v"
    and k: "ext2_lookup v (e_pd e (e_ext2_info e)) (bytes ''dev'') = Some k" "k \<noteq> - 1"
    and dn: "dev_dir e (devnode d)" and inv: "devfs_inv d" "unmounted d" and nm: "comp_ok name"
    and x: "dev_resolve d (devnode d) name = Some x"
  shows "\<exists>a s'. lookup_vfs_i (kern_ops e d m nodes) al (e_mnt e) (render [bytes ''dev'', name]) s = Some (a, s') \<and> a \<noteq> NULL \<and>
    getdev d (inodes s' a) = Some x \<and> iref_inv s' {#a, e_ext2_root e, b#}"
proof -
  let ?r = "e_ext2_root e" and ?ops = "kern_ops e d m nodes" and ?sb = "e_ext2_sb e" and ?db = "e_devblock e"
  let ?dsb = "(devfs_sb d)\<lparr>s_root := e_devnode e\<rparr>"
  note B = bt [unfolded booted_def]
  from booted_devdir [OF lay al bt dn] obtain s1 c s2 where g: "iget (al s) ?sb 2 s = (?r, s1)" "same_content s s1"
    "walk_step al ?r k s1 = (c, s2)" "c \<noteq> NULL" "iref_inv s2 (add_mset c {#?r, b#})" "dev_dir e (inodes s2 c)"
    "i_sb (inodes s2 c) = ?db" "supers s2 = supers s" "iid s2 ` cached s2 = {(0, 0), (MKDEV 8 0, 2), (MKDEV 8 0, k)}" by blast
  have "i_pdata (devnode d) \<noteq> NULL" using dn lay by (auto simp: dev_dir_def boot_layout_def)
  from resolve_read [OF inv(1) this x] obtain j a where j: "\<forall>dir'. i_pdata dir' \<noteq> NULL \<longrightarrow> lookup_dev d dir' name = j" "j \<noteq> - 1"
    "j \<noteq> 0" "\<forall>i. i_ino i = j \<longrightarrow> dev_inoder d i = dnodes d a" "getdev d (dnodes d a) = Some x" by blast
  have rj: "read_node ?dsb ?db j = (dnodes d a)\<lparr>i_ino := j, i_dev := 0, i_sb := ?db, i_refs := 1\<rparr>"
    using j(4) by (simp add: read_node_def devfs_sb_def Let_def)
  have miss: "(s_dev (supers s2 ?db), j) \<notin> iid s2 ` cached s2" using g(8,9) B j(3) disk_number by (auto simp: devfs_sb_def)
  have "i_mnt (read_node (supers s2 ?db) ?db j) = NULL" using g(8) B inv(2) rj by (simp add: unmounted_def)
  from step_read [OF al g(5) _ g(7) [symmetric] miss this] obtain s3 where
    w: "walk_step al c j s2 = (al s2, s3)" "al s2 \<noteq> NULL" "iref_inv s3 (add_mset (al s2) {#?r, b#})"
    "(inodes s3 (al s2))\<lparr>i_refs := 0\<rparr> = (read_node ?dsb ?db j)\<lparr>i_refs := 0\<rparr>" using g(8) B by auto
  have "getdev d (inodes s3 (al s2)) = Some x"
    using but_refs(5,6) [OF w(4)] j(5) getdev_cong [of "inodes s3 (al s2)" "dnodes d a" d] by (simp add: rj)
  moreover have "lookup_fs ?ops (inodes s1 ?r) (bytes ''dev'') = k"
    by (rule kern_lookups(2) [OF lay _ vol k(1)]) (use B sc_fields [OF g(2)] in \<open>simp add: ext2_dir_def\<close>)
  moreover have "lookup_fs ?ops (inodes s2 c) name = j"
    using kern_lookups(1) [OF lay g(6)] j(1) g(6) lay by (simp add: dev_dir_def boot_layout_def)
  moreover have "tokens {SLASH} (render [bytes ''dev'', name]) = [bytes ''dev'', name]" using tokens_render dev_comp nm by simp
  moreover have "e_mnt e \<noteq> NULL" using lay by (simp add: boot_layout_def)
  ultimately show ?thesis
    using B g(1,3,4) w k(2) j(2) render_depth(2) [OF dev_comp nm] by (simp add: lookup_vfs_i_def Let_def iid_def)
qed

section \<open>From the root mount to the device directory\<close>

lemma ext2_node_unmounted: "i_mnt (read_node ((ext2_sb iops fops ia v)\<lparr>s_root := r\<rparr>) sb i) = NULL"
  by (simp add: read_node_def ext2_sb_def Let_def ext2_inoder_def zero_inode_def split: option.split prod.split)

lemma or_and_absorb: "(x OR y) AND y = (y :: u32)"
  by (rule bit_word_eqI) (auto simp: bit_simps)

lemma set_special_boots:
  assumes lay: "boot_layout e" and al: "fresh_alloc al" "\<forall>s. al s \<noteq> e_devnode e"
    and s: "iref_inv s {#e_ext2_root e#}" "cached s = {e_ext2_root e}" "iid s (e_ext2_root e) = (MKDEV 8 0, 2)"
      "i_sb (inodes s (e_ext2_root e)) = e_ext2_sb e" "ext2_dir e (inodes s (e_ext2_root e))"
    and mt: "mnt_sb s (e_devmnt e) = e_devblock e" "mnt_sb s (e_mnt e) = e_ext2_sb e"
    and sb: "supers s (e_ext2_sb e) = (ext2_sb iops fops ia v)\<lparr>s_root := e_ext2_root e\<rparr>" "bd_dev (v_bdev v) = MKDEV 8 0"
      "supers s (e_devblock e) = (devfs_sb d)\<lparr>s_root := e_devnode e\<rparr>" "i_ino (inodes s (e_devnode e)) = 0"
    and k: "ext2_lookup v (e_pd e (e_ext2_info e)) (bytes ''dev'') = Some k" "k \<noteq> - 1" "k \<noteq> 2" and vol: "m_vol m (m_sb m) = Some v"
    and w: "ic w = s" "root_mnt w = e_mnt e"
  shows "\<exists>b s'. set_special (kern_ops e d m nodes) al (e_devmnt e) w = Some (w\<lparr>ic := s'\<rparr>) \<and> booted e d k b s'"
proof -
  let ?r = "e_ext2_root e" and ?ops = "kern_ops e d m nodes" and ?sb = "e_ext2_sb e"
  have nz: "?sb \<noteq> NULL" "e_mnt e \<noteq> NULL" using lay by (simp_all add: boot_layout_def)
  have sd: "s_dev (supers s ?sb) = MKDEV 8 0" "s_root (supers s ?sb) = ?r" using sb(1,2) by (simp_all add: ext2_sb_def)
  from get_cached [OF s(1) _ _ _ get_fresh [OF al(1) s(1) nz(1)], of ?r 2] s sd obtain s1 where
    g: "iget (al s) ?sb 2 s = (?r, s1)" "same_content s s1" "iref_inv s1 {#?r, ?r#}" by auto
  note f = sc_fields [OF g(2)]
  have f1: "supers s1 = supers s" "i_sb (inodes s1 ?r) = ?sb" using f s(4) by simp_all
  have miss: "(s_dev (supers s1 ?sb), k) \<notin> iid s1 ` cached s1" using f s k(3) by simp
  have "i_mnt (read_node (supers s1 ?sb) ?sb k) = NULL" using f1(1) sb(1) ext2_node_unmounted by simp
  from step_read [OF al(1) g(3) _ f1(2) [symmetric] miss this] obtain s2 where
    w1: "walk_step al ?r k s1 = (al s1, s2)" "al s1 \<notin> cached s1" "al s1 \<noteq> NULL" "iref_inv s2 {#al s1, ?r#}"
    "cached s2 = insert (al s1) (cached s1)" "(inodes s2 (al s1))\<lparr>i_refs := 0\<rparr> = (read_node (supers s1 ?sb) ?sb k)\<lparr>i_refs := 0\<rparr>"
    "\<forall>x. x \<noteq> al s1 \<longrightarrow> (inodes s2 x)\<lparr>i_refs := 0\<rparr> = (inodes s1 x)\<lparr>i_refs := 0\<rparr>" "supers s2 = supers s1" "mnt_sb s2 = mnt_sb s1"
    by auto
  let ?b = "al s1" and ?s3 = "imount (al s1) (e_devmnt e) s2"
  have ne: "?r \<noteq> ?b" "e_devnode e \<noteq> ?b" using w1(2) f(11) s(2) al(2) by auto
  have r2: "inodes ?s3 ?r = inodes s2 ?r" "inodes ?s3 (e_devnode e) = inodes s2 (e_devnode e)"
    using ne by (simp_all add: imount_def set_inode_def Let_def)
  have c3: "cached ?s3 = {?r, ?b}" "supers ?s3 = supers s" "mnt_sb ?s3 = mnt_sb s"
    using w1(5,8,9) f(9-11) s(2) by (auto simp: imount_def set_inode_def Let_def cached_def in_tab_def)
  note fr = but_refs [OF w1(7) [rule_format, OF ne(1)]] and fd = but_refs [OF w1(7) [rule_format, OF ne(2)]] and fb = but_refs [OF w1(6)]
  have ids: "iid ?s3 ?r = (MKDEV 8 0, 2)" "iid ?s3 ?b = (MKDEV 8 0, k)"
    using r2(1) fr(1,2) f(1,2) s(3) c3(2) fb(1,2) sd
    by (simp_all add: iid_def) (simp_all add: imount_def set_inode_def Let_def read_node_def)
  have "iref_inv ?s3 {#?b, ?r#}" using iref_imount [OF w1(4), of ?b "e_devmnt e" "mnt_sb s2"] by simp
  then have "iref_inv ?s3 {#?r, ?b#}" by (simp add: add_mset_commute)
  moreover have "i_iflags (inodes ?s3 ?b) AND IN_MOUNT \<noteq> 0" "i_mnt (inodes ?s3 ?b) = e_devmnt e"
    by (simp_all add: imount_def set_inode_def Let_def or_and_absorb) (simp add: IN_MOUNT_def)
  ultimately have "booted e d k ?b ?s3"
    unfolding booted_def using c3 ids r2 fr fd f s mt sb sd by (simp add: ext2_dir_def)
  moreover have "lookup_fs ?ops (inodes s1 ?r) (bytes ''dev'') = k"
    by (rule kern_lookups(2) [OF lay _ vol k(1)]) (use s(5) f in \<open>simp add: ext2_dir_def\<close>)
  then have "lookup_vfs_i ?ops al (e_mnt e) (render [bytes ''dev'']) s = Some (?b, s2)"
    using nz(2) g(1) w1(1,3) k(2) s(3,4) sd(2) mt(2) render_depth(1) [OF dev_comp dev_comp] tokens_render [of "[bytes ''dev'']"] dev_comp
    by (simp add: lookup_vfs_i_def Let_def iid_def)
  moreover have "bytes ''/dev'' = render [bytes ''dev'']" by (simp add: bytes_def render_def)
  ultimately have "lookup_vfs ?ops al w (bytes ''/dev'') = Some (?b, w\<lparr>ic := s2\<rparr>)"
    using w canon_render [of "[bytes ''dev'']"] dev_comp by (simp add: lookup_vfs_def lookup_vfs_r_def)
  with w1(3) \<open>booted e d k ?b ?s3\<close> show ?thesis by (auto simp: set_special_def)
qed

section \<open>The disk's node\<close>

text \<open>Filling in the disk's \<^verbatim>\<open>struct device\<close> changes no name of the directory.\<close>

lemma ata_device_names:
  fixes e d defines "d1 \<equiv> d\<lparr>devs := (devs d)(e_ata_dev e := ata_device e (devs d (e_ata_dev e)))\<rparr>"
  shows "getdev d1 i = getdev d i" "devfs_inv d1 = devfs_inv d" "dev_resolve d1 dir name = dev_resolve d dir name"
    "device_get_devblk dv d1 = device_get_devblk dv d"
proof -
  have t: "dv_devt (devs d1 a) = dv_devt (devs d a)" for a by (simp add: d1_def ata_device_def)
  show b: "device_get_devblk dv d1 = device_get_devblk dv d" for dv unfolding device_get_devblk_def t by (simp add: d1_def)
  show g: "getdev d1 i = getdev d i" for i unfolding getdev_def b by (simp add: d1_def Let_def)
  have l: "lookup_dev d1 = lookup_dev d" "dev_inoder d1 = dev_inoder d"
    by (simp_all add: d1_def lookup_dev_def dev_inoder_def fun_eq_iff cong: option.case_cong)
  show "devfs_inv d1 = devfs_inv d" unfolding devfs_inv_def g by (simp add: d1_def)
  show "dev_resolve d1 dir name = dev_resolve d dir name"
    unfolding dev_resolve_def g l ..
qed

lemma creat_blockdev_devnode: "creat_blockdev sb fops nw name dv maj mi d = Some d' \<Longrightarrow> devnode d' = devnode d"
  by (auto simp: creat_blockdev_def dev_node_def Let_def)

lemma ata_node_created:
  fixes e d defines "d1 \<equiv> d\<lparr>devs := (devs d)(e_ata_dev e := ata_device e (devs d (e_ata_dev e)))\<rparr>"
  assumes lay: "boot_layout e" and d: "devfs_inv d" "dd_count (devfs_root d) < 16" "bytes ''sda'' \<notin> dev_names d"
    "de_in ` set (ents d) = {10, 11, 12}" "dev_blk_dev d = []" and dir: "i_pdata dir \<noteq> NULL"
  shows "\<exists>d2. creat_blockdev (e_devblock e) (e_dev_fops e) (e_ata_node e) (bytes ''sda'') (e_ata_dev e) 8 0 d1 = Some d2 \<and>
    devfs_inv d2 \<and> dev_resolve d2 dir (bytes ''sda'') = Some (e_ata_dev e) \<and> blkdev_get_dev (MKDEV 8 0) d2 = e_ata_bdev e \<and>
    (\<forall>n. n \<noteq> bytes ''sda'' \<longrightarrow> dev_resolve d2 dir n = dev_resolve d dir n)"
proof -
  have f: "devfs_root d1 = devfs_root d" "dev_blk_dev d1 = []" "dev_names d1 = dev_names d" "ents d1 = ents d"
    "dv_pdata (devs d1 (e_ata_dev e)) = e_ata_bdev e"
    using d(5) by (simp_all add: d1_def dev_names_def ents_def ata_device_def)
  have "length (bytes ''sda'') < 32" by (simp add: bytes_def)
  from creat_blockdev_inv [of d1 "bytes ''sda''" "e_ata_node e" "e_ata_dev e" 8 0 dir "e_devblock e" "e_dev_fops e"] this
  show ?thesis using lay d dir f ata_device_names [where d = d and e = e, folded d1_def]
    by (auto simp: boot_layout_def device_get_devblk_def)
qed

section \<open>The booted file systems\<close>

text \<open>The disk: \<^verbatim>\<open>ext2_fill_super\<close> accepts it, its root directory has an entry \<^verbatim>\<open>dev\<close>.\<close>

definition boot_volume :: "bootenv \<Rightarrow> ext2_vol \<Rightarrow> ino \<Rightarrow> bool" where
  "boot_volume e v k \<longleftrightarrow> ext2_fill_super (ata_bdev e) = Some (0, Some v) \<and>
     (case ext2_read_ino v 2 of None \<Rightarrow> False
      | Some t \<Rightarrow> S_ISDIR (of_nat (ei_mode t)) \<and> e_pd e (e_ext2_info e) = ei_block t) \<and>
     ext2_lookup v (e_pd e (e_ext2_info e)) (bytes ''dev'') = Some k \<and> k \<noteq> - 1 \<and> k \<noteq> 2"

text \<open>The cache before \<^verbatim>\<open>mount_root\<close>.\<close>

lemma cache_before_mount:
  fixes e da d s x
  defines "s1 \<equiv> imount (e_rootnode e) (e_mnt0 e) ((devfs_changed e da (init_devs_mount e d s))\<lparr>mnt_sb :=
      (mnt_sb (devfs_changed e da (init_devs_mount e d s)))(e_mnt0 e := x)\<rparr>)"
  assumes lay: "boot_layout e" and s: "iref_inv s {#}" "cached s = {}" and dn: "i_ino (devnode d) = 0"
  shows "iref_inv s1 {#}" "cached s1 = {}" "supers s1 (e_devblock e) = (devfs_sb da)\<lparr>s_root := e_devnode e\<rparr>"
    "mnt_sb s1 (e_devmnt e) = e_devblock e" "i_ino (inodes s1 (e_devnode e)) = 0"
proof -
  have ne: "e_devnode e \<noteq> e_rootnode e" "e_devmnt e \<noteq> e_mnt0 e" using lay by (auto simp: boot_layout_def)
  have t: "hitab s1 = hitab s" "ilru s1 = ilru s"
    by (simp_all add: s1_def imount_def set_inode_def devfs_changed_def init_devs_mount_def set_dev_def Let_def)
  then show c: "cached s1 = {}" using s(2) by (simp add: cached_def in_tab_def)
  show "iref_inv s1 {#}" by (rule iref_frame [OF s(1) t]) (use s(2) in simp)
  show "supers s1 (e_devblock e) = (devfs_sb da)\<lparr>s_root := e_devnode e\<rparr>" "mnt_sb s1 (e_devmnt e) = e_devblock e"
    "i_ino (inodes s1 (e_devnode e)) = 0"
    using ne dn by (simp_all add: s1_def imount_def set_inode_def devfs_changed_def init_devs_mount_def set_dev_def Let_def devfs_sb_def)
qed

lemma ext2_root_dir:
  assumes "boot_volume e v k"
  shows "ext2_dir e (read_node (ext2_sb (e_ext2_iops e) (e_ext2_fops e) (e_ext2_info e) v) sb 2)"
  using assms
  by (auto simp: boot_volume_def ext2_dir_def read_node_def ext2_sb_def ext2_inoder_def Let_def split: option.splits)

lemma ata_init_boots:
  assumes lay: "boot_layout e" and al: "fresh_alloc (e_al e)" "\<forall>s. e_al e s \<noteq> e_devnode e" and vol: "boot_volume e v k"
    and d: "devfs_inv d" "dd_count (devfs_root d) < 16" "bytes ''sda'' \<notin> dev_names d" "de_in ` set (ents d) = {10, 11, 12}"
      "dev_blk_dev d = []" "dev_dir e (devnode d)" "i_ino (devnode d) = 0" "unmounted d"
    and b: "get_fstype (bytes ''ext2'') (b_types b) \<noteq> None" "b_devfs b = d" "m_sb (b_mnts b) = NULL"
      "ic (b_vfs b) = init_devs_mount e d s" "iref_inv s {#}" "cached s = {}"
  shows "\<exists>h' b' a. ata_init p e (h, b) = Some (h', b') \<and> booted e (b_devfs b') k a (ic (b_vfs b')) \<and> root_mnt (b_vfs b') = e_mnt e \<and>
    m_vol (b_mnts b') (m_sb (b_mnts b')) = Some v \<and> devfs_inv (b_devfs b') \<and> unmounted (b_devfs b') \<and> devnode (b_devfs b') = devnode d \<and>
    dev_resolve (b_devfs b') (devnode d) (bytes ''sda'') = Some (e_ata_dev e) \<and> blkdev_get_dev (MKDEV 8 0) (b_devfs b') = e_ata_bdev e \<and>
    (\<forall>n. n \<noteq> bytes ''sda'' \<longrightarrow> dev_resolve (b_devfs b') (devnode d) n = dev_resolve d (devnode d) n)"
proof -
  let ?d1 = "d\<lparr>devs := (devs d)(e_ata_dev e := ata_device e (devs d (e_ata_dev e)))\<rparr>" and ?r = "e_ext2_root e" and ?sb = "e_ext2_sb e"
  have pd: "i_pdata (devnode d) \<noteq> NULL" using d(6) lay by (auto simp: dev_dir_def boot_layout_def)
  from ata_node_created [OF lay d(1-5) pd] obtain d2 where
    c: "creat_blockdev (e_devblock e) (e_dev_fops e) (e_ata_node e) (bytes ''sda'') (e_ata_dev e) 8 0 ?d1 = Some d2" "devfs_inv d2"
      "dev_resolve d2 (devnode d) (bytes ''sda'') = Some (e_ata_dev e)" "blkdev_get_dev (MKDEV 8 0) d2 = e_ata_bdev e"
      "\<forall>n. n \<noteq> bytes ''sda'' \<longrightarrow> dev_resolve d2 (devnode d) n = dev_resolve d (devnode d) n" by blast
  have dn2: "devnode d2 = devnode d" "unmounted d2"
    using creat_blockdev_devnode [OF c(1)] creat_blockdev_unmounted [OF c(1)] d(8) by (simp_all add: unmounted_def)
  let ?s1 = "imount (e_rootnode e) (e_mnt0 e) ((devfs_changed e d2 (init_devs_mount e d s))\<lparr>mnt_sb :=
      (mnt_sb (devfs_changed e d2 (init_devs_mount e d s)))(e_mnt0 e := m_sb (b_mnts b))\<rparr>)"
  note s1 = cache_before_mount [OF lay b(5,6) d(7), where da = d2 and x = "m_sb (b_mnts b)"]
  let ?bd = "(e_bdevs e)(e_ata_bdev e := ata_bdev e)" and ?esb = "ext2_sb (e_ext2_iops e) (e_ext2_fops e) (e_ext2_info e) v"
  have vb: "v_bdev v = ata_bdev e" using vol fill_bdev by (simp add: boot_volume_def)
  have bdn: "bd_dev (ata_bdev e) = MKDEV 8 0" by (simp add: ata_bdev_def)
  have "\<exists>m' s'. mount_root (b_types b) d2 ?bd (e_ext2_iops e, e_ext2_fops e, e_ext2_info e) (?sb, ?r, e_mnt e) (e_rootnode e)
      (MKDEV 8 0) (bytes ''ext2'') (b_mnts b) ?s1 = Some (m', s') \<and> m_sb m' = ?sb \<and> m_vol m' ?sb = Some v \<and>
    iref_inv s' (add_mset ?r {#}) \<and> cached s' = insert ?r (cached ?s1) \<and> inodes s' ?r = read_node ?esb ?sb 2 \<and>
    (\<forall>a. a \<notin> {?r, e_rootnode e} \<longrightarrow> inodes s' a = inodes ?s1 a) \<and> i_mnt (inodes s' (e_rootnode e)) = e_mnt e \<and>
    supers s' = (supers ?s1)(?sb := ?esb\<lparr>s_root := ?r\<rparr>) \<and> mnt_sb s' = (mnt_sb ?s1)(e_mnt e := ?sb)"
    by (rule mount_root_state) (use s1(1,2) b(1,3) c(4) vol lay in \<open>auto simp: boot_volume_def boot_layout_def\<close>)
  then obtain m' s' where m: "mount_root (b_types b) d2 ?bd (e_ext2_iops e, e_ext2_fops e, e_ext2_info e) (?sb, ?r, e_mnt e)
      (e_rootnode e) (MKDEV 8 0) (bytes ''ext2'') (b_mnts b) ?s1 = Some (m', s')" "m_vol m' (m_sb m') = Some v" "iref_inv s' {#?r#}"
    "cached s' = {?r}" "inodes s' ?r = read_node ?esb ?sb 2" "\<forall>a. a \<notin> {?r, e_rootnode e} \<longrightarrow> inodes s' a = inodes ?s1 a"
    "i_mnt (inodes s' (e_rootnode e)) = e_mnt e" "supers s' = (supers ?s1)(?sb := ?esb\<lparr>s_root := ?r\<rparr>)"
    "mnt_sb s' = (mnt_sb ?s1)(e_mnt e := ?sb)" using s1(2) by auto
  let ?w = "(b_vfs b)\<lparr>ic := s', root_mnt := e_mnt e\<rparr>"
  have "\<exists>a s''. set_special (kern_ops e d2 m' (inodes s')) (e_al e) (e_devmnt e) ?w = Some (?w\<lparr>ic := s''\<rparr>) \<and> booted e d2 k a s''"
    by (rule set_special_boots [OF lay al m(3,4), where v = v and iops = "e_ext2_iops e" and fops = "e_ext2_fops e" and ia = "e_ext2_info e"])
      (use lay vol m s1 vb bdn ext2_root_dir [OF vol, of ?sb] in
        \<open>auto simp: boot_layout_def boot_volume_def iid_def read_node_def ext2_sb_def Let_def\<close>)
  then show ?thesis
    using c dn2 m(1,2,7) b(2,4) bdn by (auto simp: ata_init_def Let_def split: prod.split)
qed

lemma booted_root:
  assumes "boot_layout e" "fresh_alloc al" "booted e d k b s"
  shows "\<exists>s'. lookup_vfs_i ops al (e_mnt e) [SLASH] s = Some (e_ext2_root e, s')"
proof -
  note B = assms(3) [unfolded booted_def]
  have nz: "e_ext2_sb e \<noteq> NULL" "e_mnt e \<noteq> NULL" using assms(1) by (simp_all add: boot_layout_def)
  have iB: "iref_inv s {#e_ext2_root e, b#}" using B by simp
  from get_cached [OF iB _ _ _ get_fresh [OF assms(2) iB nz(1)], of "e_ext2_root e" 2] B obtain s1 where
    "iget (al s) (e_ext2_sb e) 2 s = (e_ext2_root e, s1)" by auto
  then show ?thesis using nz(2) B by (simp add: lookup_vfs_i_def Let_def iid_def tokens.simps)
qed

definition dev_nodes :: "bootenv \<Rightarrow> (string \<times> addr) list" where
  "dev_nodes e = [(''null'', 1), (''zero'', 2), (''random'', 3), (''sda'', e_ata_dev e)]"

lemma dev_nodes_paths: "(n, x) \<in> set (dev_nodes e) \<Longrightarrow> comp_ok (bytes n) \<and> bytes (''/dev/'' @ n) = render [bytes ''dev'', bytes n]"
  by (auto simp: dev_nodes_def comp_ok_def bytes_def render_def)


text \<open>A disk with one block group: inode 2 in block 3 is a directory whose block 4 has the entry \<^verbatim>\<open>dev\<close> with inode 5.\<close>

definition demo_byte :: "nat \<Rightarrow> u8" where
  "demo_byte a =
     (if a = 1080 then 0x53 else if a = 1081 then 0xef else if a = 1056 \<or> a = 1028 then 1 else if a = 1064 then 8
      else if a = 1112 then 128 else if a = 2056 then 3 else if a = 3201 then 0x40 else if a = 3240 then 4
      else if a = 4096 then 5 else if a = 4102 then 3 else if a = 4104 then 100 else if a = 4105 then 101
      else if a = 4106 then 118 else 0)"

definition demo_env :: bootenv where
  "demo_env = \<lparr>e_devmnt = 21, e_devblock = 22, e_devnode = 23, e_dev_iops = 24, e_dev_fops = 25, e_devfs_root = 26,
     e_mem_devs = (1, 2, 3), e_mem_nodes = (10, 11, 12), e_rootnode = 27, e_ata_dev = 28, e_ata_bdev = 29, e_ata_node = 30,
     e_mnt0 = 31, e_mnt = 32, e_ext2_iops = 33, e_ext2_fops = 34, e_ext2_info = 35, e_ext2_sb = 36, e_ext2_root = 37,
     e_bdevs = (\<lambda>_. tiny_disk),
     e_disk_read = (\<lambda>lba cnt buf. (int cnt, map (\<lambda>k. demo_byte (512 * unat lba + k)) [0..<length buf])),
     e_disk_write = (\<lambda>_ _ _. 0), e_devread = (\<lambda>_ _ _. (0, [])), e_pd = (\<lambda>_. 4 # replicate 14 0),
     e_al = (\<lambda>s. 100 + sample_al s)\<rparr>"

definition demo_boot :: kboot where
  "demo_boot = \<lparr>b_types = [], b_devfs = raw_devfs ctx_zero [] 0,
     b_mnts = \<lparr>m_sb = 0, m_refs = (\<lambda>_. 0), m_vol = (\<lambda>_. None), m_freed = []\<rparr>,
     b_vfs = sample_vfs\<lparr>ic := empty_cache sample_sbs\<rparr>, b_out = []\<rparr>"

lemma demo_layout: "boot_layout demo_env" "fresh_alloc (e_al demo_env)" "\<forall>s. e_al demo_env s \<noteq> e_devnode demo_env"
proof -
  show "boot_layout demo_env" by (simp add: boot_layout_def demo_env_def)
  show "fresh_alloc (e_al demo_env)" using sample_al_above by (fastforce simp: fresh_alloc_def demo_env_def)
  show "\<forall>s. e_al demo_env s \<noteq> e_devnode demo_env" by (simp add: demo_env_def)
qed

text \<open>A block of a volume on the disk.\<close>

lemma demo_block:
  assumes "v_bdev w = ata_bdev demo_env" "v_blocksize w = 1024" "unat (b * 1024 div 512) * 512 = n"
  shows "e2block w b = map (\<lambda>k. demo_byte (n + k)) [0..<1024]"
  using assms by (simp add: e2block_def ext2_read_def bread_def ata_bdev_def demo_env_def mult.commute)

lemma demo_volume: "\<exists>v. boot_volume demo_env v 5"
proof -
  let ?b = "map (\<lambda>k. demo_byte (1024 + k)) [0..<1024]"
  have b: "snd (bread (Some (ata_bdev demo_env)) 2 2 (replicate 1024 0)) = ?b"
    by (simp add: bread_def ata_bdev_def demo_env_def)
  have sb: "ext2_superblock_of ?b = \<lparr>sbk_blocks_count = 1, sbk_log_block_siz = 0, sbk_blocks_per_group = 1,
      sbk_inodes_per_group = 8, sbk_magic = 0xef53, sbk_inode_siz = 128\<rparr>"
    by (simp add: ext2_superblock_of_def get32_def get16_def demo_byte_def)
  let ?inf = "\<lparr>s_block_size = 1024, s_inode_size = 128, s_inodes_per_group = 8, s_blocks_per_group = 1, s_group_count = 1,
     s_group_desc = [], s_inode_bitmap = [], s_block_bitmap = []\<rparr>"
  let ?v = "\<lparr>v_bdev = ata_bdev demo_env, v_blocksize = 1024, v_info = ?inf\<rparr>"
  have b2: "e2block ?v 2 = map (\<lambda>k. demo_byte (2048 + k)) [0..<1024]" by (rule demo_block) simp_all
  have gd: "bg_inode_table (ext2_blockgroup_of (e2block ?v 2) 0) = 3"
    unfolding b2 by (simp add: ext2_blockgroup_of_def get32_def get16_def demo_byte_def)
  obtain v where v: "ext2_groups ?v (e2block ?v 2) 1 0 0 = Some v" "v_bdev v = ata_bdev demo_env" "v_blocksize v = 1024"
    "s_block_size (v_info v) = 1024" "s_inode_size (v_info v) = 128" "s_inodes_per_group (v_info v) = 8"
    "s_group_desc (v_info v) = [ext2_blockgroup_of (e2block ?v 2) 0]"
    using b2 by (simp add: EXT2_MAX_GROUP_LOADED_def Let_def)
  then have fill: "ext2_fill_super (ata_bdev demo_env) = Some (0, Some v)"
    by (simp add: ext2_fill_super_def b sb Let_def EXT2_SUPER_MAGIC_def DIV_ROUND_UP_def del: One_nat_def)
  let ?b3 = "map (\<lambda>k. demo_byte (3072 + k)) [0..<1024]"
  have "e2block v 3 = ?b3" by (rule demo_block) (use v in simp_all)
  then have "ext2_read_ino v 2 = Some (ext2_inode_of ?b3 128)"
    using v gd by (simp add: ext2_read_ino_def e2block_def Let_def)
  moreover have "ei_mode (ext2_inode_of ?b3 128) = 0x4000" by (simp add: ext2_inode_of_def get16_def demo_byte_def)
  moreover have "ei_block (ext2_inode_of ?b3 128) = 4 # replicate 14 0"
  proof -
    have u: "[0..<15] = [0, 1, 2, 3, 4, 5, 6, 7, 8, 9, 10, 11, 12, 13, 14]" by (simp add: upt_rec)
    have z: "replicate 14 (0 :: u32) = [0, 0, 0, 0, 0, 0, 0, 0, 0, 0, 0, 0, 0, 0]" by (simp add: numeral_eq_Suc)
    show ?thesis unfolding ext2_inode_of_def u z by (simp add: get32_def get16_def demo_byte_def)
  qed
  moreover have "ext2_lookup v (4 # replicate 14 0) (bytes ''dev'') = Some 5"
  proof -
    have "e2block v 4 = map (\<lambda>k. demo_byte (4096 + k)) [0..<1024]" by (rule demo_block) (use v in simp_all)
    moreover have "take 3 (drop 8 [0..<1024]) = [8, 9, 10]" by (subst drop_upt, subst take_upt) (simp_all add: upt_rec)
    ultimately have "ext2_scan (bytes ''dev'') (e2block v 4) 0 = Some (Some 5)"
      by (subst ext2_scan.simps) (simp add: get32_def get16_def demo_byte_def bytes_def take_map drop_map)
    then show ?thesis by (simp add: ext2_lookup_def)
  qed
  ultimately have "boot_volume demo_env v 5"
    using fill by (simp add: boot_volume_def demo_env_def S_ISDIR_def S_IFMT_def S_IFDIR_def)
  then show ?thesis by blast
qed


end
