(* ===== verification/Fs_Release.thy ===== *)
theory Fs_Release
  imports Fs_Ext2 Mem_Correct Mem_Acpi
begin

text \<open>
  What the ext2 driver gives back to the heap: \<^verbatim>\<open>ext2_putin\<close> of \<^verbatim>\<open>fs/ext2/ext2.c\<close> and \<^verbatim>\<open>ext2_putsb\<close> of \<^verbatim>\<open>fs/ext2/ext2fs.c\<close>,
  over the heap and the structures as they lie in memory.  \<^verbatim>\<open>struct ext2_sb_info\<close> has 120 bytes: the descriptors from
  byte 16, the number of loaded bitmaps at byte 52, the two tables of bitmaps from bytes 56 and 88, eight pointers each.
\<close>

section \<open>Operations\<close>

definition ext2_putin :: "inode \<Rightarrow> alloc \<Rightarrow> alloc option" where
  "ext2_putin i a = kfree a (i_pdata i)"

text \<open>The tables have eight entries; an index past them is \<^const>\<open>None\<close>.\<close>

partial_function (option) putsb_loop :: "addr \<Rightarrow> nat \<Rightarrow> alloc \<Rightarrow> alloc option" where
  "putsb_loop nf i a =
     (if i < rd16 (mem a) (nf + 52) then
        if i \<ge> EXT2_MAX_GROUP_LOADED then None
        else Option.bind (kfree a (rd32 (mem a) (nf + 88 + 4 * i))) (\<lambda>a1.
             Option.bind (kfree a1 (rd32 (mem a1) (nf + 56 + 4 * i))) (\<lambda>a2.
             Option.bind (kfree a2 (rd32 (mem a2) (nf + 16 + 4 * i))) (\<lambda>a3.
               putsb_loop nf (i + 1) a3)))
      else Some a)"

definition ext2_putsb :: "addr \<Rightarrow> alloc \<Rightarrow> alloc option" where
  "ext2_putsb nf a = Option.bind (putsb_loop nf 0 a) (\<lambda>a'. kfree a' nf)"

section \<open>What is released\<close>

text \<open>The information block at \<open>nf\<close> names the blocks of its groups: block bitmap, inode bitmap, descriptor.\<close>

definition info_names :: "alloc \<Rightarrow> addr \<Rightarrow> (block \<times> block \<times> block) list \<Rightarrow> bool" where
  "info_names a nf gs \<longleftrightarrow> rd16 (mem a) (nf + 52) = length gs \<and> length gs \<le> EXT2_MAX_GROUP_LOADED \<and>
     (\<forall>j<length gs. rd32 (mem a) (nf + 88 + 4 * j) = base a + fst (fst (gs ! j)) + 10 \<and>
        rd32 (mem a) (nf + 56 + 4 * j) = base a + fst (fst (snd (gs ! j))) + 10 \<and>
        rd32 (mem a) (nf + 16 + 4 * j) = base a + fst (snd (snd (gs ! j))) + 10)"

definition group_blocks :: "(block \<times> block \<times> block) list \<Rightarrow> block list" where
  "group_blocks gs = concat (map (\<lambda>(x, y, z). [x, y, z]) gs)"

lemma info_mem:
  assumes "keeps A a a'" "(p, i) \<in> A" "130 \<le> (2::nat) ^ i" "nf = base a + p + 10" "k < 120"
  shows "mem a' (nf + k) = mem a (nf + k)"
proof -
  have "p + 10 + k \<in> blk (p, i)" using assms(3,5) by simp
  then show ?thesis using assms(1,2,4) unfolding keeps_def by (metis add.assoc)
qed

lemma info_keeps:
  assumes "keeps A a a'" "(p, i) \<in> A" "130 \<le> (2::nat) ^ i" "nf = base a + p + 10"
  shows "info_names a' nf gs = info_names a nf gs"
proof -
  note m = info_mem [OF assms]
  have r4: "rd32 (mem a') (nf + k) = rd32 (mem a) (nf + k)" if "k + 4 \<le> 120" for k
    unfolding rd32_def using m [of k] m [of "k + 1"] m [of "k + 2"] m [of "k + 3"] that by (simp add: add.assoc)
  have r: "rd32 (mem a') (nf + c + 4 * j) = rd32 (mem a) (nf + c + 4 * j)" if "j < 8" "c \<le> 88" for c j
    using r4 [of "c + 4 * j"] that by (simp add: add.assoc)
  have "rd16 (mem a') (nf + 52) = rd16 (mem a) (nf + 52)"
    unfolding rd16_def using m [of 52] m [of 53] by (simp add: add.commute)
  moreover have "base a' = base a" using assms(1) by (simp add: keeps_def)
  ultimately show ?thesis using r by (auto simp: info_names_def EXT2_MAX_GROUP_LOADED_def)
qed

lemma kfree_live:
  assumes "heap_ok a L A" "hdrs_ok a A" "b \<in> A" "q = base a + fst b + 10"
  shows "\<exists>a' L'. kfree a q = Some a' \<and> heap_ok a' L' (A - {b}) \<and> hdrs_ok a' (A - {b}) \<and> keeps (A - {b}) a a'"
  using km_free_ok [OF assms(1,2), of "fst b" "snd b"] assms(3,4) by (simp add: kfree_def)

lemma putsb_loop_frees:
  assumes "heap_ok a L A" "hdrs_ok a A" "(p, i) \<in> A" "130 \<le> (2::nat) ^ i" "nf = base a + p + 10" "info_names a nf gs"
    and "j \<le> length gs" "distinct (group_blocks (drop j gs))" "set (group_blocks (drop j gs)) \<subseteq> A - {(p, i)}"
  shows "\<exists>a' L'. putsb_loop nf j a = Some a' \<and> heap_ok a' L' (A - set (group_blocks (drop j gs))) \<and>
    hdrs_ok a' (A - set (group_blocks (drop j gs))) \<and> keeps (A - set (group_blocks (drop j gs))) a a'"
  using assms
proof (induction "length gs - j" arbitrary: j a A L)
  case 0
  then have "drop j gs = []" by simp
  moreover have "putsb_loop nf j a = Some a" using 0 by (subst putsb_loop.simps) (simp add: info_names_def)
  ultimately show ?case using 0 by (auto simp: group_blocks_def)
next
  case (Suc n)
  then have j: "j < length gs" by simp
  obtain x y z where g: "gs ! j = (x, y, z)" by (cases "gs ! j") auto
  have dr: "drop j gs = (x, y, z) # drop (Suc j) gs" using j g by (metis Cons_nth_drop_Suc)
  let ?R = "set (group_blocks (drop (Suc j) gs))"
  have sets: "set (group_blocks (drop j gs)) = {x, y, z} \<union> ?R" "distinct [x, y, z]" "{x, y, z} \<inter> ?R = {}"
    "distinct (group_blocks (drop (Suc j) gs))" using Suc.prems(8) by (auto simp: dr group_blocks_def)
  have A: "{x, y, z} \<subseteq> A" "?R \<subseteq> A" "(p, i) \<notin> {x, y, z} \<union> ?R" using Suc.prems(9) sets(1) by auto
  note nm = Suc.prems(6) [unfolded info_names_def] and nf = Suc.prems(3-5)
  have q: "rd32 (mem a) (nf + 88 + 4 * j) = base a + fst x + 10" using nm j g by auto
  from kfree_live [OF Suc.prems(1,2) _ q] A obtain a1 L1 where a1: "kfree a (rd32 (mem a) (nf + 88 + 4 * j)) = Some a1"
    "heap_ok a1 L1 (A - {x})" "hdrs_ok a1 (A - {x})" "keeps (A - {x}) a a1" by auto
  have n1: "info_names a1 nf gs" "base a1 = base a" using info_keeps [OF a1(4) _ nf(2,3)] nf(1) A(3) Suc.prems(6) a1(4) by (auto simp: keeps_def)
  have q1: "rd32 (mem a1) (nf + 56 + 4 * j) = base a1 + fst y + 10" using n1(1) j g by (auto simp: info_names_def)
  from kfree_live [OF a1(2,3) _ q1] A sets(2) obtain a2 L2 where a2: "kfree a1 (rd32 (mem a1) (nf + 56 + 4 * j)) = Some a2"
    "heap_ok a2 L2 (A - {x} - {y})" "hdrs_ok a2 (A - {x} - {y})" "keeps (A - {x} - {y}) a1 a2" by auto
  have n2: "info_names a2 nf gs" "base a2 = base a" using info_keeps [OF a2(4) _ nf(2)] nf(1,3) A(3) n1 a2(4) by (auto simp: keeps_def)
  have q2: "rd32 (mem a2) (nf + 16 + 4 * j) = base a2 + fst z + 10" using n2(1) j g by (auto simp: info_names_def)
  from kfree_live [OF a2(2,3) _ q2] A sets(2) obtain a3 L3 where a3: "kfree a2 (rd32 (mem a2) (nf + 16 + 4 * j)) = Some a3"
    "heap_ok a3 L3 (A - {x} - {y} - {z})" "hdrs_ok a3 (A - {x} - {y} - {z})" "keeps (A - {x} - {y} - {z}) a2 a3" by auto
  have n3: "info_names a3 nf gs" "base a3 = base a" using info_keeps [OF a3(4) _ nf(2)] nf(1,3) A(3) n2 a3(4) by (auto simp: keeps_def)
  let ?A = "A - {x} - {y} - {z}"
  have eq: "?A - ?R = A - set (group_blocks (drop j gs))" using sets(1) by auto
  have k3: "keeps ?A a a3"
    using keeps_mono [OF a1(4), of ?A] keeps_mono [OF a2(4), of ?A] a3(4) by (blast intro: keeps_trans)
  have "\<exists>a' L'. putsb_loop nf (Suc j) a3 = Some a' \<and> heap_ok a' L' (?A - ?R) \<and> hdrs_ok a' (?A - ?R) \<and> keeps (?A - ?R) a3 a'"
    by (rule Suc.hyps(1) [OF _ a3(2,3)]) (use Suc.hyps(2) nf A n3 j sets in auto)
  then obtain a' L' where r: "putsb_loop nf (Suc j) a3 = Some a'" "heap_ok a' L' (?A - ?R)" "hdrs_ok a' (?A - ?R)" "keeps (?A - ?R) a3 a'" by blast
  have "putsb_loop nf j a = Some a'"
    using a1(1) a2(1) a3(1) r(1) j nm by (subst putsb_loop.simps) simp
  moreover have "keeps (?A - ?R) a a'" using keeps_trans [OF keeps_mono [OF k3] r(4)] by blast
  ultimately show ?case using r unfolding eq by blast
qed

text \<open>\<^verbatim>\<open>ext2_putsb\<close> releases the information block and, for as many groups as its count of loaded bitmaps says, their bitmaps
  and descriptors; every other live block keeps its bytes.  \<^verbatim>\<open>ext2_fill_super\<close> leaves that count at 0, so that only the
  information block is released.\<close>

lemma ext2_putsb_releases:
  assumes "heap_ok a L A" "hdrs_ok a A" "(p, i) \<in> A" "130 \<le> (2::nat) ^ i" "nf = base a + p + 10" "info_names a nf gs"
    and "distinct (group_blocks gs)" "set (group_blocks gs) \<subseteq> A - {(p, i)}"
  shows "\<exists>a' L'. ext2_putsb nf a = Some a' \<and> heap_ok a' L' (A - {(p, i)} - set (group_blocks gs)) \<and>
    keeps (A - {(p, i)} - set (group_blocks gs)) a a'"
proof -
  let ?G = "set (group_blocks gs)"
  from putsb_loop_frees [OF assms(1-6), of 0] assms(7,8) obtain a1 L1 where l: "putsb_loop nf 0 a = Some a1"
    "heap_ok a1 L1 (A - ?G)" "hdrs_ok a1 (A - ?G)" "keeps (A - ?G) a a1" by auto
  have "base a1 = base a" using l(4) by (simp add: keeps_def)
  with kfree_live [OF l(2,3), of "(p, i)" nf] assms(3,5,8) obtain a2 L2 where f: "kfree a1 nf = Some a2"
    "heap_ok a2 L2 (A - ?G - {(p, i)})" "keeps (A - ?G - {(p, i)}) a1 a2" by auto
  have "A - ?G - {(p, i)} = A - {(p, i)} - ?G" by auto
  moreover have "keeps (A - ?G - {(p, i)}) a a2" using keeps_trans [OF keeps_mono [OF l(4)] f(3)] by blast
  ultimately show ?thesis using l(1) f by (auto simp: ext2_putsb_def)
qed

lemma ext2_putsb_leaks:
  assumes "heap_ok a L A" "hdrs_ok a A" "(p, i) \<in> A" "130 \<le> (2::nat) ^ i" "nf = base a + p + 10" "rd16 (mem a) (nf + 52) = 0"
  shows "\<exists>a' L'. ext2_putsb nf a = Some a' \<and> heap_ok a' L' (A - {(p, i)})"
  using ext2_putsb_releases [OF assms(1-5), of "[]"] assms(6) by (auto simp: info_names_def group_blocks_def)

end
