(* ===== verification/Kern_Main.thy ===== *)
theory Kern_Main
  imports Proc_Cmd_Fds Cpu_Irq Drv_Kbd
begin

text \<open>
  The last steps before the shell: \<^verbatim>\<open>init_kbd\<close> and \<^verbatim>\<open>getch\<close> of \<^verbatim>\<open>driver/keyboard.c\<close> and \<^verbatim>\<open>checks\<close> of \<^verbatim>\<open>kmain.c\<close>.
  \<^const>\<open>None\<close> is a stopped kernel or a call that does not return.
\<close>

section \<open>Operations\<close>

text \<open>\<^verbatim>\<open>init_kbd\<close>: \<open>hand\<close> is the address of \<^verbatim>\<open>kbd_handler\<close>.  A controller that fails its self test stops the kernel.\<close>

definition init_kbd :: "'h ports \<Rightarrow> 'h mmio \<Rightarrow> isr_hand \<Rightarrow> irqs \<times> 'h \<Rightarrow> (int \<times> irqs \<times> 'h) option" where
  "init_kbd p mm hand kh =
     (let (ok, h) = run_state (init_ps2 p) (snd kh) in
      if ok then map_option (\<lambda>r. (0, r)) (register_irq mm hand 1 ''i8042'' (fst kh, h)) else None)"

text \<open>\<^verbatim>\<open>getch\<close> with its variable \<open>c\<close> at the address \<open>sp\<close>: retried while there is nothing to read; any other error
  stops.\<close>

partial_function (option) getch_loop :: "shenv \<Rightarrow> u32 \<Rightarrow> u32 \<Rightarrow> shell \<Rightarrow> (u8 \<times> shell) option" where
  "getch_loop e fd sp s =
     Option.bind (call (w_read (h_sys e) fd sp 1) s) (\<lambda>x.
       if fst x = - 1 then if sint (u_errno (sh_u (snd x))) = EAGAIN then getch_loop e fd sp (snd x) else None
       else Some (smem (snd x) (unat sp), snd x))"

definition getch :: "shenv \<Rightarrow> u32 \<Rightarrow> u32 \<Rightarrow> shell \<Rightarrow> (u8 \<times> shell) option" where
  "getch e fd sp s = getch_loop e fd sp (set_mem (memset (smem s) (unat sp) 0 4) s)"

text \<open>\<^verbatim>\<open>checks\<close>: \<open>etc\<close> is the address of the literal.\<close>

definition checks :: "shenv \<Rightarrow> u32 \<Rightarrow> shell \<Rightarrow> (int \<times> shell) option" where
  "checks e etc s =
     Option.bind (call (w_open (h_sys e) etc O_RDONLY) s) (\<lambda>(fd, s1).
       if fd = - 1 then Some (- 1, say_error ''open /etc'' s1)
       else Option.bind (call (w_close (h_sys e) (of_int fd)) s1) (\<lambda>(_, s2). Some (0, s2)))"

section \<open>Open files\<close>

text \<open>\<^verbatim>\<open>checks\<close> closes what it opened.\<close>

lemma checks_fds: "sh_ok e X s \<Longrightarrow> checks e etc s = Some (r, s') \<Longrightarrow> r \<in> {0, - 1} \<and> fds_same X s s'"
proof -
  assume ok: "sh_ok e X s" and c: "checks e etc s = Some (r, s')"
  then obtain fd s1 where o: "call (w_open (h_sys e) etc O_RDONLY) s = Some (fd, s1)"
    by (auto simp: checks_def bind_eq_Some_conv)
  from sh_open [OF ok o] show ?thesis using c o
    by (auto simp: checks_def fds_same_def kept_def close_back bind_eq_Some_conv simp del: of_int_of_nat_eq
        dest!: call_close [rotated 2] split: if_splits)
qed

text \<open>Waiting for a character touches no descriptor, however often the read is repeated.\<close>

lemma getch_loop_fds:
  assumes "getch_loop e fd sp s = Some z" "env_ok (h_sys e)" "vfs_inv (svfs s) X"
  shows "ofile (svfs (snd z)) = ofile (svfs s) \<and> vfs_inv (svfs (snd z)) X"
proof -
  have "env_ok (h_sys e) \<longrightarrow> vfs_inv (svfs s) X \<longrightarrow> ofile (svfs (snd z)) = ofile (svfs s) \<and> vfs_inv (svfs (snd z)) X"
  proof (rule getch_loop.raw_induct [OF _ assms(1), where P = "\<lambda>e fd sp s z. env_ok (h_sys e) \<longrightarrow> vfs_inv (svfs s) X \<longrightarrow>
      ofile (svfs (snd z)) = ofile (svfs s) \<and> vfs_inv (svfs (snd z)) X"], intro impI)
    fix loop e fd sp s z
    assume IH: "\<And>e fd sp s z. loop e fd sp s = Some z \<Longrightarrow> env_ok (h_sys e) \<longrightarrow> vfs_inv (svfs s) X \<longrightarrow>
        ofile (svfs (snd z)) = ofile (svfs s) \<and> vfs_inv (svfs (snd z)) X"
      and eq: "Option.bind (call (w_read (h_sys e) fd sp 1) s) (\<lambda>x.
         if fst x = - 1 then if sint (u_errno (sh_u (snd x))) = EAGAIN then loop e fd sp (snd x) else None
         else Some (smem (snd x) (unat sp), snd x)) = Some z"
      and E: "env_ok (h_sys e)" and i: "vfs_inv (svfs s) X"
    from eq obtain r s1 where x: "call (w_read (h_sys e) fd sp 1) s = Some (r, s1)" by (auto simp: bind_eq_Some_conv)
    from call_data(1) [OF i E x] show "ofile (svfs (snd z)) = ofile (svfs s) \<and> vfs_inv (svfs (snd z)) X"
      using eq x IH [of e fd sp s1 z] E by (auto split: if_splits)
  qed
  then show ?thesis using assms(2,3) by blast
qed

lemma getch_fds:
  assumes "getch e fd sp s = Some (c, s')" "env_ok (h_sys e)" "vfs_inv (svfs s) X"
  shows "ofile (svfs s') = ofile (svfs s) \<and> vfs_inv (svfs s') X"
  using getch_loop_fds [OF assms(1) [unfolded getch_def] assms(2), of X] assms(3) by (simp add: set_mem_def)

text \<open>A read that delivers its byte ends the wait with that byte.\<close>

lemma getch_delivers:
  assumes "call (w_read (h_sys e) fd sp 1) (set_mem (memset (smem s) (unat sp) 0 4) s) = Some (1, s')"
  shows "getch e fd sp s = Some (smem s' (unat sp), s')"
  unfolding getch_def by (subst getch_loop.simps) (simp add: assms)

end
