(* ===== verification/Spec2Isabelle.thy ===== *)
theory Spec2Isabelle
  imports Lib_List Mem_Correct Lib_String Fs_Path Crypt_Hash Crypt_Cred Fs_Inode Fs_Vfs Vfs_Refs Fs_Devfs Fs_Ext2 Fs_Mount
    Proc_Sched Tty_Line Tty_Term Drv_Time Drv_Ata Drv_Kbd Sys_Call Sys_Wrap
    Cpu_Lock Cpu_Desc Cpu_Irq Mem_Paging Mem_Acpi Proc_Bf Proc_Cmd_Fds Proc_Shell Proc_Login Drv_Pci Drv_Serial Vid_Boot Vid_Npf Vid_Printf Fs_Boot Fs_Release Kern_Main
begin

text \<open>
  Verification of the noob\_os kernel, an i386 hobby kernel in C.

  \<^bold>\<open>The program.\<close>  The kernel (\<^verbatim>\<open>src/src/kern\<close>, headers in \<^verbatim>\<open>src/include\<close>) boots, sets up a heap, descriptor
  tables, interrupt controllers and pages,
  processes and drivers, mounts an ext2 volume as root and \<^verbatim>\<open>/dev\<close> below it, and serves file system
  calls, a terminal and a shell.  Everything allocates from one buddy heap (\<^verbatim>\<open>mem/mem.c\<close>).  The
  virtual file system (\<^verbatim>\<open>fs/vfs.c\<close>) resolves paths over the inode cache (\<^verbatim>\<open>fs/inode.c\<close>), which calls
  the file systems (\<^verbatim>\<open>fs/ext2\<close>, \<^verbatim>\<open>fs/devtmpfs\<close>); ext2 reads a block device (\<^verbatim>\<open>dev/block_dev.c\<close>), which
  is the ATA driver (\<^verbatim>\<open>driver/disk/ide.c\<close>).  Key strokes (\<^verbatim>\<open>driver/keyboard.c\<close>) reach a line discipline
  (\<^verbatim>\<open>driver/tty/tty.c\<close>) whose output goes to the text console (\<^verbatim>\<open>terminal.c\<close>, \<^verbatim>\<open>vga_text.c\<close>, \<^verbatim>\<open>vt.c\<close>).  The shell
  (\<^verbatim>\<open>proc/shell.c\<close>) logs a user in and runs commands that call the wrappers (\<^verbatim>\<open>syscall/sys_wrap.c\<close>), which trap into the
  dispatcher (\<^verbatim>\<open>syscall/syscall.c\<close>) of the file system calls.

  \<^bold>\<open>How it is modelled.\<close>  A structure is a record, an operation one definition with the state passed
  explicitly; unsigned integers are machine words where their width matters and numbers with the
  wrap-around written out elsewhere.  A memory fault (an index outside an array, a null
  dereference, signed overflow) and a loop that does not end are the value \<^const>\<open>None\<close>; an
  error code is the negative number the code returns.  Addresses handed out by the allocator
  and the behaviour of devices are parameters.

  \<^bold>\<open>Theories.\<close>
  \<^item> \<open>Kern_Prelude\<close>: types, error numbers, shared facts.  \<open>Cpu_Io\<close>: port instructions
    (\<^verbatim>\<open>cpu/io.c\<close>) in the state monad over a hardware state.
  \<^item> \<open>Lib_List\<close>: \<^verbatim>\<open>lib/list.c\<close>, pointer lists over a store, shown to implement lists.
  \<^item> \<open>Kern_Mem\<close>, \<open>Buddy_Part\<close>, \<open>Mem_Alloc\<close>, \<open>Mem_Heap\<close>, \<open>Mem_Correct\<close>: \<^verbatim>\<open>mem/mem.c\<close>.  \<open>Kern_Mem\<close> is the
    byte memory, \<open>Mem_Alloc\<close> the allocator as written (free lists and headers inside that
    memory), \<open>Buddy_Part\<close> the partition of the heap into aligned blocks as ghost state, \<open>Mem_Heap\<close> the
    invariant that ties them, \<open>Mem_Correct\<close> the properties of \<^verbatim>\<open>malloc\<close>, \<^verbatim>\<open>realloc\<close> and \<^verbatim>\<open>free\<close>.
  \<^item> \<open>Lib_String\<close>: character classes and C strings; \<open>Fs_Path\<close>: path names (\<^verbatim>\<open>path_canon\<close>, \<^verbatim>\<open>look_bs\<close>).
  \<^item> \<open>Crypt_Hash\<close>, \<open>Crypt_Cred\<close>: \<^verbatim>\<open>crypt/\<close>, BLAKE2s against its block-wise definition, the entropy
    pool, user ids and the password files.
  \<^item> \<open>Fs_Inode\<close>: the inode cache and its reference counts; \<open>Fs_Vfs\<close>: every \<^verbatim>\<open>fsys_*\<close> call; \<open>Vfs_Refs\<close>: the
    invariant of the table of open files and the locale \<open>fs_driver\<close>, what the calls rely on of a file system.
  \<^item> \<open>Fs_Devfs\<close>, \<open>Fs_Ext2\<close>, \<open>Fs_Mount\<close>: the two file systems (both interpret \<open>fs_driver\<close>), the block
    device, file system types and the root mount; \<open>Fs_Boot\<close>: \<^verbatim>\<open>ata_init\<close> and the lines of \<^verbatim>\<open>kmain.c\<close> that bring up both file
    systems, over all of these; \<open>Fs_Release\<close>: what ext2 gives back to the heap.
  \<^item> \<open>Proc_Sched\<close>: processes, kernel stacks, run and wait queues, \<^verbatim>\<open>schedule\<close> (\<^verbatim>\<open>proc/proc.c\<close>).
  \<^item> \<open>Sys_Call\<close>: the system call table and dispatcher (\<^verbatim>\<open>syscall/syscall.c\<close>) over \<open>Fs_Vfs\<close> and \<open>Proc_Sched\<close>; \<open>Sys_Wrap\<close>:
    the trap, \<^verbatim>\<open>errno\<close> and the wrappers.
  \<^item> \<open>Proc_Cmds\<close>, \<open>Proc_Cmd_Fds\<close>, \<open>Proc_Shell\<close>: the shell's commands over the wrappers and the heap, what they do to
    the open files, and the loop that reads and dispatches a line; \<open>Proc_Bf\<close>: its interpreter; \<open>Proc_Login\<close>: \<^verbatim>\<open>login\<close>; \<open>Kern_Main\<close>:
    \<^verbatim>\<open>getch\<close>, \<^verbatim>\<open>init_kbd\<close> and the check of \<^verbatim>\<open>kmain.c\<close> before the shell.
  \<^item> \<open>Cpu_Lock\<close>: \<^verbatim>\<open>cpu/spinlock.c\<close> as steps of interleaved processors; \<open>Cpu_Desc\<close>: \<^verbatim>\<open>gdt.c\<close> and \<^verbatim>\<open>idt.c\<close>;
    \<open>Cpu_Irq\<close>: \<^verbatim>\<open>irq.c\<close> and \<^verbatim>\<open>apic.c\<close>; \<open>Mem_Paging\<close>: \<^verbatim>\<open>mem/paging.c\<close>; \<open>Mem_Acpi\<close>: \<^verbatim>\<open>mem/acpi.c\<close> and \<^verbatim>\<open>mem/smbios.c\<close>.
  \<^item> \<open>Drv_Pci\<close>: \<^verbatim>\<open>driver/pci.c\<close>; \<open>Drv_Serial\<close>: \<^verbatim>\<open>driver/tty/serial.c\<close>; \<open>Vid_Boot\<close>: the boot console \<^verbatim>\<open>video/video.c\<close>.
  \<^item> \<open>Vid_Npf\<close>: the formatter \<^verbatim>\<open>video/nanoprintf.h\<close> as \<^verbatim>\<open>video/printf.h\<close> configures it, against a reference reading of format
    directives; \<open>Vid_Printf\<close>: \<^verbatim>\<open>video/printf.c\<close>, printing over the console and into bounded buffers.
  \<^item> \<open>Tty_Line\<close>: ring buffers (locale \<open>byte_queue\<close>), line discipline and termios; \<open>Tty_Term\<close>: console and
    escape sequences; \<open>Drv_Kbd\<close>: keyboard; \<open>Drv_Ata\<close>: disk; \<open>Drv_Time\<close>: clock and \<^verbatim>\<open>mktime\<close>.

  \<^bold>\<open>What is shown.\<close>
  The heap hands out disjoint, zeroed blocks, coalesces and never corrupts a live block, for every
  sequence of requests.  Cached inodes are counted exactly, through lookup, open, close and
  duplication, and by every system call; data moves only with permission; failed lookups lose one
  reference.  Path
  resolution, directory search and file reading compute what their specifications say.  The
  scheduler keeps its queues and stacks apart and is fair; the boot process is never left.
  Credentials never grow.  Device names lead to their devices; bringing up the file systems makes
  \<^verbatim>\<open>/\<close> the volume's root and \<^verbatim>\<open>/dev\<close> the device file system, whose names then resolve.  A typed line is what \<^verbatim>\<open>read\<close> returns; printed text is what the screen shows
  while the scroll-back buffer lasts.  A sector read returns the sector.
  The spin lock excludes, on any number of processors.  Descriptors decode to the segments meant, pages map
  each address to itself, firmware tables are walked to their end, an interrupt request reaches its
  handler.  A wrapper returns a result or -1 with \<^verbatim>\<open>errno\<close> set.  A typed command line runs the named command with its
  words; commands give back their descriptors; the interpreter runs programs as its language says.  \<^verbatim>\<open>login\<close> lets in who
  may enter and nobody else.  The PCI scan ends with every function of the bus, a serial line delivers its bytes,
  the boot console shows the first page of what is printed.  Formatted output is what the directives of the format say, printed
  numbers read back, and a line of the boot log stays inside its buffer.

  \<^bold>\<open>Bounds and fuel.\<close>  No fuel is used.  Loops recurse structurally or by a measure; those that
  may not end (string scans, \<^verbatim>\<open>size2ord\<close>, directory scans with zero-length records, table walks, the copy loop of \<^verbatim>\<open>cat\<close>,
  interpreted programs, the PCI scan, the login loop) are
  \<^theory_text>\<open>partial_function (option)\<close>, and the theorems prove that they return.  The two poll loops of the disk
  driver count down from the source's own time-out.  Hypotheses bound what the code leaves
  unchecked: line and queue lengths of 32 bytes, names and passwords below 32 characters, command lines below 128, 16
  device nodes, 12 direct blocks, 16-bit reference counts, the rows left in the scroll-back buffer.

  \<^bold>\<open>Parameters and their laws.\<close>  A file system is the record \<open>fsops\<close> with the laws of \<open>fs_driver\<close>; a drive is
  \<open>ports\<close> with the laws \<open>ata_drive\<close> (task file, read command, data port, busy for fewer
  than 100000 polls); a PCI host bridge and a UART are \<open>ports\<close> with laws of their own, the registers of the interrupt
  controllers a memory-mapped device; new addresses are fresh (\<open>fresh_alloc\<close>); the addresses of literals
  and static objects are those the linker gives.

  \<^bold>\<open>Not modelled.\<close>  Assembly beyond the system call trap (boot, interrupt stubs, loading of tables and registers),
  the parts of \<^verbatim>\<open>nanoprintf\<close> that the configuration leaves out (floats and others), the order of the steps of \<^verbatim>\<open>setup\<close> in \<^verbatim>\<open>kmain.c\<close> beyond
  the file systems, the unused \<^verbatim>\<open>init_tty\<close> and \<^verbatim>\<open>parse_multiboot2\<close>, the
  report of processor features, and functions that only print or are stubs.  Outside \<open>Vid_Printf\<close> and \<open>Vid_Boot\<close> diagnostics are left
  out or kept as a log of what is printed.

  \<^bold>\<open>Plan.\<close>  What could follow: the heap addresses of the blocks behind \<^verbatim>\<open>pdata\<close> tied to the inode cache, and the
  order of the remaining steps of \<^verbatim>\<open>setup\<close> in \<^verbatim>\<open>kmain.c\<close>.
\<close>

end
